(* ===== verification/Prelude.thy ===== *)
theory Prelude
  imports Complex_Main "HOL-Library.Sublist" "HOL-Library.Char_ord" "HOL-Library.List_Lexorder"
begin

text \<open>
  The shared ground of the development: the exceptions the source raises as values, the
  result type \<open>'a res\<close> of code that may raise, and the operations of Python's \<open>str\<close> that
  the source uses. Text is \<open>string\<close>, read as ASCII: \<open>py_strip\<close>, \<open>py_lower\<close> and
  \<open>py_upper\<close> agree with Python on code points below 128. Messages of exceptions are given
  in English; only their class and the data they carry matter to the code.
\<close>

named_theorems res_simps "rules for results that may be an exception"

named_theorems py_simps "rules for the text and list operations of Python"

section \<open>Exceptions as values\<close>

datatype py_exn =
    ValueError string
  | TypeError string
  | KeyError string
  | IndexError
  | RuntimeError string
  | FileNotFoundError string
  | NotADirectoryError string
  | TimeoutError string
  | HTTPException nat
  | NXDOMAIN
  | NestedResolveError string
  | NestedResolveRecursionError string
  | BrokenProcessPool
  | OtherError string
  | Cancelled
  | Hang

type_synonym 'a res = "py_exn + 'a"

text \<open>
  \<open>except Exception\<close> catches every exception but the cancellation of the task, which is a
  \<open>BaseException\<close>. \<open>Hang\<close> is no exception of the source: it is the outcome of code that is
  still running when the fuel of a definition is used up, so nothing handles it.
\<close>

definition is_Exception :: "py_exn \<Rightarrow> bool" where
  "is_Exception e \<longleftrightarrow> e \<noteq> Cancelled \<and> e \<noteq> Hang"

fun andthen :: "'e + 'a \<Rightarrow> ('a \<Rightarrow> 'e + 'b) \<Rightarrow> 'e + 'b" where
  "andthen (Inl e) f = Inl e"
| "andthen (Inr x) f = f x"

lemma andthen_Inr_iff [res_simps]:
  "andthen m f = Inr y \<longleftrightarrow> (\<exists>x. m = Inr x \<and> f x = Inr y)"
  by (cases m) auto

lemma andthen_Inl_iff [res_simps]:
  "andthen m f = Inl e \<longleftrightarrow> m = Inl e \<or> (\<exists>x. m = Inr x \<and> f x = Inl e)"
  by (cases m) auto

lemma andthen_cong [fundef_cong]:
  "m = m' \<Longrightarrow> (\<And>x. m' = Inr x \<Longrightarrow> f x = f' x) \<Longrightarrow> andthen m f = andthen m' f'"
  by (cases m') auto

text \<open>A check that raises or returns nothing.\<close>

definition raise_if :: "bool \<Rightarrow> 'e \<Rightarrow> 'e + unit" where
  "raise_if b e = (if b then Inl e else Inr ())"

lemma raise_if_Inr [res_simps, simp]: "raise_if b e = Inr u \<longleftrightarrow> \<not> b"
  by (simp add: raise_if_def)

lemma raise_if_Inl [res_simps, simp]: "raise_if b e = Inl e' \<longleftrightarrow> b \<and> e' = e"
  by (auto simp: raise_if_def)

text \<open>A \<open>for\<close> loop that checks each element and stops at the first exception.\<close>

fun for_each :: "('a \<Rightarrow> 'e + unit) \<Rightarrow> 'a list \<Rightarrow> 'e + unit" where
  "for_each f [] = Inr ()"
| "for_each f (x # xs) = andthen (f x) (\<lambda>_. for_each f xs)"

lemma for_each_Inr [res_simps]:
  "for_each f xs = Inr u \<longleftrightarrow> (\<forall>x \<in> set xs. f x = Inr ())"
  by (induction xs) (auto simp: res_simps)

lemma for_each_Inl:
  "for_each f xs = Inl e \<Longrightarrow> \<exists>x \<in> set xs. f x = Inl e"
  by (induction xs) (auto simp: res_simps)

section \<open>Actions: code that changes a state and may raise\<close>

text \<open>
  An action returns its outcome and the state it leaves, so that what was changed before an
  exception stays changed, as in the source. \<open>act_try\<close> is \<open>try: m except Exception as e: h e\<close>,
  \<open>act_finally\<close> is \<open>try: m finally: f\<close> where the exception of \<open>f\<close>, if any, replaces the
  outcome of \<open>m\<close>.
\<close>

type_synonym ('s, 'a) act = "'s \<Rightarrow> 'a res \<times> 's"

definition act_ret :: "'a \<Rightarrow> ('s, 'a) act" where
  "act_ret x = (\<lambda>s. (Inr x, s))"

definition act_raise :: "py_exn \<Rightarrow> ('s, 'a) act" where
  "act_raise e = (\<lambda>s. (Inl e, s))"

definition act_bind :: "('s, 'a) act \<Rightarrow> ('a \<Rightarrow> ('s, 'b) act) \<Rightarrow> ('s, 'b) act" where
  "act_bind m f = (\<lambda>s. case m s of (Inl e, s') \<Rightarrow> (Inl e, s') | (Inr x, s') \<Rightarrow> f x s')"

definition act_upd :: "('s \<Rightarrow> 's) \<Rightarrow> ('s, unit) act" where
  "act_upd f = (\<lambda>s. (Inr (), f s))"

definition act_get :: "('s \<Rightarrow> 'a) \<Rightarrow> ('s, 'a) act" where
  "act_get f = (\<lambda>s. (Inr (f s), s))"

definition act_lift :: "'a res \<Rightarrow> ('s, 'a) act" where
  "act_lift r = (\<lambda>s. (r, s))"

definition act_try :: "('s, 'a) act \<Rightarrow> (py_exn \<Rightarrow> ('s, 'a) act) \<Rightarrow> ('s, 'a) act" where
  "act_try m h = (\<lambda>s. case m s of
     (Inl e, s') \<Rightarrow> if is_Exception e then h e s' else (Inl e, s')
   | (Inr x, s') \<Rightarrow> (Inr x, s'))"

definition act_finally :: "('s, 'a) act \<Rightarrow> ('s, unit) act \<Rightarrow> ('s, 'a) act" where
  "act_finally m f = (\<lambda>s. case m s of (r, s') \<Rightarrow>
     if r = Inl Hang then (r, s')
     else (case f s' of (Inl e, s'') \<Rightarrow> (Inl e, s'') | (Inr _, s'') \<Rightarrow> (r, s'')))"

named_theorems act_simps "unfolding of actions"

lemmas act_defs [act_simps] = act_ret_def act_raise_def act_upd_def act_get_def act_lift_def

lemma act_bind_apply [act_simps]:
  "act_bind m f s = (case m s of (Inl e, s') \<Rightarrow> (Inl e, s') | (Inr x, s') \<Rightarrow> f x s')"
  by (simp add: act_bind_def)

lemma act_bind_Inr:
  "act_bind m f s = (Inr y, t) \<longleftrightarrow> (\<exists>x s'. m s = (Inr x, s') \<and> f x s' = (Inr y, t))"
  by (cases "m s") (auto simp: act_bind_def split: sum.splits)

lemma act_bind_Inl:
  "act_bind m f s = (Inl e, t) \<longleftrightarrow>
     m s = (Inl e, t) \<or> (\<exists>x s'. m s = (Inr x, s') \<and> f x s' = (Inl e, t))"
  by (cases "m s") (auto simp: act_bind_def split: sum.splits)

text \<open>
  A relation between states that every step of an action keeps is kept by the action, whether
  it returns or raises.
\<close>

definition keeps :: "('s \<Rightarrow> 's \<Rightarrow> bool) \<Rightarrow> ('s, 'a) act \<Rightarrow> bool" where
  "keeps R m \<longleftrightarrow> (\<forall>s. R s (snd (m s)))"

lemma keepsI: "(\<And>s. R s (snd (m s))) \<Longrightarrow> keeps R m"
  by (simp add: keeps_def)

lemma keepsD: "keeps R m \<Longrightarrow> m s = (r, s') \<Longrightarrow> R s s'"
  by (metis keeps_def snd_conv)

lemma keeps_basic [intro]:
  assumes "reflp R"
  shows "keeps R (act_ret x)" "keeps R (act_raise e)" "keeps R (act_get f)" "keeps R (act_lift r)"
  using assms by (auto simp: keeps_def act_simps reflpD)

lemma keeps_bind:
  assumes t: "transp R" and m: "keeps R m" and f: "\<And>x. keeps R (f x)"
  shows "keeps R (act_bind m f)"
proof (rule keepsI)
  fix s
  obtain r s' where ms: "m s = (r, s')" by fastforce
  then have "R s s'" using m by (metis keepsD)
  then show "R s (snd (act_bind m f s))"
    using f t ms by (cases r) (auto simp: act_bind_def keeps_def dest: transpD)
qed

lemma keeps_try:
  assumes t: "transp R" and m: "keeps R m" and h: "\<And>e. keeps R (h e)"
  shows "keeps R (act_try m h)"
proof (rule keepsI)
  fix s
  obtain r s' where ms: "m s = (r, s')" by fastforce
  then have "R s s'" using m by (metis keepsD)
  then show "R s (snd (act_try m h s))"
    using h t ms by (cases r) (auto simp: act_try_def keeps_def dest: transpD)
qed

lemma keeps_finally:
  assumes t: "transp R" and m: "keeps R m" and f: "keeps R f"
  shows "keeps R (act_finally m f)"
proof (rule keepsI)
  fix s
  obtain r s' where ms: "m s = (r, s')" by fastforce
  obtain r2 s2 where fs: "f s' = (r2, s2)" by fastforce
  have "R s s'" and "R s' s2" using m f ms fs by (auto dest: keepsD)
  then have "R s s2" using t by (blast dest: transpD)
  then show "R s (snd (act_finally m f s))"
    using ms fs \<open>R s s'\<close> by (cases r2) (auto simp: act_finally_def)
qed

section \<open>Text\<close>

text \<open>The white space \<open>str.strip\<close> removes, among the ASCII characters.\<close>

definition py_space :: "char \<Rightarrow> bool" where
  "py_space c \<longleftrightarrow> of_char c \<in> {9, 10, 11, 12, 13, 28, 29, 30, 31, 32 :: nat}"

definition py_lstrip :: "(char \<Rightarrow> bool) \<Rightarrow> string \<Rightarrow> string" where
  "py_lstrip p s = dropWhile p s"

definition py_rstrip :: "(char \<Rightarrow> bool) \<Rightarrow> string \<Rightarrow> string" where
  "py_rstrip p s = rev (dropWhile p (rev s))"

definition py_strip :: "string \<Rightarrow> string" where
  "py_strip s = py_rstrip py_space (py_lstrip py_space s)"

definition rstrip_dot :: "string \<Rightarrow> string" where
  "rstrip_dot s = py_rstrip (\<lambda>c. c = CHR ''.'') s"

definition lower_char :: "char \<Rightarrow> char" where
  "lower_char c = (let n = of_char c :: nat in if 65 \<le> n \<and> n \<le> 90 then char_of (n + 32) else c)"

definition upper_char :: "char \<Rightarrow> char" where
  "upper_char c = (let n = of_char c :: nat in if 97 \<le> n \<and> n \<le> 122 then char_of (n - 32) else c)"

definition py_lower :: "string \<Rightarrow> string" where
  "py_lower s = map lower_char s"

definition py_upper :: "string \<Rightarrow> string" where
  "py_upper s = map upper_char s"

text \<open>\<open>s.split(c)\<close> for a separator of one character, and \<open>c.join(parts)\<close>.\<close>

fun py_split :: "char \<Rightarrow> string \<Rightarrow> string list" where
  "py_split c [] = [[]]"
| "py_split c (x # xs) =
     (if x = c then [] # py_split c xs
      else (case py_split c xs of [] \<Rightarrow> [[x]] | w # ws \<Rightarrow> (x # w) # ws))"

fun py_join :: "string \<Rightarrow> string list \<Rightarrow> string" where
  "py_join sep [] = []"
| "py_join sep [w] = w"
| "py_join sep (w # v # ws) = w @ sep @ py_join sep (v # ws)"

text \<open>Decimal text of a natural number, as \<open>str(n)\<close> gives it.\<close>

definition digit_char :: "nat \<Rightarrow> char" where
  "digit_char d = char_of (48 + d)"

fun dec_str :: "nat \<Rightarrow> string" where
  "dec_str n = (if n < 10 then [digit_char n] else dec_str (n div 10) @ [digit_char (n mod 10)])"

declare dec_str.simps [simp del]

lemma py_rstrip_Nil [simp]: "py_rstrip p [] = []"
  by (simp add: py_rstrip_def)

lemma py_rstrip_snoc: "py_rstrip p (s @ [c]) = (if p c then py_rstrip p s else s @ [c])"
  by (simp add: py_rstrip_def)

lemma py_rstrip_last: "py_rstrip p s \<noteq> [] \<Longrightarrow> \<not> p (last (py_rstrip p s))"
  unfolding py_rstrip_def
  by (metis hd_dropWhile last_rev rev_is_Nil_conv)

lemma py_rstrip_idem [simp]: "py_rstrip p (py_rstrip p s) = py_rstrip p s"
  by (simp add: py_rstrip_def)

lemma py_rstrip_prefix: "prefix (py_rstrip p s) s"
  unfolding py_rstrip_def
  by (metis prefix_def rev_append rev_rev_ident takeWhile_dropWhile_id)

lemma set_py_rstrip: "set (py_rstrip p s) \<subseteq> set s"
  by (metis py_rstrip_prefix set_mono_prefix)

lemma set_py_strip: "set (py_strip s) \<subseteq> set s"
  using set_py_rstrip [of py_space "dropWhile py_space s"] set_dropWhileD
  by (fastforce simp: py_strip_def py_lstrip_def)

lemma rstrip_fixed: "s = [] \<or> \<not> p (last s) \<Longrightarrow> py_rstrip p s = s"
  by (cases s rule: rev_cases) (auto simp: py_rstrip_snoc)

lemma py_lstrip_fixed: "s = [] \<or> \<not> p (hd s) \<Longrightarrow> py_lstrip p s = s"
  by (cases s) (auto simp: py_lstrip_def)

lemma hd_py_rstrip: "py_rstrip p s \<noteq> [] \<Longrightarrow> hd (py_rstrip p s) = hd s"
  by (metis py_rstrip_prefix prefix_def hd_append2)

lemma py_strip_idem [simp, py_simps]: "py_strip (py_strip s) = py_strip s"
proof -
  let ?t = "py_lstrip py_space s"
  let ?u = "py_rstrip py_space ?t"
  have "?u = [] \<or> \<not> py_space (hd ?u)"
    by (metis hd_dropWhile hd_py_rstrip py_lstrip_def py_rstrip_Nil)
  then have "py_lstrip py_space ?u = ?u" by (rule py_lstrip_fixed)
  then show ?thesis by (simp add: py_strip_def)
qed

lemma lower_char_idem [simp]: "lower_char (lower_char c) = lower_char c"
  by (simp add: lower_char_def Let_def)

lemma py_lower_idem [simp, py_simps]: "py_lower (py_lower s) = py_lower s"
  by (simp add: py_lower_def)

lemma py_lower_append [simp]: "py_lower (a @ b) = py_lower a @ py_lower b"
  by (simp add: py_lower_def)

lemma lower_char_dot [simp]: "lower_char c = CHR ''.'' \<longleftrightarrow> c = CHR ''.''"
proof
  assume *: "lower_char c = CHR ''.''"
  show "c = CHR ''.''"
  proof (cases "65 \<le> (of_char c :: nat) \<and> (of_char c :: nat) \<le> 90")
    case True
    with * have "of_char (char_of (of_char c + 32 :: nat) :: char) = (46 :: nat)"
      by (simp add: lower_char_def Let_def)
    with True show ?thesis by simp
  next
    case False
    with * show ?thesis by (simp add: lower_char_def Let_def split: if_splits)
  qed
qed (simp add: lower_char_def)

lemma py_split_ne [simp]: "py_split c s \<noteq> []"
  by (induction s) (auto split: list.splits)

lemma py_split_no_sep: "c \<notin> set s \<Longrightarrow> py_split c s = [s]"
  by (induction s) auto

lemma py_split_append:
  "c \<notin> set s \<Longrightarrow> py_split c (s @ c # t) = s # py_split c t"
  by (induction s) auto

lemma py_split_join:
  assumes "ws \<noteq> []" and "\<forall>w \<in> set ws. c \<notin> set w"
  shows "py_split c (py_join [c] ws) = ws"
  using assms
proof (induction "[c]" ws rule: py_join.induct)
  case (3 w v ws)
  then show ?case by (simp add: py_split_append)
qed (auto simp: py_split_no_sep)

lemma py_join_split: "py_join [c] (py_split c s) = s"
proof (induction s)
  case (Cons x s)
  then show ?case
  proof (cases "x = c")
    case True
    with Cons show ?thesis by (cases "py_split c s") auto
  next
    case False
    obtain w ws where ws: "py_split c s = w # ws"
      using py_split_ne by (cases "py_split c s") auto
    with False Cons show ?thesis by (cases ws) auto
  qed
qed simp

lemma py_split_parts: "w \<in> set (py_split c s) \<Longrightarrow> c \<notin> set w"
proof (induction s arbitrary: w)
  case (Cons x s)
  then show ?case by (fastforce split: if_splits list.splits)
qed simp

section \<open>Order-preserving removal of duplicates\<close>

text \<open>
  The loop \<open>for x in xs: if x in seen: continue; seen.add(x); out.append(x)\<close>.
\<close>

fun dedup :: "'a set \<Rightarrow> 'a list \<Rightarrow> 'a list" where
  "dedup seen [] = []"
| "dedup seen (x # xs) = (if x \<in> seen then dedup seen xs else x # dedup (insert x seen) xs)"

lemma set_dedup [simp, py_simps]: "set (dedup seen xs) = set xs - seen"
  by (induction xs arbitrary: seen) auto

lemma distinct_dedup [simp, py_simps]: "distinct (dedup seen xs)"
  by (induction xs arbitrary: seen) auto

lemma subseq_dedup: "subseq (dedup seen xs) xs"
  by (induction xs arbitrary: seen) auto

lemma dedup_fixed: "distinct xs \<Longrightarrow> set xs \<inter> seen = {} \<Longrightarrow> dedup seen xs = xs"
  by (induction xs arbitrary: seen) auto

lemma dedup_idem [simp, py_simps]: "dedup {} (dedup {} xs) = dedup {} xs"
  by (simp add: dedup_fixed)

text \<open>
  The normalisation of a list of texts that the source repeats: strip each item, skip the
  empty ones and the ones seen before.
\<close>

fun strip_loop :: "string set \<Rightarrow> string list \<Rightarrow> string list" where
  "strip_loop seen [] = []"
| "strip_loop seen (item # rest) =
     (let t = py_strip item in
      if t = [] \<or> t \<in> seen then strip_loop seen rest
      else t # strip_loop (insert t seen) rest)"

lemma strip_loop_eq:
  "strip_loop seen xs = dedup seen (filter (\<lambda>t. t \<noteq> []) (map py_strip xs))"
  by (induction xs arbitrary: seen) (auto simp: Let_def)

lemma strip_loop_fixed:
  assumes "distinct xs" and "\<forall>x \<in> set xs. x \<noteq> [] \<and> py_strip x = x"
  shows "strip_loop {} xs = xs"
proof -
  have "map py_strip xs = xs" using assms(2) by (simp add: map_idI)
  moreover have "filter (\<lambda>t. t \<noteq> []) xs = xs" using assms(2) by (auto simp: filter_id_conv)
  ultimately show ?thesis using assms(1) by (simp add: strip_loop_eq dedup_fixed)
qed

lemma strip_loop_items:
  "x \<in> set (strip_loop {} xs) \<Longrightarrow> x \<noteq> [] \<and> py_strip x = x"
  by (auto simp: strip_loop_eq)

lemma strip_loop_idem [py_simps]: "strip_loop {} (strip_loop {} xs) = strip_loop {} xs"
  by (rule strip_loop_fixed) (auto simp: strip_loop_eq)

section \<open>Values of configuration files, and dictionaries\<close>

text \<open>
  A JSON value. An object keeps the order of its keys, as a Python \<open>dict\<close> does; a dictionary
  the source only looks up is a map.
\<close>

datatype json =
    JNull
  | JBool bool
  | JInt int
  | JReal real
  | JStr string
  | JArr "json list"
  | JObj "(string \<times> json) list"

text \<open>\<open>d[k] = v\<close> on an ordered dictionary: in place when the key exists, otherwise at the end.\<close>

fun dict_set :: "'k \<Rightarrow> 'v \<Rightarrow> ('k \<times> 'v) list \<Rightarrow> ('k \<times> 'v) list" where
  "dict_set k v [] = [(k, v)]"
| "dict_set k v ((k', v') # d) = (if k' = k then (k, v) # d else (k', v') # dict_set k v d)"

definition dict_pop :: "'k \<Rightarrow> ('k \<times> 'v) list \<Rightarrow> ('k \<times> 'v) list" where
  "dict_pop k d = filter (\<lambda>(k', v). k' \<noteq> k) d"

lemma map_of_dict_set [simp, py_simps]: "map_of (dict_set k v d) = (map_of d)(k \<mapsto> v)"
  by (induction d rule: dict_set.induct) (auto simp: fun_eq_iff)

lemma keys_dict_set: "fst ` set (dict_set k v d) = insert k (fst ` set d)"
  by (induction k v d rule: dict_set.induct) auto

lemma distinct_dict_set:
  "distinct (map fst d) \<Longrightarrow> distinct (map fst (dict_set k v d))"
proof (induction k v d rule: dict_set.induct)
  case (2 k v k' v' d)
  then show ?case using keys_dict_set [of k v d] by (auto simp: image_iff)
qed simp

lemma map_of_dict_pop [simp, py_simps]: "map_of (dict_pop k d) = (map_of d)(k := None)"
  by (induction d) (auto simp: dict_pop_def fun_eq_iff)

section \<open>Lists and sums\<close>

lemma sort_Nil_iff [simp, py_simps]: "sort xs = [] \<longleftrightarrow> xs = []"
  by (metis length_0_conv length_sort)

text \<open>Python's stable \<open>sorted(xs, key=f)\<close> is \<open>sort_key f xs\<close>; \<open>min\<close> takes the first least.\<close>

fun first_min :: "('a \<Rightarrow> 'k::linorder) \<Rightarrow> 'a \<Rightarrow> 'a list \<Rightarrow> 'a" where
  "first_min f x [] = x"
| "first_min f x (y # ys) = first_min f (if f y < f x then y else x) ys"

lemma first_min_in: "first_min f x xs \<in> set (x # xs)"
  by (induction xs arbitrary: x) (auto split: if_splits)

lemma first_min_le: "y \<in> set (x # xs) \<Longrightarrow> f (first_min f x xs) \<le> f y"
proof (induction xs arbitrary: x y)
  case (Cons a xs)
  let ?b = "if f a < f x then a else x"
  have b: "f (first_min f ?b xs) \<le> f ?b" using Cons.IH [of ?b ?b] by simp
  have "f ?b \<le> f a" and "f ?b \<le> f x" by auto
  with b have "f (first_min f ?b xs) \<le> f a" and "f (first_min f ?b xs) \<le> f x"
    using order_trans by blast+
  moreover have "y \<in> set xs \<Longrightarrow> f (first_min f ?b xs) \<le> f y" using Cons.IH [of y ?b] by simp
  ultimately show ?case using Cons.prems by auto
qed simp

text \<open>The first element with a property, as an option.\<close>

lemma find_Some_first:
  assumes "find p xs = Some x"
  shows "\<exists>ys zs. xs = ys @ x # zs \<and> p x \<and> (\<forall>y \<in> set ys. \<not> p y)"
  using assms
proof (induction xs)
  case (Cons a xs)
  show ?case
  proof (cases "p a")
    case True
    with Cons.prems show ?thesis by (intro exI [of _ "[]"] exI [of _ xs]) simp
  next
    case False
    with Cons obtain ys zs where "xs = ys @ x # zs" "p x" "\<forall>y \<in> set ys. \<not> p y" by auto
    with False show ?thesis by (intro exI [of _ "a # ys"] exI [of _ zs]) simp
  qed
qed simp

lemma find_append_hit: "\<forall>y \<in> set ys. \<not> p y \<Longrightarrow> p x \<Longrightarrow> find p (ys @ x # zs) = Some x"
  by (induction ys) auto

lemma find_None_ball: "find p xs = None \<longleftrightarrow> (\<forall>x \<in> set xs. \<not> p x)"
  by (auto simp: find_None_iff)

lemma find_Some_in: "find p xs = Some x \<Longrightarrow> x \<in> set xs \<and> p x"
  by (metis find_Some_first in_set_conv_decomp)

lemma find_distinct_key:
  "distinct (map f xs) \<Longrightarrow> x \<in> set xs \<Longrightarrow> find (\<lambda>y. f y = f x) xs = Some x"
  by (induction xs) auto

end
