(* ===== verification/Ip_Address.thy ===== *)
theory Ip_Address
  imports Prelude "HOL-Library.Word"
begin

text \<open>
  The parts of Python's \<open>ipaddress\<close> the source calls: \<open>ip_address\<close> on text and on an
  integer, \<open>compressed\<close>, \<open>version\<close>, \<open>max_prefixlen\<close>, \<open>is_multicast\<close>, and
  \<open>ip_network(..., strict=False)\<close> with \<open>network_address\<close>, \<open>prefixlen\<close> and
  \<open>with_prefixlen\<close>. An address is a word of 32 or 128 bits. IPv6 scope identifiers
  (\<open>fe80::1%eth0\<close>) are outside the model: such a text is not parsed.
\<close>

unbundle bit_operations_syntax

datatype ip = IPv4 "32 word" | IPv6 "128 word"

fun ip_version :: "ip \<Rightarrow> nat" where
  "ip_version (IPv4 w) = 4"
| "ip_version (IPv6 w) = 6"

fun max_prefixlen :: "ip \<Rightarrow> nat" where
  "max_prefixlen (IPv4 w) = 32"
| "max_prefixlen (IPv6 w) = 128"

fun ip_int :: "ip \<Rightarrow> nat" where
  "ip_int (IPv4 w) = unat w"
| "ip_int (IPv6 w) = unat w"

text \<open>\<open>ip_address(n)\<close> on an integer: IPv4 when it fits in 32 bits, otherwise IPv6.\<close>

definition ip_of_int :: "nat \<Rightarrow> ip res" where
  "ip_of_int n = (if n < 2 ^ 32 then Inr (IPv4 (word_of_nat n))
                  else if n < 2 ^ 128 then Inr (IPv6 (word_of_nat n))
                  else Inl (ValueError ''not an IP address''))"

section \<open>Text of an address\<close>

definition is_digit :: "char \<Rightarrow> bool" where
  "is_digit c \<longleftrightarrow> 48 \<le> (of_char c :: nat) \<and> (of_char c :: nat) \<le> 57"

definition digit_val :: "char \<Rightarrow> nat" where
  "digit_val c = of_char c - 48"

definition dec_val :: "string \<Rightarrow> nat" where
  "dec_val s = foldl (\<lambda>n c. 10 * n + digit_val c) 0 s"

definition parse_octet :: "string \<Rightarrow> nat option" where
  "parse_octet s =
     (if s = [] \<or> \<not> list_all is_digit s \<or> length s > 3 then None
      else if s \<noteq> ''0'' \<and> hd s = CHR ''0'' then None
      else if dec_val s > 255 then None
      else Some (dec_val s))"

definition parse_ipv4 :: "string \<Rightarrow> nat option" where
  "parse_ipv4 s =
     (case map parse_octet (py_split CHR ''.'' s) of
        [Some a, Some b, Some c, Some d] \<Rightarrow> Some (((a * 256 + b) * 256 + c) * 256 + d)
      | _ \<Rightarrow> None)"

definition print_ipv4 :: "nat \<Rightarrow> string" where
  "print_ipv4 n =
     py_join ''.'' (map (\<lambda>i. dec_str (n div 256 ^ i mod 256)) [3, 2, 1, 0])"

definition hex_digit_val :: "char \<Rightarrow> nat option" where
  "hex_digit_val c =
     (let n = of_char c :: nat in
      if 48 \<le> n \<and> n \<le> 57 then Some (n - 48)
      else if 97 \<le> n \<and> n \<le> 102 then Some (n - 87)
      else if 65 \<le> n \<and> n \<le> 70 then Some (n - 55)
      else None)"

definition parse_hextet :: "string \<Rightarrow> nat option" where
  "parse_hextet s =
     (if s = [] \<or> length s > 4 then None
      else foldl (\<lambda>acc c. case (acc, hex_digit_val c) of
                    (Some n, Some d) \<Rightarrow> Some (16 * n + d) | _ \<Rightarrow> None) (Some 0) s)"

definition hex_digit :: "nat \<Rightarrow> char" where
  "hex_digit d = char_of (if d < 10 then 48 + d else 87 + d)"

fun hex_str :: "nat \<Rightarrow> string" where
  "hex_str n = (if n < 16 then [hex_digit n] else hex_str (n div 16) @ [hex_digit (n mod 16)])"

declare hex_str.simps [simp del]

text \<open>The last part of an IPv6 text may be a dotted quad, which stands for two hextets.\<close>

definition expand_ipv4_suffix :: "string list \<Rightarrow> string list option" where
  "expand_ipv4_suffix ps =
     (if CHR ''.'' \<in> set (last ps)
      then map_option (\<lambda>n. butlast ps @ [hex_str (n div 65536), hex_str (n mod 65536)])
             (parse_ipv4 (last ps))
      else Some ps)"

definition hextets_val :: "string list \<Rightarrow> nat option" where
  "hextets_val ps = foldl (\<lambda>acc s. case (acc, parse_hextet s) of
      (Some n, Some h) \<Rightarrow> Some (65536 * n + h) | _ \<Rightarrow> None) (Some 0) ps"

text \<open>
  The positions of empty parts strictly inside the list: at most one \<open>::\<close> is allowed. A
  leading (trailing) empty part must belong to a \<open>::\<close> at the start (end).
\<close>

definition parse_ipv6_parts :: "string list \<Rightarrow> nat option" where
  "parse_ipv6_parts ps =
     (if length ps < 3 \<or> length ps > 9 then None
      else case filter (\<lambda>i. ps ! i = []) [1..<length ps - 1] of
        [] \<Rightarrow> if length ps \<noteq> 8 then None else hextets_val ps
      | [k] \<Rightarrow>
          let hi = (if hd ps = [] then k - 1 else k);
              lo = (if last ps = [] then length ps - k - 2 else length ps - k - 1) in
          if hd ps = [] \<and> hi \<noteq> 0 then None
          else if last ps = [] \<and> lo \<noteq> 0 then None
          else if hi + lo > 7 then None
          else (case (hextets_val (take hi ps), hextets_val (drop (length ps - lo) ps)) of
                  (Some a, Some b) \<Rightarrow> Some (a * 65536 ^ (8 - hi) + b)
                | _ \<Rightarrow> None)
      | _ \<Rightarrow> None)"

definition parse_ipv6 :: "string \<Rightarrow> nat option" where
  "parse_ipv6 s = (let ps = py_split CHR '':'' s in
     if length ps < 3 then None
     else Option.bind (expand_ipv4_suffix ps) parse_ipv6_parts)"

text \<open>
  \<open>compressed\<close> replaces the first longest run of at least two zero hextets by \<open>::\<close>.
\<close>

fun zero_run :: "nat list \<Rightarrow> nat" where
  "zero_run (0 # hs) = Suc (zero_run hs)"
| "zero_run hs = 0"

definition longest_run :: "nat list \<Rightarrow> nat \<times> nat" where
  "longest_run hs = foldl (\<lambda>(i, n) k. let m = zero_run (drop k hs) in
                             if n < m then (k, m) else (i, n)) (0, 0) [0..<length hs]"

definition print_ipv6 :: "nat \<Rightarrow> string" where
  "print_ipv6 n =
     (let hs = map (\<lambda>i. n div 65536 ^ i mod 65536) [7, 6, 5, 4, 3, 2, 1, 0];
          (k, m) = longest_run hs in
      if 1 < m then py_join '':'' (map hex_str (take k hs)) @ ''::'' @
                    py_join '':'' (map hex_str (drop (k + m) hs))
      else py_join '':'' (map hex_str hs))"

definition ip_address :: "string \<Rightarrow> ip res" where
  "ip_address s =
     (case parse_ipv4 s of
        Some n \<Rightarrow> Inr (IPv4 (word_of_nat n))
      | None \<Rightarrow> (case parse_ipv6 s of
                   Some n \<Rightarrow> Inr (IPv6 (word_of_nat n))
                 | None \<Rightarrow> Inl (ValueError s)))"

fun compressed :: "ip \<Rightarrow> string" where
  "compressed (IPv4 w) = print_ipv4 (unat w)"
| "compressed (IPv6 w) = print_ipv6 (unat w)"

fun is_multicast :: "ip \<Rightarrow> bool" where
  "is_multicast (IPv4 w) = (unat w div 2 ^ 28 = 14)"
| "is_multicast (IPv6 w) = (unat w div 2 ^ 120 = 255)"

section \<open>Networks\<close>

record ip_network =
  network_address :: ip
  prefixlen :: nat

definition netmask :: "nat \<Rightarrow> nat \<Rightarrow> nat" where
  "netmask width p = (2 ^ p - 1) * 2 ^ (width - p)"

definition parse_prefix :: "nat \<Rightarrow> string \<Rightarrow> nat option" where
  "parse_prefix width s =
     (if s \<noteq> [] \<and> list_all is_digit s
      then (if dec_val s \<le> width then Some (dec_val s) else None)
      else if width = 32 then
        Option.bind (parse_ipv4 s) (\<lambda>n.
          case find (\<lambda>p. netmask 32 p = n) [0..<33] of
            Some p \<Rightarrow> Some p
          | None \<Rightarrow> find (\<lambda>p. netmask 32 p = 2 ^ 32 - 1 - n) [0..<33])
      else None)"

definition mask_ip :: "nat \<Rightarrow> ip \<Rightarrow> ip" where
  "mask_ip p a = (case a of
     IPv4 w \<Rightarrow> IPv4 (push_bit (32 - p) (drop_bit (32 - p) w))
   | IPv6 w \<Rightarrow> IPv6 (push_bit (128 - p) (drop_bit (128 - p) w)))"

definition ip_network :: "string \<Rightarrow> ip_network res" where
  "ip_network s =
     (case py_split CHR ''/'' s of
        [a] \<Rightarrow> andthen (ip_address a) (\<lambda>w. Inr \<lparr>network_address = w, prefixlen = max_prefixlen w\<rparr>)
      | [a, m] \<Rightarrow> andthen (ip_address a) (\<lambda>w.
           case parse_prefix (max_prefixlen w) m of
             None \<Rightarrow> Inl (ValueError s)
           | Some p \<Rightarrow> Inr \<lparr>network_address = mask_ip p w, prefixlen = p\<rparr>)
      | _ \<Rightarrow> Inl (ValueError s))"

definition with_prefixlen :: "ip_network \<Rightarrow> string" where
  "with_prefixlen n = compressed (network_address n) @ ''/'' @ dec_str (prefixlen n)"

lemma ip_version_cases: "ip_version a = 4 \<or> ip_version a = 6"
  by (cases a) auto

lemma ip_version_mask [simp]: "ip_version (mask_ip p a) = ip_version a"
  by (simp add: mask_ip_def split: ip.split)

lemma max_prefixlen_mask [simp]: "max_prefixlen (mask_ip p a) = max_prefixlen a"
  by (simp add: mask_ip_def split: ip.split)

lemma unat_word_bound: "unat (w :: 'a::len word) < 2 ^ LENGTH('a)"
  by (rule unsigned_less)

lemma ip_int_bound: "ip_int a < 2 ^ max_prefixlen a"
  using unat_word_bound [where 'a = 32] unat_word_bound [where 'a = 128] by (cases a) auto

lemma unat_clear_low:
  fixes w :: "'a::len word"
  shows "unat (push_bit k (drop_bit k w)) = unat w div 2 ^ k * 2 ^ k"
proof -
  have "unat w div 2 ^ k * 2 ^ k < 2 ^ LENGTH('a)"
    using div_times_less_eq_dividend [of "unat w" "2 ^ k"] unat_word_bound [of w]
    by (rule le_less_trans)
  moreover have "unat (push_bit k (drop_bit k w)) =
      take_bit LENGTH('a) (push_bit k (drop_bit k (take_bit LENGTH('a) (unat w))))"
    by (simp only: unsigned_push_bit_eq unsigned_drop_bit_eq)
  ultimately show ?thesis
    by (simp only: take_bit_eq_mod push_bit_eq_mult drop_bit_eq_div mod_less unat_word_bound)
qed

lemma ip_int_mask:
  "ip_int (mask_ip p a) = ip_int a div 2 ^ (max_prefixlen a - p) * 2 ^ (max_prefixlen a - p)"
  by (cases a) (simp_all only: mask_ip_def ip.case ip_int.simps max_prefixlen.simps unat_clear_low)

text \<open>A parsed network has no host bits and a prefix within the address.\<close>

lemma mask_ip_full: "mask_ip (max_prefixlen a) a = a"
  by (simp add: mask_ip_def split: ip.split)

lemma parse_prefix_le: "parse_prefix w s = Some p \<Longrightarrow> p \<le> w"
proof (cases "s \<noteq> [] \<and> list_all is_digit s")
  case False
  assume *: "parse_prefix w s = Some p"
  with False have w: "w = 32" by (auto simp: parse_prefix_def split: if_splits)
  from * False w obtain n q where "find (\<lambda>p. netmask 32 p = q) [0..<33] = Some p"
    by (auto simp: parse_prefix_def bind_eq_Some_conv split: option.splits)
  then have "p \<in> set [0..<33]" using find_Some_in by fast
  with w show ?thesis by simp
qed (auto simp: parse_prefix_def split: if_splits)

lemma ip_network_prefixlen_le:
  "ip_network s = Inr n \<Longrightarrow> prefixlen n \<le> max_prefixlen (network_address n)"
  using parse_prefix_le
  by (fastforce simp: ip_network_def res_simps split: list.splits option.splits)

lemma ip_network_host_bits:
  assumes "ip_network s = Inr n"
  shows "2 ^ (max_prefixlen (network_address n) - prefixlen n) dvd ip_int (network_address n)"
  using assms
  by (auto simp: ip_network_def res_simps ip_int_mask split: list.splits option.splits)

section \<open>Decimal text reads back\<close>

lemma of_char_digit: "d < 10 \<Longrightarrow> (of_char (digit_char d) :: nat) = 48 + d"
  by (simp add: digit_char_def)

lemma digit_char_ok: "d < 10 \<Longrightarrow> is_digit (digit_char d) \<and> digit_val (digit_char d) = d"
  by (simp add: is_digit_def digit_val_def of_char_digit)

lemma dec_val_snoc: "dec_val (s @ [c]) = 10 * dec_val s + digit_val c"
  by (simp add: dec_val_def)

lemma dec_str_ok: "dec_val (dec_str n) = n \<and> list_all is_digit (dec_str n) \<and> dec_str n \<noteq> []"
proof (induction n rule: dec_str.induct)
  case (1 n)
  show ?case
  proof (cases "n < 10")
    case True
    then show ?thesis
      by (simp add: dec_str.simps [of n] dec_val_def digit_char_ok)
  next
    case False
    with 1 show ?thesis
      by (simp add: dec_str.simps [of n] dec_val_snoc digit_char_ok)
  qed
qed

lemma dec_str_no: "\<not> is_digit c \<Longrightarrow> c \<notin> set (dec_str n)"
  using dec_str_ok [of n] by (auto simp: list_all_iff)

lemma digit_char_0:
  assumes "d < 10"
  shows "digit_char d = CHR ''0'' \<longleftrightarrow> d = 0"
proof
  assume "digit_char d = CHR ''0''"
  then have "(of_char (digit_char d) :: nat) = of_char (CHR ''0'')" by simp
  with assms show "d = 0" by (simp add: of_char_digit)
qed (simp add: digit_char_def char_of_eq_iff)

lemma dec_str_expand:
  "n < 10 \<Longrightarrow> dec_str n = [digit_char n]"
  "10 \<le> n \<Longrightarrow> dec_str n = dec_str (n div 10) @ [digit_char (n mod 10)]"
  by (simp_all add: dec_str.simps [of n])

lemma dec_str_octet:
  assumes "n < 256"
  shows "parse_octet (dec_str n) = Some n"
proof -
  consider "n < 10" | "10 \<le> n" "n < 100" | "100 \<le> n" by linarith
  then have "length (dec_str n) \<le> 3 \<and> (dec_str n = ''0'' \<or> hd (dec_str n) \<noteq> CHR ''0'')"
  proof cases
    case 1
    then show ?thesis by (cases "n = 0") (simp_all add: dec_str_expand digit_char_0)
  next
    case 2
    then have "n div 10 < 10" "n div 10 \<noteq> 0" by (simp_all add: div_eq_0_iff)
    with 2 show ?thesis by (simp add: dec_str_expand digit_char_0)
  next
    case 3
    then have "n div 10 div 10 < 10" "n div 10 div 10 \<noteq> 0" "10 \<le> n div 10"
      using assms by (simp_all add: div_eq_0_iff div_mult2_eq [symmetric])
    with 3 show ?thesis
      by (simp only: dec_str_expand) (simp add: dec_str_expand digit_char_0)
  qed
  then show ?thesis using dec_str_ok [of n] assms by (auto simp: parse_octet_def)
qed

lemma parse_print_ipv4:
  assumes "n < 2 ^ 32"
  shows "parse_ipv4 (print_ipv4 n) = Some n"
proof -
  have dot: "CHR ''.'' \<notin> set (dec_str k)" for k by (rule dec_str_no) (simp add: is_digit_def)
  let ?f = "\<lambda>i::nat. n div 256 ^ i mod 256"
  have split: "py_split CHR ''.'' (print_ipv4 n) = map (\<lambda>i. dec_str (?f i)) [3, 2, 1, 0]"
    unfolding print_ipv4_def by (rule py_split_join) (auto simp: dot)
  have p: "(256::nat) ^ 3 = 256 * (256 * 256)" "(256::nat) ^ 2 = 256 * 256" by simp_all
  have top: "n div 256 div 256 div 256 < 256" using assms by simp
  have "((?f 3 * 256 + ?f 2) * 256 + ?f 1) * 256 + ?f 0 = n"
    unfolding p div_mult2_eq using top by (simp add: mult.commute [of _ 256] mod_less)
  moreover have "map parse_octet (py_split CHR ''.'' (print_ipv4 n)) =
      [Some (?f 3), Some (?f 2), Some (?f 1), Some (?f 0)]"
    unfolding split by (simp only: list.map dec_str_octet mod_less_divisor zero_less_numeral)
  ultimately show ?thesis by (simp only: parse_ipv4_def list.case option.case)
qed

text \<open>The canonical text of an IPv4 address parses to the same address.\<close>

lemma ip_address_compressed_v4: "ip_address (compressed (IPv4 w)) = Inr (IPv4 w)"
  using parse_print_ipv4 [of "unat w"] unat_word_bound [of w] by (simp add: ip_address_def)

end
