(* ===== verification/Config.thy ===== *)
theory Config
  imports Ip_Address
begin

text \<open>
  The configuration model of \<open>dns_forwarder/config/models.py\<close>: one record per class, the
  field validators that normalise a raw value, the field constraints as predicates
  \<open>..._ok\<close>, and the checks \<open>AppConfig.validate_references\<close> runs after the fields are
  built. Durations are real numbers. Messages of exceptions name what the source reports.
\<close>

named_theorems config_simps "definitions of the configuration checks"

section \<open>Enumerations\<close>

datatype listener_protocol = UDP | TCP

datatype http_version = HTTP_DEFAULT | HTTP_H1 | HTTP_H2 | HTTP_H3

datatype dispatch_strategy = RACE | WAIT_ALL

text \<open>\<open>_unique_names\<close>: the loop over the names of the items.\<close>

fun unique_names_loop :: "string set \<Rightarrow> string list \<Rightarrow> unit res" where
  "unique_names_loop seen [] = Inr ()"
| "unique_names_loop seen (value # items) =
     (if value \<in> seen then Inl (ValueError (''duplicate name: '' @ value))
      else unique_names_loop (insert value seen) items)"

definition unique_names :: "string list \<Rightarrow> unit res" where
  "unique_names items = unique_names_loop {} items"

lemma unique_names_loop_Inr:
  "unique_names_loop seen xs = Inr u \<longleftrightarrow> distinct xs \<and> set xs \<inter> seen = {}"
  by (induction xs arbitrary: seen) auto

lemma unique_names_Inr [config_simps]: "unique_names xs = Inr u \<longleftrightarrow> distinct xs"
  by (simp add: unique_names_def unique_names_loop_Inr)

section \<open>Multiprocess settings\<close>

datatype worker_count = Workers int | AutoWorkers

record multiprocess_config =
  workers :: worker_count
  start_method :: string
  queue_size :: int
  response_timeout :: real
  front_cache_size :: int

definition start_methods :: "string list" where
  "start_methods = [''auto'', ''spawn'', ''forkserver'', ''fork'']"

definition multiprocess_config_ok :: "multiprocess_config \<Rightarrow> bool" where
  "multiprocess_config_ok c \<longleftrightarrow>
     (case workers c of Workers n \<Rightarrow> 1 \<le> n | AutoWorkers \<Rightarrow> True) \<and>
     start_method c \<in> set start_methods \<and>
     1 \<le> queue_size c \<and> 0 < response_timeout c \<and> 1 \<le> front_cache_size c"

definition multiprocess_defaults :: multiprocess_config where
  "multiprocess_defaults = \<lparr>workers = Workers 1, start_method = ''auto'', queue_size = 1024,
     response_timeout = 10, front_cache_size = 100000\<rparr>"

fun normalize_workers :: "json \<Rightarrow> json" where
  "normalize_workers (JStr s) =
     (let stripped = py_lower (py_strip s) in
      if stripped = ''auto'' then JStr ''auto'' else JStr s)"
| "normalize_workers v = v"

fun normalize_start_method :: "json \<Rightarrow> json" where
  "normalize_start_method (JStr s) = JStr (py_lower (py_strip s))"
| "normalize_start_method v = v"

text \<open>\<open>cpu\<close> is what \<open>os.process_cpu_count\<close> or \<open>os.cpu_count\<close> reports.\<close>

fun resolved_workers :: "int option \<Rightarrow> multiprocess_config \<Rightarrow> int" where
  "resolved_workers cpu c =
     (case workers c of
        Workers n \<Rightarrow> n
      | AutoWorkers \<Rightarrow>
          max 1 (case cpu of None \<Rightarrow> 1 | Some n \<Rightarrow> if n = 0 then 1 else n))"

definition resolved_start_method :: "multiprocess_config \<Rightarrow> string list \<Rightarrow> string res" where
  "resolved_start_method c methods =
     (if start_method c = ''auto'' then
        (if ''forkserver'' \<in> set methods then Inr ''forkserver''
         else if ''spawn'' \<in> set methods then Inr ''spawn''
         else (case methods of [] \<Rightarrow> Inl IndexError | m # _ \<Rightarrow> Inr m))
      else if start_method c \<notin> set methods then
        Inl (ValueError (''unsupported start_method='' @ start_method c))
      else Inr (start_method c))"

lemma resolved_workers_pos:
  "multiprocess_config_ok c \<Longrightarrow> 1 \<le> resolved_workers cpu c"
  by (auto simp: multiprocess_config_ok_def split: worker_count.splits option.splits)

lemma resolved_start_method_available:
  "resolved_start_method c methods = Inr m \<Longrightarrow> m \<in> set methods"
  by (auto simp: resolved_start_method_def split: if_splits list.splits)

section \<open>Runtime settings\<close>

record runtime_config =
  plugin_dirs :: "string list"
  loop_policy :: string
  default_upstream_group :: string
  default_upstream_policy :: dispatch_strategy
  bootstrap_resolver :: "string list"
  hosts :: "(string \<times> string list) list"
  fingerprint :: "string option"
  log_level :: string
  multiprocess :: multiprocess_config

definition runtime_defaults :: runtime_config where
  "runtime_defaults = \<lparr>plugin_dirs = [''plugins''], loop_policy = ''auto'',
     default_upstream_group = ''default'', default_upstream_policy = RACE,
     bootstrap_resolver = [], hosts = [], fingerprint = None, log_level = ''INFO'',
     multiprocess = multiprocess_defaults\<rparr>"

definition validate_plugin_dirs :: "string list \<Rightarrow> string list res" where
  "validate_plugin_dirs value =
     (if value = [] then Inl (ValueError ''at least one plugin directory'') else Inr value)"

definition normalize_bootstrap_resolver :: "string list option \<Rightarrow> string list" where
  "normalize_bootstrap_resolver value =
     (case value of None \<Rightarrow> [] | Some items \<Rightarrow> strip_loop {} items)"

text \<open>
  \<open>str(raw_address)\<close>. A JSON value that is not a string never reads as an address, so its
  text is any text that is not blank and not an address.
\<close>

fun address_text :: "json \<Rightarrow> string" where
  "address_text (JStr s) = py_strip s"
| "address_text v = ''?''"

fun host_addresses_loop :: "string set \<Rightarrow> json list \<Rightarrow> string list res" where
  "host_addresses_loop seen [] = Inr []"
| "host_addresses_loop seen (raw # rest) =
     (let text = address_text raw in
      if text = [] then host_addresses_loop seen rest
      else andthen (ip_address text) (\<lambda>ip.
        let address = compressed ip in
        if address \<in> seen then host_addresses_loop seen rest
        else andthen (host_addresses_loop (insert address seen) rest)
               (\<lambda>addresses. Inr (address # addresses))))"

fun normalize_hosts_loop ::
  "(string \<times> string list) list \<Rightarrow> (string \<times> json) list \<Rightarrow> (string \<times> string list) list res" where
  "normalize_hosts_loop normalized [] = Inr normalized"
| "normalize_hosts_loop normalized ((raw_domain, raw_addresses) # rest) =
     (let domain = py_lower (rstrip_dot (py_strip raw_domain)) in
      if domain = [] then Inl (ValueError ''hosts domain is empty'')
      else case raw_addresses of
        JArr items \<Rightarrow>
          andthen (host_addresses_loop {} items) (\<lambda>addresses.
            if addresses = [] then Inl (ValueError (''hosts '' @ domain @ '' needs an IP''))
            else normalize_hosts_loop (dict_set domain addresses normalized) rest)
      | _ \<Rightarrow> Inl (ValueError (''hosts '' @ domain @ '' must be a list of IPs'')))"

fun normalize_hosts :: "json \<Rightarrow> (string \<times> string list) list res" where
  "normalize_hosts JNull = Inr []"
| "normalize_hosts (JObj items) = normalize_hosts_loop [] items"
| "normalize_hosts v = Inl (ValueError ''hosts must be a mapping'')"

definition normalize_fingerprint :: "string option \<Rightarrow> string option" where
  "normalize_fingerprint value =
     (case value of None \<Rightarrow> None
      | Some v \<Rightarrow> (let normalized = py_strip v in if normalized = [] then None else Some normalized))"

definition validate_log_level :: "string \<Rightarrow> string res" where
  "validate_log_level value =
     (let normalized = py_upper (py_strip value) in
      if normalized \<notin> {''CRITICAL'', ''ERROR'', ''WARNING'', ''INFO'', ''DEBUG''}
      then Inl (ValueError (''unknown log_level: '' @ value)) else Inr normalized)"

record tree_root_config =
  domain_dir :: "string option"
  ip_dir :: "string option"

definition normalize_dir :: "string option \<Rightarrow> string option" where
  "normalize_dir value =
     (case value of None \<Rightarrow> None
      | Some v \<Rightarrow> (let path = py_strip v in if path = [] then None else Some path))"

text \<open>What a normalised \<open>hosts\<close> table guarantees to the code that reads it.\<close>

definition hosts_ok :: "(string \<times> string list) list \<Rightarrow> bool" where
  "hosts_ok t \<longleftrightarrow> distinct (map fst t) \<and>
     (\<forall>(d, as) \<in> set t. d \<noteq> [] \<and> py_lower d = d \<and> as \<noteq> [] \<and> distinct as)"

lemma host_addresses_loop_distinct:
  "host_addresses_loop seen items = Inr as \<Longrightarrow> distinct as \<and> set as \<inter> seen = {}"
proof (induction items arbitrary: seen as)
  case (Cons raw rest)
  consider (skip) "host_addresses_loop seen rest = Inr as"
    | (new) a bs where "as = a # bs" "a \<notin> seen" "host_addresses_loop (insert a seen) rest = Inr bs"
    using Cons.prems by (auto simp: Let_def res_simps split: if_splits)
  then show ?case
  proof cases
    case skip
    then show ?thesis by (rule Cons.IH)
  next
    case new
    with Cons.IH [of "insert a seen" bs] show ?thesis by auto
  qed
qed simp

lemma set_dict_set: "set (dict_set k v d) \<subseteq> insert (k, v) (set d)"
  by (induction k v d rule: dict_set.induct) auto

lemma normalize_hosts_loop_ok:
  "normalize_hosts_loop t items = Inr t' \<Longrightarrow> hosts_ok t \<Longrightarrow> hosts_ok t'"
proof (induction t items rule: normalize_hosts_loop.induct)
  case (2 t raw_domain raw rest)
  let ?d = "py_lower (rstrip_dot (py_strip raw_domain))"
  from "2.prems"(1) obtain items as where
    raw: "raw = JArr items" and d: "?d \<noteq> []" and as: "host_addresses_loop {} items = Inr as" "as \<noteq> []"
    and loop: "normalize_hosts_loop (dict_set ?d as t) rest = Inr t'"
    by (auto simp: Let_def res_simps split: if_splits json.splits)
  have "hosts_ok (dict_set ?d as t)"
    using "2.prems"(2) d as set_dict_set [of ?d as t] host_addresses_loop_distinct [OF as(1)]
    by (auto simp: hosts_ok_def distinct_dict_set)
  from "2.IH" [OF refl d raw as(1) as(2) loop this] show ?case .
qed simp

lemma normalize_hosts_ok: "normalize_hosts v = Inr t \<Longrightarrow> hosts_ok t"
proof (cases v)
  case (JObj items)
  assume "normalize_hosts v = Inr t"
  with JObj have "normalize_hosts_loop [] items = Inr t" by simp
  then show ?thesis by (rule normalize_hosts_loop_ok) (simp add: hosts_ok_def)
qed (auto simp: hosts_ok_def)

end
