(* ===== verification/App_Config.thy ===== *)
theory App_Config
  imports Config
begin

text \<open>
  The second half of \<open>dns_forwarder/config/models.py\<close>: nameservers, upstreams, groups,
  rules, plugins, the application configuration and \<open>validate_references\<close>. The main
  results say exactly which configurations are accepted: names are unique, references
  resolve, and the nesting of upstream groups is acyclic. The dispatcher relies on the last
  point for its termination.
\<close>

section \<open>Nameservers\<close>

datatype verify = VerifyFlag bool | VerifyFile string

datatype nameserver_config =
    AiodnsNameserver (ns_name: string) "string list" int bool real
  | Do53Nameserver (ns_name: string) string int
  | Do53CustomNameserver (ns_name: string) string int bool
  | DoHNameserver (ns_name: string) string "string option" verify bool http_version
  | DoHCustomNameserver (ns_name: string) string "string option" verify bool http_version
  | DoHHttpxNameserver (ns_name: string) string bool http_version "string option" verify "string option"
  | DoHAiohttpNameserver (ns_name: string) string bool http_version "string option" verify "string option"
  | DoHCurlCffiNameserver (ns_name: string) string bool http_version "string option" bool
  | DoTNameserver (ns_name: string) string int "string option" verify
  | DoQNameserver (ns_name: string) string int "string option" verify
  | DNSCryptNameserver (ns_name: string) string string string "string option" int real

definition valid_port :: "int \<Rightarrow> bool" where
  "valid_port p \<longleftrightarrow> 1 \<le> p \<and> p \<le> 65535"

fun nameserver_fields_ok :: "nameserver_config \<Rightarrow> bool" where
  "nameserver_fields_ok (AiodnsNameserver n servers port tcp timeout) =
     (servers \<noteq> [] \<and> valid_port port \<and> 0 < timeout)"
| "nameserver_fields_ok (Do53Nameserver n address port) = valid_port port"
| "nameserver_fields_ok (Do53CustomNameserver n address port use_tricks) = valid_port port"
| "nameserver_fields_ok (DoTNameserver n address port hostname verify) = valid_port port"
| "nameserver_fields_ok (DoQNameserver n address port server_hostname verify) = valid_port port"
| "nameserver_fields_ok (DNSCryptNameserver n address provider pk sk port cert_timeout) =
     (valid_port port \<and> 0 < cert_timeout)"
| "nameserver_fields_ok _ = True"

definition normalize_servers :: "string list \<Rightarrow> string list" where
  "normalize_servers value = strip_loop {} value"

fun validate_http_version :: "nameserver_config \<Rightarrow> unit res" where
  "validate_http_version (DoHHttpxNameserver n url want_get v host verify sni) =
     (if v \<in> {HTTP_H1, HTTP_H3} then Inl (ValueError ''httpx supports default / h2 only'')
      else if verify \<noteq> VerifyFlag True then Inl (ValueError ''httpx has no verify per request'')
      else Inr ())"
| "validate_http_version (DoHAiohttpNameserver n url want_get v host verify sni) =
     (if v \<in> {HTTP_H2, HTTP_H3} then Inl (ValueError ''aiohttp supports default / h1 only'')
      else Inr ())"
| "validate_http_version _ = Inr ()"

section \<open>Upstreams, groups, rules, plugins\<close>

record upstream_config =
  u_name :: string
  u_nameservers :: "string list"
  u_timeout :: real
  u_lifetime :: real
  u_use_tcp :: bool
  u_ecs :: "string option"

definition upstream_fields_ok :: "upstream_config \<Rightarrow> bool" where
  "upstream_fields_ok u \<longleftrightarrow> u_nameservers u \<noteq> [] \<and> 0 < u_timeout u \<and> 0 < u_lifetime u"

text \<open>\<open>ECSConfig.validate_cidr\<close>\<close>

definition validate_cidr :: "string \<Rightarrow> string res" where
  "validate_cidr value = andthen (ip_network value) (\<lambda>network. Inr (with_prefixlen network))"

record upstream_group_config =
  g_name :: string
  g_upstreams :: "string list"

definition group_fields_ok :: "upstream_group_config \<Rightarrow> bool" where
  "group_fields_ok g \<longleftrightarrow> g_upstreams g \<noteq> []"

record rule_match_config =
  match_tags :: "string list"
  exclude_tags :: "string list"
  qtypes :: "string list"

definition normalize_tags :: "string list option \<Rightarrow> string list" where
  "normalize_tags value = (case value of None \<Rightarrow> [] | Some items \<Rightarrow> strip_loop {} items)"

text \<open>
  \<open>canonical_qtype raw\<close> is dnspython's \<open>rdatatype.to_text(rdatatype.from_text(raw))\<close>.
\<close>

fun normalize_qtypes_loop ::
  "(string \<Rightarrow> string res) \<Rightarrow> string set \<Rightarrow> string list \<Rightarrow> string list res" where
  "normalize_qtypes_loop canonical_qtype seen [] = Inr []"
| "normalize_qtypes_loop canonical_qtype seen (item # rest) =
     (let raw = py_strip item in
      if raw = [] then normalize_qtypes_loop canonical_qtype seen rest
      else andthen (canonical_qtype raw) (\<lambda>t.
        let qtype = py_upper t in
        if qtype \<in> seen then normalize_qtypes_loop canonical_qtype seen rest
        else andthen (normalize_qtypes_loop canonical_qtype (insert qtype seen) rest)
               (\<lambda>qs. Inr (qtype # qs))))"

definition normalize_qtypes ::
  "(string \<Rightarrow> string res) \<Rightarrow> string list option \<Rightarrow> string list res" where
  "normalize_qtypes canonical_qtype value =
     (case value of None \<Rightarrow> Inr [] | Some items \<Rightarrow> normalize_qtypes_loop canonical_qtype {} items)"

record rule_action_config =
  act_upstream_group :: "string option"
  act_dispatcher :: "dispatch_strategy option"

definition validate_action_target :: "rule_action_config \<Rightarrow> unit res" where
  "validate_action_target a =
     raise_if (act_upstream_group a = None \<and> act_dispatcher a = None)
       (ValueError ''rule action needs upstream_group or dispatcher'')"

record rule_config =
  r_name :: string
  r_enabled :: bool
  r_match :: rule_match_config
  r_action :: rule_action_config

record plugin_config =
  p_name :: string
  p_module :: string
  p_enabled :: bool
  p_config :: json
  p_variables :: json

record listener_config =
  l_name :: string
  l_protocol :: listener_protocol
  l_host :: string
  l_port :: int
  l_enabled :: bool

record webui_config =
  w_enabled :: bool
  w_doh_enabled :: bool
  w_host :: string
  w_port :: int
  w_username :: string
  w_password :: string

definition listener_fields_ok :: "listener_config \<Rightarrow> bool" where
  "listener_fields_ok l \<longleftrightarrow> 0 \<le> l_port l \<and> l_port l \<le> 65535"

definition webui_fields_ok :: "webui_config \<Rightarrow> bool" where
  "webui_fields_ok w \<longleftrightarrow> 0 \<le> w_port w \<and> w_port w \<le> 65535 \<and> w_username w \<noteq> [] \<and> w_password w \<noteq> []"

record app_config =
  runtime :: runtime_config
  tree_root :: tree_root_config
  listeners :: "listener_config list"
  nameservers :: "nameserver_config list"
  upstreams :: "upstream_config list"
  groups :: "upstream_group_config list"
  rules :: "rule_config list"
  plugins :: "plugin_config list"
  webui :: webui_config

section \<open>Checks on references\<close>

definition validate_unique_names :: "app_config \<Rightarrow> unit res" where
  "validate_unique_names c =
     andthen (unique_names (map l_name (listeners c))) (\<lambda>_.
     andthen (unique_names (map ns_name (nameservers c))) (\<lambda>_.
     andthen (unique_names (map u_name (upstreams c))) (\<lambda>_.
     andthen (unique_names (map g_name (groups c))) (\<lambda>_.
     andthen (unique_names (map r_name (rules c))) (\<lambda>_.
     unique_names (map p_name (plugins c)))))))"

text \<open>The names of \<open>xs\<close> that are not in \<open>known\<close>, sorted, for the message of an error.\<close>

definition missing_names :: "string list \<Rightarrow> string set \<Rightarrow> string list" where
  "missing_names xs known = sort (remdups (filter (\<lambda>x. x \<notin> known) xs))"

definition comma_join :: "string list \<Rightarrow> string" where
  "comma_join ws = py_join '', '' ws"

definition validate_required_config :: "app_config \<Rightarrow> string set \<Rightarrow> string set \<Rightarrow> unit res" where
  "validate_required_config c group_names upstream_names =
     (let duplicated_target_names =
            sort (remdups (filter (\<lambda>n. n \<in> upstream_names) (map g_name (groups c)))) in
      if listeners c = [] \<and> \<not> w_enabled (webui c) \<and> \<not> w_doh_enabled (webui c)
        then Inl (ValueError ''needs a listener, webui or DoH'')
      else if nameservers c = [] then Inl (ValueError ''needs a nameserver'')
      else if upstreams c = [] then Inl (ValueError ''needs an upstream'')
      else if groups c = [] then Inl (ValueError ''needs an upstream group'')
      else if default_upstream_group (runtime c) \<notin> group_names
        then Inl (ValueError (''default_upstream_group undefined: '' @ default_upstream_group (runtime c)))
      else if duplicated_target_names \<noteq> []
        then Inl (ValueError (''group and upstream names clash: '' @ comma_join duplicated_target_names))
      else Inr ())"

definition validate_upstream_nameserver_refs :: "app_config \<Rightarrow> string set \<Rightarrow> unit res" where
  "validate_upstream_nameserver_refs c nameserver_names =
     for_each (\<lambda>upstream.
       let missing = missing_names (u_nameservers upstream) nameserver_names in
       raise_if (missing \<noteq> [])
         (ValueError (''upstream '' @ u_name upstream @ '' refers to '' @ comma_join missing)))
       (upstreams c)"

definition validate_group_target_refs :: "app_config \<Rightarrow> string set \<Rightarrow> string set \<Rightarrow> unit res" where
  "validate_group_target_refs c group_names upstream_names =
     (let available_target_names = upstream_names \<union> group_names in
      for_each (\<lambda>group.
        let missing = missing_names (g_upstreams group) available_target_names in
        raise_if (missing \<noteq> [])
          (ValueError (''group '' @ g_name group @ '' refers to '' @ comma_join missing)))
        (groups c))"

definition validate_rule_refs :: "app_config \<Rightarrow> string set \<Rightarrow> unit res" where
  "validate_rule_refs c group_names =
     for_each (\<lambda>rule.
       case act_upstream_group (r_action rule) of
         None \<Rightarrow> Inr ()
       | Some g \<Rightarrow> raise_if (g \<notin> group_names)
           (ValueError (''rule '' @ r_name rule @ '' refers to '' @ g)))
       (rules c)"

section \<open>Cycles of groups\<close>

definition adjacency :: "app_config \<Rightarrow> string set \<Rightarrow> (string \<times> string list) list" where
  "adjacency c group_names =
     map (\<lambda>group. (g_name group, filter (\<lambda>t. t \<in> group_names) (g_upstreams group))) (groups c)"

text \<open>
  The nested function \<open>dfs\<close>. The sets \<open>visiting\<close> and \<open>visited\<close> are shared by all its calls; a
  call that returns has taken its group out of \<open>visiting\<close> and \<open>path\<close> again, so both are
  arguments here and only \<open>visited\<close> is handed on. \<open>dfs_list\<close> is the inner \<open>for\<close> loop.
\<close>

function (sequential)
  dfs :: "(string \<times> string list) list \<Rightarrow> string set \<Rightarrow> string set \<Rightarrow> string list \<Rightarrow> string \<Rightarrow> string set res"
and
  dfs_list :: "(string \<times> string list) list \<Rightarrow> string set \<Rightarrow> string set \<Rightarrow> string list \<Rightarrow> string list \<Rightarrow> string set res"
where
  "dfs adj visiting visited path g =
     (if g \<in> visiting then
        Inl (ValueError (''group cycle: '' @ py_join '' -> '' (dropWhile (\<lambda>p. p \<noteq> g) path @ [g])))
      else if g \<in> visited then Inr visited
      else case map_of adj g of
        None \<Rightarrow> Inl (KeyError g)
      | Some nested \<Rightarrow>
          andthen (dfs_list adj (insert g visiting) visited (path @ [g]) nested)
            (\<lambda>visited'. Inr (insert g visited')))"
| "dfs_list adj visiting visited path [] = Inr visited"
| "dfs_list adj visiting visited path (nested_group # rest) =
     andthen (dfs adj visiting visited path nested_group)
       (\<lambda>visited'. dfs_list adj visiting visited' path rest)"
  by pat_completeness auto

termination
proof (relation "measures [\<lambda>x. case x of
    Inl (adj, visiting, visited, path, g) \<Rightarrow> card (fst ` set adj - visiting)
  | Inr (adj, visiting, visited, path, ns) \<Rightarrow> card (fst ` set adj - visiting),
    \<lambda>x. case x of Inl _ \<Rightarrow> 0 | Inr (adj, visiting, visited, path, ns) \<Rightarrow> Suc (length ns)]")
  fix adj :: "(string \<times> string list) list" and visiting visited :: "string set"
    and path :: "string list" and g ns
  assume "g \<notin> visiting" and "map_of adj g = Some ns"
  then have "g \<in> fst ` set adj - visiting" by (force dest: map_of_SomeD)
  moreover have "fst ` set adj - insert g visiting = (fst ` set adj - visiting) - {g}" by auto
  ultimately have "card (fst ` set adj - insert g visiting) < card (fst ` set adj - visiting)"
    by (metis List.finite_set card_Diff1_less finite_Diff finite_imageI)
  then show "(Inr (adj, insert g visiting, visited, path @ [g], ns),
      Inl (adj, visiting, visited, path, g)) \<in> measures [\<lambda>x. case x of
    Inl (adj, visiting, visited, path, g) \<Rightarrow> card (fst ` set adj - visiting)
  | Inr (adj, visiting, visited, path, ns) \<Rightarrow> card (fst ` set adj - visiting),
    \<lambda>x. case x of Inl _ \<Rightarrow> 0 | Inr (adj, visiting, visited, path, ns) \<Rightarrow> Suc (length ns)]"
    by simp
qed auto

declare dfs.simps [simp del]

text \<open>\<open>for group_name in adjacency: dfs(group_name, [])\<close>\<close>

definition validate_group_cycles :: "app_config \<Rightarrow> string set \<Rightarrow> unit res" where
  "validate_group_cycles c group_names =
     (let adj = adjacency c group_names in
      andthen (dfs_list adj {} {} [] (map fst adj)) (\<lambda>_. Inr ()))"

definition validate_references :: "app_config \<Rightarrow> unit res" where
  "validate_references c =
     andthen (validate_unique_names c) (\<lambda>_.
     let nameserver_names = ns_name ` set (nameservers c);
         upstream_names = u_name ` set (upstreams c);
         group_names = g_name ` set (groups c) in
     andthen (validate_required_config c group_names upstream_names) (\<lambda>_.
     andthen (validate_upstream_nameserver_refs c nameserver_names) (\<lambda>_.
     andthen (validate_group_target_refs c group_names upstream_names) (\<lambda>_.
     andthen (validate_group_cycles c group_names) (\<lambda>_.
     validate_rule_refs c group_names)))))"

section \<open>The search finds exactly the cycles\<close>

definition edges :: "(string \<times> string list) list \<Rightarrow> (string \<times> string) set" where
  "edges adj = {(g, t). \<exists>ns. map_of adj g = Some ns \<and> t \<in> set ns}"

text \<open>A set of finished groups: closed under nesting, and none of them reaches itself.\<close>

definition settled :: "(string \<times> string list) list \<Rightarrow> string set \<Rightarrow> bool" where
  "settled adj V \<longleftrightarrow> edges adj `` V \<subseteq> V \<and> (\<forall>x \<in> V. (x, x) \<notin> (edges adj)\<^sup>+)"

lemma closed_trancl:
  assumes "E `` V \<subseteq> V" and "x \<in> V" and "(x, y) \<in> E\<^sup>*"
  shows "y \<in> V"
  using assms(3) assms(2)
proof (induction rule: rtrancl_induct)
  case (step y z)
  then show ?case using assms(1) by blast
qed

lemma settled_insert:
  assumes ok: "settled adj V" and g: "g \<notin> V" and ns: "map_of adj g = Some ns" "set ns \<subseteq> V"
  shows "settled adj (insert g V)"
proof -
  have cl: "edges adj `` V \<subseteq> V" and ac: "\<forall>x \<in> V. (x, x) \<notin> (edges adj)\<^sup>+"
    using ok by (simp_all add: settled_def)
  have "(g, g) \<notin> (edges adj)\<^sup>+"
  proof
    assume "(g, g) \<in> (edges adj)\<^sup>+"
    then obtain n where "(g, n) \<in> edges adj" and path: "(n, g) \<in> (edges adj)\<^sup>*"
      by (meson tranclD)
    then have "n \<in> V" using ns by (auto simp: edges_def)
    then have "g \<in> V" using cl path by (blast intro: closed_trancl)
    with g show False by simp
  qed
  with cl ac ns show ?thesis by (auto simp: settled_def edges_def)
qed

lemma dfs_sound:
  "dfs adj visiting visited path g = Inr visited' \<Longrightarrow> settled adj visited \<Longrightarrow>
     visited \<inter> visiting = {} \<Longrightarrow>
     settled adj visited' \<and> insert g visited \<subseteq> visited' \<and> visited' \<inter> visiting = {}"
  "dfs_list adj visiting visited path ns = Inr visited' \<Longrightarrow> settled adj visited \<Longrightarrow>
     visited \<inter> visiting = {} \<Longrightarrow>
     settled adj visited' \<and> set ns \<union> visited \<subseteq> visited' \<and> visited' \<inter> visiting = {}"
proof (induction adj visiting visited path g and adj visiting visited path ns
    arbitrary: visited' and visited' rule: dfs_dfs_list.induct)
  case (1 adj visiting visited path g)
  show ?case
  proof (cases "g \<in> visited")
    case True
    with 1 show ?thesis by (auto simp: dfs.simps split: if_splits)
  next
    case False
    from "1.prems"(1) False obtain nested V where g: "g \<notin> visiting" and
      nested: "map_of adj g = Some nested" and V: "visited' = insert g V" and
      list: "dfs_list adj (insert g visiting) visited (path @ [g]) nested = Inr V"
      by (auto simp: dfs.simps res_simps split: if_splits option.splits)
    from "1.IH" [OF g False nested list] "1.prems" False have
      "settled adj V \<and> set nested \<union> visited \<subseteq> V \<and> V \<inter> insert g visiting = {}" by auto
    then show ?thesis using V g settled_insert [OF _ _ nested] by auto
  qed
next
  case (2 adj visiting visited path)
  then show ?case by simp
next
  case (3 adj visiting visited path n rest)
  then obtain V where n: "dfs adj visiting visited path n = Inr V"
    and rest: "dfs_list adj visiting V path rest = Inr visited'"
    by (auto simp: andthen_Inr_iff)
  from "3.IH"(1) [OF n] "3.prems" have V: "settled adj V" "insert n visited \<subseteq> V" "V \<inter> visiting = {}"
    by simp_all
  from "3.IH"(2) [OF n rest V(1) V(3)] V(2) show ?case by auto
qed

lemma dfs_complete:
  "acyclic (edges adj) \<Longrightarrow> Range (edges adj) \<subseteq> fst ` set adj \<Longrightarrow> g \<in> fst ` set adj \<Longrightarrow>
     \<forall>x \<in> visiting. (x, g) \<in> (edges adj)\<^sup>+ \<Longrightarrow> \<exists>V. dfs adj visiting visited path g = Inr V"
  "acyclic (edges adj) \<Longrightarrow> Range (edges adj) \<subseteq> fst ` set adj \<Longrightarrow> set ns \<subseteq> fst ` set adj \<Longrightarrow>
     \<forall>n \<in> set ns. \<forall>x \<in> visiting. (x, n) \<in> (edges adj)\<^sup>+ \<Longrightarrow>
     \<exists>V. dfs_list adj visiting visited path ns = Inr V"
proof (induction adj visiting visited path g and adj visiting visited path ns
    rule: dfs_dfs_list.induct)
  case (1 adj visiting visited path g)
  have g: "g \<notin> visiting" using "1.prems" by (auto simp: acyclic_def)
  obtain nested where nested: "map_of adj g = Some nested"
    using "1.prems"(3) by (metis map_of_eq_None_iff not_Some_eq)
  then have edge: "\<forall>n \<in> set nested. (g, n) \<in> edges adj" by (auto simp: edges_def)
  show ?case
  proof (cases "g \<in> visited")
    case False
    have "\<forall>n \<in> set nested. \<forall>x \<in> insert g visiting. (x, n) \<in> (edges adj)\<^sup>+"
      using edge "1.prems"(4) by (auto intro: trancl_into_trancl)
    moreover have "set nested \<subseteq> fst ` set adj" using edge "1.prems"(2) by auto
    ultimately obtain V where
      "dfs_list adj (insert g visiting) visited (path @ [g]) nested = Inr V"
      using "1.IH" [OF g False nested] "1.prems" by blast
    with g False nested show ?thesis by (simp add: dfs.simps)
  qed (simp add: g dfs.simps)
next
  case (3 adj visiting visited path n rest)
  then obtain V where n: "dfs adj visiting visited path n = Inr V" by auto
  with "3.IH"(2) [OF n] "3.prems" show ?case by auto
qed simp

section \<open>What an accepted configuration guarantees\<close>

text \<open>
  The specification: an edge goes from a group to each group it lists, and a configuration
  is well formed when its names are unique, its references resolve and this graph has no
  cycle.
\<close>

definition group_graph :: "app_config \<Rightarrow> (string \<times> string) set" where
  "group_graph c = {(a, b). \<exists>g \<in> set (groups c). g_name g = a \<and> b \<in> set (g_upstreams g) \<and>
                            b \<in> g_name ` set (groups c)}"

definition config_wf :: "app_config \<Rightarrow> bool" where
  "config_wf c \<longleftrightarrow>
     distinct (map l_name (listeners c)) \<and> distinct (map ns_name (nameservers c)) \<and>
     distinct (map u_name (upstreams c)) \<and> distinct (map g_name (groups c)) \<and>
     distinct (map r_name (rules c)) \<and> distinct (map p_name (plugins c)) \<and>
     (listeners c \<noteq> [] \<or> w_enabled (webui c) \<or> w_doh_enabled (webui c)) \<and>
     nameservers c \<noteq> [] \<and> upstreams c \<noteq> [] \<and> groups c \<noteq> [] \<and>
     default_upstream_group (runtime c) \<in> g_name ` set (groups c) \<and>
     g_name ` set (groups c) \<inter> u_name ` set (upstreams c) = {} \<and>
     (\<forall>u \<in> set (upstreams c). set (u_nameservers u) \<subseteq> ns_name ` set (nameservers c)) \<and>
     (\<forall>g \<in> set (groups c). set (g_upstreams g) \<subseteq>
        u_name ` set (upstreams c) \<union> g_name ` set (groups c)) \<and>
     (\<forall>r \<in> set (rules c). \<forall>g. act_upstream_group (r_action r) = Some g \<longrightarrow>
        g \<in> g_name ` set (groups c)) \<and>
     acyclic (group_graph c)"

lemma edges_adjacency:
  assumes "distinct (map g_name (groups c))"
  shows "edges (adjacency c (g_name ` set (groups c))) = group_graph c"
proof -
  let ?adj = "adjacency c (g_name ` set (groups c))"
  have dist: "distinct (map fst ?adj)" using assms by (simp add: adjacency_def comp_def)
  have "map_of ?adj a = Some ns \<longleftrightarrow> (a, ns) \<in> set ?adj" for a ns
    using dist by (metis map_of_is_SomeI map_of_SomeD)
  then show ?thesis by (auto simp: edges_def group_graph_def adjacency_def)
qed

lemma keys_adjacency: "fst ` set (adjacency c N) = g_name ` set (groups c)"
  by (force simp: adjacency_def)

lemma settled_acyclic: "settled adj V \<Longrightarrow> Domain (edges adj) \<subseteq> V \<Longrightarrow> acyclic (edges adj)"
proof (unfold acyclic_def, intro allI notI)
  fix x assume V: "settled adj V" "Domain (edges adj) \<subseteq> V" and x: "(x, x) \<in> (edges adj)\<^sup>+"
  from x have "x \<in> Domain (edges adj)" by (meson Domain.DomainI tranclD)
  with V x show False by (auto simp: settled_def)
qed

lemma validate_group_cycles_iff:
  assumes "distinct (map g_name (groups c))"
  shows "validate_group_cycles c (g_name ` set (groups c)) = Inr () \<longleftrightarrow> acyclic (group_graph c)"
proof -
  let ?adj = "adjacency c (g_name ` set (groups c))"
  have E: "edges ?adj = group_graph c" using assms by (rule edges_adjacency)
  have dom: "Domain (edges ?adj) \<subseteq> set (map fst ?adj)"
    by (auto simp: edges_def dest!: map_of_SomeD intro: rev_image_eqI)
  have ran: "Range (edges ?adj) \<subseteq> fst ` set ?adj"
    unfolding E keys_adjacency by (auto simp: group_graph_def)
  have ok: "validate_group_cycles c (g_name ` set (groups c)) = Inr () \<longleftrightarrow>
      (\<exists>V. dfs_list ?adj {} {} [] (map fst ?adj) = Inr V)"
    by (auto simp: validate_group_cycles_def Let_def res_simps)
  show ?thesis
  proof
    assume "validate_group_cycles c (g_name ` set (groups c)) = Inr ()"
    then obtain V where "dfs_list ?adj {} {} [] (map fst ?adj) = Inr V" using ok by blast
    from dfs_sound(2) [OF this] have "settled ?adj V" "set (map fst ?adj) \<subseteq> V"
      by (auto simp: settled_def)
    with dom have "acyclic (edges ?adj)" by (blast intro: settled_acyclic)
    then show "acyclic (group_graph c)" by (simp add: E)
  next
    assume "acyclic (group_graph c)"
    then have "acyclic (edges ?adj)" by (simp add: E)
    from dfs_complete(2) [OF this ran] have "\<exists>V. dfs_list ?adj {} {} [] (map fst ?adj) = Inr V"
      by simp
    with ok show "validate_group_cycles c (g_name ` set (groups c)) = Inr ()" by blast
  qed
qed

lemma missing_names_Nil: "missing_names xs known = [] \<longleftrightarrow> set xs \<subseteq> known"
  by (auto simp: missing_names_def filter_empty_conv)

lemma validate_unique_names_iff:
  "validate_unique_names c = Inr () \<longleftrightarrow>
     distinct (map l_name (listeners c)) \<and> distinct (map ns_name (nameservers c)) \<and>
     distinct (map u_name (upstreams c)) \<and> distinct (map g_name (groups c)) \<and>
     distinct (map r_name (rules c)) \<and> distinct (map p_name (plugins c))"
  by (simp add: validate_unique_names_def res_simps unique_names_Inr)

lemma validate_required_config_iff:
  "validate_required_config c (g_name ` set (groups c)) (u_name ` set (upstreams c)) = Inr () \<longleftrightarrow>
     (listeners c \<noteq> [] \<or> w_enabled (webui c) \<or> w_doh_enabled (webui c)) \<and>
     nameservers c \<noteq> [] \<and> upstreams c \<noteq> [] \<and> groups c \<noteq> [] \<and>
     default_upstream_group (runtime c) \<in> g_name ` set (groups c) \<and>
     g_name ` set (groups c) \<inter> u_name ` set (upstreams c) = {}"
  by (auto simp: validate_required_config_def Let_def filter_empty_conv)

lemma validate_refs_iff:
  "validate_upstream_nameserver_refs c N = Inr () \<longleftrightarrow>
     (\<forall>u \<in> set (upstreams c). set (u_nameservers u) \<subseteq> N)"
  "validate_group_target_refs c G U = Inr () \<longleftrightarrow>
     (\<forall>g \<in> set (groups c). set (g_upstreams g) \<subseteq> U \<union> G)"
  "validate_rule_refs c G = Inr () \<longleftrightarrow>
     (\<forall>r \<in> set (rules c). \<forall>g. act_upstream_group (r_action r) = Some g \<longrightarrow> g \<in> G)"
  by (auto simp: validate_upstream_nameserver_refs_def validate_group_target_refs_def
      validate_rule_refs_def Let_def for_each_Inr missing_names_Nil split: option.splits)

lemma validate_references_wf: "validate_references c = Inr () \<longleftrightarrow> config_wf c"
proof (cases "distinct (map g_name (groups c))")
  case True
  then show ?thesis
    by (simp add: validate_references_def config_wf_def Let_def andthen_Inr_iff
        validate_unique_names_iff validate_required_config_iff validate_refs_iff
        validate_group_cycles_iff [OF True]) blast
next
  case False
  then show ?thesis
    by (simp add: validate_references_def config_wf_def andthen_Inr_iff validate_unique_names_iff)
qed

section \<open>Properties\<close>

text \<open>
  C1: A configuration passes \<open>validate_references\<close> exactly when its names are unique, what is
  required is there, every reference resolves, group and upstream names are disjoint, and the
  nesting of groups has no cycle.
\<close>

theorem validate_references_correct: "validate_references c = Inr () \<longleftrightarrow> config_wf c"
  by (rule validate_references_wf)

end
