(* ===== verification/Dns_Msg.thy ===== *)
theory Dns_Msg
  imports Prelude
begin

text \<open>
  DNS messages, answers and the request context of \<open>pipeline/context.py\<close>.

  The message and answer classes are dnspython's, so their data are records here and their
  code (the wire codec, \<open>make_response\<close>, the constructor of \<open>dns.resolver.Answer\<close>, the text
  forms) is the record \<open>dnslib\<close> of functions, an argument of every definition that calls them.
  A name is the text \<open>Name.to_text()\<close> gives, with its final dot; names are compared without
  regard to case. Record types, classes and codes are numbers.

  Answers and upstream results are mutable objects that several parts of the program share, so
  they live in a store and are referred to by their index in it.
\<close>

section \<open>Constants of the protocol\<close>

abbreviation (input) IN :: nat where "IN \<equiv> 1"
abbreviation (input) RT_A :: nat where "RT_A \<equiv> 1"
abbreviation (input) RT_CNAME :: nat where "RT_CNAME \<equiv> 5"
abbreviation (input) RT_SOA :: nat where "RT_SOA \<equiv> 6"
abbreviation (input) RT_AAAA :: nat where "RT_AAAA \<equiv> 28"
abbreviation (input) RT_OPT :: nat where "RT_OPT \<equiv> 41"
abbreviation (input) RT_HTTPS :: nat where "RT_HTTPS \<equiv> 65"
abbreviation (input) RT_TSIG :: nat where "RT_TSIG \<equiv> 250"
abbreviation (input) OP_QUERY :: nat where "OP_QUERY \<equiv> 0"
abbreviation (input) NOERROR :: nat where "NOERROR \<equiv> 0"
abbreviation (input) FORMERR :: nat where "FORMERR \<equiv> 1"
abbreviation (input) SERVFAIL :: nat where "SERVFAIL \<equiv> 2"
abbreviation (input) RC_NXDOMAIN :: nat where "RC_NXDOMAIN \<equiv> 3"
abbreviation (input) RC_NOTIMP :: nat where "RC_NOTIMP \<equiv> 4"
abbreviation (input) RC_REFUSED :: nat where "RC_REFUSED \<equiv> 5"

section \<open>Records, messages, answers\<close>

type_synonym dname = string
type_synonym bytes = "nat list"

definition name_eq :: "dname \<Rightarrow> dname \<Rightarrow> bool" where
  "name_eq a b \<longleftrightarrow> py_lower a = py_lower b"

text \<open>\<open>dns.rdtypes.svcbbase.ParamKey\<close> and the parameters the source reads or builds.\<close>

datatype param_key =
  MANDATORY | ALPN | NO_DEFAULT_ALPN | PORT | IPV4HINT | ECH | IPV6HINT | OTHER_KEY nat

datatype svc_param =
    MandatoryParam "param_key list"
  | ALPNParam "bytes list"
  | NoDefaultALPN
  | HintParam "string list"
  | ECHParam bytes
  | OtherParam bytes

type_synonym svc_params = "(param_key \<times> svc_param) list"

text \<open>
  The data of a record: those with an \<open>address\<close> (A and AAAA), those with a \<open>priority\<close>, a
  target and \<open>params\<close> (SVCB and HTTPS), a CNAME, a SOA (its text and its \<open>minimum\<close>), a TXT (its
  \<open>strings\<close>), and the rest by their text.
\<close>

datatype rdata =
    AddressData string
  | SvcbData nat dname svc_params
  | CnameData dname
  | SoaData string nat
  | TxtData "bytes list"
  | OtherData string

fun rd_address :: "rdata \<Rightarrow> string option" where
  "rd_address (AddressData a) = Some a"
| "rd_address _ = None"

fun rd_params :: "rdata \<Rightarrow> svc_params option" where
  "rd_params (SvcbData _ _ ps) = Some ps"
| "rd_params _ = None"

text \<open>\<open>getattr(rdata, "priority", 0)\<close>\<close>

fun rd_priority :: "rdata \<Rightarrow> nat" where
  "rd_priority (SvcbData p _ _) = p"
| "rd_priority _ = 0"

record rrset =
  rr_name :: dname
  rr_ttl :: nat
  rr_class :: nat
  rr_type :: nat
  rr_items :: "rdata list"

record question =
  q_name :: dname
  q_type :: nat
  q_class :: nat

record message =
  msg_id :: nat
  msg_flags :: nat
  msg_opcode :: nat
  msg_rcode :: nat
  msg_question :: "question list"
  msg_answer :: "rrset list"
  msg_authority :: "rrset list"
  msg_additional :: "rrset list"

text \<open>\<open>dns.resolver.Answer\<close>; \<open>a_chain\<close> is \<open>chaining_result.cnames\<close>.\<close>

record answer =
  a_qname :: dname
  a_type :: nat
  a_class :: nat
  a_response :: message
  a_rrset :: "rrset option"
  a_canonical :: dname
  a_expiration :: real
  a_chain :: "rrset list"
  a_nameserver :: "string option"
  a_port :: "nat option"

record dnslib =
  to_wire :: "message \<Rightarrow> bytes res"
  from_wire :: "bytes \<Rightarrow> message res"
  make_response :: "message \<Rightarrow> message res"
  make_query :: "string \<Rightarrow> string \<Rightarrow> message res"
  mk_answer :: "dname \<Rightarrow> nat \<Rightarrow> nat \<Rightarrow> message \<Rightarrow> string option \<Rightarrow> nat option \<Rightarrow> answer res"
  rdtype_to_text :: "nat \<Rightarrow> string"
  rcode_to_text :: "nat \<Rightarrow> string"
  rrset_from_texts :: "dname \<Rightarrow> nat \<Rightarrow> nat \<Rightarrow> nat \<Rightarrow> string list \<Rightarrow> rrset res"

text \<open>What a wire round trip of a message is relied on to do: it gives the message back.\<close>

definition codec_ok :: "dnslib \<Rightarrow> message \<Rightarrow> bool" where
  "codec_ok L m \<longleftrightarrow> andthen (to_wire L m) (from_wire L) = Inr m"

text \<open>
  What the constructor of \<open>Answer\<close> is relied on to do: the answer is about the question it was
  given and holds the message it was given.
\<close>

definition answer_ok :: "dnslib \<Rightarrow> dname \<Rightarrow> nat \<Rightarrow> nat \<Rightarrow> message \<Rightarrow> bool" where
  "answer_ok L n t c m \<longleftrightarrow> (\<forall>a ns p. mk_answer L n t c m ns p = Inr a \<longrightarrow>
     a_qname a = n \<and> a_type a = t \<and> a_class a = c \<and> a_response a = m)"

section \<open>\<open>pipeline/context.py\<close>: responses and answers\<close>

definition clone_response_for_request :: "dnslib \<Rightarrow> message \<Rightarrow> message \<Rightarrow> message res" where
  "clone_response_for_request L response request =
     andthen (andthen (to_wire L response) (from_wire L)) (\<lambda>cloned.
     Inr (cloned\<lparr>msg_id := msg_id request\<rparr>))"

text \<open>\<open>now\<close> is \<open>time.time()\<close>.\<close>

definition build_answer_from_response ::
  "dnslib \<Rightarrow> real \<Rightarrow> message \<Rightarrow> message \<Rightarrow> answer res" where
  "build_answer_from_response L now request response =
     (case msg_question request of [] \<Rightarrow> Inl IndexError
      | question # _ \<Rightarrow>
        andthen (clone_response_for_request L response request) (\<lambda>normalized_response.
        andthen (mk_answer L (q_name question) (q_type question) (q_class question)
                   normalized_response None None) (\<lambda>answer.
        Inr (case (a_rrset answer, msg_answer normalized_response) of
          (None, rrset # _) \<Rightarrow>
            answer\<lparr>a_rrset := Some rrset, a_canonical := rr_name rrset,
                   a_expiration := now + real (rr_ttl rrset)\<rparr>
        | _ \<Rightarrow> answer))))"

definition make_error_response :: "dnslib \<Rightarrow> message \<Rightarrow> nat \<Rightarrow> message res" where
  "make_error_response L request rcode =
     andthen (make_response L request) (\<lambda>response.
     Inr (response\<lparr>msg_rcode := rcode, msg_id := msg_id request\<rparr>))"

text \<open>The loop that leaves in \<open>target_index\<close> the last index with the property.\<close>

fun last_index :: "('a \<Rightarrow> bool) \<Rightarrow> nat \<Rightarrow> 'a list \<Rightarrow> nat option \<Rightarrow> nat option" where
  "last_index p i [] target_index = target_index"
| "last_index p i (x # xs) target_index =
     last_index p (Suc i) xs (if p x then Some i else target_index)"

definition del_at :: "nat \<Rightarrow> 'a list \<Rightarrow> 'a list" where
  "del_at i xs = take i xs @ drop (Suc i) xs"

definition sync_answer_rrset_to_response :: "answer \<Rightarrow> answer res" where
  "sync_answer_rrset_to_response answer =
     (let rrset = a_rrset answer;
          same = (\<lambda>item. rr_type item = a_type answer \<and> rr_class item = a_class answer) in
      if rrset \<noteq> None \<and> \<not> same (the rrset)
      then Inl (ValueError ''answer.rrset does not match the query'')
      else
        let source = a_response answer;
            section_now = msg_answer source;
            section_new = (case (last_index same 0 section_now None, rrset) of
                (Some i, None) \<Rightarrow> del_at i section_now
              | (None, None) \<Rightarrow> section_now
              | (Some i, Some rr) \<Rightarrow> section_now[i := rr]
              | (None, Some rr) \<Rightarrow> section_now @ [rr]) in
        Inr (answer\<lparr>a_response := source\<lparr>msg_answer := section_new\<rparr>\<rparr>))"

text \<open>
  \<open>sync_answer_response\<close> changes the answer in place, so it is an action on the answer: the
  first call may have changed the response before the codec raises.
\<close>

definition sync_answer_response :: "dnslib \<Rightarrow> (answer, unit) act" where
  "sync_answer_response L =
     act_bind (\<lambda>answer. case sync_answer_rrset_to_response answer of
         Inl e \<Rightarrow> (Inl e, answer) | Inr answer' \<Rightarrow> (Inr (), answer')) (\<lambda>_.
     act_bind (\<lambda>answer. (andthen (to_wire L (a_response answer)) (from_wire L), answer)) (\<lambda>response.
     act_bind (\<lambda>answer. (mk_answer L (a_qname answer) (a_type answer) (a_class answer) response
                            (a_nameserver answer) (a_port answer), answer)) (\<lambda>rebuilt.
     act_upd (\<lambda>answer. answer\<lparr>
       a_response := a_response rebuilt,
       a_chain := a_chain rebuilt,
       a_canonical := a_canonical rebuilt,
       a_rrset := a_rrset rebuilt,
       a_expiration := a_expiration rebuilt\<rparr>))))"

section \<open>Upstream results, the store, the request context\<close>

text \<open>
  \<open>UpstreamResult\<close>. The answer is a reference into \<open>answers\<close>, the collected results are
  references into \<open>results\<close> of the store.
\<close>

record upstream_result =
  upstream_name :: string
  duration_ms :: real
  res_answer :: "nat option"
  res_error :: "py_exn option"
  res_tags :: "string set"
  collected_results :: "nat list"

definition success :: "upstream_result \<Rightarrow> bool" where
  "success r \<longleftrightarrow> res_answer r \<noteq> None"

record store =
  answers :: "answer list"
  results :: "upstream_result list"

definition alloc_answer :: "answer \<Rightarrow> store \<Rightarrow> nat \<times> store" where
  "alloc_answer a st = (length (answers st), st\<lparr>answers := answers st @ [a]\<rparr>)"

definition alloc_result :: "upstream_result \<Rightarrow> store \<Rightarrow> nat \<times> store" where
  "alloc_result r st = (length (results st), st\<lparr>results := results st @ [r]\<rparr>)"

definition upd_answer :: "nat \<Rightarrow> (answer \<Rightarrow> answer) \<Rightarrow> store \<Rightarrow> store" where
  "upd_answer a f st = st\<lparr>answers := (answers st)[a := f (answers st ! a)]\<rparr>"

definition upd_result :: "nat \<Rightarrow> (upstream_result \<Rightarrow> upstream_result) \<Rightarrow> store \<Rightarrow> store" where
  "upd_result r f st = st\<lparr>results := (results st)[r := f (results st ! r)]\<rparr>"

text \<open>
  \<open>inherit_request_tags\<close>: both branches leave the result with its own tags and those of the
  request, in a set of its own.
\<close>

definition inherit_request_tags :: "string set \<Rightarrow> upstream_result \<Rightarrow> upstream_result" where
  "inherit_request_tags request_tags result =
     (if request_tags = {} then result
      else result\<lparr>res_tags := res_tags result \<union> request_tags\<rparr>)"

text \<open>
  \<open>RequestContext\<close>. \<open>world\<close> is the state outside the request that plugins reach through their
  fields and through \<open>extensions\<close>; \<open>metadata\<close> keeps the flags and texts the code sets, and the
  list \<open>plugin_order\<close> apart.
\<close>

record 'w ctx =
  request :: message
  clientaddr :: string
  listener_name :: string
  request_id :: nat
  selected_rule :: "string option"
  selected_group :: "string option"
  selected_dispatcher :: "string option"
  final_answer :: "nat option"
  final_response :: "message option"
  drop_request :: bool
  stop_processing :: bool
  metadata :: "string \<rightharpoonup> string"
  plugin_order :: "string list"
  tags :: "string set"
  upstream_results :: "nat list"
  store_of :: store
  nested_resolve_chain :: "(string \<times> string) list"
  nested_resolve_max_depth :: nat
  world :: 'w

type_synonym ('w, 'a) ctx_act = "('w ctx, 'a) act"

definition is_nested_resolve :: "'w ctx \<Rightarrow> bool" where
  "is_nested_resolve c \<longleftrightarrow> nested_resolve_chain c \<noteq> []"

text \<open>
  \<open>RequestContext.resolve\<close> up to the call of the handler, which is given the context and the
  normalised question.
\<close>

definition ctx_resolve ::
  "('c \<Rightarrow> string \<Rightarrow> string \<Rightarrow> 'a res) option \<Rightarrow> 'c \<Rightarrow> string \<Rightarrow> string \<Rightarrow> 'a res" where
  "ctx_resolve handler c qname qtype =
     (case handler of
        None \<Rightarrow> Inl (NestedResolveError ''context.resolve is not set up'')
      | Some h \<Rightarrow>
          let normalized_qname = py_lower (rstrip_dot (py_strip qname)) in
          if normalized_qname = [] then Inl (ValueError ''qname must not be empty'')
          else
            let normalized_qtype = py_upper (py_strip qtype) in
            if normalized_qtype = [] then Inl (ValueError ''qtype must not be empty'')
            else h c normalized_qname normalized_qtype)"

section \<open>Laws of responses\<close>

lemma clone_response_id:
  "clone_response_for_request L r q = Inr m \<Longrightarrow> msg_id m = msg_id q"
  by (auto simp: clone_response_for_request_def res_simps)

lemma clone_response_codec:
  "codec_ok L r \<Longrightarrow> clone_response_for_request L r q = Inr (r\<lparr>msg_id := msg_id q\<rparr>)"
  by (auto simp: clone_response_for_request_def codec_ok_def)

lemma make_error_response_Inr:
  "make_error_response L q rc = Inr m \<Longrightarrow> msg_id m = msg_id q \<and> msg_rcode m = rc"
  by (auto simp: make_error_response_def res_simps)

lemma last_index_spec:
  "last_index p i xs acc = Some j \<Longrightarrow> j \<ge> i \<Longrightarrow> acc = None \<or> the acc < i \<Longrightarrow>
     j < i + length xs \<and> p (xs ! (j - i))"
proof (induction xs arbitrary: i acc)
  case Nil
  then show ?case by auto
next
  case (Cons x xs)
  let ?acc = "if p x then Some i else acc"
  show ?case
  proof (cases "j = i")
    case True
    have "p x"
    proof (rule ccontr)
      assume "\<not> p x"
      moreover have "\<And>k acc'. last_index p k xs acc' = Some i \<Longrightarrow> i < k \<Longrightarrow> acc' = Some i"
      proof -
        fix k acc'
        assume "last_index p k xs acc' = Some i" "i < k"
        then show "acc' = Some i"
          by (induction xs arbitrary: k acc') (auto split: if_splits, fastforce)
      qed
      ultimately have "acc = Some i" using Cons.prems(1) True by auto
      with Cons.prems(3) show False by simp
    qed
    with True show ?thesis by simp
  next
    case False
    with Cons.prems have j: "j \<ge> Suc i" by simp
    have l: "last_index p (Suc i) xs ?acc = Some j" using Cons.prems(1) by simp
    have a: "?acc = None \<or> the ?acc < Suc i" using Cons.prems(3) by auto
    have "j < Suc i + length xs \<and> p (xs ! (j - Suc i))" by (rule Cons.IH [OF l j a])
    with j show ?thesis by (simp add: nth_Cons')
  qed
qed

lemma last_index_acc:
  "last_index p i xs acc = None \<longleftrightarrow> acc = None \<and> (\<forall>x \<in> set xs. \<not> p x)"
  by (induction xs arbitrary: i acc) auto

lemma sync_rrset_in_response:
  assumes "sync_answer_rrset_to_response a = Inr a'" and "a_rrset a = Some rr"
  shows "rr \<in> set (msg_answer (a_response a')) \<and> a_rrset a' = Some rr"
proof -
  let ?same = "\<lambda>item. rr_type item = a_type a \<and> rr_class item = a_class a"
  have same: "?same rr" using assms by (auto simp: sync_answer_rrset_to_response_def Let_def split: if_splits)
  show ?thesis
  proof (cases "last_index ?same 0 (msg_answer (a_response a)) None")
    case None
    then show ?thesis using assms same by (auto simp: sync_answer_rrset_to_response_def Let_def)
  next
    case (Some i)
    then have "i < length (msg_answer (a_response a))" using last_index_spec [OF Some] by simp
    then have "rr \<in> set ((msg_answer (a_response a))[i := rr])" by (rule set_update_memI)
    with assms same Some show ?thesis by (auto simp: sync_answer_rrset_to_response_def Let_def)
  qed
qed

end
