(* ===== verification/Rules.thy ===== *)
theory Rules
  imports App_Config Dns_Msg
begin

text \<open>
  \<open>rules/engine.py\<close>: the choice of the upstream group and the dispatch strategy of a request,
  from its tags and its query type.
\<close>

record rule_selection =
  sel_upstream_group :: string
  sel_dispatcher :: "dispatch_strategy option"
  sel_rule_name :: "string option"

text \<open>\<open>RuleEngine._matches\<close>\<close>

definition rule_matches :: "rule_config \<Rightarrow> string set \<Rightarrow> string \<Rightarrow> bool" where
  "rule_matches rule ctags qtype =
     (let m = r_match rule in
      if exclude_tags m \<noteq> [] \<and> (\<exists>tag \<in> set (exclude_tags m). tag \<in> ctags) then False
      else if match_tags m \<noteq> [] \<and> \<not> (\<exists>tag \<in> set (match_tags m). tag \<in> ctags) then False
      else if qtypes m \<noteq> [] \<and> qtype \<notin> set (qtypes m) then False
      else True)"

text \<open>
  \<open>rule.action.upstream_group or default\<close>: an empty text counts as no group.
\<close>

definition group_or_default :: "string option \<Rightarrow> string \<Rightarrow> string" where
  "group_or_default g default_group =
     (case g of None \<Rightarrow> default_group | Some n \<Rightarrow> if n = [] then default_group else n)"

fun select_rule :: "rule_config list \<Rightarrow> string \<Rightarrow> string set \<Rightarrow> string \<Rightarrow> rule_selection" where
  "select_rule [] default_group ctags qtype =
     \<lparr>sel_upstream_group = default_group, sel_dispatcher = None, sel_rule_name = None\<rparr>"
| "select_rule (rule # rest) default_group ctags qtype =
     (if \<not> r_enabled rule then select_rule rest default_group ctags qtype
      else if \<not> rule_matches rule ctags qtype then select_rule rest default_group ctags qtype
      else \<lparr>sel_upstream_group = group_or_default (act_upstream_group (r_action rule)) default_group,
            sel_dispatcher = act_dispatcher (r_action rule),
            sel_rule_name = Some (r_name rule)\<rparr>)"

text \<open>\<open>RuleEngine.select\<close>\<close>

definition rule_engine_select ::
  "dnslib \<Rightarrow> rule_config list \<Rightarrow> string \<Rightarrow> message \<Rightarrow> string set \<Rightarrow> rule_selection res" where
  "rule_engine_select L rs default_group req ctags =
     (case msg_question req of [] \<Rightarrow> Inl IndexError
      | q # _ \<Rightarrow> Inr (select_rule rs default_group ctags (py_upper (rdtype_to_text L (q_type q)))))"

section \<open>What a selection is\<close>

lemma select_rule_cases:
  "(\<exists>ys r zs. rs = ys @ r # zs \<and> r_enabled r \<and> rule_matches r ts qt \<and>
      (\<forall>y \<in> set ys. \<not> (r_enabled y \<and> rule_matches y ts qt)) \<and>
      select_rule rs d ts qt = \<lparr>sel_upstream_group = group_or_default (act_upstream_group (r_action r)) d,
         sel_dispatcher = act_dispatcher (r_action r), sel_rule_name = Some (r_name r)\<rparr>) \<or>
   ((\<forall>y \<in> set rs. \<not> (r_enabled y \<and> rule_matches y ts qt)) \<and>
      select_rule rs d ts qt = \<lparr>sel_upstream_group = d, sel_dispatcher = None, sel_rule_name = None\<rparr>)"
proof (induction rs)
  case (Cons a rs)
  show ?case
  proof (cases "r_enabled a \<and> rule_matches a ts qt")
    case True
    then show ?thesis by (intro disjI1 exI [of _ "[]"] exI [of _ a] exI [of _ rs]) simp
  next
    case False
    then have s: "select_rule (a # rs) d ts qt = select_rule rs d ts qt" by auto
    from Cons show ?thesis
    proof (elim disjE exE conjE)
      fix ys r zs
      assume "rs = ys @ r # zs" "r_enabled r" "rule_matches r ts qt"
        "\<forall>y \<in> set ys. \<not> (r_enabled y \<and> rule_matches y ts qt)"
        "select_rule rs d ts qt = \<lparr>sel_upstream_group = group_or_default (act_upstream_group (r_action r)) d,
         sel_dispatcher = act_dispatcher (r_action r), sel_rule_name = Some (r_name r)\<rparr>"
      with False s show ?thesis
        by (intro disjI1 exI [of _ "a # ys"] exI [of _ r] exI [of _ zs]) auto
    next
      assume "\<forall>y \<in> set rs. \<not> (r_enabled y \<and> rule_matches y ts qt)"
        "select_rule rs d ts qt = \<lparr>sel_upstream_group = d, sel_dispatcher = None, sel_rule_name = None\<rparr>"
      with False s show ?thesis by (intro disjI2) auto
    qed
  qed
qed simp

lemma rule_matches_iff:
  "rule_matches r ts qt \<longleftrightarrow>
     set (exclude_tags (r_match r)) \<inter> ts = {} \<and>
     (match_tags (r_match r) = [] \<or> set (match_tags (r_match r)) \<inter> ts \<noteq> {}) \<and>
     (qtypes (r_match r) = [] \<or> qt \<in> set (qtypes (r_match r)))"
  by (auto simp: rule_matches_def Let_def)

lemma group_or_default_cases:
  "group_or_default g d = d \<or> g = Some (group_or_default g d)"
  by (auto simp: group_or_default_def split: option.splits)

lemma selected_group_known:
  assumes wf: "config_wf c"
  shows "sel_upstream_group (select_rule (rules c) (default_upstream_group (runtime c)) ts qt)
           \<in> g_name ` set (groups c)"
proof -
  let ?d = "default_upstream_group (runtime c)"
  have d: "?d \<in> g_name ` set (groups c)" using wf by (simp add: config_wf_def)
  have r: "\<And>r g. r \<in> set (rules c) \<Longrightarrow> act_upstream_group (r_action r) = Some g \<Longrightarrow>
      g \<in> g_name ` set (groups c)"
    using wf by (auto simp: config_wf_def)
  from select_rule_cases [of "rules c" ts qt ?d] show ?thesis
  proof (elim disjE exE conjE)
    fix ys x zs
    assume rs: "rules c = ys @ x # zs" and
      s: "select_rule (rules c) ?d ts qt =
        \<lparr>sel_upstream_group = group_or_default (act_upstream_group (r_action x)) ?d,
         sel_dispatcher = act_dispatcher (r_action x), sel_rule_name = Some (r_name x)\<rparr>"
    have "x \<in> set (rules c)" using rs by simp
    with d r group_or_default_cases [of "act_upstream_group (r_action x)" ?d] s show ?thesis
      by (metis rule_selection.select_convs(1))
  next
    assume "select_rule (rules c) ?d ts qt =
      \<lparr>sel_upstream_group = ?d, sel_dispatcher = None, sel_rule_name = None\<rparr>"
    with d show ?thesis by simp
  qed
qed

section \<open>Properties\<close>

text \<open>
  The selection of a request is made by the first enabled rule whose tags and query types
  match, or is the default group when there is none.
\<close>

theorem rule_selection_first_match:
  "(\<exists>ys r zs. rs = ys @ r # zs \<and> r_enabled r \<and> rule_matches r ts qt \<and>
      list_all (\<lambda>y. \<not> (r_enabled y \<and> rule_matches y ts qt)) ys \<and>
      select_rule rs d ts qt = \<lparr>sel_upstream_group = group_or_default (act_upstream_group (r_action r)) d,
         sel_dispatcher = act_dispatcher (r_action r), sel_rule_name = Some (r_name r)\<rparr>) \<or>
   (list_all (\<lambda>y. \<not> (r_enabled y \<and> rule_matches y ts qt)) rs \<and>
      select_rule rs d ts qt = \<lparr>sel_upstream_group = d, sel_dispatcher = None, sel_rule_name = None\<rparr>)"
  using select_rule_cases [of rs ts qt d] by (simp only: list_all_iff)

end
