(* ===== verification/Resolver.thy ===== *)
theory Resolver
  imports App_Config Dns_Msg
begin

text \<open>
  \<open>resolver/upstream.py\<close> and \<open>resolver/manager.py\<close>: one upstream query and its validation,
  and the manager that knows the upstreams, the groups and the resolvers of plugins.

  The network and dnspython's stub resolver are the argument \<open>net\<close>: for the nameservers of an
  upstream and a question it gives the answer or the exception of
  \<open>dns.asyncresolver.Resolver.resolve\<close>, and the time it took in milliseconds.
\<close>

section \<open>\<open>UpstreamResolver\<close>\<close>

text \<open>
  The settings of \<open>dns.asyncresolver.Resolver\<close> the constructor chooses.
\<close>

record 'ns stub_resolver =
  sr_timeout :: real
  sr_lifetime :: real
  sr_search :: "string list"
  sr_nameservers :: "'ns list"
  sr_rotate :: bool
  sr_retry_servfail :: bool
  sr_payload :: nat
  sr_ecs :: "(string \<times> nat) option"

definition make_stub_resolver :: "upstream_config \<Rightarrow> 'ns list \<Rightarrow> 'ns stub_resolver res" where
  "make_stub_resolver config nss =
     andthen (case u_ecs config of None \<Rightarrow> Inr None
       | Some cidr \<Rightarrow> andthen (ip_network cidr) (\<lambda>subnet.
           Inr (Some (compressed (network_address subnet), prefixlen subnet)))) (\<lambda>ecs.
     Inr \<lparr>sr_timeout = u_timeout config, sr_lifetime = u_lifetime config, sr_search = [],
          sr_nameservers = nss, sr_rotate = True, sr_retry_servfail = True, sr_payload = 1232,
          sr_ecs = ecs\<rparr>)"

text \<open>The result of a resolver before it is put in the store: \<open>UpstreamResult\<close> by value.\<close>

record leaf_result =
  lf_name :: string
  lf_duration :: real
  lf_answer :: "answer option"
  lf_error :: "py_exn option"
  lf_tags :: "string set"

definition validate_answer :: "answer \<Rightarrow> question \<Rightarrow> unit res" where
  "validate_answer answer question =
     andthen (raise_if (a_class answer \<noteq> IN) (ValueError ''class is not IN'')) (\<lambda>_.
     andthen (raise_if (\<not> name_eq (a_qname answer) (q_name question))
                (ValueError ''qname does not match'')) (\<lambda>_.
     raise_if (a_type answer \<noteq> q_type question) (ValueError ''rdtype does not match'')))"

type_synonym 'ns network = "'ns stub_resolver \<Rightarrow> question \<Rightarrow> bool \<Rightarrow> answer res \<times> real"

type_synonym resolver_fun = "message \<Rightarrow> string set \<Rightarrow> leaf_result res"

definition upstream_resolve ::
  "'ns network \<Rightarrow> upstream_config \<Rightarrow> 'ns stub_resolver \<Rightarrow> resolver_fun" where
  "upstream_resolve net config stub req ctags =
     (case msg_question req of [] \<Rightarrow> Inl IndexError
      | question # _ \<Rightarrow>
        (case net stub question (u_use_tcp config) of (outcome, ms) \<Rightarrow>
          (case andthen outcome (\<lambda>answer. andthen (validate_answer answer question) (\<lambda>_. Inr answer)) of
             Inr answer \<Rightarrow>
               Inr \<lparr>lf_name = u_name config, lf_duration = ms, lf_answer = Some answer,
                    lf_error = None, lf_tags = ctags\<rparr>
           | Inl exc \<Rightarrow>
               if is_Exception exc then
                 Inr \<lparr>lf_name = u_name config, lf_duration = ms, lf_answer = None,
                      lf_error = Some exc, lf_tags = ctags\<rparr>
               else Inl exc)))"

lemma validate_answer_Inr [res_simps]:
  "validate_answer a q = Inr u \<longleftrightarrow>
     a_class a = IN \<and> name_eq (a_qname a) (q_name q) \<and> a_type a = q_type q"
  by (auto simp: validate_answer_def res_simps)

lemma upstream_resolve_answer:
  assumes "upstream_resolve net config stub req ts = Inr r" and "lf_answer r = Some a"
  shows "\<exists>q qs. msg_question req = q # qs \<and> a_class a = IN \<and>
           name_eq (a_qname a) (q_name q) \<and> a_type a = q_type q \<and> lf_error r = None"
  using assms
  by (auto simp: upstream_resolve_def res_simps split: list.splits prod.splits sum.splits if_splits)

section \<open>\<open>ResolverManager\<close>\<close>

record resolver_manager =
  rm_groups :: "string \<rightharpoonup> upstream_group_config"
  rm_custom :: "string \<rightharpoonup> resolver_fun"
  rm_resolvers :: "string \<rightharpoonup> resolver_fun"

text \<open>A dictionary built by a comprehension: the last entry of a key counts.\<close>

definition dict_of :: "('k \<times> 'v) list \<Rightarrow> 'k \<rightharpoonup> 'v" where
  "dict_of kvs = map_of (rev kvs)"

lemma dom_dict_of: "dom (dict_of kvs) = fst ` set kvs"
  by (simp add: dict_of_def dom_map_of_conv_image_fst)

lemma dict_of_distinct: "distinct (map fst kvs) \<Longrightarrow> dict_of kvs = map_of kvs"
  unfolding dict_of_def by (metis distinct_rev map_of_inject_set rev_map set_rev)

fun lookup_all :: "(string \<rightharpoonup> 'v) \<Rightarrow> string list \<Rightarrow> 'v list res" where
  "lookup_all m [] = Inr []"
| "lookup_all m (n # ns) =
     (case m n of None \<Rightarrow> Inl (KeyError n)
      | Some v \<Rightarrow> andthen (lookup_all m ns) (\<lambda>vs. Inr (v # vs)))"

definition build_resolver ::
  "'ns network \<Rightarrow> (string \<rightharpoonup> 'ns) \<Rightarrow> upstream_config \<Rightarrow> resolver_fun res" where
  "build_resolver net nsmap upstream =
     andthen (lookup_all nsmap (u_nameservers upstream)) (\<lambda>nss.
     andthen (make_stub_resolver upstream nss) (\<lambda>stub.
     Inr (upstream_resolve net upstream stub)))"

fun build_resolvers ::
  "'ns network \<Rightarrow> (string \<rightharpoonup> 'ns) \<Rightarrow> upstream_config list \<Rightarrow> (string \<times> resolver_fun) list res" where
  "build_resolvers net nsmap [] = Inr []"
| "build_resolvers net nsmap (u # us) =
     andthen (build_resolver net nsmap u) (\<lambda>r.
     andthen (build_resolvers net nsmap us) (\<lambda>rs. Inr ((u_name u, r) # rs)))"

text \<open>
  The constructor; \<open>build_ns\<close> is \<open>build_nameserver_map\<close> on the configured nameservers.
\<close>

definition resolver_manager_init ::
  "'ns network \<Rightarrow> (nameserver_config list \<Rightarrow> (string \<rightharpoonup> 'ns) res) \<Rightarrow> app_config \<Rightarrow>
   (string \<rightharpoonup> resolver_fun) \<Rightarrow> resolver_manager res" where
  "resolver_manager_init net build_ns config custom =
     andthen (build_ns (nameservers config)) (\<lambda>nsmap.
     andthen (build_resolvers net nsmap (upstreams config)) (\<lambda>rs.
     Inr \<lparr>rm_groups = dict_of (map (\<lambda>g. (g_name g, g)) (groups config)),
          rm_custom = custom, rm_resolvers = dict_of rs\<rparr>))"

definition get_group :: "resolver_manager \<Rightarrow> string \<Rightarrow> upstream_group_config res" where
  "get_group rm name = (case rm_groups rm name of None \<Rightarrow> Inl (KeyError name) | Some g \<Rightarrow> Inr g)"

definition has_group :: "resolver_manager \<Rightarrow> string \<Rightarrow> bool" where
  "has_group rm name \<longleftrightarrow> rm_groups rm name \<noteq> None"

text \<open>\<open>ResolverManager.resolve\<close>: the resolver of a plugin comes first.\<close>

definition manager_resolve :: "resolver_manager \<Rightarrow> string \<Rightarrow> resolver_fun" where
  "manager_resolve rm name req ctags =
     (case rm_custom rm name of
        Some custom \<Rightarrow> custom req ctags
      | None \<Rightarrow> (case rm_resolvers rm name of
          Some r \<Rightarrow> r req ctags | None \<Rightarrow> Inl (KeyError name)))"

lemma lookup_all_total: "set ns \<subseteq> dom m \<Longrightarrow> \<exists>vs. lookup_all m ns = Inr vs"
proof (induction ns)
  case (Cons n ns)
  then obtain v vs where "m n = Some v" "lookup_all m ns = Inr vs" by auto
  then show ?case by simp
qed simp

lemma build_resolvers_keys:
  "build_resolvers net nsmap us = Inr rs \<Longrightarrow> map fst rs = map u_name us"
  by (induction us arbitrary: rs) (auto simp: res_simps)

lemma build_resolvers_total:
  assumes "\<forall>u \<in> set us. set (u_nameservers u) \<subseteq> dom nsmap"
    and "\<forall>u \<in> set us. \<forall>cidr. u_ecs u = Some cidr \<longrightarrow> (\<exists>n. ip_network cidr = Inr n)"
  shows "\<exists>rs. build_resolvers net nsmap us = Inr rs"
  using assms
proof (induction us)
  case (Cons u us)
  then obtain rs where rs: "build_resolvers net nsmap us = Inr rs" by auto
  obtain nss where "lookup_all nsmap (u_nameservers u) = Inr nss"
    using lookup_all_total Cons.prems(1) by (metis list.set_intros(1))
  moreover have "\<exists>stub. make_stub_resolver u nss = Inr stub"
    using Cons.prems(2) by (fastforce simp: make_stub_resolver_def split: option.splits)
  ultimately show ?case using rs by (auto simp: build_resolver_def)
qed simp

lemma resolver_manager_total:
  assumes wf: "config_wf c" and ns: "build_ns (nameservers c) = Inr nsmap"
    and dom: "dom nsmap = ns_name ` set (nameservers c)"
    and ecs: "\<forall>u \<in> set (upstreams c). \<forall>cidr. u_ecs u = Some cidr \<longrightarrow> (\<exists>n. ip_network cidr = Inr n)"
  shows "\<exists>rm. resolver_manager_init net build_ns c custom = Inr rm \<and>
     dom (rm_groups rm) = g_name ` set (groups c) \<and> dom (rm_resolvers rm) = u_name ` set (upstreams c)"
proof -
  have "\<forall>u \<in> set (upstreams c). set (u_nameservers u) \<subseteq> dom nsmap"
    using wf dom by (simp add: config_wf_def)
  then obtain rs where rs: "build_resolvers net nsmap (upstreams c) = Inr rs"
    using build_resolvers_total ecs by blast
  then have "fst ` set rs = u_name ` set (upstreams c)"
    using build_resolvers_keys by (metis list.set_map)
  with rs ns show ?thesis
    by (auto simp: resolver_manager_init_def dom_dict_of image_image)
qed

end
