(* ===== verification/Dispatcher.thy ===== *)
theory Dispatcher
  imports Resolver
begin

text \<open>
  \<open>dispatcher/base.py\<close>, \<open>race.py\<close>, \<open>wait_all.py\<close> and \<open>registry.py\<close>: how the targets of an
  upstream group are queried at the same time and one result is chosen.

  The workers of a group run concurrently and send their results over a stream. The order in
  which results arrive is the argument \<open>sched\<close> of the definitions: for a group at a position of
  the tree of dispatches (the list of indices from the root) with \<open>n\<close> targets it gives a
  permutation of the indices, and, for the race, how many further workers had already reported
  their result when the winner was read and the rest were cancelled. Groups may be nested, and
  nothing but the check of the configuration excludes a cycle, so the dispatch takes fuel;
  \<open>None\<close> is a dispatch that is still nesting. A dispatch returns the reference of its result,
  the references given to \<open>on_result\<close>, in order, and the store.
\<close>

section \<open>\<open>DispatchStrategy\<close>\<close>

definition default_result :: "string \<Rightarrow> upstream_result" where
  "default_result message =
     \<lparr>upstream_name = ''unknown'', duration_ms = 0, res_answer = None,
      res_error = Some (RuntimeError message), res_tags = {}, collected_results = []\<rparr>"

text \<open>The loop of \<open>pick_failure_result\<close>: \<open>first_nxdomain\<close> and \<open>first_error\<close> at its end.\<close>

fun pick_failure_loop ::
  "upstream_result list \<Rightarrow> nat list \<Rightarrow> nat option \<Rightarrow> nat option \<Rightarrow> nat option \<times> nat option" where
  "pick_failure_loop rs [] first_nxdomain first_error = (first_nxdomain, first_error)"
| "pick_failure_loop rs (r # refs) first_nxdomain first_error =
     (let result = rs ! r in
      if res_answer result \<noteq> None then pick_failure_loop rs refs first_nxdomain first_error
      else if res_error result = Some NXDOMAIN then
        pick_failure_loop rs refs
          (if first_nxdomain = None then Some r else first_nxdomain) first_error
      else
        pick_failure_loop rs refs first_nxdomain
          (if first_error = None then Some r else first_error))"

definition pick_failure_result :: "nat list \<Rightarrow> string \<Rightarrow> store \<Rightarrow> nat \<times> store" where
  "pick_failure_result refs message st =
     (case pick_failure_loop (results st) refs None None of
        (Some r, _) \<Rightarrow> (r, st)
      | (None, Some r) \<Rightarrow> (r, st)
      | (None, None) \<Rightarrow> alloc_result (default_result message) st)"

section \<open>The two strategies\<close>

type_synonym dispatched = "(nat \<times> nat list \<times> store) option"
type_synonym schedule = "nat list \<Rightarrow> nat \<Rightarrow> nat list \<times> nat"

text \<open>
  The coordinator of the race: results in arrival order, up to the first with an answer. The
  targets come with their positions in the group.
\<close>

fun race_loop ::
  "(nat \<times> string \<Rightarrow> store \<Rightarrow> dispatched) \<Rightarrow> (nat \<times> string) list \<Rightarrow> nat list \<Rightarrow> nat list \<Rightarrow> store \<Rightarrow>
   (nat option \<times> (nat \<times> string) list \<times> nat list \<times> nat list \<times> store) option" where
  "race_loop worker [] failures emitted st = Some (None, [], failures, emitted, st)"
| "race_loop worker (t # rest) failures emitted st =
     (case worker t st of None \<Rightarrow> None
      | Some (r, em, st') \<Rightarrow>
          if res_answer (results st' ! r) \<noteq> None
          then Some (Some r, rest, failures, emitted @ em, st')
          else race_loop worker rest (failures @ [r]) (emitted @ em) st')"

text \<open>Workers whose result is sent, and never read.\<close>

fun late_loop ::
  "(nat \<times> string \<Rightarrow> store \<Rightarrow> dispatched) \<Rightarrow> (nat \<times> string) list \<Rightarrow> nat list \<Rightarrow> store \<Rightarrow>
   (nat list \<times> store) option" where
  "late_loop worker [] emitted st = Some (emitted, st)"
| "late_loop worker (t # rest) emitted st =
     (case worker t st of None \<Rightarrow> None
      | Some (r, em, st') \<Rightarrow> late_loop worker rest (emitted @ em) st')"

definition all_failed :: string where
  "all_failed = ''all upstreams failed''"

definition race_dispatch ::
  "(nat \<times> string \<Rightarrow> store \<Rightarrow> dispatched) \<Rightarrow> (nat \<times> string) list \<Rightarrow> nat \<Rightarrow> store \<Rightarrow> dispatched" where
  "race_dispatch worker arrivals late st =
     (case race_loop worker arrivals [] [] st of
        None \<Rightarrow> None
      | Some (Some winner, rest, failures, emitted, st') \<Rightarrow>
          (case late_loop worker (take late rest) emitted st' of
             None \<Rightarrow> None | Some (em, st'') \<Rightarrow> Some (winner, em, st''))
      | Some (None, rest, failures, emitted, st') \<Rightarrow>
          (case pick_failure_result failures all_failed st' of
             (fallback, st'') \<Rightarrow> Some (fallback, emitted, st'')))"

fun wait_loop ::
  "(nat \<times> string \<Rightarrow> store \<Rightarrow> dispatched) \<Rightarrow> (nat \<times> string) list \<Rightarrow> nat list \<Rightarrow> nat list \<Rightarrow> store \<Rightarrow>
   (nat list \<times> nat list \<times> store) option" where
  "wait_loop worker [] refs emitted st = Some (refs, emitted, st)"
| "wait_loop worker (t # rest) refs emitted st =
     (case worker t st of None \<Rightarrow> None
      | Some (r, em, st') \<Rightarrow> wait_loop worker rest (refs @ [r]) (emitted @ em) st')"

definition wait_all_dispatch ::
  "(nat \<times> string \<Rightarrow> store \<Rightarrow> dispatched) \<Rightarrow> (nat \<times> string) list \<Rightarrow> store \<Rightarrow> dispatched" where
  "wait_all_dispatch worker arrivals st =
     (case wait_loop worker arrivals [] [] st of
        None \<Rightarrow> None
      | Some (refs, emitted, st') \<Rightarrow>
          (case filter (\<lambda>r. res_answer (results st' ! r) \<noteq> None) refs of
             s # ss \<Rightarrow>
               let fastest = first_min (\<lambda>r. duration_ms (results st' ! r)) s ss in
               Some (fastest, emitted, upd_result fastest (\<lambda>x. x\<lparr>collected_results := refs\<rparr>) st')
           | [] \<Rightarrow>
               (case pick_failure_result refs all_failed st' of (fallback, st'') \<Rightarrow>
                  Some (fallback, emitted,
                    upd_result fallback (\<lambda>x. x\<lparr>collected_results := refs\<rparr>) st''))))"

section \<open>\<open>DispatcherRegistry\<close>\<close>

text \<open>
  \<open>dispatch_target\<close> on an upstream: the result goes in the store with the tags of the request;
  an exception becomes a failed result. Both are handed to \<open>on_result\<close>.
\<close>

definition result_of_leaf :: "leaf_result \<Rightarrow> store \<Rightarrow> nat \<times> store" where
  "result_of_leaf lf st =
     (case (case lf_answer lf of None \<Rightarrow> (None, st)
            | Some a \<Rightarrow> (case alloc_answer a st of (i, st1) \<Rightarrow> (Some i, st1))) of
        (ans, st1) \<Rightarrow>
          alloc_result \<lparr>upstream_name = lf_name lf, duration_ms = lf_duration lf, res_answer = ans,
            res_error = lf_error lf, res_tags = lf_tags lf, collected_results = []\<rparr> st1)"

definition dispatch_upstream ::
  "resolver_manager \<Rightarrow> message \<Rightarrow> string set \<Rightarrow> string \<Rightarrow> store \<Rightarrow> nat \<times> nat list \<times> store" where
  "dispatch_upstream rm req ctags target_name st =
     (case manager_resolve rm target_name req ctags of
        Inr lf \<Rightarrow>
          (case result_of_leaf lf st of (r, st') \<Rightarrow>
             (r, [r], upd_result r (inherit_request_tags ctags) st'))
      | Inl exc \<Rightarrow>
          (case alloc_result \<lparr>upstream_name = target_name, duration_ms = 0, res_answer = None,
                  res_error = Some exc, res_tags = ctags, collected_results = []\<rparr> st of
             (r, st') \<Rightarrow> (r, [r], st')))"

definition run_strategy ::
  "dispatch_strategy \<Rightarrow> (nat \<times> string \<Rightarrow> store \<Rightarrow> dispatched) \<Rightarrow> nat list \<times> nat \<Rightarrow> string list \<Rightarrow>
   store \<Rightarrow> dispatched" where
  "run_strategy strategy worker order targets st =
     (let arrivals = map (\<lambda>i. (i, targets ! i)) (fst order) in
      case strategy of
        RACE \<Rightarrow> race_dispatch worker arrivals (snd order) st
      | WAIT_ALL \<Rightarrow> wait_all_dispatch worker arrivals st)"

fun dispatch_target ::
  "resolver_manager \<Rightarrow> schedule \<Rightarrow> message \<Rightarrow> string set \<Rightarrow> dispatch_strategy \<Rightarrow> nat \<Rightarrow> nat list \<Rightarrow>
   string \<Rightarrow> store \<Rightarrow> dispatched" where
  "dispatch_target rm sched req ctags strategy 0 path target_name st = None"
| "dispatch_target rm sched req ctags strategy (Suc fuel) path target_name st =
     (case rm_groups rm target_name of
        Some grp \<Rightarrow>
          run_strategy strategy
            (\<lambda>(i, t). dispatch_target rm sched req ctags strategy fuel (path @ [i]) t)
            (sched path (length (g_upstreams grp))) (g_upstreams grp) st
      | None \<Rightarrow> Some (dispatch_upstream rm req ctags target_name st))"

definition dispatch_group ::
  "resolver_manager \<Rightarrow> schedule \<Rightarrow> message \<Rightarrow> string set \<Rightarrow> nat \<Rightarrow> upstream_group_config \<Rightarrow>
   dispatch_strategy \<Rightarrow> store \<Rightarrow> dispatched" where
  "dispatch_group rm sched req ctags fuel grp strategy st =
     run_strategy strategy
       (\<lambda>(i, t). dispatch_target rm sched req ctags strategy fuel [i] t)
       (sched [] (length (g_upstreams grp))) (g_upstreams grp) st"

definition valid_sched :: "schedule \<Rightarrow> bool" where
  "valid_sched sched \<longleftrightarrow> (\<forall>path n. distinct (fst (sched path n)) \<and> set (fst (sched path n)) = {..<n})"

definition in_order :: schedule where
  "in_order path n = ([0..<n], 0)"

lemma valid_in_order: "valid_sched in_order"
  by (auto simp: valid_sched_def in_order_def)

section \<open>The abstract result: the best outcome of the reachable upstreams\<close>

text \<open>
  What a client can tell apart: an answer, a name that does not exist, any other failure, in
  this order of preference.
\<close>

datatype outcome = Failed | NoName | Answered

fun outcome_rank :: "outcome \<Rightarrow> nat" where
  "outcome_rank Failed = 0"
| "outcome_rank NoName = 1"
| "outcome_rank Answered = 2"

instantiation outcome :: linorder
begin

definition less_eq_outcome :: "outcome \<Rightarrow> outcome \<Rightarrow> bool" where
  "a \<le> b \<longleftrightarrow> outcome_rank a \<le> outcome_rank b"

definition less_outcome :: "outcome \<Rightarrow> outcome \<Rightarrow> bool" where
  "a < b \<longleftrightarrow> outcome_rank a < outcome_rank b"

instance
proof
  fix a b :: outcome
  assume "a \<le> b" "b \<le> a"
  then show "a = b" by (cases a; cases b) (simp_all add: less_eq_outcome_def)
qed (auto simp: less_eq_outcome_def less_outcome_def)

end

lemma Answered_top [simp]: "a \<le> Answered"
  by (cases a) (simp_all add: less_eq_outcome_def)

lemma Failed_bot [simp]: "Failed \<le> a"
  by (cases a) (simp_all add: less_eq_outcome_def)

lemma NoName_le [simp]: "a \<noteq> Answered \<Longrightarrow> a \<le> NoName"
  by (cases a) (simp_all add: less_eq_outcome_def)

definition outcome_of :: "upstream_result \<Rightarrow> outcome" where
  "outcome_of r = (if res_answer r \<noteq> None then Answered
                   else if res_error r = Some NXDOMAIN then NoName else Failed)"

definition leaf_outcome :: "resolver_manager \<Rightarrow> message \<Rightarrow> string set \<Rightarrow> string \<Rightarrow> outcome" where
  "leaf_outcome rm req ctags name =
     (case manager_resolve rm name req ctags of
        Inr lf \<Rightarrow> if lf_answer lf \<noteq> None then Answered
                  else if lf_error lf = Some NXDOMAIN then NoName else Failed
      | Inl exc \<Rightarrow> if exc = NXDOMAIN then NoName else Failed)"

text \<open>The upstreams a target stands for, through any nesting of groups.\<close>

inductive leaf_of :: "resolver_manager \<Rightarrow> string \<Rightarrow> string \<Rightarrow> bool" for rm where
  leaf: "rm_groups rm t = None \<Longrightarrow> leaf_of rm t t"
| nested: "rm_groups rm t = Some g \<Longrightarrow> u \<in> set (g_upstreams g) \<Longrightarrow> leaf_of rm u l \<Longrightarrow> leaf_of rm t l"

inductive_cases leaf_of_leafE: "leaf_of rm t l"

inductive_simps leaf_of_simp: "leaf_of rm t l"

lemma leaf_of_upstream: "rm_groups rm t = None \<Longrightarrow> leaf_of rm t l \<longleftrightarrow> l = t"
  by (subst leaf_of_simp) auto

lemma leaf_of_group:
  "rm_groups rm t = Some g \<Longrightarrow> leaf_of rm t l \<longleftrightarrow> (\<exists>u \<in> set (g_upstreams g). leaf_of rm u l)"
  by (subst leaf_of_simp) auto

definition best_outcome ::
  "resolver_manager \<Rightarrow> message \<Rightarrow> string set \<Rightarrow> string set \<Rightarrow> outcome \<Rightarrow> bool" where
  "best_outcome rm req ctags T o' \<longleftrightarrow>
     (\<exists>t \<in> T. \<exists>l. leaf_of rm t l \<and> leaf_outcome rm req ctags l = o') \<and>
     (\<forall>t \<in> T. \<forall>l. leaf_of rm t l \<longrightarrow> leaf_outcome rm req ctags l \<le> o')"

section \<open>The store only grows while a dispatch runs\<close>

definition grows :: "store \<Rightarrow> store \<Rightarrow> bool" where
  "grows st st' \<longleftrightarrow> prefix (answers st) (answers st') \<and> length (results st) \<le> length (results st') \<and>
     (\<forall>i < length (results st).
        (results st' ! i)\<lparr>collected_results := []\<rparr> = (results st ! i)\<lparr>collected_results := []\<rparr>)"

lemma grows_refl [simp, intro]: "grows st st"
  by (simp add: grows_def)

lemma grows_trans: "grows a b \<Longrightarrow> grows b c \<Longrightarrow> grows a c"
  unfolding grows_def by (auto intro: prefix_order.trans)

lemma grows_length: "grows a b \<Longrightarrow> length (results a) \<le> length (results b)"
  by (simp add: grows_def)

lemma same_fields:
  "r\<lparr>collected_results := xs\<rparr> = r'\<lparr>collected_results := xs\<rparr> \<Longrightarrow>
     upstream_name r = upstream_name r' \<and> duration_ms r = duration_ms r' \<and>
     res_answer r = res_answer r' \<and> res_error r = res_error r' \<and> res_tags r = res_tags r'"
  by (cases r; cases r') simp

lemma grows_fields:
  assumes "grows st st'" and "i < length (results st)"
  shows "res_answer (results st' ! i) = res_answer (results st ! i)"
    and "outcome_of (results st' ! i) = outcome_of (results st ! i)"
    and "duration_ms (results st' ! i) = duration_ms (results st ! i)"
    and "upstream_name (results st' ! i) = upstream_name (results st ! i)"
  using same_fields [where r = "results st' ! i" and r' = "results st ! i" and xs = "[]"] assms
  by (auto simp: grows_def outcome_of_def)

lemma grows_alloc_result: "grows st (snd (alloc_result r st))"
  by (simp add: grows_def alloc_result_def nth_append)

lemma grows_alloc_answer: "grows st (snd (alloc_answer a st))"
  by (simp add: grows_def alloc_answer_def)

lemma grows_collect:
  "r < length (results st) \<Longrightarrow> grows st (upd_result r (\<lambda>x. x\<lparr>collected_results := refs\<rparr>) st)"
  by (auto simp: grows_def upd_result_def nth_list_update)

lemma dispatch_upstream_spec:
  assumes "dispatch_upstream rm req ctags t st = (r, em, st')"
  shows "r < length (results st')" "grows st st'" "em = [r]"
    "outcome_of (results st' ! r) = leaf_outcome rm req ctags t"
    "ctags \<subseteq> res_tags (results st' ! r)"
  using assms
  by (auto simp: dispatch_upstream_def result_of_leaf_def alloc_answer_def alloc_result_def
      upd_result_def inherit_request_tags_def leaf_outcome_def outcome_of_def grows_def nth_append
      split: sum.splits option.splits if_splits)

section \<open>Both strategies choose the best outcome\<close>

text \<open>
  What is required of the worker of a target: it grows the store and its result has an outcome
  \<open>P\<close> allows for the target.
\<close>

definition worker_ok ::
  "(nat \<times> string \<Rightarrow> store \<Rightarrow> dispatched) \<Rightarrow> (string \<Rightarrow> outcome \<Rightarrow> bool) \<Rightarrow> bool" where
  "worker_ok W P \<longleftrightarrow> (\<forall>i t st r em st'. W (i, t) st = Some (r, em, st') \<longrightarrow>
     r < length (results st') \<and> grows st st' \<and> P t (outcome_of (results st' ! r)))"

lemma worker_okD:
  "worker_ok W P \<Longrightarrow> W x st = Some (r, em, st') \<Longrightarrow>
     r < length (results st') \<and> grows st st' \<and> P (snd x) (outcome_of (results st' ! r))"
  by (cases x) (auto simp: worker_ok_def)

definition reported :: "(string \<Rightarrow> outcome \<Rightarrow> bool) \<Rightarrow> store \<Rightarrow> nat \<times> string \<Rightarrow> nat \<Rightarrow> bool" where
  "reported P st x r \<longleftrightarrow> r < length (results st) \<and> P (snd x) (outcome_of (results st ! r))"

lemma reported_grows: "reported P st x r \<Longrightarrow> grows st st' \<Longrightarrow> reported P st' x r"
  using grows_length [of st st'] by (auto simp: reported_def grows_fields)

lemma race_loop_spec:
  assumes ok: "worker_ok W P"
    and "race_loop W arr failures emitted st = Some (w, rest, failures', emitted', st')"
  shows "grows st st' \<and>
    (case w of
       Some r \<Rightarrow> r < length (results st') \<and> outcome_of (results st' ! r) = Answered \<and>
         (\<exists>x \<in> set arr. P (snd x) Answered) \<and> set rest \<subseteq> set arr
     | None \<Rightarrow> (\<exists>new. failures' = failures @ new \<and>
         list_all2 (\<lambda>x r. reported P st' x r \<and> outcome_of (results st' ! r) \<noteq> Answered) arr new))"
  using assms(2)
proof (induction arr arbitrary: failures emitted st)
  case (Cons x arr)
  obtain r em st1 where W: "W x st = Some (r, em, st1)"
    using Cons.prems by (cases "W x st") auto
  from worker_okD [OF ok W] have r: "r < length (results st1)" and g: "grows st st1"
    and P: "P (snd x) (outcome_of (results st1 ! r))" by auto
  show ?case
  proof (cases "res_answer (results st1 ! r) \<noteq> None")
    case True
    with Cons.prems W have "w = Some r" "st' = st1" "rest = arr" by auto
    moreover have "outcome_of (results st1 ! r) = Answered" using True by (simp add: outcome_of_def)
    ultimately show ?thesis using r g P by auto
  next
    case False
    with Cons.prems W
    have "race_loop W arr (failures @ [r]) (emitted @ em) st1 = Some (w, rest, failures', emitted', st')"
      by simp
    from Cons.IH [OF this] have g1: "grows st1 st'" and IH: "case w of
       Some r \<Rightarrow> r < length (results st') \<and> outcome_of (results st' ! r) = Answered \<and>
         (\<exists>x \<in> set arr. P (snd x) Answered) \<and> set rest \<subseteq> set arr
     | None \<Rightarrow> (\<exists>new. failures' = (failures @ [r]) @ new \<and>
         list_all2 (\<lambda>x r. reported P st' x r \<and> outcome_of (results st' ! r) \<noteq> Answered) arr new)"
      by auto
    have rep: "reported P st' x r"
      using r P grows_length [OF g1] by (simp add: reported_def grows_fields(2) [OF g1 r])
    have na: "outcome_of (results st' ! r) \<noteq> Answered"
      using grows_fields(2) [OF g1 r] False by (simp add: outcome_of_def)
    show ?thesis
    proof (cases w)
      case None
      with IH obtain new where "failures' = failures @ (r # new)"
        "list_all2 (\<lambda>x r. reported P st' x r \<and> outcome_of (results st' ! r) \<noteq> Answered) arr new"
        by auto
      with None rep na grows_trans [OF g g1] show ?thesis
        by (auto intro!: exI [of _ "r # new"])
    next
      case (Some r')
      with IH grows_trans [OF g g1] show ?thesis by auto
    qed
  qed
qed auto

lemma late_loop_spec:
  assumes ok: "worker_ok W P" and "late_loop W arr emitted st = Some (em, st')"
  shows "grows st st'"
  using assms(2)
proof (induction arr arbitrary: emitted st)
  case (Cons x arr)
  then obtain r em1 st1 where W: "W x st = Some (r, em1, st1)" by (cases "W x st") auto
  with Cons have "grows st1 st'" by auto
  with worker_okD [OF ok W] show ?case by (blast intro: grows_trans)
qed auto

lemma wait_loop_spec:
  assumes ok: "worker_ok W P" and "wait_loop W arr refs emitted st = Some (refs', emitted', st')"
  shows "grows st st' \<and> (\<exists>new. refs' = refs @ new \<and> list_all2 (reported P st') arr new)"
  using assms(2)
proof (induction arr arbitrary: refs emitted st)
  case (Cons x arr)
  obtain r em st1 where W: "W x st = Some (r, em, st1)"
    using Cons.prems by (cases "W x st") auto
  with Cons.prems have "wait_loop W arr (refs @ [r]) (emitted @ em) st1 = Some (refs', emitted', st')"
    by simp
  from Cons.IH [OF this] obtain new where g1: "grows st1 st'" and new: "refs' = refs @ r # new"
    "list_all2 (reported P st') arr new" by auto
  from worker_okD [OF ok W] have g: "grows st st1" and rep: "reported P st1 x r"
    by (auto simp: reported_def)
  have "reported P st' x r" by (rule reported_grows [OF rep g1])
  with new grows_trans [OF g g1] show ?case by (auto intro!: exI [of _ "r # new"])
qed auto

text \<open>\<open>pick_failure_result\<close> takes the first NXDOMAIN, otherwise the first failure.\<close>

lemma pick_failure_loop_find:
  "pick_failure_loop rs refs nx er =
     (case nx of Some r \<Rightarrow> Some r | None \<Rightarrow> find (\<lambda>r. outcome_of (rs ! r) = NoName) refs,
      case er of Some r \<Rightarrow> Some r | None \<Rightarrow> find (\<lambda>r. outcome_of (rs ! r) = Failed) refs)"
proof (induction rs refs nx er rule: pick_failure_loop.induct)
  case (1 rs nx er)
  then show ?case by (auto split: option.splits)
next
  case (2 rs r refs nx er)
  show ?case
  proof (cases "res_answer (rs ! r)")
    case (Some a)
    with 2 show ?thesis by (auto simp: outcome_of_def Let_def split: option.splits)
  next
    case None
    with 2 show ?thesis by (cases nx; cases er) (simp_all add: outcome_of_def Let_def)
  qed
qed

lemma pick_failure_result_spec:
  assumes "refs \<noteq> []" and na: "\<forall>r \<in> set refs. outcome_of (results st ! r) \<noteq> Answered"
    and p: "pick_failure_result refs msg st = (r, st')"
  shows "st' = st \<and> r \<in> set refs \<and>
    (\<forall>r' \<in> set refs. outcome_of (results st ! r') \<le> outcome_of (results st ! r))"
proof (cases "find (\<lambda>r. outcome_of (results st ! r) = NoName) refs")
  case (Some x)
  then have "r = x" "st' = st"
    using p by (simp_all add: pick_failure_result_def pick_failure_loop_find)
  moreover have "x \<in> set refs" "outcome_of (results st ! x) = NoName"
    using find_Some_in [OF Some] by simp_all
  ultimately show ?thesis using na by simp
next
  case None
  have F: "\<forall>r \<in> set refs. outcome_of (results st ! r) = Failed"
  proof
    fix r assume r: "r \<in> set refs"
    then have "outcome_of (results st ! r) \<noteq> NoName" using None by (simp add: find_None_ball)
    with na r show "outcome_of (results st ! r) = Failed"
      by (cases "outcome_of (results st ! r)") simp_all
  qed
  obtain x where x: "find (\<lambda>r. outcome_of (results st ! r) = Failed) refs = Some x"
    using assms(1) F by (cases refs) simp_all
  then have "r = x" "st' = st"
    using p None by (simp_all add: pick_failure_result_def pick_failure_loop_find)
  with F find_Some_in [OF x] show ?thesis by simp
qed

text \<open>What a strategy returns for the targets \<open>T\<close>.\<close>

definition chosen :: "(string \<Rightarrow> outcome \<Rightarrow> bool) \<Rightarrow> string set \<Rightarrow> outcome \<Rightarrow> bool" where
  "chosen P T o' \<longleftrightarrow> (\<exists>t \<in> T. P t o') \<and> (o' = Answered \<or> (\<forall>t \<in> T. \<exists>q \<le> o'. P t q))"

lemma chosen_best_of:
  assumes rel: "list_all2 (reported P st) arr refs" and r: "r \<in> set refs"
    and best: "\<forall>r' \<in> set refs. outcome_of (results st ! r') \<le> outcome_of (results st ! r)"
  shows "r < length (results st) \<and> chosen P (snd ` set arr) (outcome_of (results st ! r))"
proof -
  obtain i where i: "i < length refs" "refs ! i = r" using r by (auto simp: in_set_conv_nth)
  have len: "length arr = length refs" using rel by (rule list_all2_lengthD)
  have at: "\<And>j. j < length refs \<Longrightarrow> reported P st (arr ! j) (refs ! j)"
    using rel len by (metis list_all2_nthD2)
  have "P (snd (arr ! i)) (outcome_of (results st ! r))" "r < length (results st)"
    using at [OF i(1)] i(2) by (auto simp: reported_def)
  moreover have "arr ! i \<in> set arr" using i len by simp
  moreover have "\<exists>q \<le> outcome_of (results st ! r). P (snd x) q" if x: "x \<in> set arr" for x
  proof -
    from x have "\<exists>j < length arr. arr ! j = x" by (simp add: in_set_conv_nth)
    then obtain j where j: "j < length refs" "arr ! j = x" using len by auto
    then have "P (snd x) (outcome_of (results st ! (refs ! j)))"
      using at [OF j(1)] by (simp add: reported_def)
    moreover have "outcome_of (results st ! (refs ! j)) \<le> outcome_of (results st ! r)"
      using best j by simp
    ultimately show ?thesis by blast
  qed
  ultimately show ?thesis by (auto simp: chosen_def)
qed

lemma race_dispatch_spec:
  assumes ok: "worker_ok W P" and ne: "arr \<noteq> []"
    and d: "race_dispatch W arr late st = Some (r, em, st')"
  shows "r < length (results st') \<and> grows st st' \<and>
    chosen P (snd ` set arr) (outcome_of (results st' ! r))"
proof -
  obtain w rest failures emitted st1 where
    l: "race_loop W arr [] [] st = Some (w, rest, failures, emitted, st1)"
    using d by (cases "race_loop W arr [] [] st") (auto simp: race_dispatch_def)
  note spec = race_loop_spec [OF ok l]
  show ?thesis
  proof (cases w)
    case (Some x)
    then obtain em' where ll: "late_loop W (take late rest) emitted st1 = Some (em', st')" "r = x"
      using d l by (auto simp: race_dispatch_def split: option.splits)
    have g: "grows st1 st'" by (rule late_loop_spec [OF ok ll(1)])
    have r1: "r < length (results st1)" and a: "outcome_of (results st1 ! r) = Answered"
      using spec Some ll(2) by auto
    moreover have "outcome_of (results st' ! r) = Answered" using grows_fields(2) [OF g r1] a by simp
    moreover have "grows st st'" using spec g by (blast intro: grows_trans)
    ultimately show ?thesis using spec Some grows_length [OF g] by (auto simp: chosen_def)
  next
    case None
    have all: "list_all2 (\<lambda>x r. reported P st1 x r \<and> outcome_of (results st1 ! r) \<noteq> Answered) arr failures"
      using spec None by simp
    have rel: "list_all2 (reported P st1) arr failures" by (rule list_all2_mono [OF all]) simp
    have na: "\<forall>r \<in> set failures. outcome_of (results st1 ! r) \<noteq> Answered"
      using all by (auto simp: list_all2_conv_all_nth in_set_conv_nth)
    have fne: "failures \<noteq> []" using rel ne by (auto simp: list_all2_iff)
    have p: "pick_failure_result failures all_failed st1 = (r, st')"
      using d l None by (auto simp: race_dispatch_def split: prod.splits)
    from pick_failure_result_spec [OF fne na p] chosen_best_of [OF rel] spec show ?thesis by auto
  qed
qed

lemma wait_all_dispatch_spec:
  assumes ok: "worker_ok W P" and ne: "arr \<noteq> []"
    and d: "wait_all_dispatch W arr st = Some (r, em, st')"
  shows "r < length (results st') \<and> grows st st' \<and>
    chosen P (snd ` set arr) (outcome_of (results st' ! r)) \<and>
    (\<exists>refs st1. wait_loop W arr [] [] st = Some (refs, em, st1) \<and>
      collected_results (results st' ! r) = refs \<and> r \<in> set refs \<and> length refs = length arr \<and>
      (\<forall>x \<in> set refs. res_answer (results st' ! x) \<noteq> None \<longrightarrow>
         duration_ms (results st' ! r) \<le> duration_ms (results st' ! x)))"
proof -
  obtain refs emitted st1 where l: "wait_loop W arr [] [] st = Some (refs, emitted, st1)"
    using d by (cases "wait_loop W arr [] [] st") (auto simp: wait_all_dispatch_def)
  from wait_loop_spec [OF ok l] have g: "grows st st1" and rel: "list_all2 (reported P st1) arr refs"
    by auto
  have rne: "refs \<noteq> []" and rlen: "length refs = length arr"
    using rel ne by (auto simp: list_all2_iff)
  let ?ok = "filter (\<lambda>r. res_answer (results st1 ! r) \<noteq> None) refs"
  have pick: "r \<in> set refs \<and> emitted = em \<and> st' = upd_result r (\<lambda>x. x\<lparr>collected_results := refs\<rparr>) st1 \<and>
     (\<forall>r' \<in> set refs. outcome_of (results st1 ! r') \<le> outcome_of (results st1 ! r)) \<and>
     (\<forall>x \<in> set refs. res_answer (results st1 ! x) \<noteq> None \<longrightarrow>
        duration_ms (results st1 ! r) \<le> duration_ms (results st1 ! x))"
  proof (cases ?ok)
    case (Cons s ss)
    let ?f = "first_min (\<lambda>r. duration_ms (results st1 ! r)) s ss"
    have eq: "r = ?f" "emitted = em" "st' = upd_result r (\<lambda>x. x\<lparr>collected_results := refs\<rparr>) st1"
      using d l Cons by (auto simp: wait_all_dispatch_def Let_def)
    have "?f \<in> set ?ok" unfolding Cons by (rule first_min_in)
    then have "?f \<in> set refs" "outcome_of (results st1 ! ?f) = Answered"
      by (simp_all add: outcome_of_def)
    moreover have "\<forall>x \<in> set ?ok. duration_ms (results st1 ! ?f) \<le> duration_ms (results st1 ! x)"
      unfolding Cons using first_min_le by fast
    ultimately show ?thesis using eq by simp
  next
    case Nil
    then have none: "\<forall>x \<in> set refs. res_answer (results st1 ! x) = None"
      by (simp add: filter_empty_conv)
    then have na: "\<forall>x \<in> set refs. outcome_of (results st1 ! x) \<noteq> Answered"
      by (simp add: outcome_of_def)
    obtain st2 where p: "pick_failure_result refs all_failed st1 = (r, st2)"
      and st': "emitted = em" "st' = upd_result r (\<lambda>x. x\<lparr>collected_results := refs\<rparr>) st2"
      using d l Nil by (auto simp: wait_all_dispatch_def split: prod.splits)
    from pick_failure_result_spec [OF rne na p] st' none show ?thesis by simp
  qed
  then have best: "\<forall>r' \<in> set refs. outcome_of (results st1 ! r') \<le> outcome_of (results st1 ! r)"
    by simp
  from chosen_best_of [OF rel _ best] pick
  have r: "r < length (results st1)" and c: "chosen P (snd ` set arr) (outcome_of (results st1 ! r))"
    by simp_all
  have g1: "grows st1 st'" using grows_collect [OF r] pick by simp
  have len: "\<forall>x \<in> set refs. x < length (results st1)"
    using rel by (auto simp: list_all2_conv_all_nth in_set_conv_nth reported_def)
  have same: "x \<in> set refs \<Longrightarrow> res_answer (results st' ! x) = res_answer (results st1 ! x) \<and>
      duration_ms (results st' ! x) = duration_ms (results st1 ! x)" for x
    using grows_fields(1,3) [OF g1] len by simp
  have "collected_results (results st' ! r) = refs" using pick r by (simp add: upd_result_def)
  moreover have "\<forall>x \<in> set refs. res_answer (results st' ! x) \<noteq> None \<longrightarrow>
      duration_ms (results st' ! r) \<le> duration_ms (results st' ! x)"
    using pick same by simp
  moreover have "outcome_of (results st' ! r) = outcome_of (results st1 ! r)"
    by (rule grows_fields(2) [OF g1 r])
  ultimately show ?thesis
    using pick c r grows_length [OF g1] grows_trans [OF g g1] rlen l by simp
qed

lemma set_arrivals:
  assumes "valid_sched sched"
  shows "snd ` set (map (\<lambda>i. (i, targets ! i)) (fst (sched path (length targets)))) = set targets"
proof -
  have "set (fst (sched path (length targets))) = {..<length targets}"
    using assms by (simp add: valid_sched_def)
  moreover have "(!) targets ` {..<length targets} = set targets" by (auto simp: set_conv_nth)
  ultimately show ?thesis by (simp add: image_image)
qed

lemma run_strategy_spec:
  assumes ok: "worker_ok W P" and v: "valid_sched sched" and ne: "targets \<noteq> []"
    and d: "run_strategy strategy W (sched path (length targets)) targets st = Some (r, em, st')"
  shows "r < length (results st') \<and> grows st st' \<and>
    chosen P (set targets) (outcome_of (results st' ! r))"
proof -
  let ?arr = "map (\<lambda>i. (i, targets ! i)) (fst (sched path (length targets)))"
  have s: "snd ` set ?arr = set targets" by (rule set_arrivals [OF v])
  with ne have arr: "?arr \<noteq> []" by force
  show ?thesis
  proof (cases strategy)
    case RACE
    then have "race_dispatch W ?arr (snd (sched path (length targets))) st = Some (r, em, st')"
      using d by (simp add: run_strategy_def Let_def)
    from race_dispatch_spec [OF ok arr this] show ?thesis by (simp only: s)
  next
    case WAIT_ALL
    then have "wait_all_dispatch W ?arr st = Some (r, em, st')"
      using d by (simp add: run_strategy_def Let_def)
    from wait_all_dispatch_spec [OF ok arr this] show ?thesis by (simp only: s)
  qed
qed

section \<open>A dispatch returns the best outcome of the upstreams it reaches\<close>

definition groups_nonempty :: "resolver_manager \<Rightarrow> bool" where
  "groups_nonempty rm \<longleftrightarrow> (\<forall>g \<in> ran (rm_groups rm). g_upstreams g \<noteq> [])"

lemma best_outcome_unique:
  "best_outcome rm req ts T a \<Longrightarrow> best_outcome rm req ts T b \<Longrightarrow> a = b"
  unfolding best_outcome_def by (metis order_antisym)

lemma chosen_best:
  assumes "chosen (\<lambda>t. best_outcome rm req ts {t}) T o'"
  shows "best_outcome rm req ts T o'"
proof -
  from assms obtain t where t: "t \<in> T" "best_outcome rm req ts {t} o'" by (auto simp: chosen_def)
  then have ex: "\<exists>t \<in> T. \<exists>l. leaf_of rm t l \<and> leaf_outcome rm req ts l = o'"
    by (auto simp: best_outcome_def)
  show ?thesis
  proof (cases "o' = Answered")
    case True
    with ex show ?thesis by (simp add: best_outcome_def)
  next
    case False
    have "leaf_outcome rm req ts l \<le> o'" if t: "t \<in> T" "leaf_of rm t l" for t l
    proof -
      obtain q where "q \<le> o'" "best_outcome rm req ts {t} q"
        using assms False t(1) by (auto simp: chosen_def)
      with t(2) show ?thesis by (auto simp: best_outcome_def intro: order_trans)
    qed
    with ex show ?thesis by (simp add: best_outcome_def)
  qed
qed

lemma best_outcome_group:
  assumes "rm_groups rm t = Some g" and "best_outcome rm req ts (set (g_upstreams g)) o'"
  shows "best_outcome rm req ts {t} o'"
proof -
  have "leaf_of rm t l \<longleftrightarrow> (\<exists>u \<in> set (g_upstreams g). leaf_of rm u l)" for l
    by (rule leaf_of_group [OF assms(1)])
  with assms(2) show ?thesis by (simp add: best_outcome_def) blast
qed

lemma dispatch_target_spec:
  assumes v: "valid_sched sched" and ne: "groups_nonempty rm"
  shows "dispatch_target rm sched req ts strategy fuel path t st = Some (r, em, st') \<Longrightarrow>
     r < length (results st') \<and> grows st st' \<and>
     best_outcome rm req ts {t} (outcome_of (results st' ! r))"
proof (induction fuel arbitrary: path t st r em st')
  case (Suc fuel)
  show ?case
  proof (cases "rm_groups rm t")
    case None
    then have "dispatch_upstream rm req ts t st = (r, em, st')" using Suc.prems by simp
    from dispatch_upstream_spec [OF this] show ?thesis
      by (simp add: best_outcome_def leaf_of_upstream [OF None])
  next
    case (Some g)
    let ?W = "\<lambda>(i, t). dispatch_target rm sched req ts strategy fuel (path @ [i]) t"
    have W: "worker_ok ?W (\<lambda>t. best_outcome rm req ts {t})"
      using Suc.IH by (simp add: worker_ok_def)
    have up: "g_upstreams g \<noteq> []" using ne Some by (auto simp: groups_nonempty_def ran_def)
    have "run_strategy strategy ?W (sched path (length (g_upstreams g))) (g_upstreams g) st =
        Some (r, em, st')"
      using Suc.prems Some by simp
    from run_strategy_spec [OF W v up this] show ?thesis
      by (simp add: best_outcome_group [OF Some] chosen_best)
  qed
qed simp

lemma dispatch_group_spec:
  assumes v: "valid_sched sched" and ne: "groups_nonempty rm" and up: "g_upstreams g \<noteq> []"
    and d: "dispatch_group rm sched req ts fuel g strategy st = Some (r, em, st')"
  shows "r < length (results st') \<and> grows st st' \<and>
     best_outcome rm req ts (set (g_upstreams g)) (outcome_of (results st' ! r))"
proof -
  let ?W = "\<lambda>(i, t). dispatch_target rm sched req ts strategy fuel [i] t"
  have W: "worker_ok ?W (\<lambda>t. best_outcome rm req ts {t})"
    using dispatch_target_spec [OF v ne] by (simp add: worker_ok_def)
  from run_strategy_spec [OF W v up d [unfolded dispatch_group_def]] show ?thesis
    by (simp add: chosen_best)
qed

section \<open>A dispatch ends\<close>

definition nests :: "resolver_manager \<Rightarrow> (string \<times> string) set" where
  "nests rm = {(a, b). \<exists>g. rm_groups rm a = Some g \<and> b \<in> set (g_upstreams g) \<and> rm_groups rm b \<noteq> None}"

definition total_on :: "(nat \<times> string) set \<Rightarrow> (nat \<times> string \<Rightarrow> store \<Rightarrow> dispatched) \<Rightarrow> bool" where
  "total_on X W \<longleftrightarrow> (\<forall>x \<in> X. \<forall>st. \<exists>d. W x st = Some d)"

lemma race_loop_total:
  "total_on (set arr) W \<Longrightarrow>
     \<exists>w rest fs em st'. race_loop W arr failures emitted st = Some (w, rest, fs, em, st') \<and>
       set rest \<subseteq> set arr"
proof (induction arr arbitrary: failures emitted st)
  case (Cons x arr)
  then obtain r em st1 where W: "W x st = Some (r, em, st1)"
    by (metis list.set_intros(1) prod_cases3 total_on_def)
  have "total_on (set arr) W" using Cons.prems by (simp add: total_on_def)
  from Cons.IH [OF this, of "failures @ [r]" "emitted @ em" st1] W show ?case by fastforce
qed simp

lemma late_loop_total: "total_on (set arr) W \<Longrightarrow> \<exists>d. late_loop W arr emitted st = Some d"
proof (induction arr arbitrary: emitted st)
  case (Cons x arr)
  then obtain r em st1 where W: "W x st = Some (r, em, st1)"
    by (metis list.set_intros(1) prod_cases3 total_on_def)
  have "total_on (set arr) W" using Cons.prems by (simp add: total_on_def)
  from Cons.IH [OF this, of "emitted @ em" st1] W show ?case by simp
qed simp

lemma wait_loop_total: "total_on (set arr) W \<Longrightarrow> \<exists>rs em st'. wait_loop W arr refs emitted st = Some (rs, em, st')"
proof (induction arr arbitrary: refs emitted st)
  case (Cons x arr)
  then obtain r em st1 where W: "W x st = Some (r, em, st1)"
    by (metis list.set_intros(1) prod_cases3 total_on_def)
  have "total_on (set arr) W" using Cons.prems by (simp add: total_on_def)
  from Cons.IH [OF this, of "refs @ [r]" "emitted @ em" st1] W show ?case by simp
qed simp

lemma run_strategy_total:
  assumes "total_on (set (map (\<lambda>i. (i, targets ! i)) (fst order))) W"
  shows "\<exists>d. run_strategy strategy W order targets st = Some d"
proof -
  let ?arr = "map (\<lambda>i. (i, targets ! i)) (fst order)"
  show ?thesis
  proof (cases strategy)
    case RACE
    obtain w rest fs em st' where l: "race_loop W ?arr [] [] st = Some (w, rest, fs, em, st')"
      and sub: "set rest \<subseteq> set ?arr"
      using race_loop_total [OF assms] by blast
    have "set (take (snd order) rest) \<subseteq> set ?arr" using sub set_take_subset [of "snd order" rest] by (rule subset_trans [rotated])
    with assms have "total_on (set (take (snd order) rest)) W" unfolding total_on_def by blast
    then obtain em' st'' where ll: "late_loop W (take (snd order) rest) em st' = Some (em', st'')"
      using late_loop_total by (metis surj_pair)
    obtain f st3 where p: "pick_failure_result fs all_failed st' = (f, st3)" by fastforce
    have "\<exists>d. race_dispatch W ?arr (snd order) st = Some d"
      by (cases w) (simp_all add: race_dispatch_def l ll p)
    with RACE show ?thesis by (simp add: run_strategy_def Let_def)
  next
    case WAIT_ALL
    obtain rs em st' where l: "wait_loop W ?arr [] [] st = Some (rs, em, st')"
      using wait_loop_total [OF assms] by blast
    obtain f st3 where p: "pick_failure_result rs all_failed st' = (f, st3)" by fastforce
    have "\<exists>d. wait_all_dispatch W ?arr st = Some d"
      by (cases "filter (\<lambda>r. res_answer (results st' ! r) \<noteq> None) rs")
        (simp_all add: wait_all_dispatch_def l p Let_def)
    with WAIT_ALL show ?thesis by (simp add: run_strategy_def Let_def)
  qed
qed

lemma trancl_shrinks:
  assumes ac: "acyclic E" and e: "(a, b) \<in> E"
  shows "{x. (b, x) \<in> E\<^sup>+} \<subset> {x. (a, x) \<in> E\<^sup>+}"
proof -
  have "{x. (b, x) \<in> E\<^sup>+} \<subseteq> {x. (a, x) \<in> E\<^sup>+}" using e by (blast intro: trancl_into_trancl2)
  moreover have "b \<in> {x. (a, x) \<in> E\<^sup>+}" using e by blast
  moreover have "b \<notin> {x. (b, x) \<in> E\<^sup>+}" using ac by (simp add: acyclic_def)
  ultimately show ?thesis by blast
qed

lemma dispatch_target_total:
  assumes v: "valid_sched sched" and ac: "acyclic (nests rm)" and fin: "finite (dom (rm_groups rm))"
  shows "card {x. (t, x) \<in> (nests rm)\<^sup>+} + (if rm_groups rm t = None then 0 else 1) < fuel \<Longrightarrow>
    \<exists>d. dispatch_target rm sched req ts strategy fuel path t st = Some d"
proof (induction fuel arbitrary: path t st)
  case (Suc fuel)
  show ?case
  proof (cases "rm_groups rm t")
    case (Some g)
    let ?W = "\<lambda>(i, t). dispatch_target rm sched req ts strategy fuel (path @ [i]) t"
    have fuel: "card {x. (t, x) \<in> (nests rm)\<^sup>+} < fuel" using Suc.prems Some by simp
    have finr: "finite {x. (a, x) \<in> (nests rm)\<^sup>+}" for a
    proof (rule finite_subset [OF _ fin], rule subsetI)
      fix x assume "x \<in> {x. (a, x) \<in> (nests rm)\<^sup>+}"
      then have "x \<in> Range (nests rm)" by (metis Range.RangeI mem_Collect_eq tranclD2)
      then show "x \<in> dom (rm_groups rm)" by (auto simp: nests_def)
    qed
    have "\<exists>d. dispatch_target rm sched req ts strategy fuel p u s = Some d"
      if u: "u \<in> set (g_upstreams g)" for u p s
    proof (rule Suc.IH)
      show "card {x. (u, x) \<in> (nests rm)\<^sup>+} + (if rm_groups rm u = None then 0 else 1) < fuel"
      proof (cases "rm_groups rm u = None")
        case True
        have "{x. (u, x) \<in> (nests rm)\<^sup>+} = {}"
          using True by (auto simp: nests_def dest: tranclD)
        then have "card {x. (u, x) \<in> (nests rm)\<^sup>+} = 0" by (metis card.empty)
        with True fuel show ?thesis by simp
      next
        case False
        have "(t, u) \<in> nests rm" using Some u False by (auto simp: nests_def)
        from psubset_card_mono [OF finr trancl_shrinks [OF ac this]] fuel False
        show ?thesis by simp
      qed
    qed
    then have "total_on (set (map (\<lambda>i. (i, g_upstreams g ! i))
        (fst (sched path (length (g_upstreams g)))))) ?W"
      using v by (auto simp: total_on_def valid_sched_def)
    from run_strategy_total [OF this] Some show ?thesis by simp
  next
    case None
    then show ?thesis by (cases "dispatch_upstream rm req ts t st") simp
  qed
qed simp

lemma dispatch_group_total:
  assumes v: "valid_sched sched" and ac: "acyclic (nests rm)" and fin: "finite (dom (rm_groups rm))"
    and fuel: "card (dom (rm_groups rm)) + 1 < fuel"
  shows "\<exists>d. dispatch_group rm sched req ts fuel g strategy st = Some d"
proof -
  let ?W = "\<lambda>(i, t). dispatch_target rm sched req ts strategy fuel [i] t"
  have "card {x. (t, x) \<in> (nests rm)\<^sup>+} \<le> card (dom (rm_groups rm))" for t
  proof (rule card_mono [OF fin], rule subsetI)
    fix x assume "x \<in> {x. (t, x) \<in> (nests rm)\<^sup>+}"
    then have "x \<in> Range (nests rm)" by (metis Range.RangeI mem_Collect_eq tranclD2)
    then show "x \<in> dom (rm_groups rm)" by (auto simp: nests_def)
  qed
  note le = this
  have bound: "card {x. (t, x) \<in> (nests rm)\<^sup>+} + (if rm_groups rm t = None then 0 else 1) < fuel" for t
    using fuel le [of t] by (cases "rm_groups rm t") simp_all
  have "total_on X ?W" for X
    unfolding total_on_def using dispatch_target_total [OF v ac fin bound]
    by (simp add: case_prod_unfold)
  from run_strategy_total [OF this] show ?thesis by (simp add: dispatch_group_def)
qed

section \<open>What \<open>on_result\<close> is given\<close>

text \<open>
  The result of a dispatch was handed to \<open>on_result\<close> before it was chosen, so that the plugins
  have seen it.
\<close>

definition emits :: "(nat \<times> string \<Rightarrow> store \<Rightarrow> dispatched) \<Rightarrow> bool" where
  "emits W \<longleftrightarrow> (\<forall>x st r em st'. W x st = Some (r, em, st') \<longrightarrow> r \<in> set em)"

lemma emitsD: "emits W \<Longrightarrow> W x st = Some (r, em, st') \<Longrightarrow> r \<in> set em"
  unfolding emits_def by blast

lemma race_loop_emits:
  assumes "emits W" and "race_loop W arr failures emitted st = Some (w, rest, fs, em, st')"
    and "set failures \<subseteq> set emitted"
  shows "set fs \<subseteq> set em \<and> set emitted \<subseteq> set em \<and> (\<forall>r. w = Some r \<longrightarrow> r \<in> set em) \<and>
    (w = None \<longrightarrow> length fs = length failures + length arr)"
  using assms(2,3)
proof (induction arr arbitrary: failures emitted st)
  case (Cons x arr)
  obtain r em1 st1 where W: "W x st = Some (r, em1, st1)" using Cons.prems by (cases "W x st") auto
  then have r: "r \<in> set em1" by (rule emitsD [OF assms(1)])
  show ?case
  proof (cases "res_answer (results st1 ! r) \<noteq> None")
    case True
    with Cons.prems W r show ?thesis by auto
  next
    case False
    with Cons.prems(1) W have
      "race_loop W arr (failures @ [r]) (emitted @ em1) st1 = Some (w, rest, fs, em, st')" by simp
    moreover have "set (failures @ [r]) \<subseteq> set (emitted @ em1)" using Cons.prems(2) r by auto
    ultimately show ?thesis using Cons.IH by fastforce
  qed
qed simp

lemma late_loop_emits:
  "late_loop W arr emitted st = Some (em, st') \<Longrightarrow> set emitted \<subseteq> set em"
proof (induction arr arbitrary: emitted st)
  case (Cons x arr)
  obtain r em1 st1 where "W x st = Some (r, em1, st1)" using Cons.prems by (cases "W x st") auto
  with Cons show ?case by fastforce
qed simp

lemma wait_loop_emits:
  assumes "emits W" and "wait_loop W arr refs emitted st = Some (rs, em, st')"
    and "set refs \<subseteq> set emitted"
  shows "set rs \<subseteq> set em \<and> length rs = length refs + length arr"
  using assms(2,3)
proof (induction arr arbitrary: refs emitted st)
  case (Cons x arr)
  obtain r em1 st1 where W: "W x st = Some (r, em1, st1)" using Cons.prems by (cases "W x st") auto
  then have r: "r \<in> set em1" by (rule emitsD [OF assms(1)])
  have "wait_loop W arr (refs @ [r]) (emitted @ em1) st1 = Some (rs, em, st')"
    using Cons.prems(1) W by simp
  moreover have "set (refs @ [r]) \<subseteq> set (emitted @ em1)" using Cons.prems(2) r by auto
  ultimately show ?case using Cons.IH by fastforce
qed simp

lemma pick_failure_in:
  assumes "pick_failure_result refs msg st = (r, st')" and "refs \<noteq> []"
    and "\<forall>x \<in> set refs. res_answer (results st ! x) = None"
  shows "r \<in> set refs"
  using pick_failure_result_spec [OF assms(2) _ assms(1)] assms(3) by (simp add: outcome_of_def)

lemma race_loop_failures:
  assumes ok: "worker_ok W P"
    and l: "race_loop W arr [] [] st = Some (None, rest, fs, em, st')"
  shows "\<forall>x \<in> set fs. res_answer (results st' ! x) = None"
proof -
  have "list_all2 (\<lambda>x r. reported P st' x r \<and> outcome_of (results st' ! r) \<noteq> Answered) arr fs"
    using race_loop_spec [OF ok l] by simp
  then show ?thesis
    by (auto simp: list_all2_conv_all_nth in_set_conv_nth outcome_of_def split: if_splits)
qed

lemma race_dispatch_emits:
  assumes em: "emits W" and ok: "worker_ok W P" and ne: "arr \<noteq> []"
    and d: "race_dispatch W arr late st = Some (r, emitted, st')"
  shows "r \<in> set emitted"
proof -
  obtain w rest fs em1 st1 where l: "race_loop W arr [] [] st = Some (w, rest, fs, em1, st1)"
    using d by (cases "race_loop W arr [] [] st") (auto simp: race_dispatch_def)
  note e = race_loop_emits [OF em l]
  show ?thesis
  proof (cases w)
    case (Some x)
    then obtain st2 where ll: "late_loop W (take late rest) em1 st1 = Some (emitted, st2)" "r = x"
      using d l by (auto simp: race_dispatch_def split: option.splits)
    with Some e late_loop_emits [OF ll(1)] show ?thesis by auto
  next
    case None
    have p: "pick_failure_result fs all_failed st1 = (r, st')" and em1: "em1 = emitted"
      using d l None by (auto simp: race_dispatch_def split: prod.splits)
    have "fs \<noteq> []" using e None ne by auto
    with pick_failure_in [OF p] race_loop_failures [OF ok] l None have "r \<in> set fs" by blast
    with e em1 show ?thesis by auto
  qed
qed

lemma run_strategy_emits:
  assumes em: "emits W" and ok: "worker_ok W P" and ne: "fst order \<noteq> []"
    and d: "run_strategy strategy W order targets st = Some (r, emitted, st')"
  shows "r \<in> set emitted"
proof -
  let ?arr = "map (\<lambda>i. (i, targets ! i)) (fst order)"
  have arr: "?arr \<noteq> []" using ne by simp
  show ?thesis
  proof (cases strategy)
    case RACE
    with d have "race_dispatch W ?arr (snd order) st = Some (r, emitted, st')"
      by (simp add: run_strategy_def Let_def)
    then show ?thesis by (rule race_dispatch_emits [OF em ok arr])
  next
    case WAIT_ALL
    with d have w: "wait_all_dispatch W ?arr st = Some (r, emitted, st')"
      by (simp add: run_strategy_def Let_def)
    from wait_all_dispatch_spec [OF ok arr this] obtain refs st1 where
      "wait_loop W ?arr [] [] st = Some (refs, emitted, st1)" "r \<in> set refs" by blast
    with wait_loop_emits [OF em] show ?thesis by fastforce
  qed
qed

lemma dispatch_target_emits:
  assumes v: "valid_sched sched" and ne: "groups_nonempty rm"
  shows "dispatch_target rm sched req ts strategy fuel path t st = Some (r, em, st') \<Longrightarrow> r \<in> set em"
proof (induction fuel arbitrary: path t st r em st')
  case (Suc fuel)
  show ?case
  proof (cases "rm_groups rm t")
    case None
    then have "dispatch_upstream rm req ts t st = (r, em, st')" using Suc.prems by simp
    from dispatch_upstream_spec(3) [OF this] show ?thesis by simp
  next
    case (Some g)
    let ?W = "\<lambda>(i, t). dispatch_target rm sched req ts strategy fuel (path @ [i]) t"
    have W: "worker_ok ?W (\<lambda>t. best_outcome rm req ts {t})"
      using dispatch_target_spec [OF v ne] by (simp add: worker_ok_def)
    have E: "emits ?W" unfolding emits_def using Suc.IH by fast
    have "g_upstreams g \<noteq> []" using ne Some by (auto simp: groups_nonempty_def ran_def)
    then have "set (fst (sched path (length (g_upstreams g)))) \<noteq> {}"
      using v by (auto simp: valid_sched_def)
    then have o: "fst (sched path (length (g_upstreams g))) \<noteq> []" by auto
    have "run_strategy strategy ?W (sched path (length (g_upstreams g))) (g_upstreams g) st =
        Some (r, em, st')"
      using Suc.prems Some by simp
    then show ?thesis by (rule run_strategy_emits [OF E W o])
  qed
qed simp

lemma dispatch_group_emits:
  assumes v: "valid_sched sched" and ne: "groups_nonempty rm" and up: "g_upstreams g \<noteq> []"
    and d: "dispatch_group rm sched req ts fuel g strategy st = Some (r, em, st')"
  shows "r \<in> set em"
proof -
  let ?W = "\<lambda>(i, t). dispatch_target rm sched req ts strategy fuel [i] t"
  have W: "worker_ok ?W (\<lambda>t. best_outcome rm req ts {t})"
    using dispatch_target_spec [OF v ne] by (simp add: worker_ok_def)
  have E: "emits ?W" unfolding emits_def using dispatch_target_emits [OF v ne] by fast
  have "set (fst (sched [] (length (g_upstreams g)))) \<noteq> {}" using v up by (auto simp: valid_sched_def)
  then have o: "fst (sched [] (length (g_upstreams g))) \<noteq> []" by auto
  show ?thesis by (rule run_strategy_emits [OF E W o d [unfolded dispatch_group_def]])
qed

section \<open>Invariants of the store\<close>

text \<open>The references of the results are in the store.\<close>

definition store_ok :: "store \<Rightarrow> bool" where
  "store_ok st \<longleftrightarrow> (\<forall>r \<in> set (results st). \<forall>a. res_answer r = Some a \<longrightarrow> a < length (answers st))"

definition keeps_store :: "(nat \<times> string \<Rightarrow> store \<Rightarrow> dispatched) \<Rightarrow> bool" where
  "keeps_store W \<longleftrightarrow> (\<forall>x st r em st'. store_ok st \<longrightarrow> W x st = Some (r, em, st') \<longrightarrow> store_ok st')"

lemma keeps_storeD: "keeps_store W \<Longrightarrow> W x st = Some (r, em, st') \<Longrightarrow> store_ok st \<Longrightarrow> store_ok st'"
  unfolding keeps_store_def by blast

lemma store_ok_alloc: "store_ok st \<Longrightarrow> res_answer r = None \<Longrightarrow> store_ok (snd (alloc_result r st))"
  by (simp add: store_ok_def alloc_result_def)

lemma store_ok_collect: "store_ok st \<Longrightarrow> store_ok (upd_result r (\<lambda>x. x\<lparr>collected_results := refs\<rparr>) st)"
proof (cases "r < length (results st)")
  case True
  assume ok: "store_ok st"
  have "results st ! r \<in> set (results st)" using True by simp
  with ok show ?thesis
    by (auto simp: store_ok_def upd_result_def dest!: subsetD [OF set_update_subset_insert])
next
  case False
  assume "store_ok st"
  with False show ?thesis by (simp add: store_ok_def upd_result_def list_update_beyond)
qed

lemma race_loop_store:
  "keeps_store W \<Longrightarrow> race_loop W arr fs em st = Some (w, rest, fs', em', st') \<Longrightarrow> store_ok st \<Longrightarrow> store_ok st'"
proof (induction arr arbitrary: fs em st)
  case (Cons x arr)
  obtain r em1 st1 where W: "W x st = Some (r, em1, st1)" using Cons.prems by (cases "W x st") auto
  with Cons.prems have "store_ok st1" by (blast dest: keeps_storeD)
  with Cons W show ?case by (auto split: if_splits)
qed simp

lemma late_loop_store:
  "keeps_store W \<Longrightarrow> late_loop W arr em st = Some (em', st') \<Longrightarrow> store_ok st \<Longrightarrow> store_ok st'"
proof (induction arr arbitrary: em st)
  case (Cons x arr)
  obtain r em1 st1 where W: "W x st = Some (r, em1, st1)" using Cons.prems by (cases "W x st") auto
  with Cons.prems have "store_ok st1" by (blast dest: keeps_storeD)
  with Cons W show ?case by auto
qed simp

lemma wait_loop_store:
  "keeps_store W \<Longrightarrow> wait_loop W arr refs em st = Some (rs, em', st') \<Longrightarrow> store_ok st \<Longrightarrow> store_ok st'"
proof (induction arr arbitrary: refs em st)
  case (Cons x arr)
  obtain r em1 st1 where W: "W x st = Some (r, em1, st1)" using Cons.prems by (cases "W x st") auto
  with Cons.prems have "store_ok st1" by (blast dest: keeps_storeD)
  with Cons W show ?case by auto
qed simp

lemma pick_failure_store:
  "pick_failure_result refs msg st = (r, st') \<Longrightarrow> store_ok st \<Longrightarrow> store_ok st'"
  using store_ok_alloc [of st "default_result msg"]
  by (auto simp: pick_failure_result_def default_result_def split: prod.splits option.splits)

lemma run_strategy_store:
  assumes k: "keeps_store W" and ok: "store_ok st"
    and d: "run_strategy strategy W order targets st = Some (r, em, st')"
  shows "store_ok st'"
proof -
  let ?arr = "map (\<lambda>i. (i, targets ! i)) (fst order)"
  show ?thesis
  proof (cases strategy)
    case RACE
    with d have d': "race_dispatch W ?arr (snd order) st = Some (r, em, st')"
      by (simp add: run_strategy_def Let_def)
    obtain w rest fs em1 st1 where l: "race_loop W ?arr [] [] st = Some (w, rest, fs, em1, st1)"
      using d' by (cases "race_loop W ?arr [] [] st") (auto simp: race_dispatch_def)
    have s1: "store_ok st1" by (rule race_loop_store [OF k l ok])
    show ?thesis
    proof (cases w)
      case None
      then have "pick_failure_result fs all_failed st1 = (r, st')"
        using d' l by (auto simp: race_dispatch_def split: prod.splits)
      then show ?thesis using s1 by (rule pick_failure_store)
    next
      case (Some x)
      then have "late_loop W (take (snd order) rest) em1 st1 = Some (em, st')"
        using d' l by (auto simp: race_dispatch_def split: option.splits)
      then show ?thesis using s1 by (rule late_loop_store [OF k])
    qed
  next
    case WAIT_ALL
    with d have d': "wait_all_dispatch W ?arr st = Some (r, em, st')"
      by (simp add: run_strategy_def Let_def)
    obtain refs em1 st1 where l: "wait_loop W ?arr [] [] st = Some (refs, em1, st1)"
      using d' by (cases "wait_loop W ?arr [] [] st") (auto simp: wait_all_dispatch_def)
    have s1: "store_ok st1" by (rule wait_loop_store [OF k l ok])
    obtain f st2 where p: "pick_failure_result refs all_failed st1 = (f, st2)" by fastforce
    have s2: "store_ok st2" by (rule pick_failure_store [OF p s1])
    have "\<exists>x st3. (st3 = st1 \<or> st3 = st2) \<and> st' = upd_result x (\<lambda>x. x\<lparr>collected_results := refs\<rparr>) st3"
      using d' l p
      by (cases "filter (\<lambda>r. res_answer (results st1 ! r) \<noteq> None) refs")
        (auto simp: wait_all_dispatch_def Let_def)
    with s1 s2 store_ok_collect show ?thesis by blast
  qed
qed

lemma dispatch_upstream_store:
  "store_ok st \<Longrightarrow> dispatch_upstream rm req ts t st = (r, em, st') \<Longrightarrow> store_ok st'"
  by (auto simp: store_ok_def dispatch_upstream_def result_of_leaf_def alloc_answer_def
      alloc_result_def upd_result_def inherit_request_tags_def nth_append less_Suc_eq
      split: sum.splits option.splits if_splits dest: in_set_conv_nth [THEN iffD1])

lemma dispatch_target_store:
  "store_ok st \<Longrightarrow> dispatch_target rm sched req ts strategy fuel path t st = Some (r, em, st') \<Longrightarrow>
     store_ok st'"
proof (induction fuel arbitrary: path t st r em st')
  case (Suc fuel)
  show ?case
  proof (cases "rm_groups rm t")
    case None
    then have "dispatch_upstream rm req ts t st = (r, em, st')" using Suc.prems(2) by simp
    then show ?thesis by (rule dispatch_upstream_store [OF Suc.prems(1)])
  next
    case (Some g)
    have "keeps_store (\<lambda>(i, t). dispatch_target rm sched req ts strategy fuel (path @ [i]) t)"
      unfolding keeps_store_def using Suc.IH by fast
    from run_strategy_store [OF this Suc.prems(1)] Suc.prems(2) Some show ?thesis by simp
  qed
qed simp

lemma dispatch_group_store:
  assumes "store_ok st" and "dispatch_group rm sched req ts fuel g strategy st = Some (r, em, st')"
  shows "store_ok st'"
proof -
  have "keeps_store (\<lambda>(i, t). dispatch_target rm sched req ts strategy fuel [i] t)"
    unfolding keeps_store_def using dispatch_target_store by fast
  from run_strategy_store [OF this assms(1)] assms(2) show ?thesis by (simp add: dispatch_group_def)
qed

section \<open>Properties\<close>

lemma manager_of_config:
  assumes wf: "config_wf c" and fields: "list_all group_fields_ok (groups c)"
    and rm: "resolver_manager_init net build_ns c custom = Inr rm"
  shows "nests rm = group_graph c" "acyclic (nests rm)" "finite (dom (rm_groups rm))"
    "card (dom (rm_groups rm)) \<le> length (groups c)" "groups_nonempty rm"
    "\<And>g. g \<in> set (groups c) \<Longrightarrow> rm_groups rm (g_name g) = Some g"
proof -
  have d: "distinct (map g_name (groups c))" using wf by (simp add: config_wf_def)
  let ?kvs = "map (\<lambda>g. (g_name g, g)) (groups c)"
  have "rm_groups rm = dict_of ?kvs"
    using rm by (auto simp: resolver_manager_init_def andthen_Inr_iff)
  moreover have "distinct (map fst ?kvs)" using d by (simp add: comp_def)
  ultimately have G: "rm_groups rm = map_of ?kvs" by (simp add: dict_of_distinct)
  have some: "rm_groups rm a = Some g \<longleftrightarrow> g \<in> set (groups c) \<and> g_name g = a" for a g
    using map_of_eq_Some_iff [of ?kvs a g] d by (auto simp: G comp_def)
  have none: "rm_groups rm b \<noteq> None \<longleftrightarrow> b \<in> g_name ` set (groups c)" for b
    using some by (metis (no_types, opaque_lifting) image_iff not_None_eq)
  show "nests rm = group_graph c"
    unfolding nests_def group_graph_def some none by blast
  then show "acyclic (nests rm)" using wf by (simp add: config_wf_def)
  have dom: "dom (rm_groups rm) = g_name ` set (groups c)" using none by (auto simp: dom_def)
  then show "finite (dom (rm_groups rm))" by simp
  show "card (dom (rm_groups rm)) \<le> length (groups c)"
    unfolding dom by (metis card_image_le card_length finite_set le_trans)
  show "groups_nonempty rm"
    using fields some by (auto simp: groups_nonempty_def ran_def list_all_iff group_fields_ok_def)
  show "\<And>g. g \<in> set (groups c) \<Longrightarrow> rm_groups rm (g_name g) = Some g" using some by blast
qed

definition sample_upstream :: "string \<Rightarrow> upstream_config" where
  "sample_upstream n = \<lparr>u_name = n, u_nameservers = [''ns''], u_timeout = 2, u_lifetime = 5,
     u_use_tcp = False, u_ecs = None\<rparr>"

text \<open>Two groups, one inside the other, and two upstreams.\<close>

definition sample_config :: app_config where
  "sample_config = \<lparr>runtime = runtime_defaults\<lparr>default_upstream_group := ''g1''\<rparr>,
     tree_root = \<lparr>domain_dir = None, ip_dir = None\<rparr>,
     listeners = [\<lparr>l_name = ''udp'', l_protocol = UDP, l_host = ''127.0.0.1'', l_port = 53, l_enabled = True\<rparr>],
     nameservers = [Do53Nameserver ''ns'' ''192.0.2.1'' 53],
     upstreams = [sample_upstream ''u1'', sample_upstream ''u2''],
     groups = [\<lparr>g_name = ''g1'', g_upstreams = [''u1'', ''g2'']\<rparr>, \<lparr>g_name = ''g2'', g_upstreams = [''u2'']\<rparr>],
     rules = [], plugins = [],
     webui = \<lparr>w_enabled = False, w_doh_enabled = False, w_host = ''127.0.0.1'', w_port = 8080,
       w_username = ''admin'', w_password = ''admin''\<rparr>\<rparr>"

text \<open>A network in which every name is unknown.\<close>

definition empty_network :: "unit network" where
  "empty_network stub q tcp = (Inl NXDOMAIN, 3)"

definition sample_nameservers :: "nameserver_config list \<Rightarrow> (string \<rightharpoonup> unit) res" where
  "sample_nameservers cs = Inr (map_of (map (\<lambda>c. (ns_name c, ())) cs))"

definition sample_manager :: resolver_manager where
  "sample_manager = (case resolver_manager_init empty_network sample_nameservers sample_config Map.empty of
     Inr rm \<Rightarrow> rm | Inl _ \<Rightarrow> \<lparr>rm_groups = Map.empty, rm_custom = Map.empty, rm_resolvers = Map.empty\<rparr>)"

lemma sample_config_valid: "validate_references sample_config = Inr ()"
  by code_simp

lemma sample_config_fields: "list_all group_fields_ok (groups sample_config)"
  by (simp add: sample_config_def group_fields_ok_def)

lemma sample_manager_init:
  "resolver_manager_init empty_network sample_nameservers sample_config Map.empty = Inr sample_manager"
  by (simp add: sample_manager_def resolver_manager_init_def sample_nameservers_def sample_config_def
      build_resolver_def sample_upstream_def make_stub_resolver_def)

definition sample_query :: message where
  "sample_query = \<lparr>msg_id = 5, msg_flags = 0, msg_opcode = OP_QUERY, msg_rcode = NOERROR,
     msg_question = [\<lparr>q_name = ''a.cn.'', q_type = RT_A, q_class = IN\<rparr>],
     msg_answer = [], msg_authority = [], msg_additional = []\<rparr>"

text \<open>
  C2: For a configuration that passes its checks, the dispatch of a group ends, with fuel for
  the nesting of its groups, whatever the order in which results arrive; its result was given to
  \<open>on_result\<close>, and it has the best outcome (an answer before a missing name before a failure) of
  all the upstreams the group reaches. So the outcome does not depend on the schedule nor on the
  strategy.
\<close>

theorem dispatch_of_valid_config:
  assumes "validate_references c = Inr ()" and "list_all group_fields_ok (groups c)"
    and "resolver_manager_init net build_ns c custom = Inr rm"
    and "g \<in> set (groups c)" and "valid_sched sched" and "length (groups c) + 1 < fuel"
  shows "\<exists>r em st'. dispatch_group rm sched req ts fuel g strategy st = Some (r, em, st') \<and>
     r \<in> set em \<and> best_outcome rm req ts (set (g_upstreams g)) (outcome_of (results st' ! r))"
proof -
  have wf: "config_wf c" using assms(1) by (simp add: validate_references_wf)
  note m = manager_of_config [OF wf assms(2,3)]
  have up: "g_upstreams g \<noteq> []" using assms(2,4) by (auto simp: list_all_iff group_fields_ok_def)
  have "card (dom (rm_groups rm)) + 1 < fuel" using m(4) assms(6) by simp
  from dispatch_group_total [OF assms(5) m(2,3) this] obtain r em st' where
    d: "dispatch_group rm sched req ts fuel g strategy st = Some (r, em, st')" by (metis surj_pair)
  from dispatch_group_spec [OF assms(5) m(5) up d] dispatch_group_emits [OF assms(5) m(5) up d] d
  show ?thesis by blast
qed

theorem dispatch_of_valid_config_witness:
  "\<exists>r em st'. dispatch_group sample_manager in_order sample_query {} 4 \<lparr>g_name = ''g1'', g_upstreams = [''u1'', ''g2'']\<rparr>
       RACE \<lparr>answers = [], results = []\<rparr> = Some (r, em, st') \<and> r \<in> set em \<and>
     best_outcome sample_manager sample_query {} {''u1'', ''g2''} (outcome_of (results st' ! r))"
  using dispatch_of_valid_config [OF sample_config_valid sample_config_fields sample_manager_init _ valid_in_order,
      of "\<lparr>g_name = ''g1'', g_upstreams = [''u1'', ''g2'']\<rparr>" 4 sample_query "{}" RACE "\<lparr>answers = [], results = []\<rparr>"]
  by (simp add: sample_config_def)


lemma sample_manager_eq: "rm_groups sample_manager = map_of
    [(''g2'', \<lparr>g_name = ''g2'', g_upstreams = [''u2'']\<rparr>),
     (''g1'', \<lparr>g_name = ''g1'', g_upstreams = [''u1'', ''g2'']\<rparr>)]"
  by (simp add: sample_manager_def resolver_manager_init_def sample_nameservers_def sample_config_def
      build_resolver_def sample_upstream_def make_stub_resolver_def dict_of_def)

lemma sample_groups_nonempty: "groups_nonempty sample_manager"
  by (auto simp: groups_nonempty_def sample_manager_eq ran_def split: if_splits)


end
