(* ===== verification/Plugin_Api.thy ===== *)
theory Plugin_Api
  imports Resolver
begin

text \<open>
  \<open>plugin_api/base.py\<close>: the hooks of a plugin, the registry plugins fill when they are set up,
  and the manager that runs the hooks in their order.

  A plugin is a record of its orders and its hooks. A hook is an action on the request context;
  the fields of a plugin and the objects it registers are in the \<open>world\<close> of the context, so a
  hook may read and change them. \<open>on_upstream_response\<close> is given the reference of the result.
\<close>

section \<open>Registries\<close>

definition normalize_tag_list :: "string list option \<Rightarrow> string list" where
  "normalize_tag_list value = (case value of None \<Rightarrow> [] | Some items \<Rightarrow> strip_loop {} items)"

datatype 'v context_registration = RegValue 'v | RegFactory "unit \<Rightarrow> 'v"

fun registration_build :: "'v context_registration \<Rightarrow> 'v" where
  "registration_build (RegValue v) = v"
| "registration_build (RegFactory f) = f ()"

record ('v, 'm) plugin_registry =
  context_registry :: "(string \<times> 'v context_registration) list"
  resolver_registry :: "(string \<times> 'm) list"
  answer_registry :: "(string \<times> (message \<Rightarrow> message res)) list"

definition registry_empty :: "('v, 'm) plugin_registry" where
  "registry_empty = \<lparr>context_registry = [], resolver_registry = [], answer_registry = []\<rparr>"

text \<open>\<open>PluginRegistry._register\<close>\<close>

definition register :: "(string \<times> 'x) list \<Rightarrow> string \<Rightarrow> 'x \<Rightarrow> (string \<times> 'x) list res" where
  "register bucket name value =
     (if name \<in> fst ` set bucket then Inl (ValueError (''registered twice: '' @ name))
      else Inr (bucket @ [(name, value)]))"

definition register_context ::
  "string \<Rightarrow> 'v \<Rightarrow> ('v, 'm) plugin_registry \<Rightarrow> ('v, 'm) plugin_registry res" where
  "register_context name value reg =
     andthen (register (context_registry reg) name (RegValue value)) (\<lambda>b.
     Inr (reg\<lparr>context_registry := b\<rparr>))"

definition register_context_factory ::
  "string \<Rightarrow> (unit \<Rightarrow> 'v) \<Rightarrow> ('v, 'm) plugin_registry \<Rightarrow> ('v, 'm) plugin_registry res" where
  "register_context_factory name factory reg =
     andthen (register (context_registry reg) name (RegFactory factory)) (\<lambda>b.
     Inr (reg\<lparr>context_registry := b\<rparr>))"

definition register_resolver ::
  "string \<Rightarrow> 'm \<Rightarrow> ('v, 'm) plugin_registry \<Rightarrow> ('v, 'm) plugin_registry res" where
  "register_resolver name value reg =
     andthen (register (resolver_registry reg) name value) (\<lambda>b.
     Inr (reg\<lparr>resolver_registry := b\<rparr>))"

definition register_answer ::
  "string \<Rightarrow> (message \<Rightarrow> message res) \<Rightarrow> ('v, 'm) plugin_registry \<Rightarrow> ('v, 'm) plugin_registry res" where
  "register_answer name builder reg =
     andthen (register (answer_registry reg) name builder) (\<lambda>b.
     Inr (reg\<lparr>answer_registry := b\<rparr>))"

definition registry_ok :: "('v, 'm) plugin_registry \<Rightarrow> bool" where
  "registry_ok reg \<longleftrightarrow> distinct (map fst (context_registry reg)) \<and>
     distinct (map fst (resolver_registry reg)) \<and> distinct (map fst (answer_registry reg))"

lemma register_Inr:
  "register b n v = Inr b' \<longleftrightarrow> n \<notin> fst ` set b \<and> b' = b @ [(n, v)]"
  by (auto simp: register_def)

lemma register_keeps:
  assumes "registry_ok reg"
  shows "register_context n v reg = Inr reg' \<Longrightarrow> registry_ok reg'"
    and "register_context_factory n f reg = Inr reg' \<Longrightarrow> registry_ok reg'"
    and "register_resolver n r reg = Inr reg' \<Longrightarrow> registry_ok reg'"
    and "register_answer n a reg = Inr reg' \<Longrightarrow> registry_ok reg'"
  using assms
  by (auto simp: registry_ok_def register_context_def register_context_factory_def
      register_resolver_def register_answer_def register_Inr res_simps)

section \<open>Loading plugins\<close>

text \<open>
  A plugin class: its setup changes the registry, after pydantic has validated the two
  configuration values (the functions \<open>pc_config\<close> and \<open>pc_variables\<close>). The class is found by
  the name of its module; \<open>modules\<close> gives \<open>None\<close> for a module that exports no plugin.
\<close>

record ('v, 'm) plugin_class =
  pc_plugin_name :: string
  pc_ui_meta :: json
  pc_config :: "json \<Rightarrow> json res"
  pc_variables :: "json \<Rightarrow> json res"
  pc_setup :: "json \<Rightarrow> json \<Rightarrow> ('v, 'm) plugin_registry \<Rightarrow> ('v, 'm) plugin_registry res"

record ('v, 'm) loaded_plugin =
  lp_class :: "('v, 'm) plugin_class"
  lp_config :: json
  lp_variables :: json
  lp_raw :: plugin_config

definition static_plugin_module_names :: "string list" where
  "static_plugin_module_names =
     [''block_plugin'', ''cache_plugin'', ''cloudflare_ech_plugin'', ''https_plugin'',
      ''ip_filter_plugin'', ''ip_replace_plugin'', ''query_log_plugin'', ''redirect_plugin'',
      ''sample_plugin'', ''speedtest_plugin'', ''tag_plugin'']"

text \<open>
  \<open>_create_plugin_instance\<close>: \<open>load_static_plugin_module\<close> raises \<open>FileNotFoundError\<close> for a name
  that is not built in, \<open>_load_plugin_template\<close> raises \<open>TypeError\<close>.
\<close>

definition create_plugin_instance ::
  "(string \<Rightarrow> ('v, 'm) plugin_class option) \<Rightarrow> string \<Rightarrow> ('v, 'm) plugin_class res" where
  "create_plugin_instance modules name =
     (if name \<notin> set static_plugin_module_names then Inl (FileNotFoundError name)
      else case modules name of None \<Rightarrow> Inl (TypeError name) | Some cls \<Rightarrow> Inr cls)"

fun register_shared ::
  "(string \<times> 'v) list \<Rightarrow> ('v, 'm) plugin_registry \<Rightarrow> ('v, 'm) plugin_registry res" where
  "register_shared [] reg = Inr reg"
| "register_shared ((name, value) # rest) reg =
     andthen (register_context name value reg) (register_shared rest)"

fun load_plugins ::
  "(string \<Rightarrow> ('v, 'm) plugin_class option) \<Rightarrow> plugin_config list \<Rightarrow> ('v, 'm) plugin_registry \<Rightarrow>
   (('v, 'm) loaded_plugin list \<times> ('v, 'm) plugin_registry) res" where
  "load_plugins modules [] reg = Inr ([], reg)"
| "load_plugins modules (pc # rest) reg =
     (if \<not> p_enabled pc then load_plugins modules rest reg
      else
        andthen (create_plugin_instance modules (p_module pc)) (\<lambda>cls.
        andthen (pc_config cls (p_config pc)) (\<lambda>config.
        andthen (pc_variables cls (p_variables pc)) (\<lambda>variables.
        andthen (pc_setup cls config variables reg) (\<lambda>reg'.
        andthen (load_plugins modules rest reg') (\<lambda>(loaded, reg'').
        Inr (\<lparr>lp_class = cls, lp_config = config, lp_variables = variables, lp_raw = pc\<rparr> # loaded,
             reg'')))))))"

text \<open>\<open>PluginManager.build\<close>\<close>

definition plugin_manager_build ::
  "(string \<Rightarrow> ('v, 'm) plugin_class option) \<Rightarrow> plugin_config list \<Rightarrow> (string \<times> 'v) list \<Rightarrow>
   (('v, 'm) loaded_plugin list \<times> ('v, 'm) plugin_registry) res" where
  "plugin_manager_build modules configs shared =
     andthen (register_shared shared registry_empty) (load_plugins modules configs)"

definition build_context_extensions :: "('v, 'm) plugin_registry \<Rightarrow> (string \<times> 'v) list" where
  "build_context_extensions reg = map (\<lambda>(n, r). (n, registration_build r)) (context_registry reg)"

lemma register_shared_ok:
  "register_shared xs reg = Inr reg' \<Longrightarrow> registry_ok reg \<Longrightarrow>
     registry_ok reg' \<and> map fst (context_registry reg') = map fst (context_registry reg) @ map fst xs"
proof (induction xs arbitrary: reg)
  case (Cons x xs)
  obtain n v where x: "x = (n, v)" by fastforce
  with Cons.prems(1) obtain reg1 where r1: "register_context n v reg = Inr reg1"
    "register_shared xs reg1 = Inr reg'" by (auto simp: andthen_Inr_iff)
  from register_keeps(1) [OF Cons.prems(2) r1(1)] have "registry_ok reg1" .
  moreover have "map fst (context_registry reg1) = map fst (context_registry reg) @ [n]"
    using r1(1) by (auto simp: register_context_def register_Inr res_simps)
  ultimately show ?case using Cons.IH [OF r1(2)] x by simp
qed simp

lemma load_plugins_ok:
  assumes su: "\<forall>m cls config vars r r'. modules m = Some cls \<longrightarrow>
      pc_setup cls config vars r = Inr r' \<longrightarrow> registry_ok r \<longrightarrow> registry_ok r'"
  shows "load_plugins modules pcs reg = Inr (loaded, reg') \<Longrightarrow> registry_ok reg \<Longrightarrow>
     registry_ok reg' \<and> map lp_raw loaded = filter p_enabled pcs \<and>
     (\<forall>l \<in> set loaded. p_module (lp_raw l) \<in> set static_plugin_module_names)"
proof (induction pcs arbitrary: reg loaded)
  case (Cons pc pcs)
  show ?case
  proof (cases "p_enabled pc")
    case True
    with Cons.prems(1) obtain cls config vars reg1 rest where
      c: "create_plugin_instance modules (p_module pc) = Inr cls"
      "pc_setup cls config vars reg = Inr reg1"
      "load_plugins modules pcs reg1 = Inr (rest, reg')"
      "loaded = \<lparr>lp_class = cls, lp_config = config, lp_variables = vars, lp_raw = pc\<rparr> # rest"
      by (auto simp: res_simps)
    have m: "modules (p_module pc) = Some cls" "p_module pc \<in> set static_plugin_module_names"
      using c(1) by (auto simp: create_plugin_instance_def split: if_splits option.splits)
    have "registry_ok reg1" using su m(1) c(2) Cons.prems(2) by blast
    from Cons.IH [OF c(3) this] c(4) m(2) True show ?thesis by simp
  next
    case False
    with Cons show ?thesis by simp
  qed
qed simp

section \<open>Hooks\<close>

record 'w plugin =
  pl_name :: string
  request_order :: int
  upstream_response_order :: int
  response_order :: int
  observe_order :: int
  on_request :: "('w, unit) ctx_act"
  on_upstream_response :: "nat \<Rightarrow> ('w, unit) ctx_act"
  on_response :: "('w, unit) ctx_act"
  on_observe :: "('w, unit) ctx_act"
  on_finish :: "('w, unit) ctx_act"

text \<open>The class \<open>Plugin\<close>, whose hooks do nothing; a plugin overrides some of them.\<close>

definition plugin_base :: "string \<Rightarrow> 'w plugin" where
  "plugin_base name =
     \<lparr>pl_name = name, request_order = 0, upstream_response_order = 0, response_order = 0,
      observe_order = 0, on_request = act_ret (), on_upstream_response = (\<lambda>_. act_ret ()),
      on_response = act_ret (), on_observe = act_ret (), on_finish = act_ret ()\<rparr>"

definition has_any_tag :: "string set \<Rightarrow> string list \<Rightarrow> bool" where
  "has_any_tag current_tags configured_tags \<longleftrightarrow> (\<exists>t \<in> set configured_tags. t \<in> current_tags)"

text \<open>\<open>_ordered_plugins\<close>: Python's sort is stable.\<close>

definition ordered_plugins :: "('w plugin \<Rightarrow> int) \<Rightarrow> 'w plugin list \<Rightarrow> 'w plugin list" where
  "ordered_plugins order_attr ps = sort_key order_attr ps"

definition halted :: "'w ctx \<Rightarrow> bool" where
  "halted c \<longleftrightarrow> drop_request c \<or> stop_processing c"

fun run_until_halted ::
  "('w plugin \<Rightarrow> ('w, unit) ctx_act) \<Rightarrow> 'w plugin list \<Rightarrow> ('w, unit) ctx_act" where
  "run_until_halted hook [] = act_ret ()"
| "run_until_halted hook (p # ps) =
     act_bind (hook p) (\<lambda>_. \<lambda>c. if halted c then (Inr (), c) else run_until_halted hook ps c)"

fun run_all :: "('w plugin \<Rightarrow> ('w, unit) ctx_act) \<Rightarrow> 'w plugin list \<Rightarrow> ('w, unit) ctx_act" where
  "run_all hook [] = act_ret ()"
| "run_all hook (p # ps) = act_bind (hook p) (\<lambda>_. run_all hook ps)"

definition pm_on_request :: "'w plugin list \<Rightarrow> ('w, unit) ctx_act" where
  "pm_on_request ps =
     run_until_halted
       (\<lambda>p. act_bind (act_upd (\<lambda>c. c\<lparr>plugin_order := plugin_order c @ [pl_name p]\<rparr>)) (\<lambda>_. on_request p))
       (ordered_plugins request_order ps)"

definition pm_on_upstream_response :: "'w plugin list \<Rightarrow> nat \<Rightarrow> ('w, unit) ctx_act" where
  "pm_on_upstream_response ps r =
     run_all (\<lambda>p. on_upstream_response p r) (ordered_plugins upstream_response_order ps)"

definition pm_on_response :: "'w plugin list \<Rightarrow> ('w, unit) ctx_act" where
  "pm_on_response ps = run_until_halted on_response (ordered_plugins response_order ps)"

definition pm_on_observe :: "'w plugin list \<Rightarrow> ('w, unit) ctx_act" where
  "pm_on_observe ps = run_all on_observe (ordered_plugins observe_order ps)"

text \<open>\<open>on_finish\<close> goes through the plugins in load order and survives their exceptions.\<close>

definition pm_on_finish :: "'w plugin list \<Rightarrow> ('w, unit) ctx_act" where
  "pm_on_finish ps = run_all (\<lambda>p. act_try (on_finish p) (\<lambda>_. act_ret ())) ps"

section \<open>The order and the extent of hooks\<close>

lemma ordered_plugins_set [simp]: "set (ordered_plugins f ps) = set ps"
  by (simp add: ordered_plugins_def)

lemma ordered_plugins_stable:
  "filter (\<lambda>p. f p = k) (ordered_plugins f ps) = filter (\<lambda>p. f p = k) ps"
  by (simp add: ordered_plugins_def sort_key_stable)

lemma run_all_Inr:
  "run_all hook ps c = (Inr u, c') \<Longrightarrow> c' = fold (\<lambda>p c. snd (hook p c)) ps c"
proof (induction ps arbitrary: c)
  case (Cons p ps)
  then obtain c1 where "hook p c = (Inr (), c1)" "run_all hook ps c1 = (Inr u, c')"
    by (auto simp: act_bind_Inr)
  with Cons.IH show ?case by simp
qed (simp add: act_simps)

lemma pm_on_finish_all:
  assumes "\<forall>p \<in> set ps. \<forall>c e c'. on_finish p c = (Inl e, c') \<longrightarrow> is_Exception e"
  shows "pm_on_finish ps c = (Inr (), fold (\<lambda>p c. snd (on_finish p c)) ps c)"
  using assms
proof (induction ps arbitrary: c)
  case (Cons p ps)
  obtain r c1 where r: "on_finish p c = (r, c1)" by fastforce
  then have "act_try (on_finish p) (\<lambda>_. act_ret ()) c = (Inr (), c1)"
    using Cons.prems by (cases r) (auto simp: act_try_def act_simps)
  with Cons r show ?case by (simp add: pm_on_finish_def act_simps)
qed (simp add: pm_on_finish_def act_simps)

lemma run_all_keeps:
  assumes "reflp R" "transp R" and "\<And>p. p \<in> set ps \<Longrightarrow> keeps R (hook p)"
  shows "keeps R (run_all hook ps)"
  using assms(3)
  by (induction ps) (auto intro!: keeps_bind [OF assms(2)] keeps_basic [OF assms(1)])

lemma run_until_halted_keeps:
  assumes r: "reflp R" and t: "transp R" and "\<And>p. p \<in> set ps \<Longrightarrow> keeps R (hook p)"
  shows "keeps R (run_until_halted hook ps)"
  using assms(3)
proof (induction ps)
  case (Cons p ps)
  have "keeps R (\<lambda>c. if halted c then (Inr (), c) else run_until_halted hook ps c)"
    using Cons r by (auto simp: keeps_def reflpD)
  with Cons show ?case by (auto intro!: keeps_bind [OF t])
qed (auto intro!: keeps_basic [OF r])

text \<open>A halted context ends the loop: the plugins run form a prefix of the order.\<close>

lemma run_until_halted_prefix:
  assumes "run_until_halted hook ps c = (Inr u, c')"
  shows "\<exists>qs. prefix qs ps \<and> c' = fold (\<lambda>p c. snd (hook p c)) qs c \<and>
           (qs = ps \<or> (qs \<noteq> [] \<and> halted c'))"
  using assms
proof (induction ps arbitrary: c)
  case Nil
  then show ?case by (simp add: act_simps)
next
  case (Cons p ps)
  then obtain c1 where h: "hook p c = (Inr (), c1)"
    and rest: "(if halted c1 then (Inr (), c1) else run_until_halted hook ps c1) = (Inr u, c')"
    by (auto simp: act_bind_Inr)
  show ?case
  proof (cases "halted c1")
    case True
    with h rest show ?thesis by (intro exI [of _ "[p]"]) auto
  next
    case False
    with rest Cons.IH obtain qs where "prefix qs ps" "c' = fold (\<lambda>p c. snd (hook p c)) qs c1"
      "qs = ps \<or> (qs \<noteq> [] \<and> halted c')" by auto
    with h show ?thesis by (intro exI [of _ "p # qs"]) auto
  qed
qed

end
