(* ===== verification/Engine.thy ===== *)
theory Engine
  imports Rules Dispatcher Plugin_Api
begin

text \<open>
  \<open>pipeline/engine.py\<close>: the handling of a request, from the message to the response.

  An engine is the record of what the constructor is given. \<open>e_now\<close> is the clock,
  \<open>e_sched\<close> the arrival order of the upstreams' results and \<open>e_fuel\<close> the fuel of a dispatch.
  \<open>on_upstream_response\<close> runs in tasks that are started when a result is known and end before the
  request phase goes on. None of these tasks changes what the dispatcher looks at, so they are
  run here in the order of their start, after the dispatch; an exception of one of them ends the
  task group, which raises an exception group.
\<close>

record 'w engine =
  e_lib :: dnslib
  e_rm :: resolver_manager
  e_rules :: "rule_config list"
  e_default_group :: string
  e_default_dispatcher :: dispatch_strategy
  e_plugins :: "'w plugin list"
  e_sched :: schedule
  e_fuel :: nat
  e_now :: real

definition max_nested_resolve_depth :: nat where
  "max_nested_resolve_depth = 8"

fun strategy_text :: "dispatch_strategy \<Rightarrow> string" where
  "strategy_text RACE = ''race''"
| "strategy_text WAIT_ALL = ''wait_all''"

section \<open>Requests\<close>

text \<open>\<open>_validate_request_or_error\<close>: \<open>Some\<close> is the response to an invalid request.\<close>

definition validate_request_or_error :: "dnslib \<Rightarrow> message \<Rightarrow> message option res" where
  "validate_request_or_error L req =
     (if msg_opcode req \<noteq> OP_QUERY \<or> length (msg_question req) \<noteq> 1
      then andthen (make_error_response L req FORMERR) (\<lambda>m. Inr (Some m))
      else if q_class (hd (msg_question req)) \<noteq> IN
      then andthen (make_error_response L req FORMERR) (\<lambda>m. Inr (Some m))
      else Inr None)"

definition valid_request :: "message \<Rightarrow> bool" where
  "valid_request req \<longleftrightarrow> msg_opcode req = OP_QUERY \<and>
     (\<exists>q. msg_question req = [q] \<and> q_class q = IN)"

definition build_context ::
  "message \<Rightarrow> string \<Rightarrow> string \<Rightarrow> store \<Rightarrow> (string \<times> string) list \<Rightarrow> 'w \<Rightarrow> 'w ctx" where
  "build_context req caddr lname st chain w =
     \<lparr>request = req, clientaddr = caddr, listener_name = lname, request_id = msg_id req,
      selected_rule = None, selected_group = None, selected_dispatcher = None,
      final_answer = None, final_response = None, drop_request = False, stop_processing = False,
      metadata = Map.empty, plugin_order = [], tags = {}, upstream_results = [], store_of = st,
      nested_resolve_chain = chain, nested_resolve_max_depth = max_nested_resolve_depth,
      world = w\<rparr>"

section \<open>Dispatch\<close>

text \<open>
  \<open>_dispatch_context\<close>: returns the result and the results given to \<open>on_result\<close>.
\<close>

definition dispatch_context :: "'w engine \<Rightarrow> ('w, nat \<times> nat list) ctx_act" where
  "dispatch_context E =
     act_bind (\<lambda>c. (rule_engine_select (e_lib E) (e_rules E) (e_default_group E) (request c) (tags c), c))
       (\<lambda>selection.
     act_bind (act_upd (\<lambda>c. c\<lparr>selected_rule := sel_rule_name selection,
                             selected_group := Some (sel_upstream_group selection)\<rparr>)) (\<lambda>_.
     let dispatcher = (case sel_dispatcher selection of None \<Rightarrow> e_default_dispatcher E | Some d \<Rightarrow> d) in
     act_bind (act_lift (get_group (e_rm E) (sel_upstream_group selection))) (\<lambda>grp.
     act_bind (act_upd (\<lambda>c. c\<lparr>selected_dispatcher := Some (strategy_text dispatcher)\<rparr>)) (\<lambda>_.
     \<lambda>c. case dispatch_group (e_rm E) (e_sched E) (request c) (tags c) (e_fuel E) grp dispatcher
               (store_of c) of
         None \<Rightarrow> (Inl Hang, c)
       | Some (r, emitted, st) \<Rightarrow>
           (Inr (r, emitted), c\<lparr>store_of := st, upstream_results := upstream_results c @ [r]\<rparr>)))))"

text \<open>The tasks of \<open>on_result\<close>, and the exception of the task group around the dispatch.\<close>

fun run_on_results :: "'w plugin list \<Rightarrow> nat list \<Rightarrow> ('w, unit) ctx_act" where
  "run_on_results ps [] = act_ret ()"
| "run_on_results ps (r # rs) = act_bind (pm_on_upstream_response ps r) (\<lambda>_. run_on_results ps rs)"

definition in_task_group :: "('w, 'a) ctx_act \<Rightarrow> ('w, 'a) ctx_act" where
  "in_task_group m = act_try m (\<lambda>_. act_raise (OtherError ''ExceptionGroup''))"

definition dispatch_phase :: "'w engine \<Rightarrow> ('w, nat) ctx_act" where
  "dispatch_phase E = in_task_group
     (act_bind (dispatch_context E) (\<lambda>(r, emitted).
      act_bind (run_on_results (e_plugins E) emitted) (\<lambda>_. act_ret r)))"

section \<open>The phases\<close>

text \<open>\<open>_run_request_phase\<close>: \<open>True\<close> when the request is dropped.\<close>

definition no_final :: "'w ctx \<Rightarrow> bool" where
  "no_final c \<longleftrightarrow> final_answer c = None \<and> final_response c = None"

definition apply_dispatch_result :: "'w engine \<Rightarrow> nat \<Rightarrow> ('w, unit) ctx_act" where
  "apply_dispatch_result E r = (\<lambda>c.
     let result = results (store_of c) ! r in
     if \<not> no_final c then (Inr (), c)
     else case res_answer result of
       Some a \<Rightarrow> (Inr (), c\<lparr>final_answer := Some a\<rparr>)
     | None \<Rightarrow>
         if res_error result = Some NXDOMAIN then
           (case make_error_response (e_lib E) (request c) RC_NXDOMAIN of
              Inl e \<Rightarrow> (Inl e, c)
            | Inr m \<Rightarrow> (Inr (), c\<lparr>final_response := Some m\<rparr>))
         else (Inr (), c))"

definition run_request_phase :: "'w engine \<Rightarrow> ('w, bool) ctx_act" where
  "run_request_phase E =
     act_bind (pm_on_request (e_plugins E)) (\<lambda>_. \<lambda>c.
       if drop_request c then (Inr True, c)
       else if stop_processing c then (Inr False, c)
       else if \<not> no_final c then (Inr False, c)
       else act_bind (dispatch_phase E) (\<lambda>r.
            act_bind (apply_dispatch_result E r) (\<lambda>_. act_ret False)) c)"

definition run_response_phase :: "'w engine \<Rightarrow> ('w, bool) ctx_act" where
  "run_response_phase E = (\<lambda>c.
     if stop_processing c then (Inr False, c)
     else act_bind (pm_on_response (e_plugins E)) (\<lambda>_. act_get drop_request) c)"

section \<open>Finalisation\<close>

text \<open>\<open>context.final_answer = build_answer_from_response(request, response)\<close>\<close>

definition set_answer_from :: "'w engine \<Rightarrow> message \<Rightarrow> message \<Rightarrow> ('w, unit) ctx_act" where
  "set_answer_from E req response = (\<lambda>c.
     case build_answer_from_response (e_lib E) (e_now E) req response of
       Inl e \<Rightarrow> (Inl e, c)
     | Inr a \<Rightarrow> (case alloc_answer a (store_of c) of (i, st) \<Rightarrow>
         (Inr (), c\<lparr>final_answer := Some i, store_of := st\<rparr>)))"

text \<open>\<open>sync_answer_response\<close> on an answer of the store.\<close>

definition sync_answer_at :: "dnslib \<Rightarrow> nat \<Rightarrow> ('w, unit) ctx_act" where
  "sync_answer_at L i = (\<lambda>c.
     case sync_answer_response L (answers (store_of c) ! i) of (r, a) \<Rightarrow>
       (r, c\<lparr>store_of := upd_answer i (\<lambda>_. a) (store_of c)\<rparr>))"

definition response_from_answer :: "'w engine \<Rightarrow> nat \<Rightarrow> ('w, unit) ctx_act" where
  "response_from_answer E i =
     act_bind (sync_answer_at (e_lib E) i) (\<lambda>_. \<lambda>c.
       case clone_response_for_request (e_lib E) (a_response (answers (store_of c) ! i)) (request c) of
         Inl e \<Rightarrow> (Inl e, c)
       | Inr m \<Rightarrow> (Inr (), c\<lparr>final_response := Some m\<rparr>))"

definition set_error_response :: "'w engine \<Rightarrow> message \<Rightarrow> nat \<Rightarrow> ('w, message) ctx_act" where
  "set_error_response E req rcode = (\<lambda>c.
     case make_error_response (e_lib E) req rcode of
       Inl e \<Rightarrow> (Inl e, c)
     | Inr m \<Rightarrow> act_bind (set_answer_from E req m) (\<lambda>_. act_ret m) (c\<lparr>final_response := Some m\<rparr>))"

definition finalize_context :: "'w engine \<Rightarrow> ('w, unit) ctx_act" where
  "finalize_context E = (\<lambda>c.
     case (final_answer c, final_response c) of
       (None, Some m) \<Rightarrow> set_answer_from E (request c) m c
     | (Some i, None) \<Rightarrow> response_from_answer E i c
     | (None, None) \<Rightarrow> act_bind (set_error_response E (request c) SERVFAIL) (\<lambda>_. act_ret ()) c
     | (Some i, Some _) \<Rightarrow> response_from_answer E i c)"

definition observe_context :: "'w engine \<Rightarrow> ('w, unit) ctx_act" where
  "observe_context E = act_try (pm_on_observe (e_plugins E)) (\<lambda>_. act_ret ())"

definition finish_context :: "'w engine \<Rightarrow> ('w, unit) ctx_act" where
  "finish_context E = act_try (pm_on_finish (e_plugins E)) (\<lambda>_. act_ret ())"

section \<open>\<open>handle_message\<close>\<close>

text \<open>The body of the \<open>try\<close> block: \<open>None\<close> is a dropped request.\<close>

definition handle_body :: "'w engine \<Rightarrow> message \<Rightarrow> ('w, message option) ctx_act" where
  "handle_body E req =
     act_bind (run_request_phase E) (\<lambda>dropped.
     if dropped then act_ret None
     else
     act_bind (run_response_phase E) (\<lambda>dropped'.
     if dropped' then act_ret None
     else
     act_bind (finalize_context E) (\<lambda>_.
     act_bind (observe_context E) (\<lambda>_. \<lambda>c.
       (case final_response c of
          None \<Rightarrow> (andthen (make_error_response (e_lib E) req SERVFAIL) (\<lambda>m. Inr (Some m)), c)
        | Some m \<Rightarrow> (andthen (clone_response_for_request (e_lib E) m req) (\<lambda>m'. Inr (Some m')), c))))))"

text \<open>
  The handlers: a cancellation leaves a SERVFAIL in the context and is raised again, any other
  exception is answered by SERVFAIL.
\<close>

definition handle_failure :: "'w engine \<Rightarrow> message \<Rightarrow> py_exn \<Rightarrow> ('w, message option) ctx_act" where
  "handle_failure E req e =
     (if e = Hang then act_raise Hang
      else if e = Cancelled then
        act_bind (set_error_response E req SERVFAIL) (\<lambda>_. act_raise Cancelled)
      else
        act_bind (act_upd (\<lambda>c. c\<lparr>metadata := (metadata c)(''pipeline_error'' \<mapsto> ''exception'')\<rparr>)) (\<lambda>_.
        act_bind (set_error_response E req SERVFAIL) (\<lambda>m. act_ret (Some m))))"

definition guarded_body :: "'w engine \<Rightarrow> message \<Rightarrow> ('w, message option) ctx_act" where
  "guarded_body E req = (\<lambda>c. case handle_body E req c of
     (Inl e, c') \<Rightarrow> handle_failure E req e c'
   | (Inr m, c') \<Rightarrow> (Inr m, c'))"

definition handle_context :: "'w engine \<Rightarrow> message \<Rightarrow> ('w, message option) ctx_act" where
  "handle_context E req = act_finally (guarded_body E req) (finish_context E)"

text \<open>The context a valid request starts with.\<close>

definition fresh_context :: "message \<Rightarrow> string \<Rightarrow> string \<Rightarrow> 'w \<Rightarrow> 'w ctx" where
  "fresh_context req caddr lname w =
     build_context req caddr lname \<lparr>answers = [], results = []\<rparr> [] w"

definition handle_message ::
  "'w engine \<Rightarrow> message \<Rightarrow> string \<Rightarrow> string \<Rightarrow> 'w \<Rightarrow> message option res \<times> 'w" where
  "handle_message E req caddr lname w =
     (case validate_request_or_error (e_lib E) req of
        Inl e \<Rightarrow> (Inl e, w)
      | Inr (Some m) \<Rightarrow> (Inr (Some m), w)
      | Inr None \<Rightarrow>
          (case handle_context E req (fresh_context req caddr lname w) of
             (r, c) \<Rightarrow> (r, world c)))"

section \<open>Nested resolution\<close>

text \<open>
  \<open>_answer_from_nested_result\<close>: the answer, or the exception of the result.
\<close>

definition answer_from_nested_result :: "upstream_result \<Rightarrow> nat res" where
  "answer_from_nested_result result =
     (case res_answer result of Some a \<Rightarrow> Inr a
      | None \<Rightarrow> (case res_error result of Some e \<Rightarrow> Inl e
          | None \<Rightarrow> Inl (RuntimeError ''nested resolve gave no answer'')))"

definition nested_context ::
  "'w ctx \<Rightarrow> message \<Rightarrow> string \<times> string \<Rightarrow> 'w ctx" where
  "nested_context c req signature =
     build_context req (clientaddr c) (listener_name c) (store_of c)
       (nested_resolve_chain c @ [signature]) (world c)"

text \<open>
  \<open>_resolve_nested\<close>. First its guards and the context of the nested request, which shares the
  store and the world of the outer one; then the dispatch.
\<close>

definition nested_call :: "'w engine \<Rightarrow> string \<Rightarrow> string \<Rightarrow> 'w ctx \<Rightarrow> 'w ctx res" where
  "nested_call E qname qtype c =
     (let signature = (qname, qtype) in
      if signature \<in> set (nested_resolve_chain c)
        then Inl (NestedResolveRecursionError qname)
      else if length (nested_resolve_chain c) \<ge> nested_resolve_max_depth c
        then Inl (NestedResolveRecursionError ''too deep'')
      else andthen (make_query (e_lib E) qname qtype) (\<lambda>req.
        Inr (nested_context c req signature)))"

definition resolve_nested :: "'w engine \<Rightarrow> string \<Rightarrow> string \<Rightarrow> ('w, nat) ctx_act" where
  "resolve_nested E qname qtype = (\<lambda>c.
     case nested_call E qname qtype c of
       Inl e \<Rightarrow> (Inl e, c)
     | Inr nested \<Rightarrow>
         (case dispatch_context E nested of
            (Inl e, c') \<Rightarrow> (Inl e, c\<lparr>store_of := store_of c', world := world c'\<rparr>)
          | (Inr (r, _), c') \<Rightarrow>
              (answer_from_nested_result (results (store_of c') ! r),
               c\<lparr>store_of := store_of c', world := world c'\<rparr>)))"

text \<open>
  \<open>resolve_nested_query\<close>, for a chain that another process has checked.
\<close>

definition resolve_nested_query ::
  "'w engine \<Rightarrow> string \<Rightarrow> string \<Rightarrow> string \<Rightarrow> string \<Rightarrow> (string \<times> string) list \<Rightarrow> 'w \<Rightarrow> answer res" where
  "resolve_nested_query E qname qtype caddr lname chain w =
     andthen (make_query (e_lib E) qname qtype) (\<lambda>req.
     case dispatch_context E (build_context req caddr lname \<lparr>answers = [], results = []\<rparr> chain w) of
       (Inl e, _) \<Rightarrow> Inl e
     | (Inr (r, _), c) \<Rightarrow>
         andthen (answer_from_nested_result (results (store_of c) ! r)) (\<lambda>a.
         Inr (answers (store_of c) ! a)))"

text \<open>\<open>RequestContext.resolve\<close> with the handler of the engine.\<close>

definition context_resolve :: "'w engine \<Rightarrow> string \<Rightarrow> string \<Rightarrow> ('w, nat) ctx_act" where
  "context_resolve E qname qtype = (\<lambda>c.
     case ctx_resolve (Some (\<lambda>_ qn qt. Inr (qn, qt))) c qname qtype of
       Inl e \<Rightarrow> (Inl e, c)
     | Inr (qn, qt) \<Rightarrow> resolve_nested E qn qt c)"

section \<open>Responses belong to their requests\<close>

lemma set_error_response_Inr:
  "set_error_response E req rc c = (Inr m, c') \<Longrightarrow> msg_id m = msg_id req \<and> msg_rcode m = rc"
  using make_error_response_Inr [of "e_lib E" req rc]
  by (auto simp: set_error_response_def act_bind_Inr act_defs split: sum.splits)

lemma handle_body_id:
  assumes "handle_body E req c = (Inr (Some m), c')"
  shows "msg_id m = msg_id req"
  using assms clone_response_id [of "e_lib E"] make_error_response_Inr [of "e_lib E" req]
  by (auto simp: handle_body_def act_bind_Inr act_defs andthen_Inr_iff
      split: if_splits option.splits)

lemma guarded_body_id:
  assumes "guarded_body E req c = (Inr (Some m), c')"
  shows "msg_id m = msg_id req"
proof (cases "handle_body E req c")
  case (Pair r c1)
  show ?thesis
  proof (cases r)
    case (Inl e)
    with Pair assms have "handle_failure E req e c1 = (Inr (Some m), c')"
      by (simp add: guarded_body_def)
    then have "\<exists>c2 c3. set_error_response E req SERVFAIL c2 = (Inr m, c3)"
      by (auto simp: handle_failure_def act_bind_Inr act_defs split: if_splits)
    then show ?thesis using set_error_response_Inr by blast
  next
    case (Inr x)
    with Pair assms handle_body_id show ?thesis by (auto simp: guarded_body_def)
  qed
qed

lemma validate_request_iff:
  assumes "make_response L req = Inr m0"
  shows "validate_request_or_error L req = Inr None \<longleftrightarrow> valid_request req"
    and "\<not> valid_request req \<Longrightarrow>
      validate_request_or_error L req = Inr (Some (m0\<lparr>msg_rcode := FORMERR, msg_id := msg_id req\<rparr>))"
  using assms
  by (auto simp: validate_request_or_error_def valid_request_def make_error_response_def
      length_Suc_conv)

lemma validate_request_None: "valid_request req \<Longrightarrow> validate_request_or_error L req = Inr None"
  by (auto simp: validate_request_or_error_def valid_request_def)

lemma handle_message_valid:
  "valid_request req \<Longrightarrow> handle_message E req ca li w =
     (case handle_context E req (fresh_context req ca li w) of (r, c) \<Rightarrow> (r, world c))"
  by (simp add: handle_message_def validate_request_None)

lemma act_finally_Inr:
  "act_finally m f s = (Inr x, s') \<Longrightarrow> \<exists>s1. m s = (Inr x, s1)"
  by (cases "m s") (auto simp: act_finally_def split: if_splits prod.splits sum.splits)

section \<open>Exceptions do not leave the engine\<close>

lemma act_finally_Inl:
  assumes "act_finally m f s = (Inl e, s')"
  shows "(\<exists>s1. m s = (Inl e, s1)) \<or> (\<exists>s1. f s1 = (Inl e, s'))"
  using assms
  by (cases "m s") (auto simp: act_finally_def split: if_splits prod.splits sum.splits)

lemma act_try_ret_Inl:
  "act_try m (\<lambda>_. act_ret x) s = (Inl e, s') \<Longrightarrow> \<not> is_Exception e"
  by (cases "m s") (auto simp: act_try_def act_simps split: if_splits sum.splits)

lemma set_error_response_ok:
  assumes "make_error_response (e_lib E) req rc = Inr m"
    and "build_answer_from_response (e_lib E) (e_now E) req m = Inr a"
  shows "\<exists>c'. set_error_response E req rc c = (Inr m, c')"
  using assms
  by (auto simp: set_error_response_def set_answer_from_def act_bind_apply act_ret_def alloc_answer_def)

lemma guarded_body_Inl:
  assumes m: "make_error_response (e_lib E) req SERVFAIL = Inr m"
    and a: "build_answer_from_response (e_lib E) (e_now E) req m = Inr a"
    and g: "guarded_body E req c = (Inl e, c')"
  shows "e = Cancelled \<or> e = Hang"
proof (rule ccontr)
  assume n: "\<not> (e = Cancelled \<or> e = Hang)"
  obtain r c1 where h: "handle_body E req c = (r, c1)" by fastforce
  with g obtain e1 where "handle_failure E req e1 c1 = (Inl e, c')"
    by (cases r) (auto simp: guarded_body_def)
  moreover obtain c2 where "set_error_response E req SERVFAIL c1 = (Inr m, c2)"
    using set_error_response_ok [OF m a] by blast
  moreover obtain c3 where "set_error_response E req SERVFAIL
      (c1\<lparr>metadata := (metadata c1)(''pipeline_error'' \<mapsto> ''exception'')\<rparr>) = (Inr m, c3)"
    using set_error_response_ok [OF m a] by blast
  ultimately show False
    using n by (auto simp: handle_failure_def act_bind_apply act_simps split: if_splits)
qed

lemma handle_context_Inl:
  assumes m: "make_error_response (e_lib E) req SERVFAIL = Inr m"
    and a: "build_answer_from_response (e_lib E) (e_now E) req m = Inr a"
    and h: "handle_context E req c = (Inl e, c')"
  shows "e = Cancelled \<or> e = Hang"
  using act_finally_Inl [OF h [unfolded handle_context_def]] guarded_body_Inl [OF m a]
    act_try_ret_Inl [of "pm_on_finish (e_plugins E)" "()" _ e c']
  by (auto simp: finish_context_def is_Exception_def)

section \<open>Dropped and stopped requests\<close>

lemma dropped_request:
  assumes on: "pm_on_request (e_plugins E) c = (Inr (), c1)" and d: "drop_request c1"
  shows "handle_body E req c = (Inr None, c1)"
  using assms by (simp add: handle_body_def run_request_phase_def act_simps)

lemma stopped_request:
  assumes on: "pm_on_request (e_plugins E) c = (Inr (), c1)"
    and d: "\<not> drop_request c1" "stop_processing c1"
  shows "run_request_phase E c = (Inr False, c1)" "run_response_phase E c1 = (Inr False, c1)"
  using assms by (simp_all add: run_request_phase_def run_response_phase_def act_simps)

lemma answered_request:
  assumes on: "pm_on_request (e_plugins E) c = (Inr (), c1)"
    and d: "\<not> drop_request c1" "\<not> no_final c1"
  shows "run_request_phase E c = (Inr False, c1)"
  using assms by (simp add: run_request_phase_def act_simps)

text \<open>\<open>on_finish\<close> of every plugin runs on the context the request leaves, whatever happened.\<close>

lemma finish_always:
  assumes fin: "\<forall>p \<in> set (e_plugins E). \<forall>c e c'. on_finish p c = (Inl e, c') \<longrightarrow> is_Exception e"
    and g: "guarded_body E req c = (r, c1)" and r: "r \<noteq> Inl Hang"
  shows "handle_context E req c = (r, fold (\<lambda>p c. snd (on_finish p c)) (e_plugins E) c1)"
  using pm_on_finish_all [OF fin, of c1] g r
  by (simp add: handle_context_def act_finally_def finish_context_def act_try_def)

section \<open>A request without plugins\<close>

definition answer_in_sync :: "answer \<Rightarrow> bool" where
  "answer_in_sync a \<longleftrightarrow> sync_answer_rrset_to_response a = Inr a"

lemma sync_in_sync:
  assumes "answer_in_sync a" and "codec_ok L (a_response a)"
    and "mk_answer L (a_qname a) (a_type a) (a_class a) (a_response a) (a_nameserver a) (a_port a) = Inr b"
    and "a_response b = a_response a"
  shows "\<exists>a'. sync_answer_response L a = (Inr (), a') \<and> a_response a' = a_response a"
  using assms
  by (simp add: sync_answer_response_def answer_in_sync_def codec_ok_def act_bind_apply act_defs)

text \<open>The library can rebuild the answer from its own response.\<close>

definition answer_stable :: "dnslib \<Rightarrow> answer \<Rightarrow> bool" where
  "answer_stable L a \<longleftrightarrow> answer_in_sync a \<and> codec_ok L (a_response a) \<and>
     (\<exists>b. mk_answer L (a_qname a) (a_type a) (a_class a) (a_response a) (a_nameserver a) (a_port a)
            = Inr b \<and> a_response b = a_response a)"

lemma response_from_stable:
  assumes st: "answer_stable (e_lib E) (answers (store_of c) ! i)" and i: "i < length (answers (store_of c))"
  shows "\<exists>c'. response_from_answer E i c = (Inr (), c') \<and>
    final_response c' = Some ((a_response (answers (store_of c) ! i))\<lparr>msg_id := msg_id (request c)\<rparr>)"
proof -
  let ?a = "answers (store_of c) ! i"
  from st obtain a' where s: "sync_answer_response (e_lib E) ?a = (Inr (), a')"
    and r: "a_response a' = a_response ?a"
    unfolding answer_stable_def using sync_in_sync by blast
  have "codec_ok (e_lib E) (a_response ?a)" using st by (simp add: answer_stable_def)
  from clone_response_codec [OF this] show ?thesis
    using i by (simp add: response_from_answer_def sync_answer_at_def act_bind_apply s r upd_answer_def)
qed

lemma dispatch_context_run:
  assumes q: "msg_question (request c) = [q]"
    and sel: "select_rule (e_rules E) (e_default_group E) (tags c)
                (py_upper (rdtype_to_text (e_lib E) (q_type q))) = sel"
    and g: "rm_groups (e_rm E) (sel_upstream_group sel) = Some grp"
    and d: "dispatch_group (e_rm E) (e_sched E) (request c) (tags c) (e_fuel E) grp
              (case sel_dispatcher sel of None \<Rightarrow> e_default_dispatcher E | Some d \<Rightarrow> d) (store_of c)
              = Some (r, em, st)"
  shows "\<exists>c'. dispatch_context E c = (Inr (r, em), c') \<and> store_of c' = st \<and>
     request c' = request c \<and> final_answer c' = final_answer c \<and>
     final_response c' = final_response c \<and> drop_request c' = drop_request c \<and>
     stop_processing c' = stop_processing c \<and> tags c' = tags c \<and> world c' = world c \<and>
     upstream_results c' = upstream_results c @ [r]"
  using assms
  by (simp add: dispatch_context_def rule_engine_select_def get_group_def act_bind_apply act_defs Let_def)

lemma no_plugins [simp]:
  "pm_on_request [] = act_ret ()" "pm_on_upstream_response [] r = act_ret ()"
  "pm_on_response [] = act_ret ()" "pm_on_observe [] = act_ret ()" "pm_on_finish [] = act_ret ()"
  by (simp_all add: pm_on_request_def pm_on_upstream_response_def pm_on_response_def
      pm_on_observe_def pm_on_finish_def ordered_plugins_def)

lemma run_on_results_none: "run_on_results [] em c = (Inr (), c)"
  by (induction em) (simp_all add: act_bind_apply act_defs)

text \<open>What the client is told, from the outcome of the dispatch.\<close>

definition replies :: "dnslib \<Rightarrow> message \<Rightarrow> store \<Rightarrow> nat \<Rightarrow> message \<Rightarrow> bool" where
  "replies L req st r m \<longleftrightarrow> msg_id m = msg_id req \<and>
     (case outcome_of (results st ! r) of
        Answered \<Rightarrow> m = (a_response (answers st ! the (res_answer (results st ! r))))\<lparr>msg_id := msg_id req\<rparr>
      | NoName \<Rightarrow> msg_rcode m = RC_NXDOMAIN
      | Failed \<Rightarrow> msg_rcode m = SERVFAIL)"

text \<open>
  What is relied on of the library for an error response: it can be built, it survives the codec,
  and an answer can be made of it.
\<close>

definition error_response_ok :: "dnslib \<Rightarrow> real \<Rightarrow> message \<Rightarrow> nat \<Rightarrow> bool" where
  "error_response_ok L now req rc \<longleftrightarrow>
     (\<exists>m a. make_error_response L req rc = Inr m \<and> codec_ok L m \<and>
        build_answer_from_response L now req m = Inr a)"

lemma plain_finish:
  assumes ps: "e_plugins E = []" and c: "finalize_context E c = (Inr (), c')"
    and m: "final_response c' = Some m" and k: "codec_ok (e_lib E) m" and w: "world c' = world c"
  shows "act_bind (finalize_context E) (\<lambda>_. act_bind (observe_context E) (\<lambda>_. \<lambda>c.
       (case final_response c of
          None \<Rightarrow> (andthen (make_error_response (e_lib E) req SERVFAIL) (\<lambda>m. Inr (Some m)), c)
        | Some m \<Rightarrow> (andthen (clone_response_for_request (e_lib E) m req) (\<lambda>m'. Inr (Some m')), c)))) c =
     (Inr (Some (m\<lparr>msg_id := msg_id req\<rparr>)), c')"
  using assms clone_response_codec [OF k]
  by (simp add: act_bind_apply observe_context_def act_try_def act_defs)

lemma plain_request:
  fixes E :: "'w engine"
  assumes v: "msg_opcode req = OP_QUERY" "msg_question req = [q]" "q_class q = IN"
    and ps: "e_plugins E = []"
    and sel: "select_rule (e_rules E) (e_default_group E) {}
                (py_upper (rdtype_to_text (e_lib E) (q_type q))) = sel"
    and g: "rm_groups (e_rm E) (sel_upstream_group sel) = Some grp"
    and d: "dispatch_group (e_rm E) (e_sched E) req {} (e_fuel E) grp
              (case sel_dispatcher sel of None \<Rightarrow> e_default_dispatcher E | Some d \<Rightarrow> d)
              \<lparr>answers = [], results = []\<rparr> = Some (r, em, st)"
    and a: "\<And>a. res_answer (results st ! r) = Some a \<Longrightarrow>
              a < length (answers st) \<and> answer_stable (e_lib E) (answers st ! a)"
    and k: "\<And>a. res_answer (results st ! r) = Some a \<Longrightarrow>
              codec_ok (e_lib E) ((a_response (answers st ! a))\<lparr>msg_id := msg_id req\<rparr>)"
    and err: "\<And>rc. rc \<in> {SERVFAIL, RC_NXDOMAIN} \<Longrightarrow> error_response_ok (e_lib E) (e_now E) req rc"
  shows "\<exists>m. handle_message E req ca li w = (Inr (Some m), w) \<and> replies (e_lib E) req st r m"
proof -
  let ?c0 = "fresh_context req ca li w"
  have c0: "request ?c0 = req" "tags ?c0 = {}" "store_of ?c0 = \<lparr>answers = [], results = []\<rparr>"
    "final_answer ?c0 = None" "final_response ?c0 = None" "\<not> drop_request ?c0"
    "\<not> stop_processing ?c0" "world ?c0 = w"
    by (simp_all add: fresh_context_def build_context_def)
  obtain c1 where c1: "dispatch_context E ?c0 = (Inr (r, em), c1)" "store_of c1 = st"
    "request c1 = req" "final_answer c1 = None" "final_response c1 = None" "\<not> drop_request c1"
    "\<not> stop_processing c1" "world c1 = w"
    using dispatch_context_run [of ?c0 q E sel grp r em st] c0 v(2) sel g d by auto
  have phase: "dispatch_phase E ?c0 = (Inr r, c1)"
    using c1(1)
    by (simp add: run_on_results_none dispatch_phase_def in_task_group_def act_try_def act_bind_apply ps act_defs)
  have "\<exists>c2 m. apply_dispatch_result E r c1 = (Inr (), c2) \<and> \<not> drop_request c2 \<and> \<not> stop_processing c2 \<and>
     (\<exists>c3. finalize_context E c2 = (Inr (), c3) \<and> final_response c3 = Some m \<and> world c3 = w \<and>
        codec_ok (e_lib E) m) \<and> replies (e_lib E) req st r m"
  proof (cases "res_answer (results st ! r)")
    case (Some i)
    let ?c2 = "c1\<lparr>final_answer := Some i\<rparr>"
    let ?m = "(a_response (answers st ! i))\<lparr>msg_id := msg_id req\<rparr>"
    have ap: "apply_dispatch_result E r c1 = (Inr (), ?c2)"
      using Some c1 by (simp add: apply_dispatch_result_def no_final_def Let_def)
    have i: "i < length (answers (store_of ?c2))" "answer_stable (e_lib E) (answers (store_of ?c2) ! i)"
      using a [OF Some] c1(2) by simp_all
    obtain c3 where c3: "response_from_answer E i ?c2 = (Inr (), c3)" "final_response c3 = Some ?m"
      using response_from_stable [OF i(2,1)] c1(2,3) by auto
    have w3: "world c3 = w"
      using c3(1) c1(8) by (auto simp: response_from_answer_def sync_answer_at_def act_bind_Inr
          split: prod.splits sum.splits)
    have f: "finalize_context E ?c2 = (Inr (), c3)"
      using c3(1) c1 by (simp add: finalize_context_def)
    have "replies (e_lib E) req st r ?m" using Some by (simp add: replies_def outcome_of_def)
    with ap f c3(2) w3 k [OF Some] c1 show ?thesis by (intro exI [of _ ?c2] exI [of _ ?m]) simp
  next
    case None
    define rc where "rc = (if res_error (results st ! r) = Some NXDOMAIN then RC_NXDOMAIN else SERVFAIL)"
    have "error_response_ok (e_lib E) (e_now E) req rc" by (rule err) (simp add: rc_def)
    then obtain m ans where m: "make_error_response (e_lib E) req rc = Inr m" "codec_ok (e_lib E) m"
      "build_answer_from_response (e_lib E) (e_now E) req m = Inr ans"
      by (auto simp: error_response_ok_def)
    have rep: "replies (e_lib E) req st r m"
      using None make_error_response_Inr [OF m(1)] by (simp add: replies_def outcome_of_def rc_def)
    show ?thesis
    proof (cases "res_error (results st ! r) = Some NXDOMAIN")
      case True
      let ?c2 = "c1\<lparr>final_response := Some m\<rparr>"
      have ap: "apply_dispatch_result E r c1 = (Inr (), ?c2)"
        using None True c1 m(1) by (simp add: apply_dispatch_result_def no_final_def Let_def rc_def)
      have "\<exists>c3. finalize_context E ?c2 = (Inr (), c3) \<and> final_response c3 = Some m \<and> world c3 = w"
        using c1 m(3) by (simp add: finalize_context_def set_answer_from_def alloc_answer_def)
      with ap rep m(2) c1 show ?thesis by (intro exI [of _ ?c2] exI [of _ m]) simp
    next
      case False
      have ap: "apply_dispatch_result E r c1 = (Inr (), c1)"
        using None False c1 by (simp add: apply_dispatch_result_def no_final_def Let_def)
      have "\<exists>c3. finalize_context E c1 = (Inr (), c3) \<and> final_response c3 = Some m \<and> world c3 = w"
        using c1 m False by (simp add: finalize_context_def set_error_response_def set_answer_from_def
            alloc_answer_def act_bind_apply act_defs rc_def)
      with ap rep m(2) c1 show ?thesis by (intro exI [of _ c1] exI [of _ m]) simp
    qed
  qed
  then obtain c2 m c3 where ap: "apply_dispatch_result E r c1 = (Inr (), c2)" "\<not> drop_request c2"
      "\<not> stop_processing c2" and f: "finalize_context E c2 = (Inr (), c3)" "final_response c3 = Some m"
      "world c3 = w" "codec_ok (e_lib E) m" and rep: "replies (e_lib E) req st r m"
    by blast
  have id: "m\<lparr>msg_id := msg_id req\<rparr> = m" using rep by (simp add: replies_def)
  have "run_request_phase E ?c0 = (Inr False, c2)"
    using phase ap c0 by (simp add: run_request_phase_def ps act_bind_apply act_defs no_final_def)
  moreover have "run_response_phase E c2 = (Inr False, c2)"
    using ap by (simp add: run_response_phase_def ps act_bind_apply act_defs)
  ultimately have "handle_body E req ?c0 = (Inr (Some m), c3)"
    using f clone_response_codec [OF f(4)] id
    by (simp add: handle_body_def act_bind_apply observe_context_def act_try_def ps act_defs)
  then have "handle_context E req ?c0 = (Inr (Some m), c3)"
    by (simp add: handle_context_def guarded_body_def act_finally_def finish_context_def act_try_def
        ps act_defs)
  then have "handle_message E req ca li w = (Inr (Some m), world c3)"
    using v by (subst handle_message_valid) (simp_all add: valid_request_def)
  with rep f(3) show ?thesis by auto
qed

section \<open>Nested resolution ends\<close>

definition nests_into :: "'w engine \<Rightarrow> 'w ctx \<Rightarrow> 'w ctx \<Rightarrow> bool" where
  "nests_into E c c' \<longleftrightarrow> (\<exists>qname qtype. nested_call E qname qtype c = Inr c')"

lemma nested_call_Inr:
  assumes "nested_call E qn qt c = Inr c'"
  shows "(qn, qt) \<notin> set (nested_resolve_chain c)"
    and "length (nested_resolve_chain c) < nested_resolve_max_depth c"
    and "nested_resolve_chain c' = nested_resolve_chain c @ [(qn, qt)]"
    and "nested_resolve_max_depth c' = max_nested_resolve_depth"
  using assms
  by (auto simp: nested_call_def nested_context_def build_context_def Let_def res_simps split: if_splits)

inductive reached :: "'w engine \<Rightarrow> 'w ctx \<Rightarrow> 'w ctx \<Rightarrow> bool" for E c0 where
  start: "reached E c0 c0"
| nest: "reached E c0 c \<Longrightarrow> nests_into E c c' \<Longrightarrow> reached E c0 c'"

definition chain_ok :: "'w ctx \<Rightarrow> bool" where
  "chain_ok c \<longleftrightarrow> distinct (nested_resolve_chain c) \<and>
     length (nested_resolve_chain c) \<le> nested_resolve_max_depth c \<and>
     nested_resolve_max_depth c = max_nested_resolve_depth"

lemma reached_chain_ok:
  assumes "reached E c0 c" and "chain_ok c0"
  shows "chain_ok c"
  using assms
proof (induction rule: reached.induct)
  case (nest c c')
  then obtain qn qt where n: "nested_call E qn qt c = Inr c'" by (auto simp: nests_into_def)
  from nested_call_Inr [OF n] nest.IH nest.prems show ?case by (auto simp: chain_ok_def)
qed simp

lemma nests_into_measure:
  "chain_ok c \<Longrightarrow> nests_into E c c' \<Longrightarrow>
     max_nested_resolve_depth - length (nested_resolve_chain c') <
     max_nested_resolve_depth - length (nested_resolve_chain c)"
  using nested_call_Inr(2,3) [of E _ _ c c'] by (force simp: nests_into_def chain_ok_def)

lemma resolve_nested_repeat:
  "(qn, qt) \<in> set (nested_resolve_chain c) \<Longrightarrow>
     resolve_nested E qn qt c = (Inl (NestedResolveRecursionError qn), c)"
  by (simp add: resolve_nested_def nested_call_def Let_def)

section \<open>Properties\<close>

text \<open>A library for messages without records, on which the hypotheses below hold.\<close>

definition sample_question :: question where
  "sample_question = \<lparr>q_name = ''example.cn.'', q_type = RT_A, q_class = IN\<rparr>"

definition sample_message :: "nat \<Rightarrow> nat \<Rightarrow> nat \<Rightarrow> message" where
  "sample_message i flags rc = \<lparr>msg_id = i, msg_flags = flags, msg_opcode = OP_QUERY, msg_rcode = rc,
     msg_question = [sample_question], msg_answer = [], msg_authority = [], msg_additional = []\<rparr>"

definition sample_lib :: dnslib where
  "sample_lib = \<lparr>
     to_wire = (\<lambda>m. Inr [msg_id m, msg_flags m, msg_rcode m]),
     from_wire = (\<lambda>w. case w of [i, f, r] \<Rightarrow> Inr (sample_message i f r) | _ \<Rightarrow> Inl (ValueError [])),
     make_response = (\<lambda>m. Inr (sample_message (msg_id m) 32768 0)),
     make_query = (\<lambda>n t. Inr (sample_message 77 0 0)),
     mk_answer = (\<lambda>n t c m ns p. Inr \<lparr>a_qname = n, a_type = t, a_class = c, a_response = m,
        a_rrset = None, a_canonical = n, a_expiration = 0, a_chain = [], a_nameserver = ns, a_port = p\<rparr>),
     rdtype_to_text = (\<lambda>_. ''A''), rcode_to_text = (\<lambda>_. ''NOERROR''),
     rrset_from_texts = (\<lambda>_ _ _ _ _. Inl (ValueError []))\<rparr>"

definition sample_request :: message where
  "sample_request = sample_message 5 0 0"

definition sample_engine :: "nat plugin list \<Rightarrow> nat engine" where
  "sample_engine ps = \<lparr>e_lib = sample_lib, e_rm = sample_manager, e_rules = [], e_default_group = ''g1'',
     e_default_dispatcher = RACE, e_plugins = ps, e_sched = in_order, e_fuel = 4, e_now = 0\<rparr>"

lemma sample_codec: "codec_ok sample_lib (sample_message i f r)"
  by (simp add: codec_ok_def sample_lib_def sample_message_def)

lemma sample_error: "make_error_response sample_lib req rc = Inr (sample_message (msg_id req) 32768 rc)"
  by (simp add: make_error_response_def sample_lib_def sample_message_def)

lemma sample_build_answer:
  "\<exists>a. build_answer_from_response sample_lib now (sample_message i f r) (sample_message j g s) = Inr a"
  by (simp add: build_answer_from_response_def clone_response_for_request_def sample_lib_def
      sample_message_def)

lemma sample_error_ok: "error_response_ok sample_lib now sample_request rc"
  using sample_build_answer [of now 5 0 0 5 32768 rc] sample_codec
  by (simp add: error_response_ok_def sample_error sample_request_def) (simp add: sample_message_def)

lemma handle_message_id:
  assumes "handle_message E req ca li w = (Inr (Some m), w')"
  shows "msg_id m = msg_id req"
proof (cases "validate_request_or_error (e_lib E) req")
  case (Inl e)
  with assms show ?thesis by (simp add: handle_message_def)
next
  case (Inr v)
  show ?thesis
  proof (cases v)
    case None
    with Inr assms obtain c where "handle_context E req (fresh_context req ca li w) = (Inr (Some m), c)"
      by (auto simp: handle_message_def split: prod.splits)
    from act_finally_Inr [OF this [unfolded handle_context_def]] show ?thesis
      using guarded_body_id by blast
  next
    case (Some m')
    with Inr assms have "validate_request_or_error (e_lib E) req = Inr (Some m)"
      by (simp add: handle_message_def)
    then show ?thesis using make_error_response_Inr [of "e_lib E" req]
      by (auto simp: validate_request_or_error_def andthen_Inr_iff split: if_splits)
  qed
qed


text \<open>
  C3: A response to a request has the identifier of the request, on every path: answered,
  invalid, failed, answered by a plugin.
\<close>

theorem response_id_matches:
  assumes "handle_message E req ca li w = (Inr (Some m), w')"
  shows "msg_id m = msg_id req"
  using assms by (rule handle_message_id)

theorem response_id_matches_witness:
  "msg_id (sample_message 5 32768 FORMERR) = msg_id (sample_request\<lparr>msg_opcode := 4\<rparr>)"
  by (rule response_id_matches [of "sample_engine []" _ "''client''" "''udp''" 0 _ 0])
    (simp add: handle_message_def validate_request_or_error_def sample_engine_def sample_error
      sample_request_def sample_message_def)


text \<open>A plugin whose hook raises.\<close>

definition raising_plugin :: "nat plugin" where
  "raising_plugin = (plugin_base ''raising'')\<lparr>on_request := act_raise (RuntimeError ''bug'')\<rparr>"


text \<open>
  C6: \<open>on_finish\<close> of every plugin runs once, in load order, on the context the request ends
  with, also when the pipeline or an earlier \<open>on_finish\<close> raised.
\<close>

theorem finish_hooks_always_run:
  assumes "valid_request req"
    and "\<And>p c e c'. p \<in> set (e_plugins E) \<Longrightarrow> on_finish p c = (Inl e, c') \<Longrightarrow> is_Exception e"
    and "guarded_body E req (fresh_context req ca li w) = (r, c1)" and "r \<noteq> Inl Hang"
  shows "handle_message E req ca li w =
     (r, world (fold (\<lambda>p c. snd (on_finish p c)) (e_plugins E) c1))"
proof -
  have "\<forall>p \<in> set (e_plugins E). \<forall>c e c'. on_finish p c = (Inl e, c') \<longrightarrow> is_Exception e"
    using assms(2) by blast
  from finish_always [OF this assms(3,4)] assms(1) show ?thesis by (simp add: handle_message_valid)
qed

text \<open>A plugin that drops every request, and one that counts what it has finished.\<close>

definition dropping_plugin :: "nat plugin" where
  "dropping_plugin = (plugin_base ''dropping'')\<lparr>on_request := act_upd (\<lambda>c. c\<lparr>drop_request := True\<rparr>)\<rparr>"

definition counting_plugin :: "nat plugin" where
  "counting_plugin = (plugin_base ''counting'')\<lparr>on_finish := act_upd (\<lambda>c. c\<lparr>world := Suc (world c)\<rparr>)\<rparr>"

lemmas sample_plugin_defs = sample_engine_def dropping_plugin_def counting_plugin_def plugin_base_def

lemma sample_dropped:
  "guarded_body (sample_engine [dropping_plugin, counting_plugin]) sample_request c =
     (Inr None, c\<lparr>plugin_order := plugin_order c @ [''dropping''], drop_request := True\<rparr>)"
  by (simp add: guarded_body_def handle_body_def run_request_phase_def pm_on_request_def
      ordered_plugins_def sample_plugin_defs act_simps halted_def)

lemma sample_valid: "valid_request sample_request"
  by (simp add: valid_request_def sample_request_def sample_message_def sample_question_def)

theorem finish_hooks_always_run_witness:
  "handle_message (sample_engine [dropping_plugin, counting_plugin]) sample_request ''client'' ''udp'' 0 =
     (Inr None, 1)"
proof -
  let ?E = "sample_engine [dropping_plugin, counting_plugin]"
  let ?c = "fresh_context sample_request ''client'' ''udp'' (0::nat)"
  have "handle_message ?E sample_request ''client'' ''udp'' 0 =
     (Inr None, world (fold (\<lambda>p c. snd (on_finish p c)) (e_plugins ?E)
        (?c\<lparr>plugin_order := plugin_order ?c @ [''dropping''], drop_request := True\<rparr>)))"
    by (rule finish_hooks_always_run [OF sample_valid _ sample_dropped])
      (auto simp: sample_plugin_defs act_defs)
  then show ?thesis by (simp add: sample_plugin_defs act_defs fresh_context_def build_context_def)
qed

text \<open>
  A request a plugin drops gets no response and reaches no upstream: the request phase ends
  with the context the hooks left.
\<close>

theorem dropped_request_no_reply:
  assumes "pm_on_request (e_plugins E) c = (Inr (), c1)" and "drop_request c1"
  shows "handle_body E req c = (Inr None, c1)"
  using assms by (rule dropped_request)

theorem dropped_request_no_reply_witness:
  "handle_body (sample_engine [dropping_plugin]) sample_request (fresh_context sample_request ''c'' ''udp'' 0) =
     (Inr None, fresh_context sample_request ''c'' ''udp'' 0\<lparr>plugin_order := [''dropping''], drop_request := True\<rparr>)"
  by (rule dropped_request_no_reply)
    (simp_all add: sample_plugin_defs pm_on_request_def ordered_plugins_def
      act_simps halted_def fresh_context_def build_context_def)

text \<open>
  C22: A chain of nested resolutions never repeats a question and is never longer than eight.
\<close>

theorem nested_chain_bounded:
  assumes "reached E (fresh_context req ca li w) c"
  shows "distinct (nested_resolve_chain c) \<and> length (nested_resolve_chain c) \<le> 8"
proof -
  have "chain_ok (fresh_context req ca li w)"
    by (simp add: chain_ok_def fresh_context_def build_context_def)
  from reached_chain_ok [OF assms this] show ?thesis
    by (simp add: chain_ok_def max_nested_resolve_depth_def)
qed

theorem nested_chain_bounded_witness:
  "distinct [(''a.cn'', ''A'')] \<and> length [(''a.cn'', ''A'')] \<le> 8"
proof -
  let ?c = "fresh_context sample_request ''c'' ''udp'' (0::nat)"
  let ?n = "nested_context ?c (sample_message 77 0 0) (''a.cn'', ''A'')"
  have "nests_into (sample_engine []) ?c ?n"
    unfolding nests_into_def
    by (intro exI [of _ "''a.cn''"] exI [of _ "''A''"])
      (simp add: nested_call_def sample_engine_def sample_lib_def fresh_context_def build_context_def
        max_nested_resolve_depth_def)
  with reached.start have "reached (sample_engine []) ?c ?n" by (rule reached.nest)
  from nested_chain_bounded [OF this] show ?thesis
    by (simp add: nested_context_def fresh_context_def build_context_def)
qed

text \<open>
  The hooks of a phase run in the order of their numbers, plugins of the same number in load
  order, and a plugin that drops or stops the request is the last to run.
\<close>

theorem hooks_run_in_order:
  assumes "pm_on_response ps c = (Inr (), c')"
  shows "\<exists>qs. prefix qs (sort_key response_order ps) \<and> c' = fold (\<lambda>p c. snd (on_response p c)) qs c \<and>
     (qs = sort_key response_order ps \<or> (qs \<noteq> [] \<and> halted c'))"
  using run_until_halted_prefix [OF assms [unfolded pm_on_response_def ordered_plugins_def]] .

theorem hooks_run_in_order_witness:
  "\<exists>qs. prefix qs (sort_key response_order [dropping_plugin, counting_plugin]) \<and>
     fresh_context sample_request ''c'' ''udp'' 0 =
       fold (\<lambda>p c. snd (on_response p c)) qs (fresh_context sample_request ''c'' ''udp'' 0) \<and>
     (qs = sort_key response_order [dropping_plugin, counting_plugin] \<or>
      (qs \<noteq> [] \<and> halted (fresh_context sample_request ''c'' ''udp'' (0::nat))))"
  by (rule hooks_run_in_order)
    (simp add: pm_on_response_def ordered_plugins_def sample_plugin_defs act_simps fresh_context_def
      build_context_def halted_def)

end
