(* ===== verification/Tag_Sets.thy ===== *)
theory Tag_Sets
  imports Prelude Ip_Address
begin

text \<open>
  \<open>core/tag_files.py\<close>, \<open>core/domainset.py\<close> and \<open>core/ipset.py\<close>: the files of domains and
  networks that give tags, and the two lookups.

  The directory is a list of its entries. The trie of \<open>marisa_trie\<close> and the radix tree are
  third-party: they are records of functions, with the laws \<open>trie_ok\<close> and \<open>radix_ok\<close> for what
  their documentation promises. Text is ASCII, so its UTF-8 encoding is the text.
\<close>

section \<open>Tag files\<close>

record dir_entry =
  f_name :: string
  f_is_file :: bool
  f_text :: string

datatype dir_state = NoSuchPath | NotADirectory | Directory "dir_entry list"

text \<open>\<open>str.splitlines\<close> for ASCII text.\<close>

definition is_line_break :: "char \<Rightarrow> bool" where
  "is_line_break c \<longleftrightarrow> of_char c \<in> {10, 11, 12, 13, 28, 29, 30 :: nat}"

fun split_lines :: "string \<Rightarrow> string \<Rightarrow> string list" where
  "split_lines acc [] = (if acc = [] then [] else [acc])"
| "split_lines acc (c # cs) =
     (if c = CHR 0x0D \<and> cs \<noteq> [] \<and> hd cs = CHR 0x0A then acc # split_lines [] (tl cs)
      else if is_line_break c then acc # split_lines [] cs
      else split_lines (acc @ [c]) cs)"

text \<open>\<open>PurePath.stem\<close>\<close>

definition path_stem :: "string \<Rightarrow> string" where
  "path_stem name =
     (let r = takeWhile (\<lambda>c. c \<noteq> CHR ''.'') (rev name);
          i = length name - length r - 1 in
      if CHR ''.'' \<in> set name \<and> 0 < i \<and> r \<noteq> [] then take i name else name)"

text \<open>\<open>tag_to_values[tag].add(value)\<close>\<close>

fun add_value :: "string \<Rightarrow> string \<Rightarrow> (string \<times> string list) list \<Rightarrow> (string \<times> string list) list" where
  "add_value k v [] = [(k, [v])]"
| "add_value k v ((k', vs) # d) =
     (if k' = k then (k, if v \<in> set vs then vs else vs @ [v]) # d else (k', vs) # add_value k v d)"

fun load_lines ::
  "(string \<Rightarrow> string res) \<Rightarrow> string \<Rightarrow> string list \<Rightarrow> (string \<times> string list) list \<Rightarrow>
   (string \<times> string list) list res" where
  "load_lines normalizer tag [] d = Inr d"
| "load_lines normalizer tag (line # lines) d =
     (let stripped = py_strip line in
      if stripped = [] \<or> hd stripped = CHR ''#'' then load_lines normalizer tag lines d
      else andthen (normalizer stripped) (\<lambda>v. load_lines normalizer tag lines (add_value tag v d)))"

fun load_files ::
  "(string \<Rightarrow> string res) \<Rightarrow> dir_entry list \<Rightarrow> (string \<times> string list) list \<Rightarrow>
   (string \<times> string list) list res" where
  "load_files normalizer [] d = Inr d"
| "load_files normalizer (f # fs) d =
     (if \<not> f_is_file f \<or> (f_name f \<noteq> [] \<and> hd (f_name f) = CHR ''.'') then load_files normalizer fs d
      else if path_stem (f_name f) = [] then load_files normalizer fs d
      else andthen (load_lines normalizer (path_stem (f_name f)) (split_lines [] (f_text f)) d)
             (load_files normalizer fs))"

definition load_tag_files ::
  "dir_state option \<Rightarrow> (string \<Rightarrow> string res) \<Rightarrow> (string \<times> string list) list res" where
  "load_tag_files directory normalizer =
     (case directory of
        None \<Rightarrow> Inr []
      | Some NoSuchPath \<Rightarrow> Inl (FileNotFoundError ''tag directory'')
      | Some NotADirectory \<Rightarrow> Inl (NotADirectoryError ''tag directory'')
      | Some (Directory entries) \<Rightarrow> load_files normalizer (sort_key f_name entries) [])"

text \<open>The pairs of a dictionary of lists.\<close>

definition pairs :: "('a \<times> 'b list) list \<Rightarrow> ('a \<times> 'b) set" where
  "pairs d = {(k, v). \<exists>vs. (k, vs) \<in> set d \<and> v \<in> set vs}"

lemma pairs_Nil [simp]: "pairs [] = {}"
  by (simp add: pairs_def)

lemma pairs_Cons: "pairs ((k, vs) # d) = (\<lambda>v. (k, v)) ` set vs \<union> pairs d"
  by (auto simp: pairs_def)

lemma pairs_add_value: "pairs (add_value k v d) = insert (k, v) (pairs d)"
  by (induction k v d rule: add_value.induct) (auto simp: pairs_Cons)

lemma keys_add_value: "fst ` set (add_value k v d) = insert k (fst ` set d)"
  by (induction k v d rule: add_value.induct) auto

lemma distinct_add_value: "distinct (map fst d) \<Longrightarrow> distinct (map fst (add_value k v d))"
proof (induction k v d rule: add_value.induct)
  case (2 k v k' vs d)
  then show ?case using keys_add_value [of k v d] by (auto simp: image_iff)
qed simp

text \<open>A line of a file that names a value.\<close>

definition value_line :: "(string \<Rightarrow> string res) \<Rightarrow> string list \<Rightarrow> string \<Rightarrow> bool" where
  "value_line normalizer lines v \<longleftrightarrow>
     (\<exists>line \<in> set lines. py_strip line \<noteq> [] \<and> hd (py_strip line) \<noteq> CHR ''#'' \<and>
        normalizer (py_strip line) = Inr v)"

lemma load_lines_pairs:
  "load_lines nrm tag lines d = Inr d' \<Longrightarrow>
     pairs d' = pairs d \<union> {(tag, v) |v. value_line nrm lines v}"
proof (induction lines arbitrary: d)
  case (Cons line lines)
  let ?s = "py_strip line"
  show ?case
  proof (cases "?s = [] \<or> hd ?s = CHR ''#''")
    case True
    with Cons.prems have "load_lines nrm tag lines d = Inr d'" by (auto simp: Let_def)
    from Cons.IH [OF this] True show ?thesis by (auto simp: value_line_def)
  next
    case False
    with Cons.prems obtain v where v: "nrm ?s = Inr v" "load_lines nrm tag lines (add_value tag v d) = Inr d'"
      by (auto simp: Let_def andthen_Inr_iff)
    have "value_line nrm (line # lines) u \<longleftrightarrow> u = v \<or> value_line nrm lines u" for u
      using False v(1) by (auto simp: value_line_def)
    with Cons.IH [OF v(2)] show ?thesis by (auto simp: pairs_add_value)
  qed
qed (simp add: value_line_def)

definition tag_file :: "dir_entry \<Rightarrow> bool" where
  "tag_file f \<longleftrightarrow> f_is_file f \<and> \<not> (f_name f \<noteq> [] \<and> hd (f_name f) = CHR ''.'') \<and> path_stem (f_name f) \<noteq> []"

lemma load_files_pairs:
  "load_files nrm fs d = Inr d' \<Longrightarrow>
     pairs d' = pairs d \<union> {(path_stem (f_name f), v) |f v. f \<in> set fs \<and> tag_file f \<and>
        value_line nrm (split_lines [] (f_text f)) v}"
proof (induction fs arbitrary: d)
  case (Cons f fs)
  show ?case
  proof (cases "tag_file f")
    case False
    with Cons.prems have "load_files nrm fs d = Inr d'" by (auto simp: tag_file_def split: if_splits)
    from Cons.IH [OF this] False show ?thesis by auto
  next
    case True
    with Cons.prems obtain d1 where d1:
      "load_lines nrm (path_stem (f_name f)) (split_lines [] (f_text f)) d = Inr d1"
      "load_files nrm fs d1 = Inr d'" by (auto simp: tag_file_def andthen_Inr_iff)
    from Cons.IH [OF d1(2)] load_lines_pairs [OF d1(1)] True show ?thesis by auto
  qed
qed simp

lemma load_tag_files_pairs:
  assumes "load_tag_files (Some (Directory es)) nrm = Inr d"
  shows "pairs d = {(path_stem (f_name f), v) |f v. f \<in> set es \<and> tag_file f \<and>
     value_line nrm (split_lines [] (f_text f)) v}"
  using load_files_pairs [of nrm "sort_key f_name es" "[]" d] assms by (simp add: load_tag_files_def)

section \<open>Domains\<close>

definition normalize_domain :: "string \<Rightarrow> string res" where
  "normalize_domain value =
     (let normalized = py_lower (rstrip_dot (py_strip value));
          normalized' = (if prefix ''+.'' normalized then drop 2 normalized else normalized) in
      if normalized' = [] then Inl (ValueError ''domain must not be empty'') else Inr normalized')"

definition reverse_domain :: "string \<Rightarrow> string res" where
  "reverse_domain value =
     andthen (normalize_domain value) (\<lambda>d. Inr (py_join ''.'' (rev (py_split CHR ''.'' d)) @ ''.''))"

definition tag_separator :: char where
  "tag_separator = CHR 0x00"

definition encode_tags :: "string list \<Rightarrow> string" where
  "encode_tags tags = py_join [tag_separator] (sort tags)"

definition decode_tags :: "string \<Rightarrow> string set" where
  "decode_tags value = set (filter (\<lambda>tag. tag \<noteq> []) (py_split tag_separator value))"

fun collect_domains ::
  "string \<Rightarrow> string list \<Rightarrow> (string \<times> string list) list \<Rightarrow> (string \<times> string list) list res" where
  "collect_domains tag [] d = Inr d"
| "collect_domains tag (domain # domains) d =
     andthen (reverse_domain domain) (\<lambda>rd. collect_domains tag domains (add_value rd tag d))"

fun collect_tags ::
  "(string \<times> string list) list \<Rightarrow> (string \<times> string list) list \<Rightarrow> (string \<times> string list) list res" where
  "collect_tags [] d = Inr d"
| "collect_tags ((tag, domains) # rest) d =
     andthen (collect_domains tag domains d) (collect_tags rest)"

text \<open>\<open>_build_domain_entries\<close>\<close>

definition build_domain_entries :: "dir_state option \<Rightarrow> (string \<times> string list) list res" where
  "build_domain_entries directory =
     andthen (load_tag_files directory normalize_domain) (\<lambda>files.
     andthen (collect_tags files []) (\<lambda>d. Inr (sort_key fst d)))"

record ('t, 'f) trie_lib =
  trie_build :: "(string \<times> string) list \<Rightarrow> 't"
  trie_prefixes :: "'t \<Rightarrow> string \<Rightarrow> string list"
  trie_get :: "'t \<Rightarrow> string \<Rightarrow> string list"
  trie_save :: "'t \<Rightarrow> 'f"
  trie_mmap :: "'f \<Rightarrow> 't"

definition trie_ok :: "('t, 'f) trie_lib \<Rightarrow> (string \<times> string) list \<Rightarrow> bool" where
  "trie_ok T es \<longleftrightarrow>
     (\<forall>k. set (trie_prefixes T (trie_build T es) k) = {p \<in> fst ` set es. prefix p k}) \<and>
     (\<forall>k. set (trie_get T (trie_build T es) k) = {v. (k, v) \<in> set es})"

text \<open>The constructor of \<open>DomainSet\<close>: no trie for no entries.\<close>

definition domain_set_init :: "('t, 'f) trie_lib \<Rightarrow> dir_state option \<Rightarrow> 't option res" where
  "domain_set_init T directory =
     andthen (build_domain_entries directory) (\<lambda>entries.
     Inr (if entries \<noteq> [] then Some (trie_build T (map (\<lambda>(d, ts). (d, encode_tags ts)) entries)) else None))"

definition domain_lookup :: "('t, 'f) trie_lib \<Rightarrow> 't option \<Rightarrow> string \<Rightarrow> string set res" where
  "domain_lookup T trie qname =
     (case trie of None \<Rightarrow> Inr {}
      | Some t \<Rightarrow> andthen (reverse_domain qname) (\<lambda>key.
          Inr (\<Union>p \<in> set (trie_prefixes T t key). \<Union>v \<in> set (trie_get T t p). decode_tags v)))"

definition save_mmap :: "('t, 'f) trie_lib \<Rightarrow> 't option \<Rightarrow> 'f option" where
  "save_mmap T trie = map_option (trie_save T) trie"

definition domain_set_from_snapshot :: "('t, 'f) trie_lib \<Rightarrow> 'f option \<Rightarrow> 't option" where
  "domain_set_from_snapshot T snapshot = map_option (trie_mmap T) snapshot"

section \<open>Reversed domains\<close>

definition dotted :: "string list \<Rightarrow> string" where
  "dotted ls = concat (map (\<lambda>l. l @ ''.'') ls)"

lemma join_dotted: "ls \<noteq> [] \<Longrightarrow> py_join ''.'' ls @ ''.'' = dotted ls"
proof (induction "''.''" ls rule: py_join.induct)
  case (3 w v ws)
  then show ?case by (simp add: dotted_def)
qed (simp_all add: dotted_def)

lemma label_prefix:
  assumes "CHR ''.'' \<notin> set a" and "CHR ''.'' \<notin> set b"
  shows "prefix (a @ CHR ''.'' # s) (b @ CHR ''.'' # t) \<longleftrightarrow> a = b \<and> prefix s t"
  using assms
proof (induction a arbitrary: b)
  case Nil
  then show ?case by (cases b) auto
next
  case (Cons x a)
  then show ?case by (cases b) auto
qed

lemma dotted_prefix:
  assumes "\<forall>l \<in> set as. CHR ''.'' \<notin> set l" and "\<forall>l \<in> set bs. CHR ''.'' \<notin> set l"
  shows "prefix (dotted as) (dotted bs) \<longleftrightarrow> prefix as bs"
  using assms
proof (induction as arbitrary: bs)
  case Nil
  then show ?case by (simp add: dotted_def)
next
  case (Cons a as)
  show ?case
  proof (cases bs)
    case Nil
    then show ?thesis by (simp add: dotted_def)
  next
    case (Cons b bs')
    have "prefix (dotted (a # as)) (dotted (b # bs')) \<longleftrightarrow> a = b \<and> prefix (dotted as) (dotted bs')"
      using label_prefix [of a b "dotted as" "dotted bs'"] Cons.prems Cons by (simp add: dotted_def)
    with Cons.IH [of bs'] Cons.prems Cons show ?thesis by simp
  qed
qed

text \<open>The labels of a domain, from the left.\<close>

definition labels :: "string \<Rightarrow> string list" where
  "labels d = py_split CHR ''.'' d"

lemma reverse_domain_labels:
  "reverse_domain v = Inr r \<longleftrightarrow> (\<exists>d. normalize_domain v = Inr d \<and> r = dotted (rev (labels d)))"
  by (auto simp: reverse_domain_def andthen_Inr_iff labels_def join_dotted)

lemma reversed_prefix_iff:
  "prefix (dotted (rev (labels d))) (dotted (rev (labels q))) \<longleftrightarrow> suffix (labels d) (labels q)"
  by (subst dotted_prefix) (auto simp: labels_def suffix_to_prefix dest: py_split_parts)

section \<open>Lookups\<close>

lemma decode_encode_tags:
  assumes "\<forall>t \<in> set ts. t \<noteq> [] \<and> tag_separator \<notin> set t" and "ts \<noteq> []"
  shows "decode_tags (encode_tags ts) = set ts"
proof -
  have "py_split tag_separator (encode_tags ts) = sort ts"
    unfolding encode_tags_def by (rule py_split_join) (use assms in auto)
  with assms(1) show ?thesis by (auto simp: decode_tags_def)
qed

lemma collect_domains_pairs:
  "collect_domains tag ds d = Inr d' \<Longrightarrow>
     pairs d' = pairs d \<union> {(r, tag) |r x. x \<in> set ds \<and> reverse_domain x = Inr r}"
proof (induction ds arbitrary: d)
  case (Cons x ds)
  then obtain r where r: "reverse_domain x = Inr r" "collect_domains tag ds (add_value r tag d) = Inr d'"
    by (auto simp: andthen_Inr_iff)
  from Cons.IH [OF r(2)] r(1) show ?case by (auto simp: pairs_add_value)
qed simp

lemma collect_tags_pairs:
  "collect_tags fs d = Inr d' \<Longrightarrow>
     pairs d' = pairs d \<union> {(r, tag) |r tag x. (tag, x) \<in> pairs fs \<and> reverse_domain x = Inr r}"
proof (induction fs arbitrary: d)
  case (Cons f fs)
  obtain tag ds where f: "f = (tag, ds)" by fastforce
  with Cons.prems obtain d1 where d1: "collect_domains tag ds d = Inr d1" "collect_tags fs d1 = Inr d'"
    by (auto simp: andthen_Inr_iff)
  from Cons.IH [OF d1(2)] collect_domains_pairs [OF d1(1)] f show ?case by (auto simp: pairs_Cons)
qed simp

lemma collect_domains_shape:
  "collect_domains tag ds d = Inr d' \<Longrightarrow> distinct (map fst d) \<and> (\<forall>(k, vs) \<in> set d. vs \<noteq> []) \<Longrightarrow>
     distinct (map fst d') \<and> (\<forall>(k, vs) \<in> set d'. vs \<noteq> [])"
proof (induction ds arbitrary: d)
  case (Cons x ds)
  then obtain r where r: "reverse_domain x = Inr r" "collect_domains tag ds (add_value r tag d) = Inr d'"
    by (auto simp: andthen_Inr_iff)
  have "\<forall>(k, vs) \<in> set (add_value r tag d). vs \<noteq> []"
    using Cons.prems(2) by (induction r tag d rule: add_value.induct) auto
  with Cons.IH [OF r(2)] Cons.prems(2) distinct_add_value show ?case by blast
qed simp

lemma collect_tags_shape:
  "collect_tags fs d = Inr d' \<Longrightarrow> distinct (map fst d) \<and> (\<forall>(k, vs) \<in> set d. vs \<noteq> []) \<Longrightarrow>
     distinct (map fst d') \<and> (\<forall>(k, vs) \<in> set d'. vs \<noteq> [])"
proof (induction fs arbitrary: d)
  case (Cons f fs)
  obtain tag ds where f: "f = (tag, ds)" by fastforce
  with Cons.prems obtain d1 where d1: "collect_domains tag ds d = Inr d1" "collect_tags fs d1 = Inr d'"
    by (auto simp: andthen_Inr_iff)
  from Cons.IH [OF d1(2)] collect_domains_shape [OF d1(1) Cons.prems(2)] show ?case by blast
qed simp

text \<open>The tags whose files name a domain that the query is, or is below.\<close>

definition domain_tags :: "(string \<times> string) set \<Rightarrow> string \<Rightarrow> string set" where
  "domain_tags files q = {tag. \<exists>x d. (tag, x) \<in> files \<and> normalize_domain x = Inr d \<and>
     suffix (labels d) (labels q)}"

lemma domain_lookup_spec:
  assumes files: "load_tag_files dir normalize_domain = Inr files"
    and init: "domain_set_init T dir = Inr trie"
    and T: "\<And>es. trie_ok T es"
    and tags: "\<And>tag x. (tag, x) \<in> pairs files \<Longrightarrow> tag \<noteq> [] \<and> tag_separator \<notin> set tag"
    and q: "normalize_domain qname = Inr q"
  shows "domain_lookup T trie qname = Inr (domain_tags (pairs files) q)"
proof -
  from init files obtain d where d: "collect_tags files [] = Inr d"
    and trie: "trie = (if d = [] then None
       else Some (trie_build T (map (\<lambda>(d, ts). (d, encode_tags ts)) (sort_key fst d))))"
    by (auto simp: domain_set_init_def build_domain_entries_def andthen_Inr_iff)
       (metis set_sort set_empty)+
  have ps: "pairs d = {(r, tag) |r tag x. (tag, x) \<in> pairs files \<and> reverse_domain x = Inr r}"
    using collect_tags_pairs [OF d] by simp
  have shape: "\<forall>(k, vs) \<in> set d. vs \<noteq> []" "distinct (map fst d)"
    using collect_tags_shape [OF d] by simp_all
  have dec: "(k, ts) \<in> set d \<Longrightarrow> decode_tags (encode_tags ts) = set ts" for k ts
  proof (rule decode_encode_tags)
    assume k: "(k, ts) \<in> set d"
    then show "ts \<noteq> []" using shape by auto
    show "\<forall>t \<in> set ts. t \<noteq> [] \<and> tag_separator \<notin> set t"
    proof
      fix t assume "t \<in> set ts"
      with k have "(k, t) \<in> pairs d" by (auto simp: pairs_def)
      with ps tags show "t \<noteq> [] \<and> tag_separator \<notin> set t" by blast
    qed
  qed
  let ?key = "dotted (rev (labels q))"
  have tag_iff: "tag \<in> domain_tags (pairs files) q \<longleftrightarrow> (\<exists>r. prefix r ?key \<and> (r, tag) \<in> pairs d)" for tag
    unfolding domain_tags_def ps by (auto simp: reverse_domain_labels simp flip: reversed_prefix_iff)
  show ?thesis
  proof (cases "d = []")
    case True
    then have "domain_tags (pairs files) q = {}" using tag_iff by auto
    with True trie show ?thesis by (simp add: domain_lookup_def)
  next
    case False
    let ?es = "map (\<lambda>(d, ts). (d, encode_tags ts)) (sort_key fst d)"
    have es: "set ?es = (\<lambda>(d, ts). (d, encode_tags ts)) ` set d" by simp
    have pre: "set (trie_prefixes T (trie_build T ?es) ?key) = {p \<in> fst ` set ?es. prefix p ?key}"
      and get: "\<And>p. set (trie_get T (trie_build T ?es) p) = {v. (p, v) \<in> set ?es}"
      using T [of ?es] unfolding trie_ok_def by blast+
    have rk: "reverse_domain qname = Inr ?key" using q by (simp add: reverse_domain_labels)
    have "(\<Union>p \<in> set (trie_prefixes T (trie_build T ?es) ?key).
        \<Union>v \<in> set (trie_get T (trie_build T ?es) p). decode_tags v) = domain_tags (pairs files) q"
      unfolding pre get es
    proof (rule set_eqI)
      fix tag
      have "tag \<in> (\<Union>p \<in> {p \<in> fst ` (\<lambda>(d, ts). (d, encode_tags ts)) ` set d. prefix p ?key}.
           \<Union>v \<in> {v. (p, v) \<in> (\<lambda>(d, ts). (d, encode_tags ts)) ` set d}. decode_tags v) \<longleftrightarrow>
         (\<exists>r ts. prefix r ?key \<and> (r, ts) \<in> set d \<and> tag \<in> decode_tags (encode_tags ts))"
        by force
      also have "\<dots> \<longleftrightarrow> (\<exists>r. prefix r ?key \<and> (r, tag) \<in> pairs d)"
        unfolding pairs_def using dec by (simp cong: conj_cong)
      finally show "tag \<in> (\<Union>p \<in> {p \<in> fst ` (\<lambda>(d, ts). (d, encode_tags ts)) ` set d. prefix p ?key}.
           \<Union>v \<in> {v. (p, v) \<in> (\<lambda>(d, ts). (d, encode_tags ts)) ` set d}. decode_tags v) \<longleftrightarrow>
         tag \<in> domain_tags (pairs files) q"
        by (simp only: tag_iff)
    qed
    with False trie rk show ?thesis by (simp add: domain_lookup_def)
  qed
qed

text \<open>The root domain cannot be looked up in a set that is not empty.\<close>

lemma domain_lookup_root: "domain_lookup T (Some t) [] = Inl (ValueError ''domain must not be empty'')"
  by (simp add: domain_lookup_def reverse_domain_def normalize_domain_def py_strip_def py_lstrip_def
      rstrip_dot_def py_lower_def)

lemma domain_snapshot:
  assumes "\<And>t. trie_mmap T (trie_save T t) = t"
  shows "domain_set_from_snapshot T (save_mmap T trie) = trie"
  using assms by (cases trie) (simp_all add: domain_set_from_snapshot_def save_mmap_def)

section \<open>Networks\<close>

definition normalize_network :: "string \<Rightarrow> string res" where
  "normalize_network value = andthen (ip_network (py_strip value)) (\<lambda>n. Inr (with_prefixlen n))"

fun collect_networks ::
  "(string \<times> string list) list \<Rightarrow> (string \<times> string list) list \<Rightarrow> (string \<times> string list) list" where
  "collect_networks [] d = d"
| "collect_networks ((tag, networks) # rest) d =
     collect_networks rest (fold (\<lambda>network. add_value network tag) networks d)"

record 'r radix_lib =
  radix_build :: "(string \<times> string list) list \<Rightarrow> 'r"
  radix_covering :: "'r \<Rightarrow> string \<Rightarrow> string list list"

text \<open>One network covers another when it holds all its addresses.\<close>

definition net_covers :: "ip_network \<Rightarrow> ip_network \<Rightarrow> bool" where
  "net_covers n m \<longleftrightarrow> ip_version (network_address n) = ip_version (network_address m) \<and>
     prefixlen n \<le> prefixlen m \<and>
     mask_ip (prefixlen n) (network_address m) = network_address n"

definition covers_text :: "string \<Rightarrow> string \<Rightarrow> bool" where
  "covers_text s t = (case (ip_network s, ip_network t) of
     (Inr n, Inr m) \<Rightarrow> net_covers n m | _ \<Rightarrow> False)"

definition radix_ok :: "'r radix_lib \<Rightarrow> (string \<times> string list) list \<Rightarrow> bool" where
  "radix_ok R es \<longleftrightarrow>
     (\<forall>t. set (radix_covering R (radix_build R es) t) = {tags. \<exists>s. (s, tags) \<in> set es \<and> covers_text s t})"

definition ip_set_init :: "'r radix_lib \<Rightarrow> dir_state option \<Rightarrow> 'r option res" where
  "ip_set_init R directory =
     andthen (load_tag_files directory normalize_network) (\<lambda>files.
     let network_to_tags = collect_networks files [] in
     Inr (if network_to_tags = [] then None
          else Some (radix_build R (sort_key fst network_to_tags))))"

definition ip_lookup :: "'r radix_lib \<Rightarrow> 'r option \<Rightarrow> string \<Rightarrow> string set res" where
  "ip_lookup R tree address =
     (case tree of None \<Rightarrow> Inr {}
      | Some t \<Rightarrow> andthen (ip_network address) (\<lambda>n.
          Inr (\<Union>tags \<in> set (radix_covering R t (with_prefixlen n)). set tags)))"

lemma pairs_fold_add: "pairs (fold (\<lambda>n. add_value n tag) ns d) = pairs d \<union> {(n, tag) |n. n \<in> set ns}"
  by (induction ns arbitrary: d) (auto simp: pairs_add_value)

lemma collect_networks_pairs:
  "pairs (collect_networks fs d) = pairs d \<union> {(n, tag) |n tag. (tag, n) \<in> pairs fs}"
  by (induction fs d rule: collect_networks.induct) (auto simp: pairs_fold_add pairs_Cons)

text \<open>The tags whose files name a network that holds the address.\<close>

definition network_tags :: "(string \<times> string) set \<Rightarrow> string \<Rightarrow> string set" where
  "network_tags files t = {tag. \<exists>s. (tag, s) \<in> files \<and> covers_text s t}"

lemma pairs_empty_iff: "(\<forall>(k, vs) \<in> set d. vs \<noteq> []) \<Longrightarrow> pairs d = {} \<longleftrightarrow> d = []"
  by (cases d) (auto simp: pairs_Cons)

lemma ip_lookup_spec:
  assumes files: "load_tag_files dir normalize_network = Inr files"
    and init: "ip_set_init R dir = Inr tree"
    and R: "\<And>es. radix_ok R es"
    and a: "ip_network address = Inr n"
  shows "ip_lookup R tree address = Inr (network_tags (pairs files) (with_prefixlen n))"
proof -
  let ?d = "collect_networks files []" and ?t = "with_prefixlen n"
  have ps: "pairs ?d = {(s, tag) |s tag. (tag, s) \<in> pairs files}"
    using collect_networks_pairs [of files "[]"] by simp
  have tags: "network_tags (pairs files) ?t = {tag. \<exists>s. (s, tag) \<in> pairs ?d \<and> covers_text s ?t}"
    by (auto simp: network_tags_def ps)
  have tree: "tree = (if ?d = [] then None else Some (radix_build R (sort_key fst ?d)))"
    using init files by (simp add: ip_set_init_def Let_def)
  show ?thesis
  proof (cases "?d = []")
    case True
    then have "network_tags (pairs files) ?t = {}" using tags by simp
    with True tree show ?thesis by (simp add: ip_lookup_def)
  next
    case False
    have "set (radix_covering R (radix_build R (sort_key fst ?d)) ?t) =
        {tags. \<exists>s. (s, tags) \<in> set ?d \<and> covers_text s ?t}"
      using R [of "sort_key fst ?d"] by (simp add: radix_ok_def)
    then have "(\<Union>tags \<in> set (radix_covering R (radix_build R (sort_key fst ?d)) ?t). set tags) =
        network_tags (pairs files) ?t"
      unfolding tags by (auto simp: pairs_def)
    with False tree a show ?thesis by (simp add: ip_lookup_def)
  qed
qed

lemma net_covers_int:
  assumes "net_covers n m"
  shows "ip_int (network_address m) div 2 ^ (max_prefixlen (network_address m) - prefixlen n) =
         ip_int (network_address n) div 2 ^ (max_prefixlen (network_address n) - prefixlen n)"
proof -
  have "network_address n = mask_ip (prefixlen n) (network_address m)"
    using assms by (simp add: net_covers_def)
  then show ?thesis by (simp add: ip_int_mask)
qed

section \<open>Properties\<close>

text \<open>
  What is written to the trie for a set of tags is read back as that set.
\<close>

theorem tags_round_trip:
  assumes "ts \<noteq> []" and "list_all (\<lambda>t. t \<noteq> [] \<and> tag_separator \<notin> set t) ts"
  shows "decode_tags (encode_tags ts) = set ts"
  using decode_encode_tags [of ts] assms by (simp add: list_all_iff)

theorem tags_round_trip_witness:
  "decode_tags (encode_tags [''cn'', ''ads'']) = {''cn'', ''ads''}"
  using tags_round_trip [of "[''cn'', ''ads'']"] by (simp add: tag_separator_def)

text \<open>A trie of \<open>marisa_trie\<close> as the list of its entries, and a radix tree likewise.\<close>

definition list_trie :: "((string \<times> string) list, (string \<times> string) list) trie_lib" where
  "list_trie = \<lparr>trie_build = (\<lambda>es. es),
     trie_prefixes = (\<lambda>es k. filter (\<lambda>p. prefix p k) (map fst es)),
     trie_get = (\<lambda>es k. map snd (filter (\<lambda>e. fst e = k) es)),
     trie_save = (\<lambda>es. es), trie_mmap = (\<lambda>es. es)\<rparr>"

lemma list_trie_ok: "trie_ok list_trie es"
proof -
  have "snd ` {x \<in> set es. fst x = k} = {v. (k, v) \<in> set es}" for k by force
  then show ?thesis by (auto simp: trie_ok_def list_trie_def)
qed

definition list_radix :: "(string \<times> string list) list radix_lib" where
  "list_radix = \<lparr>radix_build = (\<lambda>es. es),
     radix_covering = (\<lambda>es t. map snd (filter (\<lambda>e. covers_text (fst e) t) es))\<rparr>"

lemma list_radix_ok: "radix_ok list_radix es"
proof -
  have "snd ` {x \<in> set es. covers_text (fst x) t} = {tags. \<exists>s. (s, tags) \<in> set es \<and> covers_text s t}" for t
    by force
  then show ?thesis by (simp add: radix_ok_def list_radix_def)
qed

definition sample_tag_dir :: "dir_state" where
  "sample_tag_dir = Directory
     [\<lparr>f_name = ''cn.txt'', f_is_file = True, f_text = ''example.cn''\<rparr>,
      \<lparr>f_name = ''.hidden'', f_is_file = True, f_text = ''ignored''\<rparr>]"

text \<open>
  C20: A domain set answers a lookup with the tags of exactly the files that name the domain or
  a domain above it, label by label.
\<close>

theorem domain_lookup_correct:
  assumes "load_tag_files dir normalize_domain = Inr files"
    and "domain_set_init T dir = Inr trie"
    and "\<And>es. trie_ok T es"
    and "\<And>tag x. (tag, x) \<in> pairs files \<Longrightarrow> tag \<noteq> [] \<and> tag_separator \<notin> set tag"
    and "normalize_domain qname = Inr q"
  shows "domain_lookup T trie qname = Inr (domain_tags (pairs files) q)"
  using assms by (rule domain_lookup_spec)

lemma sample_files:
  "load_tag_files (Some sample_tag_dir) normalize_domain = Inr [(''cn'', [''example.cn''])]"
  by code_simp

lemma sample_init: "domain_set_init list_trie (Some sample_tag_dir) = Inr (Some [(''cn.example.'', ''cn'')])"
  by code_simp

theorem domain_lookup_correct_witness:
  "domain_lookup list_trie (Some [(''cn.example.'', ''cn'')]) ''www.Example.cn'' =
     Inr (domain_tags (pairs [(''cn'', [''example.cn''])]) ''www.example.cn'')"
proof (rule domain_lookup_correct [OF sample_files sample_init])
  show "\<And>es. trie_ok list_trie es" by (rule list_trie_ok)
  show "\<And>tag x. (tag, x) \<in> pairs [(''cn'', [''example.cn''])] \<Longrightarrow> tag \<noteq> [] \<and> tag_separator \<notin> set tag"
    by (auto simp: pairs_def tag_separator_def)
  show "normalize_domain ''www.Example.cn'' = Inr ''www.example.cn''" by code_simp
qed

definition sample_ip_dir :: "dir_state" where
  "sample_ip_dir = Directory
     [\<lparr>f_name = ''lan.txt'', f_is_file = True, f_text = ''10.0.0.0/8''\<rparr>]"

text \<open>
  C21: An IP set answers a lookup with the tags of exactly the files that name a network holding
  the address.
\<close>

theorem ip_lookup_correct:
  assumes "load_tag_files dir normalize_network = Inr files"
    and "ip_set_init R dir = Inr tree"
    and "\<And>es. radix_ok R es"
    and "ip_network address = Inr n"
  shows "ip_lookup R tree address = Inr (network_tags (pairs files) (with_prefixlen n))"
  using assms by (rule ip_lookup_spec)

lemma sample_digits:
  "dec_str 10 = ''10''" "dec_str 0 = ''0''" "dec_str 8 = ''8''" "dec_str 32 = ''32''"
  "dec_str (Suc 0) = ''1''" "dec_str 2 = ''2''" "dec_str 3 = ''3''"
  by (simp_all add: dec_str.simps digit_char_def char_of_eq_iff)

lemma sample_parse: "parse_ipv4 ''10.0.0.0'' = Some 167772160" "parse_ipv4 ''10.1.2.3'' = Some 167838211"
  by (simp_all add: parse_ipv4_def parse_octet_def dec_val_def digit_val_def is_digit_def)

lemma sample_print: "print_ipv4 167772160 = ''10.0.0.0''" "print_ipv4 167838211 = ''10.1.2.3''"
  by (simp_all add: print_ipv4_def sample_digits)

lemma sample_network:
  "ip_network ''10.0.0.0/8'' = Inr \<lparr>network_address = IPv4 167772160, prefixlen = 8\<rparr>"
  by (simp add: ip_network_def ip_address_def sample_parse parse_prefix_def is_digit_def dec_val_def
      digit_val_def mask_ip_def)

lemma sample_address:
  "ip_network ''10.1.2.3'' = Inr \<lparr>network_address = IPv4 167838211, prefixlen = 32\<rparr>"
  by (simp add: ip_network_def ip_address_def sample_parse)

lemma sample_texts:
  "with_prefixlen \<lparr>network_address = IPv4 167772160, prefixlen = 8\<rparr> = ''10.0.0.0/8''"
  "with_prefixlen \<lparr>network_address = IPv4 167838211, prefixlen = 32\<rparr> = ''10.1.2.3/32''"
  by (simp_all add: with_prefixlen_def sample_print sample_digits)

lemma sample_normalize: "normalize_network ''10.0.0.0/8'' = Inr ''10.0.0.0/8''"
proof -
  have "py_strip ''10.0.0.0/8'' = ''10.0.0.0/8''" by code_simp
  then show ?thesis by (simp add: normalize_network_def sample_network sample_texts)
qed

lemma sample_networks:
  "load_tag_files (Some sample_ip_dir) normalize_network = Inr [(''lan'', [''10.0.0.0/8''])]"
proof -
  have s: "path_stem ''lan.txt'' = ''lan''" by code_simp
  have p: "py_strip ''10.0.0.0/8'' = ''10.0.0.0/8''" by code_simp
  show ?thesis by (simp add: load_tag_files_def sample_ip_dir_def is_line_break_def s p sample_normalize)
qed

lemma sample_ip_init: "ip_set_init list_radix (Some sample_ip_dir) = Inr (Some [(''10.0.0.0/8'', [''lan''])])"
  by (simp add: ip_set_init_def sample_networks list_radix_def)

theorem ip_lookup_correct_witness:
  "ip_lookup list_radix (Some [(''10.0.0.0/8'', [''lan''])]) ''10.1.2.3'' =
     Inr (network_tags (pairs [(''lan'', [''10.0.0.0/8''])]) ''10.1.2.3/32'')"
  using ip_lookup_correct [OF sample_networks sample_ip_init list_radix_ok sample_address]
  by (simp only: sample_texts)

text \<open>
  The name of the root cannot be looked up: with any tag file loaded, \<open>lookup\<close> raises on
  the empty text, which is what the plugins pass for the root.
\<close>

theorem domain_lookup_rejects_root:
  "domain_lookup T (Some t) (rstrip_dot ''.'') = Inl (ValueError ''domain must not be empty'')"
proof -
  have "rstrip_dot ''.'' = []" by code_simp
  then show ?thesis by (simp only: domain_lookup_root)
qed

end
