(* ===== verification/Single_Flight.thy ===== *)
theory Single_Flight
  imports Dns_Msg
begin

text \<open>
  The merging of concurrent requests for the same question, which the program has twice:
  \<open>core/front_cache.py\<close> in front of the worker processes and \<open>plugins/cache_plugin/service.py\<close>
  inside a pipeline. The first request for a key becomes the owner of a pending entry, the others
  wait for its event; the owner completes the entry.

  The contract of such a table is the locale \<open>flight\<close>. Its clients are the step relation
  \<open>flight_step\<close>: acquire, wait, complete, wake up, in any interleaving (each method holds the
  table's lock or has no suspension point, so a method is one step). From the laws follows that
  a key has one owner and that no wake-up is lost. The two tables are interpretations.
\<close>

section \<open>The protocol\<close>

record ('s, 'k, 'v) flight_ops =
  fl_acquire :: "'k \<Rightarrow> 's \<Rightarrow> nat option \<times> 's"
  fl_complete :: "'k \<Rightarrow> 'v \<Rightarrow> 's \<Rightarrow> 's"
  fl_outcome :: "'s \<Rightarrow> nat \<Rightarrow> 'v option"

text \<open>\<open>fl_owner\<close> names the client that owns a key, \<open>fl_waiting\<close> the clients and their events.\<close>

record ('s, 'k) flight_state =
  fl_table :: 's
  fl_owner :: "'k \<rightharpoonup> nat"
  fl_waiting :: "(nat \<times> nat) set"

inductive flight_step ::
  "('s, 'k, 'v) flight_ops \<Rightarrow> ('s, 'k) flight_state \<Rightarrow> ('s, 'k) flight_state \<Rightarrow> bool" for ops where
  own: "fl_acquire ops k (fl_table s) = (None, t) \<Longrightarrow>
     flight_step ops s (s\<lparr>fl_table := t, fl_owner := (fl_owner s)(k \<mapsto> c)\<rparr>)"
| join: "fl_acquire ops k (fl_table s) = (Some i, t) \<Longrightarrow>
     flight_step ops s (s\<lparr>fl_table := t, fl_waiting := insert (c, i) (fl_waiting s)\<rparr>)"
| finish: "fl_owner s k = Some c \<Longrightarrow>
     flight_step ops s (s\<lparr>fl_table := fl_complete ops k v (fl_table s), fl_owner := (fl_owner s)(k := None)\<rparr>)"
| wake: "(c, i) \<in> fl_waiting s \<Longrightarrow> fl_outcome ops (fl_table s) i = Some v \<Longrightarrow>
     flight_step ops s (s\<lparr>fl_waiting := fl_waiting s - {(c, i)}\<rparr>)"

inductive flight_run ::
  "('s, 'k, 'v) flight_ops \<Rightarrow> 's \<Rightarrow> ('s, 'k) flight_state \<Rightarrow> bool" for ops t0 where
  start: "flight_run ops t0 \<lparr>fl_table = t0, fl_owner = Map.empty, fl_waiting = {}\<rparr>"
| step: "flight_run ops t0 s \<Longrightarrow> flight_step ops s s' \<Longrightarrow> flight_run ops t0 s'"

inductive_cases flight_stepE: "flight_step ops s s'"

locale flight =
  fixes ops :: "('s, 'k, 'v) flight_ops"
    and entry :: "'s \<Rightarrow> 'k \<rightharpoonup> nat"
    and inv :: "'s \<Rightarrow> bool"
  assumes acquire_free: "inv s \<Longrightarrow> entry s k = None \<Longrightarrow> fl_acquire ops k s = (r, s') \<Longrightarrow>
      r = None \<and> inv s' \<and> (\<exists>i. entry s' = (entry s)(k \<mapsto> i)) \<and>
      (\<forall>j v. fl_outcome ops s j = Some v \<longrightarrow> fl_outcome ops s' j = Some v)"
    and acquire_busy: "inv s \<Longrightarrow> entry s k = Some i \<Longrightarrow> fl_acquire ops k s = (Some i, s)"
    and complete_busy: "inv s \<Longrightarrow> entry s k = Some i \<Longrightarrow> s' = fl_complete ops k v s \<Longrightarrow>
      inv s' \<and> entry s' = (entry s)(k := None) \<and> fl_outcome ops s' i = Some v \<and>
      (\<forall>j w. fl_outcome ops s j = Some w \<longrightarrow> fl_outcome ops s' j = Some w)"
    and entry_open: "inv s \<Longrightarrow> entry s k = Some i \<Longrightarrow> fl_outcome ops s i = None"
    and entry_inj: "inv s \<Longrightarrow> entry s k = Some i \<Longrightarrow> entry s k' = Some i \<Longrightarrow> k = k'"
begin

definition good :: "('s, 'k) flight_state \<Rightarrow> bool" where
  "good s \<longleftrightarrow> inv (fl_table s) \<and> dom (fl_owner s) = dom (entry (fl_table s)) \<and>
     (\<forall>(c, i) \<in> fl_waiting s.
        fl_outcome ops (fl_table s) i \<noteq> None \<or> (\<exists>k. entry (fl_table s) k = Some i))"

lemma goodI:
  assumes "inv (fl_table s)" and "dom (fl_owner s) = dom (entry (fl_table s))"
    and "\<And>c i. (c, i) \<in> fl_waiting s \<Longrightarrow>
      fl_outcome ops (fl_table s) i \<noteq> None \<or> (\<exists>k. entry (fl_table s) k = Some i)"
  shows "good s"
  using assms unfolding good_def by blast

lemma goodD:
  assumes "good s"
  shows "inv (fl_table s)" and "dom (fl_owner s) = dom (entry (fl_table s))"
    and "(c, i) \<in> fl_waiting s \<Longrightarrow>
      fl_outcome ops (fl_table s) i \<noteq> None \<or> (\<exists>k. entry (fl_table s) k = Some i)"
  using assms unfolding good_def by blast+

lemma good_own:
  assumes g: "good s" and a: "fl_acquire ops k (fl_table s) = (None, t)"
  shows "good (s\<lparr>fl_table := t, fl_owner := (fl_owner s)(k \<mapsto> c)\<rparr>) \<and> fl_owner s k = None"
proof -
  let ?t = "fl_table s"
  have i: "inv ?t" using g by (simp add: good_def)
  have k: "entry ?t k = None"
  proof (cases "entry ?t k")
    case (Some j)
    with acquire_busy [OF i] a show ?thesis by simp
  qed
  from acquire_free [OF i k a] obtain j where t: "inv t" "entry t = (entry ?t)(k \<mapsto> j)"
    and out: "\<forall>j v. fl_outcome ops ?t j = Some v \<longrightarrow> fl_outcome ops t j = Some v" by auto
  have "k \<notin> dom (entry ?t)" using k by blast
  then have own: "fl_owner s k = None" using goodD(2) [OF g] by blast
  have "fl_outcome ops t i \<noteq> None \<or> (\<exists>k'. entry t k' = Some i)" if w: "(c', i) \<in> fl_waiting s" for c' i
  proof -
    from goodD(3) [OF g w] show ?thesis
    proof
      assume "\<exists>k'. entry ?t k' = Some i"
      then obtain k' where "entry ?t k' = Some i" ..
      with k t(2) show ?thesis by (intro disjI2 exI [of _ k']) auto
    qed (use out in auto)
  qed
  then have "good (s\<lparr>fl_table := t, fl_owner := (fl_owner s)(k \<mapsto> c)\<rparr>)"
    using t goodD(2) [OF g] by (intro goodI) simp_all
  with own show ?thesis by simp
qed

lemma good_join:
  assumes g: "good s" and a: "fl_acquire ops k (fl_table s) = (Some i, t)"
  shows "good (s\<lparr>fl_table := t, fl_waiting := insert (c, i) (fl_waiting s)\<rparr>)"
proof -
  let ?t = "fl_table s"
  have v: "inv ?t" using g by (simp add: good_def)
  have k: "entry ?t k \<noteq> None" using acquire_free [OF v _ a] by auto
  then obtain j where j: "entry ?t k = Some j" by blast
  with acquire_busy [OF v] a have "t = ?t" "j = i" by auto
  with g j show ?thesis by (auto simp: good_def)
qed

lemma good_finish:
  assumes g: "good s" and o: "fl_owner s k = Some c"
  shows "good (s\<lparr>fl_table := fl_complete ops k v (fl_table s), fl_owner := (fl_owner s)(k := None)\<rparr>)"
proof -
  let ?t = "fl_table s" and ?t' = "fl_complete ops k v (fl_table s)"
  have i: "inv ?t" using g by (simp add: good_def)
  have "k \<in> dom (entry ?t)" using g o by (auto simp: good_def)
  then obtain j where j: "entry ?t k = Some j" by auto
  from complete_busy [OF i j refl [of ?t']] have t: "inv ?t'" "entry ?t' = (entry ?t)(k := None)"
    "fl_outcome ops ?t' j = Some v"
    and out: "\<forall>j w. fl_outcome ops ?t j = Some w \<longrightarrow> fl_outcome ops ?t' j = Some w" by auto
  have "fl_outcome ops ?t' x \<noteq> None \<or> (\<exists>k'. entry ?t' k' = Some x)" if w: "(c', x) \<in> fl_waiting s" for c' x
  proof (cases "x = j")
    case False
    from goodD(3) [OF g w] show ?thesis
    proof
      assume "\<exists>k'. entry ?t k' = Some x"
      then obtain k' where k': "entry ?t k' = Some x" ..
      with j False have "k' \<noteq> k" by auto
      with k' t(2) show ?thesis by (intro disjI2 exI [of _ k']) simp
    qed (use out in auto)
  qed (simp add: t(3))
  with t goodD(2) [OF g] show ?thesis by (intro goodI) simp_all
qed

lemma good_step: "flight_step ops s s' \<Longrightarrow> good s \<Longrightarrow> good s'"
proof (induction rule: flight_step.induct)
  case (own k s t c)
  then show ?case using good_own by blast
next
  case (join k s i t c)
  then show ?case using good_join by blast
next
  case (finish s k c v)
  then show ?case using good_finish by blast
next
  case (wake c i s v)
  then show ?case by (auto simp: good_def)
qed

lemma run_good: "flight_run ops t0 s \<Longrightarrow> inv t0 \<Longrightarrow> entry t0 = Map.empty \<Longrightarrow> good s"
proof (induction rule: flight_run.induct)
  case start
  then show ?case by (simp add: good_def)
next
  case (step s s')
  then show ?case using good_step by blast
qed

text \<open>A key with an owner is not given to a second one.\<close>

lemma one_owner:
  assumes "flight_run ops t0 s" and "inv t0" and "entry t0 = Map.empty"
    and "fl_acquire ops k (fl_table s) = (None, t)"
  shows "fl_owner s k = None"
  using good_own [OF run_good [OF assms(1-3)] assms(4)] by simp

text \<open>Whoever waits can wake up, or waits for an owner that has not completed yet.\<close>

lemma no_lost_wakeup:
  assumes "flight_run ops t0 s" and "inv t0" and "entry t0 = Map.empty" and "(c, i) \<in> fl_waiting s"
  shows "(\<exists>v. fl_outcome ops (fl_table s) i = Some v) \<or>
     (\<exists>k o'. fl_owner s k = Some o' \<and> entry (fl_table s) k = Some i \<and>
        (\<forall>v. fl_outcome ops (fl_complete ops k v (fl_table s)) i = Some v))"
proof -
  have g: "good s" by (rule run_good [OF assms(1-3)])
  then have "fl_outcome ops (fl_table s) i \<noteq> None \<or> (\<exists>k. entry (fl_table s) k = Some i)"
    using assms(4) by (auto simp: good_def)
  then show ?thesis
  proof
    assume "\<exists>k. entry (fl_table s) k = Some i"
    then obtain k where k: "entry (fl_table s) k = Some i" ..
    then have "k \<in> dom (fl_owner s)" using g by (auto simp: good_def)
    then obtain o' where "fl_owner s k = Some o'" by auto
    moreover have "\<forall>v. fl_outcome ops (fl_complete ops k v (fl_table s)) i = Some v"
      using complete_busy [OF _ k refl] g by (auto simp: good_def)
    ultimately show ?thesis using k by blast
  qed auto
qed

text \<open>When no request is in progress, every waiter has its outcome.\<close>

lemma idle_wakes:
  assumes "flight_run ops t0 s" and "inv t0" and "entry t0 = Map.empty"
    and "fl_owner s = Map.empty" and "(c, i) \<in> fl_waiting s"
  shows "\<exists>v. fl_outcome ops (fl_table s) i = Some v"
  using no_lost_wakeup [OF assms(1-3,5)] assms(4) by auto

end

section \<open>Tables of pending entries\<close>

type_synonym cache_key = "dname \<times> nat \<times> nat"

text \<open>
  The key of a question. dnspython compares names without regard to case, so the key holds the
  lowered name.
\<close>

definition make_key :: "dname \<Rightarrow> nat \<Rightarrow> nat \<Rightarrow> cache_key" where
  "make_key qname rdtype rdclass = (py_lower qname, rdtype, rdclass)"

definition make_key_from_request :: "message \<Rightarrow> cache_key res" where
  "make_key_from_request req =
     (case msg_question req of [] \<Rightarrow> Inl IndexError
      | q # _ \<Rightarrow> Inr (make_key (q_name q) (q_type q) (q_class q)))"

definition make_key_from_answer :: "answer \<Rightarrow> cache_key" where
  "make_key_from_answer a = make_key (a_qname a) (a_type a) (a_class a)"

text \<open>\<open>FrontCache._make_key_from_request\<close>: \<open>None\<close> for a request that is not cached.\<close>

definition front_key :: "message \<Rightarrow> cache_key option" where
  "front_key req =
     (if msg_opcode req \<noteq> OP_QUERY \<or> length (msg_question req) \<noteq> 1 then None
      else let q = hd (msg_question req) in
        if q_class q \<noteq> IN then None else Some (make_key (q_name q) (q_type q) (q_class q)))"

text \<open>
  Pending entries and the events they refer to. An event of the front cache is an
  \<open>anyio.Event\<close> with a holder, one of the cache service is a future; both are open, or done
  with a wire or nothing.
\<close>

record pending_table =
  pt_pending :: "cache_key \<rightharpoonup> nat"
  pt_events :: "bytes option option list"

definition pt_empty :: pending_table where
  "pt_empty = \<lparr>pt_pending = Map.empty, pt_events = []\<rparr>"

definition event_outcome :: "pending_table \<Rightarrow> nat \<Rightarrow> bytes option option" where
  "event_outcome s i = (if i < length (pt_events s) then pt_events s ! i else None)"

text \<open>The critical section of \<open>acquire_pending\<close>.\<close>

definition acquire_entry :: "cache_key \<Rightarrow> pending_table \<Rightarrow> nat option \<times> pending_table" where
  "acquire_entry key s =
     (case pt_pending s key of
        Some i \<Rightarrow> (Some i, s)
      | None \<Rightarrow> (None, s\<lparr>pt_pending := (pt_pending s)(key \<mapsto> length (pt_events s)),
                        pt_events := pt_events s @ [None]\<rparr>))"

definition pop_entry :: "cache_key \<Rightarrow> pending_table \<Rightarrow> nat option \<times> pending_table" where
  "pop_entry key s = (pt_pending s key, s\<lparr>pt_pending := (pt_pending s)(key := None)\<rparr>)"

definition set_event :: "nat \<Rightarrow> bytes option \<Rightarrow> pending_table \<Rightarrow> pending_table" where
  "set_event i w s = s\<lparr>pt_events := (pt_events s)[i := Some w]\<rparr>"

definition table_ok :: "pending_table \<Rightarrow> bool" where
  "table_ok s \<longleftrightarrow>
     (\<forall>k i. pt_pending s k = Some i \<longrightarrow> i < length (pt_events s) \<and> pt_events s ! i = None) \<and>
     (\<forall>k k' i. pt_pending s k = Some i \<longrightarrow> pt_pending s k' = Some i \<longrightarrow> k = k')"

lemma table_okI:
  assumes "\<And>k i. pt_pending s k = Some i \<Longrightarrow> i < length (pt_events s) \<and> pt_events s ! i = None"
    and "\<And>k k' i. pt_pending s k = Some i \<Longrightarrow> pt_pending s k' = Some i \<Longrightarrow> k = k'"
  shows "table_ok s"
  using assms unfolding table_ok_def by blast

lemma table_okD:
  assumes "table_ok s" and "pt_pending s k = Some i"
  shows "i < length (pt_events s)" and "pt_events s ! i = None"
    and "pt_pending s k' = Some i \<Longrightarrow> k = k'" and "event_outcome s i = None"
proof -
  show i: "i < length (pt_events s)" and o': "pt_events s ! i = None"
    using assms unfolding table_ok_def by blast+
  show "pt_pending s k' = Some i \<Longrightarrow> k = k'" using assms unfolding table_ok_def by blast
  show "event_outcome s i = None" using i o' by (simp add: event_outcome_def)
qed

lemma table_ok_empty: "table_ok pt_empty"
  by (rule table_okI) (simp_all add: pt_empty_def)

lemma acquire_free_table:
  assumes ok: "table_ok s" and k: "pt_pending s k = None" and "acquire_entry k s = (r, s')"
  shows "r = None \<and> table_ok s' \<and> pt_pending s' = (pt_pending s)(k \<mapsto> length (pt_events s)) \<and>
    (\<forall>j v. event_outcome s j = Some v \<longrightarrow> event_outcome s' j = Some v)"
proof -
  have r: "r = None" and s': "pt_pending s' = (pt_pending s)(k \<mapsto> length (pt_events s))"
      "pt_events s' = pt_events s @ [None]" using assms by (auto simp: acquire_entry_def)
  have at: "i < length (pt_events s') \<and> pt_events s' ! i = None" if "pt_pending s' k' = Some i" for k' i
  proof (cases "k' = k")
    case True
    with that s'(1) have "i = length (pt_events s)" by simp
    with s'(2) show ?thesis by simp
  next
    case False
    with that s'(1) have "pt_pending s k' = Some i" by simp
    from table_okD(1,2) [OF ok this] s'(2) show ?thesis by (simp add: nth_append)
  qed
  have inj: "k1 = k2" if "pt_pending s' k1 = Some i" "pt_pending s' k2 = Some i" for k1 k2 i
  proof (cases "k1 = k \<or> k2 = k")
    case True
    have "pt_pending s k' \<noteq> Some (length (pt_events s))" for k'
      using table_okD(1) [OF ok, of k'] by blast
    with True that s'(1) show ?thesis by (metis fun_upd_apply option.inject)
  next
    case False
    with that s'(1) have "pt_pending s k1 = Some i" "pt_pending s k2 = Some i" by simp_all
    then show ?thesis by (rule table_okD(3) [OF ok])
  qed
  have "table_ok s'" using at inj by (rule table_okI)
  with r s' show ?thesis by (simp add: event_outcome_def nth_append)
qed

lemma finish_table:
  assumes ok: "table_ok s" and k: "pt_pending s k = Some i"
    and "s' = set_event i w (snd (pop_entry k s))"
  shows "table_ok s' \<and> pt_pending s' = (pt_pending s)(k := None) \<and> event_outcome s' i = Some w \<and>
    (\<forall>j v. event_outcome s j = Some v \<longrightarrow> event_outcome s' j = Some v)"
proof -
  note i = table_okD(1,2) [OF ok k]
  have s': "pt_pending s' = (pt_pending s)(k := None)" "pt_events s' = (pt_events s)[i := Some w]"
    using assms(3) by (simp_all add: set_event_def pop_entry_def)
  have at: "j < length (pt_events s') \<and> pt_events s' ! j = None" if "pt_pending s' k' = Some j" for k' j
  proof -
    have k': "k' \<noteq> k" "pt_pending s k' = Some j" using that s'(1) by (simp_all split: if_splits)
    then have "j \<noteq> i" using table_okD(3) [OF ok k] by blast
    with table_okD(1,2) [OF ok k'(2)] s'(2) show ?thesis by simp
  qed
  have inj: "k1 = k2" if "pt_pending s' k1 = Some j" "pt_pending s' k2 = Some j" for k1 k2 j
  proof -
    from that s'(1) have "pt_pending s k1 = Some j" "pt_pending s k2 = Some j"
      by (simp_all split: if_splits)
    then show ?thesis by (rule table_okD(3) [OF ok])
  qed
  have "table_ok s'" using at inj by (rule table_okI)
  with s' i show ?thesis by (simp add: event_outcome_def nth_list_update)
qed

section \<open>\<open>FrontCache\<close>\<close>

text \<open>
  dnspython's \<open>LRUCache\<close> is the record \<open>lru_lib\<close>: \<open>lru_get\<close> may change its state (it drops
  expired entries and counts).
\<close>

record 'l lru_lib =
  lru_get :: "cache_key \<Rightarrow> 'l \<Rightarrow> answer option \<times> 'l"
  lru_put :: "cache_key \<Rightarrow> answer \<Rightarrow> 'l \<Rightarrow> 'l"

record 'l front_cache =
  fc_lru :: 'l
  fc_table :: pending_table

definition remaining_ttl :: "real \<Rightarrow> answer \<Rightarrow> nat" where
  "remaining_ttl now a = nat \<lfloor>a_expiration a - now\<rfloor>"

definition set_ttl :: "nat \<Rightarrow> rrset \<Rightarrow> rrset" where
  "set_ttl ttl rr = (if rr_type rr \<in> {RT_OPT, RT_TSIG} then rr else rr\<lparr>rr_ttl := ttl\<rparr>)"

definition set_ttls :: "nat \<Rightarrow> message \<Rightarrow> message" where
  "set_ttls ttl m = m\<lparr>msg_answer := map (set_ttl ttl) (msg_answer m),
     msg_authority := map (set_ttl ttl) (msg_authority m),
     msg_additional := map (set_ttl ttl) (msg_additional m)\<rparr>"

text \<open>\<open>FrontCache._clone_response\<close>\<close>

definition front_clone_response :: "dnslib \<Rightarrow> real \<Rightarrow> answer \<Rightarrow> message \<Rightarrow> message res" where
  "front_clone_response L now a req =
     andthen (clone_response_for_request L (a_response a) req) (\<lambda>cloned.
     Inr (set_ttls (remaining_ttl now a) cloned))"

definition front_get_response ::
  "dnslib \<Rightarrow> 'l lru_lib \<Rightarrow> real \<Rightarrow> message \<Rightarrow> ('l front_cache, message option) act" where
  "front_get_response L lru now req = (\<lambda>s.
     case front_key req of None \<Rightarrow> (Inr None, s)
     | Some key \<Rightarrow>
         (case lru_get lru key (fc_lru s) of (cached, l) \<Rightarrow>
            (case cached of
               None \<Rightarrow> (Inr None, s\<lparr>fc_lru := l\<rparr>)
             | Some a \<Rightarrow> (andthen (front_clone_response L now a req) (\<lambda>m. Inr (Some m)), s\<lparr>fc_lru := l\<rparr>))))"

definition front_put_response ::
  "dnslib \<Rightarrow> 'l lru_lib \<Rightarrow> real \<Rightarrow> message \<Rightarrow> message option \<Rightarrow> ('l front_cache, bool) act" where
  "front_put_response L lru now req response = (\<lambda>s.
     case response of None \<Rightarrow> (Inr False, s)
     | Some m \<Rightarrow>
         if msg_rcode m \<noteq> NOERROR then (Inr False, s)
         else (case front_key req of None \<Rightarrow> (Inr False, s)
         | Some key \<Rightarrow>
             (case build_answer_from_response L now req m of
                Inl e \<Rightarrow> (Inl e, s)
              | Inr a \<Rightarrow>
                  if a_rrset a = None then (Inr False, s)
                  else (Inr True, s\<lparr>fc_lru := lru_put lru key a (fc_lru s)\<rparr>))))"

definition front_acquire_pending ::
  "message \<Rightarrow> 'l front_cache \<Rightarrow> (cache_key option \<times> nat option) \<times> 'l front_cache" where
  "front_acquire_pending req s =
     (case front_key req of None \<Rightarrow> ((None, None), s)
      | Some key \<Rightarrow> (case acquire_entry key (fc_table s) of (r, t) \<Rightarrow>
          ((Some key, r), s\<lparr>fc_table := t\<rparr>)))"

text \<open>
  \<open>complete_pending\<close>. The entry is taken out before the response is encoded; when the encoding
  raises, the event stays open.
\<close>

definition front_complete_pending ::
  "dnslib \<Rightarrow> cache_key option \<Rightarrow> message option \<Rightarrow> bool \<Rightarrow> ('l front_cache, unit) act" where
  "front_complete_pending L key response cache_written = (\<lambda>s.
     case key of None \<Rightarrow> (Inr (), s)
     | Some k \<Rightarrow>
         (case pop_entry k (fc_table s) of
            (None, t) \<Rightarrow> (Inr (), s\<lparr>fc_table := t\<rparr>)
          | (Some i, t) \<Rightarrow>
              (case (if cache_written then Inr None else
                     case response of None \<Rightarrow> Inr None
                     | Some m \<Rightarrow> andthen (to_wire L m) (\<lambda>w. Inr (Some w))) of
                 Inl e \<Rightarrow> (Inl e, s\<lparr>fc_table := t\<rparr>)
               | Inr w \<Rightarrow> (Inr (), s\<lparr>fc_table := set_event i w t\<rparr>))))"

text \<open>\<open>wait_for_pending_response\<close> once the event is set, with what the holder has.\<close>

definition shared_response :: "dnslib \<Rightarrow> bytes option \<Rightarrow> message \<Rightarrow> message option res" where
  "shared_response L wire req =
     (case wire of None \<Rightarrow> Inr None
      | Some w \<Rightarrow> andthen (from_wire L w) (\<lambda>m.
          andthen (clone_response_for_request L m req) (\<lambda>m'. Inr (Some m'))))"

text \<open>The front cache as a table of the protocol: what is completed is a wire or nothing.\<close>

definition front_finish :: "cache_key \<Rightarrow> bytes option \<Rightarrow> 'l front_cache \<Rightarrow> 'l front_cache" where
  "front_finish key w s =
     (case pop_entry key (fc_table s) of
        (None, t) \<Rightarrow> s\<lparr>fc_table := t\<rparr>
      | (Some i, t) \<Rightarrow> s\<lparr>fc_table := set_event i w t\<rparr>)"

definition front_ops :: "('l front_cache, cache_key, bytes option) flight_ops" where
  "front_ops = \<lparr>
     fl_acquire = (\<lambda>k s. case acquire_entry k (fc_table s) of (r, t) \<Rightarrow> (r, s\<lparr>fc_table := t\<rparr>)),
     fl_complete = front_finish,
     fl_outcome = (\<lambda>s i. event_outcome (fc_table s) i)\<rparr>"

interpretation front: flight front_ops "\<lambda>s. pt_pending (fc_table s)" "\<lambda>s. table_ok (fc_table s)"
proof
  fix s s' :: "'a front_cache" and k r
  assume "table_ok (fc_table s)" "pt_pending (fc_table s) k = None" "fl_acquire front_ops k s = (r, s')"
  then show "r = None \<and> table_ok (fc_table s') \<and>
      (\<exists>i. pt_pending (fc_table s') = (pt_pending (fc_table s))(k \<mapsto> i)) \<and>
      (\<forall>j v. fl_outcome front_ops s j = Some v \<longrightarrow> fl_outcome front_ops s' j = Some v)"
    using acquire_free_table [of "fc_table s" k r "fc_table s'"]
    by (auto simp: front_ops_def split: prod.splits)
next
  fix s :: "'a front_cache" and k i
  assume "table_ok (fc_table s)" "pt_pending (fc_table s) k = Some i"
  then show "fl_acquire front_ops k s = (Some i, s)" by (simp add: front_ops_def acquire_entry_def)
next
  fix s s' :: "'a front_cache" and k i and v :: "bytes option"
  assume *: "table_ok (fc_table s)" "pt_pending (fc_table s) k = Some i" "s' = fl_complete front_ops k v s"
  then have "fc_table s' = set_event i v (snd (pop_entry k (fc_table s)))"
    by (simp add: front_ops_def front_finish_def pop_entry_def)
  from finish_table [OF *(1,2) this] show "table_ok (fc_table s') \<and>
      pt_pending (fc_table s') = (pt_pending (fc_table s))(k := None) \<and>
      fl_outcome front_ops s' i = Some v \<and>
      (\<forall>j w. fl_outcome front_ops s j = Some w \<longrightarrow> fl_outcome front_ops s' j = Some w)"
    by (simp add: front_ops_def)
next
  fix s :: "'a front_cache" and k k' i
  assume ok: "table_ok (fc_table s)" and k: "pt_pending (fc_table s) k = Some i"
  show "fl_outcome front_ops s i = None" using table_okD(4) [OF ok k] by (simp add: front_ops_def)
  show "pt_pending (fc_table s) k' = Some i \<Longrightarrow> k = k'" by (rule table_okD(3) [OF ok k])
qed

lemma front_complete_finish:
  assumes "case response of None \<Rightarrow> w = None | Some m \<Rightarrow> to_wire L m = Inr w'  \<and> w = Some w'"
  shows "front_complete_pending L (Some k) response cw s =
     (Inr (), front_finish k (if cw then None else w) s)"
  using assms
  by (auto simp: front_complete_pending_def front_finish_def split: option.splits prod.splits)

section \<open>\<open>DnsCacheService\<close>\<close>

record 'l cache_service =
  cs_lru :: 'l
  cs_table :: pending_table

definition clone_answer :: "dnslib \<Rightarrow> answer \<Rightarrow> nat option \<Rightarrow> answer res" where
  "clone_answer L a ttl =
     andthen (andthen (to_wire L (a_response a)) (from_wire L)) (\<lambda>cloned.
     let response = (case ttl of None \<Rightarrow> cloned | Some t \<Rightarrow> set_ttls t cloned) in
     andthen (mk_answer L (a_qname a) (a_type a) (a_class a) response (a_nameserver a) (a_port a)) (\<lambda>b.
     Inr (b\<lparr>a_expiration := a_expiration a\<rparr>)))"

definition get_for_request ::
  "dnslib \<Rightarrow> 'l lru_lib \<Rightarrow> real \<Rightarrow> message \<Rightarrow> ('l cache_service, answer option) act" where
  "get_for_request L lru now req = (\<lambda>s.
     case make_key_from_request req of Inl e \<Rightarrow> (Inl e, s)
     | Inr key \<Rightarrow>
         (case lru_get lru key (cs_lru s) of (cached, l) \<Rightarrow>
            (case cached of
               None \<Rightarrow> (Inr None, s\<lparr>cs_lru := l\<rparr>)
             | Some a \<Rightarrow>
                 (andthen (clone_answer L a (Some (remaining_ttl now a))) (\<lambda>b. Inr (Some b)),
                  s\<lparr>cs_lru := l\<rparr>))))"

definition put_answer :: "dnslib \<Rightarrow> 'l lru_lib \<Rightarrow> answer \<Rightarrow> ('l cache_service, unit) act" where
  "put_answer L lru a = (\<lambda>s.
     case clone_answer L a None of Inl e \<Rightarrow> (Inl e, s)
     | Inr b \<Rightarrow> (Inr (), s\<lparr>cs_lru := lru_put lru (make_key_from_answer a) b (cs_lru s)\<rparr>))"

definition service_acquire :: "cache_key \<Rightarrow> 'l cache_service \<Rightarrow> nat option \<times> 'l cache_service" where
  "service_acquire key s = (case acquire_entry key (cs_table s) of (r, t) \<Rightarrow> (r, s\<lparr>cs_table := t\<rparr>))"

definition has_pending :: "cache_key \<Rightarrow> 'l cache_service \<Rightarrow> bool" where
  "has_pending key s \<longleftrightarrow> pt_pending (cs_table s) key \<noteq> None"

text \<open>
  \<open>complete_pending\<close>: a future that is done is left alone.
\<close>

definition service_complete ::
  "dnslib \<Rightarrow> cache_key \<Rightarrow> message option \<Rightarrow> ('l cache_service, unit) act" where
  "service_complete L key response = (\<lambda>s.
     case pop_entry key (cs_table s) of
       (None, t) \<Rightarrow> (Inr (), s\<lparr>cs_table := t\<rparr>)
     | (Some i, t) \<Rightarrow>
         if event_outcome t i \<noteq> None then (Inr (), s\<lparr>cs_table := t\<rparr>)
         else (case (case response of None \<Rightarrow> Inr None
                     | Some m \<Rightarrow> andthen (to_wire L m) (\<lambda>w. Inr (Some w))) of
                 Inl e \<Rightarrow> (Inl e, s\<lparr>cs_table := t\<rparr>)
               | Inr w \<Rightarrow> (Inr (), s\<lparr>cs_table := set_event i w t\<rparr>)))"

definition service_finish :: "cache_key \<Rightarrow> bytes option \<Rightarrow> 'l cache_service \<Rightarrow> 'l cache_service" where
  "service_finish key w s =
     (case pop_entry key (cs_table s) of
        (None, t) \<Rightarrow> s\<lparr>cs_table := t\<rparr>
      | (Some i, t) \<Rightarrow> if event_outcome t i \<noteq> None then s\<lparr>cs_table := t\<rparr> else s\<lparr>cs_table := set_event i w t\<rparr>)"

definition service_ops :: "('l cache_service, cache_key, bytes option) flight_ops" where
  "service_ops = \<lparr>fl_acquire = service_acquire, fl_complete = service_finish,
     fl_outcome = (\<lambda>s i. event_outcome (cs_table s) i)\<rparr>"

interpretation service: flight service_ops "\<lambda>s. pt_pending (cs_table s)" "\<lambda>s. table_ok (cs_table s)"
proof
  fix s s' :: "'a cache_service" and k r
  assume "table_ok (cs_table s)" "pt_pending (cs_table s) k = None" "fl_acquire service_ops k s = (r, s')"
  then show "r = None \<and> table_ok (cs_table s') \<and>
      (\<exists>i. pt_pending (cs_table s') = (pt_pending (cs_table s))(k \<mapsto> i)) \<and>
      (\<forall>j v. fl_outcome service_ops s j = Some v \<longrightarrow> fl_outcome service_ops s' j = Some v)"
    using acquire_free_table [of "cs_table s" k r "cs_table s'"]
    by (auto simp: service_ops_def service_acquire_def split: prod.splits)
next
  fix s :: "'a cache_service" and k i
  assume "table_ok (cs_table s)" "pt_pending (cs_table s) k = Some i"
  then show "fl_acquire service_ops k s = (Some i, s)"
    by (simp add: service_ops_def service_acquire_def acquire_entry_def)
next
  fix s s' :: "'a cache_service" and k i and v :: "bytes option"
  assume *: "table_ok (cs_table s)" "pt_pending (cs_table s) k = Some i" "s' = fl_complete service_ops k v s"
  then have "event_outcome (snd (pop_entry k (cs_table s))) i = None"
    using table_okD(2) [OF *(1,2)] by (simp add: event_outcome_def pop_entry_def)
  with * have "cs_table s' = set_event i v (snd (pop_entry k (cs_table s)))"
    by (simp add: service_ops_def service_finish_def pop_entry_def)
  from finish_table [OF *(1,2) this] show "table_ok (cs_table s') \<and>
      pt_pending (cs_table s') = (pt_pending (cs_table s))(k := None) \<and>
      fl_outcome service_ops s' i = Some v \<and>
      (\<forall>j w. fl_outcome service_ops s j = Some w \<longrightarrow> fl_outcome service_ops s' j = Some w)"
    by (simp add: service_ops_def)
next
  fix s :: "'a cache_service" and k k' i
  assume ok: "table_ok (cs_table s)" and k: "pt_pending (cs_table s) k = Some i"
  show "fl_outcome service_ops s i = None" using table_okD(4) [OF ok k] by (simp add: service_ops_def)
  show "pt_pending (cs_table s) k' = Some i \<Longrightarrow> k = k'" by (rule table_okD(3) [OF ok k])
qed

section \<open>Properties\<close>


definition sample_front :: "unit front_cache" where
  "sample_front = \<lparr>fc_lru = (), fc_table = pt_empty\<rparr>"

definition sample_key :: cache_key where
  "sample_key = (''a.cn.'', 1, 1)"

definition sample_busy :: "unit front_cache" where
  "sample_busy = \<lparr>fc_lru = (), fc_table = \<lparr>pt_pending = [sample_key \<mapsto> 0], pt_events = [None]\<rparr>\<rparr>"

lemma sample_flight:
  "flight_run front_ops sample_front
     \<lparr>fl_table = sample_busy, fl_owner = [sample_key \<mapsto> 1], fl_waiting = {(2, 0)}\<rparr>"
proof -
  let ?s0 = "\<lparr>fl_table = sample_front, fl_owner = Map.empty, fl_waiting = {}\<rparr>"
  let ?s1 = "\<lparr>fl_table = sample_busy, fl_owner = [sample_key \<mapsto> 1], fl_waiting = {}\<rparr>"
  have "flight_step front_ops ?s0 (?s0\<lparr>fl_table := sample_busy, fl_owner := (fl_owner ?s0)(sample_key \<mapsto> 1)\<rparr>)"
    by (rule flight_step.own)
      (simp add: front_ops_def acquire_entry_def sample_front_def sample_busy_def pt_empty_def)
  then have "flight_run front_ops sample_front ?s1"
    using flight_run.step [OF flight_run.start] by simp
  moreover have "flight_step front_ops ?s1 (?s1\<lparr>fl_table := sample_busy, fl_waiting := insert (2, 0) (fl_waiting ?s1)\<rparr>)"
    by (rule flight_step.join [where k = sample_key])
      (simp add: front_ops_def acquire_entry_def sample_busy_def)
  ultimately show ?thesis using flight_run.step by fastforce
qed


text \<open>
  In every interleaving of requests on the cache of the plugin, a key has at most one owner:
  a request that is told to resolve a key itself finds nobody else resolving it.
\<close>

theorem cache_service_one_owner:
  assumes "flight_run service_ops \<lparr>cs_lru = l, cs_table = pt_empty\<rparr> s"
    and "service_acquire k (fl_table s) = (None, t)"
  shows "fl_owner s k = None"
  by (rule service.one_owner [OF assms(1)])
    (use assms(2) table_ok_empty in \<open>simp_all add: service_ops_def pt_empty_def\<close>)

theorem cache_service_one_owner_witness:
  "fl_owner \<lparr>fl_table = \<lparr>cs_lru = (), cs_table = pt_empty\<rparr>, fl_owner = Map.empty, fl_waiting = {}\<rparr> sample_key = None"
  by (rule cache_service_one_owner [OF flight_run.start])
    (simp add: service_acquire_def acquire_entry_def pt_empty_def)

text \<open>
  A response from the front cache carries the identifier of the request, and every record of
  it but OPT and TSIG the time to live the entry has left, never more.
\<close>

theorem front_response_ttl:
  assumes "front_get_response L lru now req s = (Inr (Some m), s')"
  shows "msg_id m = msg_id req \<and> (\<exists>ttl key a. front_key req = Some key \<and> fst (lru_get lru key (fc_lru s)) = Some a \<and>
     ttl = nat \<lfloor>a_expiration a - now\<rfloor> \<and>
     list_all (\<lambda>rr. rr_type rr \<in> {RT_OPT, RT_TSIG} \<or> rr_ttl rr = ttl)
       (msg_answer m @ msg_authority m @ msg_additional m))"
proof -
  obtain key where k: "front_key req = Some key"
    using assms by (cases "front_key req") (auto simp: front_get_response_def)
  obtain a l where g: "lru_get lru key (fc_lru s) = (Some a, l)"
    and m: "front_clone_response L now a req = Inr m"
    using assms k
    by (auto simp: front_get_response_def andthen_Inr_iff split: prod.splits option.splits)
  then obtain c where c: "clone_response_for_request L (a_response a) req = Inr c"
    "m = set_ttls (remaining_ttl now a) c" by (auto simp: front_clone_response_def andthen_Inr_iff)
  have "msg_id m = msg_id req" using clone_response_id [OF c(1)] c(2) by (simp add: set_ttls_def)
  moreover have "list_all (\<lambda>rr. rr_type rr \<in> {RT_OPT, RT_TSIG} \<or> rr_ttl rr = remaining_ttl now a)
      (msg_answer m @ msg_authority m @ msg_additional m)"
    using c(2) by (auto simp: set_ttls_def set_ttl_def list_all_iff)
  ultimately show ?thesis using k g by (auto simp: remaining_ttl_def)
qed

definition hit_question :: question where
  "hit_question = \<lparr>q_name = ''a.cn.'', q_type = 1, q_class = 1\<rparr>"

definition hit_message :: "nat \<Rightarrow> nat \<Rightarrow> message" where
  "hit_message i ttl = \<lparr>msg_id = i, msg_flags = 0, msg_opcode = 0, msg_rcode = 0,
     msg_question = [hit_question],
     msg_answer = [\<lparr>rr_name = ''a.cn.'', rr_ttl = ttl, rr_class = 1, rr_type = 1, rr_items = [AddressData ''192.0.2.7'']\<rparr>],
     msg_authority = [], msg_additional = []\<rparr>"

definition hit_answer :: answer where
  "hit_answer = \<lparr>a_qname = ''a.cn.'', a_type = 1, a_class = 1, a_response = hit_message 1 300,
     a_rrset = None, a_canonical = ''a.cn.'', a_expiration = 60, a_chain = [], a_nameserver = None, a_port = None\<rparr>"

definition hit_lib :: dnslib where
  "hit_lib = \<lparr>to_wire = (\<lambda>m. Inr []), from_wire = (\<lambda>w. Inr (hit_message 1 300)),
     make_response = (\<lambda>m. Inr m), make_query = (\<lambda>n t. Inr (hit_message 1 300)),
     mk_answer = (\<lambda>n t c m ns p. Inr hit_answer), rdtype_to_text = (\<lambda>_. ''A''),
     rcode_to_text = (\<lambda>_. ''NOERROR''), rrset_from_texts = (\<lambda>_ _ _ _ _. Inl IndexError)\<rparr>"

definition hit_lru :: "unit lru_lib" where
  "hit_lru = \<lparr>lru_get = (\<lambda>k l. (Some hit_answer, l)), lru_put = (\<lambda>k a l. l)\<rparr>"

lemma hit_get:
  "front_get_response hit_lib hit_lru 20 (hit_message 9 0) sample_front = (Inr (Some (hit_message 9 40)), sample_front)"
  by (simp add: front_get_response_def front_key_def hit_message_def hit_question_def hit_lru_def
      front_clone_response_def clone_response_for_request_def hit_lib_def set_ttls_def set_ttl_def
      remaining_ttl_def hit_answer_def)

theorem front_response_ttl_witness: "msg_id (hit_message 9 40) = msg_id (hit_message 9 0)"
  using front_response_ttl [OF hit_get] by simp

text \<open>
  When the response of the owner cannot be encoded, \<open>complete_pending\<close> raises with the entry
  already gone and the event still open: the followers of this owner wait for ever.
\<close>

theorem front_complete_strands_followers:
  assumes "to_wire L m = Inl e" and "pt_pending (fc_table s) k = Some i"
    and "table_ok (fc_table s)"
  shows "\<exists>s'. front_complete_pending L (Some k) (Some m) False s = (Inl e, s') \<and>
     pt_pending (fc_table s') k = None \<and> event_outcome (fc_table s') i = None"
  using assms(1,2) table_okD(2) [OF assms(3,2)]
  by (simp add: front_complete_pending_def pop_entry_def event_outcome_def)

theorem front_complete_strands_followers_witness:
  "\<exists>s'. front_complete_pending (hit_lib\<lparr>to_wire := (\<lambda>m. Inl IndexError)\<rparr>) (Some sample_key)
       (Some (hit_message 1 1)) False sample_busy = (Inl IndexError, s') \<and>
     pt_pending (fc_table s') sample_key = None \<and> event_outcome (fc_table s') 0 = None"
proof -
  have "table_ok (fc_table sample_busy)"
    by (rule table_okI) (auto simp: sample_busy_def split: if_splits)
  from front_complete_strands_followers [OF _ _ this, of "hit_lib\<lparr>to_wire := (\<lambda>m. Inl IndexError)\<rparr>"
      "hit_message 1 1" IndexError sample_key 0]
  show ?thesis by (simp add: sample_busy_def)
qed

end
