(* ===== verification/Plugin_Kit.thy ===== *)
theory Plugin_Kit
  imports Engine Tag_Sets
begin

text \<open>
  What the plugins share: the core objects they find in \<open>context.extensions\<close>, the actions that
  read and change the answer and the result a hook is given, and loops of actions.
\<close>

section \<open>Running actions\<close>

named_theorems act_run "running the first step of an action"

lemma act_bind_get [act_run]: "act_bind (act_get f) g s = g (f s) s"
  by (simp add: act_simps)

lemma act_bind_upd [act_run]: "act_bind (act_upd f) g s = g () (f s)"
  by (simp add: act_simps)

lemma act_bind_ret [act_run]: "act_bind (act_ret x) g s = g x s"
  by (simp add: act_simps)

lemma act_bind_lift [act_run]:
  "act_bind (act_lift (Inr x)) g s = g x s" "act_bind (act_lift (Inl e)) g s = (Inl e, s)"
  by (simp_all add: act_simps)

lemma act_bind_step: "m s = (Inr x, s') \<Longrightarrow> act_bind m g s = g x s'"
  by (simp add: act_simps)

lemma act_end [act_run]:
  "act_ret x s = (Inr x, s)" "act_upd f s = (Inr (), f s)" "act_get h s = (Inr (h s), s)"
  "act_lift r s = (r, s)" "act_raise e s = (Inl e, s)"
  by (simp_all add: act_simps)

section \<open>Loops of actions\<close>

fun for_act :: "('a \<Rightarrow> ('s, unit) act) \<Rightarrow> 'a list \<Rightarrow> ('s, unit) act" where
  "for_act f [] = act_ret ()"
| "for_act f (x # xs) = act_bind (f x) (\<lambda>_. for_act f xs)"

lemma for_act_Inr:
  "for_act f xs s = (Inr u, s') \<Longrightarrow> s' = fold (\<lambda>x s. snd (f x s)) xs s"
proof (induction xs arbitrary: s)
  case (Cons x xs)
  then obtain s1 where "f x s = (Inr (), s1)" "for_act f xs s1 = (Inr u, s')"
    by (auto simp: act_bind_Inr)
  with Cons.IH show ?case by simp
qed (simp add: act_simps)

text \<open>Mapping a fallible function over a list, stopping at the first exception.\<close>

fun map_res :: "('a \<Rightarrow> 'b res) \<Rightarrow> 'a list \<Rightarrow> 'b list res" where
  "map_res f [] = Inr []"
| "map_res f (x # xs) = andthen (f x) (\<lambda>y. andthen (map_res f xs) (\<lambda>ys. Inr (y # ys)))"

lemma map_res_Inr [res_simps]: "map_res f xs = Inr ys \<longleftrightarrow> list_all2 (\<lambda>x y. f x = Inr y) xs ys"
  by (induction xs arbitrary: ys) (auto simp: andthen_Inr_iff list_all2_Cons1)

lemma map_res_total:
  "(\<And>x. x \<in> set xs \<Longrightarrow> f x = Inr (g x)) \<Longrightarrow> map_res f xs = Inr (map g xs)"
  by (induction xs) auto

text \<open>\<open>[x for x in xs if p(x)]\<close> where \<open>p\<close> may raise.\<close>

fun filter_res :: "('a \<Rightarrow> bool res) \<Rightarrow> 'a list \<Rightarrow> 'a list res" where
  "filter_res p [] = Inr []"
| "filter_res p (x # xs) =
     andthen (p x) (\<lambda>b. andthen (filter_res p xs) (\<lambda>ys. Inr (if b then x # ys else ys)))"

lemma filter_res_Inr:
  "filter_res p xs = Inr ys \<Longrightarrow>
     (\<forall>x \<in> set xs. \<exists>b. p x = Inr b) \<and> ys = filter (\<lambda>x. p x = Inr True) xs"
  by (induction xs arbitrary: ys) (auto simp: andthen_Inr_iff split: if_splits)

lemma filter_res_total:
  "(\<And>x. x \<in> set xs \<Longrightarrow> p x = Inr (q x)) \<Longrightarrow> filter_res p xs = Inr (filter q xs)"
  by (induction xs) auto

section \<open>The core objects of a context\<close>

datatype ('t, 'r) extension = DomainSetExt "'t option" | IpSetExt "'r option" | OtherExt

type_synonym ('t, 'r) extensions = "string \<rightharpoonup> ('t, 'r) extension"

definition get_domainset :: "('t, 'r) extensions \<Rightarrow> 't option res" where
  "get_domainset exts = (case exts ''core.domainset'' of
     None \<Rightarrow> Inl (KeyError ''core.domainset'')
   | Some (DomainSetExt d) \<Rightarrow> Inr d
   | Some _ \<Rightarrow> Inl (TypeError ''core.domainset''))"

definition get_ipset :: "('t, 'r) extensions \<Rightarrow> 'r option res" where
  "get_ipset exts = (case exts ''core.ipset'' of
     None \<Rightarrow> Inl (KeyError ''core.ipset'')
   | Some (IpSetExt i) \<Rightarrow> Inr i
   | Some _ \<Rightarrow> Inl (TypeError ''core.ipset''))"

section \<open>Results and answers of a context\<close>

abbreviation result_at :: "nat \<Rightarrow> 'w ctx \<Rightarrow> upstream_result" where
  "result_at r c \<equiv> results (store_of c) ! r"

abbreviation answer_at :: "nat \<Rightarrow> 'w ctx \<Rightarrow> answer" where
  "answer_at a c \<equiv> answers (store_of c) ! a"

definition set_result :: "nat \<Rightarrow> (upstream_result \<Rightarrow> upstream_result) \<Rightarrow> ('w, unit) ctx_act" where
  "set_result r f = act_upd (\<lambda>c. c\<lparr>store_of := upd_result r f (store_of c)\<rparr>)"

definition set_answer :: "nat \<Rightarrow> (answer \<Rightarrow> answer) \<Rightarrow> ('w, unit) ctx_act" where
  "set_answer a f = act_upd (\<lambda>c. c\<lparr>store_of := upd_answer a f (store_of c)\<rparr>)"

text \<open>\<open>result.tags.update(ts)\<close>\<close>

definition add_tags :: "nat \<Rightarrow> string set \<Rightarrow> ('w, unit) ctx_act" where
  "add_tags r ts = set_result r (\<lambda>x. x\<lparr>res_tags := res_tags x \<union> ts\<rparr>)"

text \<open>The type of the question, for the hooks that begin with \<open>request.question[0].rdtype\<close>.\<close>

definition question_of :: "'w ctx \<Rightarrow> question res" where
  "question_of c = (case msg_question (request c) of [] \<Rightarrow> Inl IndexError | q # _ \<Rightarrow> Inr q)"

definition address_types :: "nat list" where
  "address_types = [RT_A, RT_AAAA]"

definition with_question :: "(question \<Rightarrow> ('w, 'a) ctx_act) \<Rightarrow> ('w, 'a) ctx_act" where
  "with_question f = (\<lambda>c. case question_of c of Inl e \<Rightarrow> (Inl e, c) | Inr q \<Rightarrow> f q c)"

text \<open>An action on one answer of the store, as an action on the context.\<close>

definition on_answer :: "nat \<Rightarrow> (answer, 'a) act \<Rightarrow> ('w, 'a) ctx_act" where
  "on_answer a m = (\<lambda>c. case m (answer_at a c) of
     (r, x) \<Rightarrow> (r, c\<lparr>store_of := upd_answer a (\<lambda>_. x) (store_of c)\<rparr>))"

text \<open>\<open>context.resolve\<close>: the answer is the index of the object in the store.\<close>

type_synonym 'w resolver = "string \<Rightarrow> string \<Rightarrow> ('w, nat) ctx_act"

text \<open>A part of the world that belongs to one plugin.\<close>

record ('w, 's) part =
  part_get :: "'w \<Rightarrow> 's"
  part_put :: "'s \<Rightarrow> 'w \<Rightarrow> 'w"

definition part_ok :: "('w, 's) part \<Rightarrow> bool" where
  "part_ok p \<longleftrightarrow> (\<forall>w s. part_get p (part_put p s w) = s)"

definition on_part :: "('w, 's) part \<Rightarrow> ('s, 'a) act \<Rightarrow> ('w, 'a) ctx_act" where
  "on_part p m = (\<lambda>c. case m (part_get p (world c)) of
     (r, s) \<Rightarrow> (r, c\<lparr>world := part_put p s (world c)\<rparr>))"

lemma upd_result_same [simp]: "r < length (results st) \<Longrightarrow> results (upd_result r f st) ! r = f (results st ! r)"
  by (simp add: upd_result_def)

lemma upd_result_other [simp]: "r \<noteq> r' \<Longrightarrow> results (upd_result r f st) ! r' = results st ! r'"
  by (simp add: upd_result_def)

lemma upd_result_fields [simp]:
  "length (results (upd_result r f st)) = length (results st)"
  "answers (upd_result r f st) = answers st"
  by (simp_all add: upd_result_def)

lemma upd_answer_fields [simp]:
  "length (answers (upd_answer a f st)) = length (answers st)"
  "results (upd_answer a f st) = results st"
  by (simp_all add: upd_answer_def)

lemma upd_answer_same [simp]: "a < length (answers st) \<Longrightarrow> answers (upd_answer a f st) ! a = f (answers st ! a)"
  by (simp add: upd_answer_def)

lemma upd_answer_other [simp]: "a \<noteq> a' \<Longrightarrow> answers (upd_answer a f st) ! a' = answers st ! a'"
  by (simp add: upd_answer_def)

end
