(* ===== verification/Tag_Plugin.thy ===== *)
theory Tag_Plugin
  imports Plugin_Kit
begin

text \<open>
  \<open>plugins/tag_plugin/plugin.py\<close>: the plugin that tags the request by its name and each result by
  the names of its CNAME chain and by its addresses.
\<close>

section \<open>The plugin\<close>

definition HAS_HINT_TAG :: string where
  "HAS_HINT_TAG = ''has_hint''"

definition extract_cname_chain_domains :: "answer option \<Rightarrow> string list" where
  "extract_cname_chain_domains ans = (case ans of None \<Rightarrow> []
   | Some a \<Rightarrow> map (\<lambda>rrset. rstrip_dot (rr_name rrset)) (a_chain a) @ [rstrip_dot (a_canonical a)])"

definition extract_address_record_ips :: "rrset \<Rightarrow> string list" where
  "extract_address_record_ips rr = List.map_filter rd_address (rr_items rr)"

text \<open>\<open>hint_param.addresses\<close>\<close>

fun hint_addresses :: "svc_param \<Rightarrow> string list res" where
  "hint_addresses (HintParam xs) = Inr xs"
| "hint_addresses _ = Inl (OtherError ''AttributeError'')"

fun hints_of_keys :: "svc_params \<Rightarrow> param_key list \<Rightarrow> string list \<times> bool \<Rightarrow> (string list \<times> bool) res" where
  "hints_of_keys params [] acc = Inr acc"
| "hints_of_keys params (k # ks) (addresses, has_hints) =
     (case map_of params k of None \<Rightarrow> hints_of_keys params ks (addresses, has_hints)
      | Some NoDefaultALPN \<Rightarrow> hints_of_keys params ks (addresses, has_hints)
      | Some hint_param \<Rightarrow>
          andthen (hint_addresses hint_param) (\<lambda>xs. hints_of_keys params ks (addresses @ xs, True)))"

fun hints_of_records :: "rdata list \<Rightarrow> string list \<times> bool \<Rightarrow> (string list \<times> bool) res" where
  "hints_of_records [] acc = Inr acc"
| "hints_of_records (record # rest) acc =
     (case rd_params record of None \<Rightarrow> hints_of_records rest acc
      | Some params \<Rightarrow> andthen (hints_of_keys params [IPV4HINT, IPV6HINT] acc) (hints_of_records rest))"

definition extract_https_hints :: "rrset \<Rightarrow> (string list \<times> bool) res" where
  "extract_https_hints rr = hints_of_records (rr_items rr) ([], False)"

definition extract_answer_ips :: "answer \<Rightarrow> string list res" where
  "extract_answer_ips a = (case a_rrset a of None \<Rightarrow> Inr []
   | Some rr \<Rightarrow>
       if a_type a \<in> {RT_A, RT_AAAA} then Inr (extract_address_record_ips rr)
       else if a_type a = RT_HTTPS then andthen (extract_https_hints rr) (\<lambda>h. Inr (fst h))
       else Inr [])"

text \<open>\<open>result.tags.update(lookup(x))\<close>\<close>

definition add_lookup :: "(string \<Rightarrow> string set res) \<Rightarrow> nat \<Rightarrow> string \<Rightarrow> ('w, unit) ctx_act" where
  "add_lookup look r x = act_bind (act_lift (look x)) (add_tags r)"

definition tag_on_request ::
  "('t, 'f) trie_lib \<Rightarrow> ('t, 'r) extensions \<Rightarrow> ('w, unit) ctx_act" where
  "tag_on_request T exts = with_question (\<lambda>question.
     act_bind (act_lift (get_domainset exts)) (\<lambda>domainset.
     act_bind (act_lift (domain_lookup T domainset (rstrip_dot (q_name question)))) (\<lambda>added_tags.
     act_upd (\<lambda>c. c\<lparr>tags := tags c \<union> added_tags\<rparr>))))"

definition tag_addresses ::
  "(string \<Rightarrow> string set res) \<Rightarrow> nat \<Rightarrow> answer \<Rightarrow> rrset \<Rightarrow> ('w, unit) ctx_act" where
  "tag_addresses look r a rr =
     (if a_type a = RT_HTTPS then
        act_bind (act_lift (extract_https_hints rr)) (\<lambda>(hint_ips, has_hints).
        act_bind (if has_hints then add_tags r {HAS_HINT_TAG} else act_ret ()) (\<lambda>_.
        for_act (add_lookup look r) hint_ips))
      else
        act_bind (act_lift (extract_answer_ips a)) (for_act (add_lookup look r)))"

definition tag_on_upstream_response ::
  "('t, 'f) trie_lib \<Rightarrow> 'r radix_lib \<Rightarrow> ('t, 'r) extensions \<Rightarrow> nat \<Rightarrow> ('w, unit) ctx_act" where
  "tag_on_upstream_response T R exts r =
     act_bind (act_lift (get_domainset exts)) (\<lambda>domainset.
     act_bind (act_lift (get_ipset exts)) (\<lambda>ipset.
     act_bind (act_get tags) (\<lambda>ts.
     act_bind (add_tags r ts) (\<lambda>_.
     act_bind (act_get (\<lambda>c. map_option (\<lambda>a. answer_at a c) (res_answer (result_at r c)))) (\<lambda>ans.
     act_bind (for_act (add_lookup (domain_lookup T domainset) r) (extract_cname_chain_domains ans)) (\<lambda>_.
     case ans of None \<Rightarrow> act_ret ()
     | Some a \<Rightarrow> (case a_rrset a of None \<Rightarrow> act_ret ()
         | Some rr \<Rightarrow> tag_addresses (ip_lookup R ipset) r a rr)))))))"

definition tag_plugin ::
  "('t, 'f) trie_lib \<Rightarrow> 'r radix_lib \<Rightarrow> ('t, 'r) extensions \<Rightarrow> 'w plugin" where
  "tag_plugin T R exts = (plugin_base ''tag-plugin'')\<lparr>
     request_order := -100,
     on_request := tag_on_request T exts,
     on_upstream_response := tag_on_upstream_response T R exts\<rparr>"

section \<open>What the hooks add\<close>

text \<open>The tags found for a list of keys; every key must be one the lookup accepts.\<close>

definition looked_up :: "(string \<Rightarrow> string set res) \<Rightarrow> string list \<Rightarrow> string set" where
  "looked_up look xs = (\<Union>x \<in> set xs. case look x of Inr s \<Rightarrow> s | Inl _ \<Rightarrow> {})"

lemma looked_up_simps [simp]:
  "looked_up look [] = {}"
  "looked_up look (x # xs) = (case look x of Inr s \<Rightarrow> s | Inl _ \<Rightarrow> {}) \<union> looked_up look xs"
  by (simp_all add: looked_up_def)

text \<open>The context with more tags on one result.\<close>

definition tagged :: "nat \<Rightarrow> string set \<Rightarrow> 'w ctx \<Rightarrow> 'w ctx" where
  "tagged r ts c = c\<lparr>store_of := upd_result r (\<lambda>x. x\<lparr>res_tags := res_tags x \<union> ts\<rparr>) (store_of c)\<rparr>"

lemma tagged_tagged: "tagged r ts (tagged r us c) = tagged r (us \<union> ts) c"
proof (cases "r < length (results (store_of c))")
  case True
  then show ?thesis by (simp add: tagged_def upd_result_def Un_assoc)
next
  case False
  then show ?thesis by (simp add: tagged_def upd_result_def list_update_beyond)
qed

lemma tagged_empty [simp]: "tagged r {} c = c"
  by (simp add: tagged_def upd_result_def)

lemma tagged_fields [simp]:
  "tags (tagged r ts c) = tags c" "answers (store_of (tagged r ts c)) = answers (store_of c)"
  by (simp_all add: tagged_def)

lemma tagged_answer [simp]: "res_answer (result_at r (tagged r ts c)) = res_answer (result_at r c)"
  by (cases "r < length (results (store_of c))")
    (simp_all add: tagged_def upd_result_def list_update_beyond)

lemma add_tags_eq: "add_tags r ts c = (Inr (), tagged r ts c)"
  by (simp add: add_tags_def set_result_def act_simps tagged_def)

lemma for_lookup:
  "for_act (add_lookup look r) xs c = (Inr u, c') \<longleftrightarrow>
     (\<forall>x \<in> set xs. \<exists>s. look x = Inr s) \<and> c' = tagged r (looked_up look xs) c"
proof (induction xs arbitrary: c)
  case (Cons x xs)
  show ?case
  proof (cases "look x")
    case (Inl e)
    then show ?thesis by (simp add: add_lookup_def act_simps)
  next
    case (Inr s)
    then have "for_act (add_lookup look r) (x # xs) c = for_act (add_lookup look r) xs (tagged r s c)"
      by (simp add: add_lookup_def act_simps add_tags_eq)
    then show ?thesis using Cons Inr by (simp add: tagged_tagged)
  qed
qed (auto simp: act_simps)

definition address_tags :: "(string \<Rightarrow> string set res) \<Rightarrow> answer \<Rightarrow> string set" where
  "address_tags look a = (case a_rrset a of None \<Rightarrow> {}
   | Some rr \<Rightarrow>
      if a_type a = RT_HTTPS then
        (case extract_https_hints rr of Inl _ \<Rightarrow> {}
         | Inr (hints, has_hints) \<Rightarrow> (if has_hints then {HAS_HINT_TAG} else {}) \<union> looked_up look hints)
      else if a_type a \<in> {RT_A, RT_AAAA} then looked_up look (extract_address_record_ips rr)
      else {})"

lemma tag_addresses_eq:
  assumes "tag_addresses look r a rr c = (Inr u, c')" and "a_rrset a = Some rr"
  shows "c' = tagged r (address_tags look a) c"
proof (cases "a_type a = RT_HTTPS")
  case True
  with assms(1) obtain xs h where h: "extract_https_hints rr = Inr (xs, h)"
    and rest: "act_bind (if h then add_tags r {HAS_HINT_TAG} else act_ret ())
                  (\<lambda>_. for_act (add_lookup look r) xs) c = (Inr u, c')"
    by (auto simp: tag_addresses_def act_bind_Inr act_defs)
  have "c' = tagged r (looked_up look xs) (tagged r (if h then {HAS_HINT_TAG} else {}) c)"
    using rest by (cases h) (auto simp: act_bind_Inr add_tags_eq for_lookup act_defs)
  with True h assms(2) show ?thesis by (simp add: address_tags_def tagged_tagged)
next
  case False
  with assms show ?thesis
    by (auto simp: tag_addresses_def act_bind_Inr act_defs extract_answer_ips_def for_lookup
        address_tags_def)
qed

lemma hints_of_keys_all:
  "hints_of_keys ps ks (xs, h) = Inr (ys, h') \<Longrightarrow>
     set ys = set xs \<union> \<Union>{set as |as k. k \<in> set ks \<and> map_of ps k = Some (HintParam as)} \<and>
     (h' \<longleftrightarrow> h \<or> (\<exists>k as. k \<in> set ks \<and> map_of ps k = Some (HintParam as)))"
proof (induction ks arbitrary: xs h)
  case (Cons k ks)
  show ?case
  proof (cases "\<exists>as. map_of ps k = Some (HintParam as)")
    case True
    then obtain as where as: "map_of ps k = Some (HintParam as)" by blast
    with Cons.prems have "hints_of_keys ps ks (xs @ as, True) = Inr (ys, h')" by simp
    from Cons.IH [OF this] as show ?thesis by auto
  next
    case False
    then have rest: "hints_of_keys ps ks (xs, h) = Inr (ys, h')"
      using Cons.prems by (auto split: option.splits svc_param.splits)
    have iff: "(k' \<in> set (k # ks) \<and> map_of ps k' = Some (HintParam as)) \<longleftrightarrow>
        (k' \<in> set ks \<and> map_of ps k' = Some (HintParam as))" for k' as
      using False by auto
    from Cons.IH [OF rest] show ?thesis unfolding iff .
  qed
qed auto

section \<open>Properties\<close>

text \<open>
  When the hook for a result returns, the result has gained exactly the tags of the request,
  the tags of the domain set for each name of the CNAME chain and for the canonical name, and the
  tags of the address set for each address (or, for an HTTPS answer, each hint, with the tag
  \<open>has_hint\<close> when there is a hint); nothing else has changed.
\<close>

theorem tag_result_tags:
  assumes "tag_on_upstream_response T R exts r c = (Inr (), c')"
    and "get_domainset exts = Inr ds" and "get_ipset exts = Inr ips"
    and "ans = map_option (\<lambda>a. answers (store_of c) ! a) (res_answer (results (store_of c) ! r))"
  shows "c' = tagged r (tags c \<union>
     looked_up (domain_lookup T ds) (extract_cname_chain_domains ans) \<union>
     (case ans of None \<Rightarrow> {} | Some a \<Rightarrow> address_tags (ip_lookup R ips) a)) c"
proof -
  let ?D = "looked_up (domain_lookup T ds) (extract_cname_chain_domains ans)"
  let ?c1 = "tagged r ?D (tagged r (tags c) c)"
  let ?K = "case ans of None \<Rightarrow> act_ret ()
     | Some a \<Rightarrow> (case a_rrset a of None \<Rightarrow> act_ret ()
         | Some rr \<Rightarrow> tag_addresses (ip_lookup R ips) r a rr)"
  let ?L = "for_act (add_lookup (domain_lookup T ds) r) (extract_cname_chain_domains ans)"
  have a: "map_option (\<lambda>a. answer_at a (tagged r (tags c) c)) (res_answer (result_at r (tagged r (tags c) c))) = ans"
    using assms(4) by simp
  have "tag_on_upstream_response T R exts r c = act_bind ?L (\<lambda>_. ?K) (tagged r (tags c) c)"
    by (simp only: tag_on_upstream_response_def act_run assms(2,3) act_bind_step [OF add_tags_eq] a)
  from trans [OF this [symmetric] assms(1)] have "?K ?c1 = (Inr (), c')"
    by (auto simp: act_bind_Inr for_lookup)
  then have "c' = tagged r (case ans of None \<Rightarrow> {} | Some a \<Rightarrow> address_tags (ip_lookup R ips) a) ?c1"
    by (auto simp: act_defs address_tags_def split: option.splits dest: tag_addresses_eq)
  then show ?thesis by (simp add: tagged_tagged Un_assoc)
qed

text \<open>A library and files on which the hooks run: one domain file, no address file.\<close>

definition sample_exts :: "((string \<times> string) list, (string \<times> string list) list) extensions" where
  "sample_exts = [''core.domainset'' \<mapsto> DomainSetExt (Some [(''cn.example.'', ''cn'')]),
                  ''core.ipset'' \<mapsto> IpSetExt None]"

lemma sample_lookup: "domain_lookup list_trie (Some [(''cn.example.'', ''cn'')]) ''www.example.cn'' = Inr {''cn''}"
  by code_simp

definition sample_answer :: answer where
  "sample_answer = \<lparr>a_qname = ''www.example.cn.'', a_type = RT_A, a_class = IN,
     a_response = sample_message 5 32768 0, a_rrset = None, a_canonical = ''www.example.cn.'',
     a_expiration = 0, a_chain = [], a_nameserver = None, a_port = None\<rparr>"

definition sample_result_context :: "nat ctx" where
  "sample_result_context = (fresh_context sample_request ''c'' ''udp'' 0)\<lparr>tags := {''lan''},
     store_of := \<lparr>answers = [sample_answer], results = [\<lparr>upstream_name = ''u1'', duration_ms = 1,
       res_answer = Some 0, res_error = None, res_tags = {}, collected_results = []\<rparr>]\<rparr>\<rparr>"

lemma sample_dot: "rstrip_dot ''www.example.cn.'' = ''www.example.cn''"
  by code_simp

lemma sample_exts_get:
  "get_domainset sample_exts = Inr (Some [(''cn.example.'', ''cn'')])" "get_ipset sample_exts = Inr None"
  by (simp_all add: get_domainset_def get_ipset_def sample_exts_def)

theorem tag_result_tags_witness:
  "res_tags (results (store_of (snd (tag_on_upstream_response list_trie list_radix sample_exts 0
      sample_result_context))) ! 0) = {''lan'', ''cn''}"
proof -
  let ?c = sample_result_context
  have ans: "map_option (\<lambda>a. answers (store_of ?c) ! a) (res_answer (results (store_of ?c) ! 0)) = Some sample_answer"
    by (simp add: sample_result_context_def)
  have names: "extract_cname_chain_domains (Some sample_answer) = [''www.example.cn'']"
    by (simp add: extract_cname_chain_domains_def sample_answer_def sample_dot)
  have t: "tags ?c = {''lan''}" by (simp add: sample_result_context_def)
  have run: "tag_on_upstream_response list_trie list_radix sample_exts 0 ?c =
      (Inr (), snd (tag_on_upstream_response list_trie list_radix sample_exts 0 ?c))"
    using ans names by (simp add: tag_on_upstream_response_def act_bind_apply act_defs sample_exts_get
        add_tags_eq add_lookup_def sample_lookup sample_result_context_def tagged_def upd_result_def
        sample_answer_def)
  from tag_result_tags [OF run sample_exts_get ans [symmetric]]
  have "snd (tag_on_upstream_response list_trie list_radix sample_exts 0 ?c) = tagged 0 {''lan'', ''cn''} ?c"
    by (simp add: names sample_lookup address_tags_def t) (simp add: sample_answer_def insert_commute)
  then show ?thesis by (simp add: tagged_def sample_result_context_def)
qed

text \<open>
  The request hook, with the domain set built from a directory of tag files, adds to the
  tags of the request exactly the tags whose file has the name of the question or a domain above it.
\<close>

theorem tag_request_tags:
  assumes "load_tag_files dir normalize_domain = Inr files"
    and "domain_set_init T dir = Inr trie" and "\<And>es. trie_ok T es"
    and "\<And>tag x. (tag, x) \<in> pairs files \<Longrightarrow> tag \<noteq> [] \<and> tag_separator \<notin> set tag"
    and "get_domainset exts = Inr trie"
    and "msg_question (request c) = qu # qus" and "normalize_domain (rstrip_dot (q_name qu)) = Inr q"
  shows "tag_on_request T exts c = (Inr (), c\<lparr>tags := tags c \<union> domain_tags (pairs files) q\<rparr>)"
  using domain_lookup_spec [OF assms(1-4,7)]
  by (simp add: tag_on_request_def with_question_def question_of_def assms(5,6) act_run)

lemma sample_normalize_name: "normalize_domain (rstrip_dot ''Example.cn.'') = Inr ''example.cn''"
  by code_simp

theorem tag_request_tags_witness:
  "tag_on_request list_trie sample_exts
     (fresh_context (sample_request\<lparr>msg_question := [\<lparr>q_name = ''Example.cn.'', q_type = RT_A, q_class = IN\<rparr>]\<rparr>)
        ''c'' ''udp'' (0::nat)) =
   (Inr (), (fresh_context (sample_request\<lparr>msg_question := [\<lparr>q_name = ''Example.cn.'', q_type = RT_A, q_class = IN\<rparr>]\<rparr>)
        ''c'' ''udp'' 0)\<lparr>tags := domain_tags (pairs [(''cn'', [''example.cn''])]) ''example.cn''\<rparr>)"
  (is "tag_on_request _ _ ?c = _")
proof -
  have "tags ?c = {}" by (simp add: fresh_context_def build_context_def)
  moreover have "tag_on_request list_trie sample_exts ?c =
     (Inr (), ?c\<lparr>tags := tags ?c \<union> domain_tags (pairs [(''cn'', [''example.cn''])]) ''example.cn''\<rparr>)"
  proof (rule tag_request_tags [OF sample_files sample_init])
    show "\<And>es. trie_ok list_trie es" by (rule list_trie_ok)
    show "\<And>tag x. (tag, x) \<in> pairs [(''cn'', [''example.cn''])] \<Longrightarrow> tag \<noteq> [] \<and> tag_separator \<notin> set tag"
      by (auto simp: pairs_def tag_separator_def)
  qed (simp_all add: sample_exts_get fresh_context_def build_context_def, simp add: sample_normalize_name)
  ultimately show ?thesis by simp
qed

end
