(* ===== verification/Block_Plugin.thy ===== *)
theory Block_Plugin
  imports Plugin_Kit
begin

text \<open>
  \<open>plugins/block_plugin/plugin.py\<close>: static answers by tag, before the dispatch by the tags of the
  request and after it by those of the result too.
\<close>

section \<open>Configuration\<close>

record block_rule =
  br_match_tags :: "string list"
  br_exclude_tags :: "string list"
  br_ipv4 :: "string list"
  br_ipv6 :: "string list"
  br_block_other :: bool
  br_ttl :: nat

text \<open>\<open>_normalize_addresses\<close>\<close>

fun normalize_addresses_loop :: "nat \<Rightarrow> string set \<Rightarrow> string list \<Rightarrow> string list res" where
  "normalize_addresses_loop version seen [] = Inr []"
| "normalize_addresses_loop version seen (item # rest) =
     andthen (ip_address (py_strip item)) (\<lambda>address.
     if ip_version address \<noteq> version then Inl (ValueError ''address of the other family'')
     else if compressed address \<in> seen then normalize_addresses_loop version seen rest
     else andthen (normalize_addresses_loop version (insert (compressed address) seen) rest)
            (\<lambda>normalized. Inr (compressed address # normalized)))"

definition normalize_addresses :: "string list option \<Rightarrow> nat \<Rightarrow> string list res" where
  "normalize_addresses value version = (case value of None \<Rightarrow> Inr []
     | Some items \<Rightarrow> normalize_addresses_loop version {} items)"

text \<open>
  The fields of a rule as they are given: \<open>None\<close> is a field left out, whose default is not
  validated, \<open>Some None\<close> is null.
\<close>

record raw_block_rule =
  raw_match_tags :: "string list option option"
  raw_exclude_tags :: "string list option option"
  raw_ipv4 :: "string list option option"
  raw_ipv6 :: "string list option option"
  raw_block_other :: bool
  raw_ttl :: nat

definition given :: "'a option option \<Rightarrow> 'a option" where
  "given f = (case f of None \<Rightarrow> None | Some v \<Rightarrow> v)"

definition make_block_rule :: "raw_block_rule \<Rightarrow> block_rule res" where
  "make_block_rule raw =
     (let match_tags = normalize_tag_list (given (raw_match_tags raw)) in
      andthen (raise_if (raw_match_tags raw \<noteq> None \<and> match_tags = []) (ValueError ''match_tags'')) (\<lambda>_.
      andthen (normalize_addresses (given (raw_ipv4 raw)) 4) (\<lambda>ipv4.
      andthen (normalize_addresses (given (raw_ipv6 raw)) 6) (\<lambda>ipv6.
      andthen (raise_if (raw_ttl raw < 1) (ValueError ''response_ttl_seconds'')) (\<lambda>_.
      andthen (raise_if (ipv4 = [] \<and> ipv6 = [] \<and> \<not> raw_block_other raw) (ValueError ''no address''))
        (\<lambda>_. Inr \<lparr>br_match_tags = match_tags,
                 br_exclude_tags = normalize_tag_list (given (raw_exclude_tags raw)),
                 br_ipv4 = ipv4, br_ipv6 = ipv6, br_block_other = raw_block_other raw,
                 br_ttl = raw_ttl raw\<rparr>))))))"

section \<open>The plugin\<close>

fun resolve_rule :: "block_rule list \<Rightarrow> string set \<Rightarrow> nat \<Rightarrow> block_rule option" where
  "resolve_rule [] ts rdtype = None"
| "resolve_rule (rule # rest) ts rdtype =
     (if has_any_tag ts (br_exclude_tags rule) then resolve_rule rest ts rdtype
      else if \<not> has_any_tag ts (br_match_tags rule) then resolve_rule rest ts rdtype
      else if rdtype = RT_A \<and> br_ipv4 rule \<noteq> [] then Some rule
      else if rdtype = RT_AAAA \<and> br_ipv6 rule \<noteq> [] then Some rule
      else if rdtype \<notin> {RT_A, RT_AAAA} \<and> br_block_other rule then Some rule
      else resolve_rule rest ts rdtype)"

definition build_record :: "dnslib \<Rightarrow> dname \<Rightarrow> nat \<Rightarrow> block_rule \<Rightarrow> rrset res" where
  "build_record L qname rdtype rule =
     (if rdtype = RT_A then rrset_from_texts L qname (br_ttl rule) IN RT_A (br_ipv4 rule)
      else rrset_from_texts L qname (br_ttl rule) IN RT_AAAA (br_ipv6 rule))"

text \<open>The records the static response is given.\<close>

definition static_records :: "dnslib \<Rightarrow> question \<Rightarrow> block_rule \<Rightarrow> rrset list res" where
  "static_records L q rule =
     (if (q_type q = RT_A \<and> br_ipv4 rule \<noteq> []) \<or> (q_type q = RT_AAAA \<and> br_ipv6 rule \<noteq> [])
      then andthen (build_record L (q_name q) (q_type q) rule) (\<lambda>rr. Inr [rr])
      else Inr [])"

definition apply_static_response ::
  "dnslib \<Rightarrow> real \<Rightarrow> block_rule list \<Rightarrow> string set \<Rightarrow> ('w, unit) ctx_act" where
  "apply_static_response L now rs ts = with_question (\<lambda>q.
     case resolve_rule rs ts (q_type q) of None \<Rightarrow> act_ret ()
     | Some rule \<Rightarrow>
         act_bind (act_get request) (\<lambda>req.
         act_bind (act_lift (make_response L req)) (\<lambda>response.
         act_bind (act_lift (static_records L q rule)) (\<lambda>records.
         let response' = response\<lparr>msg_answer := msg_answer response @ records\<rparr> in
         act_bind (act_upd (\<lambda>c. c\<lparr>final_response := Some response'\<rparr>)) (\<lambda>_.
         act_bind (act_lift (build_answer_from_response L now req response')) (\<lambda>ans.
         act_upd (\<lambda>c. c\<lparr>store_of := snd (alloc_answer ans (store_of c)),
                         final_answer := Some (fst (alloc_answer ans (store_of c))),
                         stop_processing := True\<rparr>)))))))"

definition block_on_request :: "dnslib \<Rightarrow> real \<Rightarrow> block_rule list \<Rightarrow> ('w, unit) ctx_act" where
  "block_on_request L now rs = (\<lambda>c. apply_static_response L now rs (tags c) c)"

definition block_on_response :: "dnslib \<Rightarrow> real \<Rightarrow> block_rule list \<Rightarrow> ('w, unit) ctx_act" where
  "block_on_response L now rs = (\<lambda>c. apply_static_response L now rs
     (tags c \<union> (if upstream_results c = [] then {}
                 else res_tags (result_at (last (upstream_results c)) c))) c)"

definition block_plugin :: "dnslib \<Rightarrow> real \<Rightarrow> block_rule list \<Rightarrow> 'w plugin" where
  "block_plugin L now rs = (plugin_base ''block-plugin'')\<lparr>
     request_order := -50, response_order := 900,
     on_request := block_on_request L now rs, on_response := block_on_response L now rs\<rparr>"

section \<open>Rules\<close>

definition rule_applies :: "string set \<Rightarrow> nat \<Rightarrow> block_rule \<Rightarrow> bool" where
  "rule_applies ts rdtype rule \<longleftrightarrow>
     set (br_match_tags rule) \<inter> ts \<noteq> {} \<and> set (br_exclude_tags rule) \<inter> ts = {} \<and>
     (if rdtype = RT_A then br_ipv4 rule \<noteq> [] else if rdtype = RT_AAAA then br_ipv6 rule \<noteq> []
      else br_block_other rule)"

lemma has_any_tag_iff: "has_any_tag ts xs \<longleftrightarrow> set xs \<inter> ts \<noteq> {}"
  by (auto simp: has_any_tag_def)

lemma resolve_rule_Cons:
  "resolve_rule (rule # rest) ts rdtype =
     (if rule_applies ts rdtype rule then Some rule else resolve_rule rest ts rdtype)"
  by (auto simp: rule_applies_def has_any_tag_iff)

lemma resolve_rule_find: "resolve_rule rs ts rdtype = find (rule_applies ts rdtype) rs"
  by (induction rs) (simp_all only: resolve_rule_Cons resolve_rule.simps(1) find.simps)

lemma normalize_addresses_loop_ok:
  "normalize_addresses_loop v seen xs = Inr ys \<Longrightarrow> distinct ys \<and> set ys \<inter> seen = {} \<and>
     (\<forall>y \<in> set ys. \<exists>a. ip_version a = v \<and> y = compressed a)"
proof (induction xs arbitrary: seen ys)
  case (Cons x xs)
  then obtain a where a: "ip_address (py_strip x) = Inr a" "ip_version a = v"
    by (auto simp: andthen_Inr_iff split: if_splits)
  show ?case
  proof (cases "compressed a \<in> seen")
    case True
    with Cons a show ?thesis by simp
  next
    case False
    with Cons.prems a obtain zs where
      "normalize_addresses_loop v (insert (compressed a) seen) xs = Inr zs" "ys = compressed a # zs"
      by (auto simp: andthen_Inr_iff)
    with Cons.IH a False show ?thesis by fastforce
  qed
qed simp

lemma make_block_rule_ok:
  assumes "make_block_rule raw = Inr rule"
  shows "br_ipv4 rule \<noteq> [] \<or> br_ipv6 rule \<noteq> [] \<or> br_block_other rule"
    and "1 \<le> br_ttl rule"
    and "distinct (br_ipv4 rule) \<and> distinct (br_ipv6 rule)"
    and "y \<in> set (br_ipv4 rule) \<Longrightarrow> \<exists>a. ip_version a = 4 \<and> y = compressed a"
    and "y \<in> set (br_ipv6 rule) \<Longrightarrow> \<exists>a. ip_version a = 6 \<and> y = compressed a"
  using assms normalize_addresses_loop_ok
  by (fastforce simp: make_block_rule_def Let_def res_simps normalize_addresses_def
      split: option.splits)+
section \<open>Static answers\<close>

text \<open>
  What \<open>dns.rrset.from_text_list\<close> is relied on to do for the texts of addresses: it keeps the
  name, the time to live and the type, and has a record for each text.
\<close>

definition address_texts_ok :: "dnslib \<Rightarrow> bool" where
  "address_texts_ok L \<longleftrightarrow> (\<forall>n ttl t xs rr. t \<in> {RT_A, RT_AAAA} \<longrightarrow>
     rrset_from_texts L n ttl IN t xs = Inr rr \<longrightarrow>
     rr = \<lparr>rr_name = n, rr_ttl = ttl, rr_class = IN, rr_type = t, rr_items = map AddressData xs\<rparr>)"

text \<open>The answer section a rule stands for.\<close>

definition rule_section :: "question \<Rightarrow> block_rule \<Rightarrow> rrset list" where
  "rule_section q rule =
     (if q_type q = RT_A then
        [\<lparr>rr_name = q_name q, rr_ttl = br_ttl rule, rr_class = IN, rr_type = RT_A,
          rr_items = map AddressData (br_ipv4 rule)\<rparr>]
      else if q_type q = RT_AAAA then
        [\<lparr>rr_name = q_name q, rr_ttl = br_ttl rule, rr_class = IN, rr_type = RT_AAAA,
          rr_items = map AddressData (br_ipv6 rule)\<rparr>]
      else [])"

lemma static_records_section:
  assumes "address_texts_ok L" and "rule_applies ts (q_type q) rule"
    and "static_records L q rule = Inr rrs"
  shows "rrs = rule_section q rule"
  using assms by (auto simp: static_records_def build_record_def rule_applies_def rule_section_def
      address_texts_ok_def andthen_Inr_iff split: if_splits)

lemma apply_static_none:
  assumes "question_of c = Inr q" and "\<forall>rule \<in> set rs. \<not> rule_applies ts (q_type q) rule"
  shows "apply_static_response L now rs ts c = (Inr (), c)"
  using assms by (simp add: apply_static_response_def with_question_def resolve_rule_find
      find_None_ball [THEN iffD2] act_run)

lemma apply_static_some:
  assumes "apply_static_response L now rs ts c = (Inr (), c')" and "question_of c = Inr q"
    and "find (rule_applies ts (q_type q)) rs = Some rule" and "address_texts_ok L"
  shows "\<exists>m a st. make_response L (request c) = Inr m \<and>
     c' = c\<lparr>final_response := Some (m\<lparr>msg_answer := msg_answer m @ rule_section q rule\<rparr>),
            store_of := st, final_answer := Some a, stop_processing := True\<rparr> \<and>
     a < length (answers st) \<and> results st = results (store_of c)"
proof -
  have app: "rule_applies ts (q_type q) rule" using find_Some_in [OF assms(3)] by simp
  from assms(1,2,3) obtain m rrs ans where m: "make_response L (request c) = Inr m"
    and rrs: "static_records L q rule = Inr rrs"
    and c': "c' = c\<lparr>final_response := Some (m\<lparr>msg_answer := msg_answer m @ rrs\<rparr>),
        store_of := snd (alloc_answer ans (store_of c)),
        final_answer := Some (fst (alloc_answer ans (store_of c))), stop_processing := True\<rparr>"
    by (auto simp: apply_static_response_def with_question_def resolve_rule_find act_bind_Inr
        act_defs Let_def)
  show ?thesis
    using static_records_section [OF assms(4) app rrs]
    by (intro exI [of _ m] exI [of _ "fst (alloc_answer ans (store_of c))"]
        exI [of _ "snd (alloc_answer ans (store_of c))"])
      (simp add: m c' alloc_answer_def)
qed

text \<open>A library that builds records from texts, a rule and a request it applies to.\<close>

definition text_lib :: dnslib where
  "text_lib = sample_lib\<lparr>rrset_from_texts := (\<lambda>n ttl cls t xs. Inr \<lparr>rr_name = n, rr_ttl = ttl,
     rr_class = cls, rr_type = t, rr_items = map AddressData xs\<rparr>)\<rparr>"

lemma text_lib_ok: "address_texts_ok text_lib"
  by (auto simp: address_texts_ok_def text_lib_def)

definition sample_block_rule :: block_rule where
  "sample_block_rule = \<lparr>br_match_tags = [''ads''], br_exclude_tags = [], br_ipv4 = [''0.0.0.0''],
     br_ipv6 = [], br_block_other = False, br_ttl = 60\<rparr>"

definition sample_block_context :: "nat ctx" where
  "sample_block_context = (fresh_context sample_request ''c'' ''udp'' 0)\<lparr>tags := {''ads''}\<rparr>"

lemma sample_block_question:
  "msg_question (request (sample_block_context\<lparr>plugin_order := ps\<rparr>)) = [sample_question]"
  "msg_question (request sample_block_context) = [sample_question]"
  by (simp_all add: sample_block_context_def fresh_context_def build_context_def sample_request_def
      sample_message_def)

lemma sample_rule_applies: "rule_applies {''ads''} (q_type sample_question) sample_block_rule"
  by (simp add: rule_applies_def sample_block_rule_def sample_question_def)

lemma sample_block_tags: "tags sample_block_context = {''ads''}"
  by (simp add: sample_block_context_def)

lemma sample_block_run:
  "\<exists>c'. apply_static_response text_lib now [sample_block_rule] {''ads''}
     (sample_block_context\<lparr>plugin_order := ps\<rparr>) = (Inr (), c')"
proof -
  let ?m = "(sample_message 5 32768 0)\<lparr>msg_answer := rule_section sample_question sample_block_rule\<rparr>"
  have b: "\<exists>a. build_answer_from_response text_lib now sample_request ?m = Inr a"
    by (simp add: build_answer_from_response_def clone_response_for_request_def text_lib_def
        sample_lib_def sample_message_def sample_request_def)
  have r: "static_records text_lib sample_question sample_block_rule =
      Inr (rule_section sample_question sample_block_rule)"
    by (simp add: static_records_def sample_question_def sample_block_rule_def build_record_def
        text_lib_def rule_section_def)
  have mk: "make_response text_lib sample_request = Inr (sample_message 5 32768 0)"
    by (simp add: text_lib_def sample_lib_def sample_request_def sample_message_def)
  have q: "request (sample_block_context\<lparr>plugin_order := ps\<rparr>) = sample_request"
    "msg_question sample_request = [sample_question]" "msg_answer (sample_message 5 32768 0) = []"
    by (simp_all add: sample_block_context_def fresh_context_def build_context_def
        sample_request_def sample_message_def)
  show ?thesis
    using b sample_rule_applies
    by (auto simp: apply_static_response_def with_question_def question_of_def q resolve_rule_find
        act_run mk r)
qed

section \<open>Properties\<close>

text \<open>
  C28: The request hook of the block plugin answers with the first rule that applies to the tags
  and the type of the question: the response is that of the request with exactly the addresses of
  the rule (none for a blocked type), an answer is set and processing stops. When no rule applies
  the context is left alone.
\<close>

theorem block_first_rule:
  assumes "address_texts_ok L" and "msg_question (request c) = [q]"
    and "block_on_request L now rs c = (Inr (), c')"
  shows "((\<forall>rule \<in> set rs. \<not> rule_applies (tags c) (q_type q) rule) \<and> c' = c) \<or>
    (\<exists>us rule vs m. rs = us @ rule # vs \<and> (\<forall>u \<in> set us. \<not> rule_applies (tags c) (q_type q) u) \<and>
       rule_applies (tags c) (q_type q) rule \<and> make_response L (request c) = Inr m \<and>
       final_response c' = Some (m\<lparr>msg_answer := msg_answer m @ rule_section q rule\<rparr>) \<and>
       final_answer c' \<noteq> None \<and> halted c')"
proof -
  have q: "question_of c = Inr q" using assms(2) by (simp add: question_of_def)
  have run: "apply_static_response L now rs (tags c) c = (Inr (), c')"
    using assms(3) by (simp add: block_on_request_def)
  show ?thesis
  proof (cases "find (rule_applies (tags c) (q_type q)) rs")
    case None
    then show ?thesis using apply_static_none [OF q] run by (simp add: find_None_ball)
  next
    case (Some rule)
    from find_Some_first [OF this] apply_static_some [OF run q Some assms(1)]
    show ?thesis by (fastforce simp: halted_def)
  qed
qed

theorem block_first_rule_witness:
  "\<exists>m. final_response (snd (block_on_request text_lib 0 [sample_block_rule] sample_block_context)) = Some m \<and>
     rr_items (hd (msg_answer m)) = [AddressData ''0.0.0.0'']"
proof -
  obtain c' where c': "block_on_request text_lib 0 [sample_block_rule] sample_block_context = (Inr (), c')"
    using sample_block_run [of 0 "plugin_order sample_block_context"]
    by (auto simp: block_on_request_def sample_block_tags)
  have m: "make_response text_lib r = Inr m \<Longrightarrow> msg_answer m = []" for r m
    by (auto simp: text_lib_def sample_lib_def sample_message_def)
  have s: "rule_section sample_question sample_block_rule =
      [\<lparr>rr_name = ''example.cn.'', rr_ttl = 60, rr_class = IN, rr_type = RT_A,
        rr_items = [AddressData ''0.0.0.0'']\<rparr>]"
    by (simp add: rule_section_def sample_question_def sample_block_rule_def)
  from block_first_rule [OF text_lib_ok sample_block_question(2) c'] sample_rule_applies
  show ?thesis by (auto simp: c' sample_block_tags Cons_eq_append_conv s dest: m)
qed

text \<open>
  With the block plugin alone, a request to which a rule applies is answered from the rule
  and is sent to no upstream: the request phase ends with no upstream result.
\<close>

theorem block_skips_dispatch:
  assumes "e_plugins E = [block_plugin (e_lib E) now rs]" and "address_texts_ok (e_lib E)"
    and "msg_question (request c) = [q]" and "rule \<in> set rs" and "rule_applies (tags c) (q_type q) rule"
    and "run_request_phase E c = (Inr dropped, c')" and "\<not> halted c"
  shows "\<not> dropped \<and> stop_processing c' \<and> upstream_results c' = upstream_results c \<and>
     results (store_of c') = results (store_of c)"
proof -
  let ?c = "c\<lparr>plugin_order := plugin_order c @ [''block-plugin'']\<rparr>"
  obtain c1 where pm: "pm_on_request (e_plugins E) c = (Inr (), c1)"
    using assms(6) by (auto simp: run_request_phase_def act_bind_Inr)
  then have run: "block_on_request (e_lib E) now rs ?c = (Inr (), c1)"
    by (auto simp: assms(1) pm_on_request_def ordered_plugins_def block_plugin_def plugin_base_def
        act_bind_Inr act_defs split: if_splits)
  have q: "question_of ?c = Inr q" using assms(3) by (simp add: question_of_def)
  obtain rule' where "find (rule_applies (tags ?c) (q_type q)) rs = Some rule'"
    using assms(4,5) find_None_ball [of "rule_applies (tags c) (q_type q)" rs] by fastforce
  from apply_static_some [OF run [unfolded block_on_request_def] q this assms(2)]
  have k: "stop_processing c1" "drop_request c1 = drop_request c"
    "upstream_results c1 = upstream_results c" "results (store_of c1) = results (store_of c)"
    by auto
  from assms(6,7) pm k show ?thesis
    by (auto simp: run_request_phase_def act_bind_apply halted_def split: if_splits)
qed

theorem block_skips_dispatch_witness:
  "upstream_results (snd (run_request_phase
     ((sample_engine [])\<lparr>e_lib := text_lib, e_plugins := [block_plugin text_lib 0 [sample_block_rule]]\<rparr>)
     sample_block_context)) = []"
proof -
  let ?E = "(sample_engine [])\<lparr>e_lib := text_lib, e_plugins := [block_plugin text_lib 0 [sample_block_rule]]\<rparr>"
  let ?c = "sample_block_context\<lparr>plugin_order := [''block-plugin'']\<rparr>"
  have e: "e_plugins ?E = [block_plugin (e_lib ?E) 0 [sample_block_rule]]" "address_texts_ok (e_lib ?E)"
    using text_lib_ok by simp_all
  have h: "\<not> halted sample_block_context" "upstream_results sample_block_context = []"
    "plugin_order sample_block_context = []"
    by (simp_all add: sample_block_context_def fresh_context_def build_context_def halted_def)
  obtain c1 where c1: "apply_static_response text_lib 0 [sample_block_rule] {''ads''} ?c = (Inr (), c1)"
    using sample_block_run by blast
  have q: "question_of ?c = Inr sample_question" using sample_block_question(1) by (simp add: question_of_def)
  have f: "find (rule_applies {''ads''} (q_type sample_question)) [sample_block_rule] = Some sample_block_rule"
    using sample_rule_applies by simp
  have st: "stop_processing c1" "drop_request c1 = drop_request sample_block_context"
    using apply_static_some [OF c1 q f text_lib_ok] by auto
  have "pm_on_request (e_plugins ?E) sample_block_context = (Inr (), c1)"
    using c1 st by (simp add: pm_on_request_def ordered_plugins_def block_plugin_def plugin_base_def
        act_run act_bind_apply block_on_request_def sample_block_tags h halted_def)
  then have run: "run_request_phase ?E sample_block_context = (Inr False, c1)"
    using st h by (simp add: run_request_phase_def act_bind_apply halted_def)
  from block_skips_dispatch [OF e sample_block_question(2) _ _ run h(1), of sample_block_rule]
  show ?thesis using sample_rule_applies by (simp add: run sample_block_tags h)
qed

end
