(* ===== verification/Ip_Plugins.thy ===== *)
theory Ip_Plugins
  imports Plugin_Kit
begin

text \<open>
  \<open>plugins/ip_filter_plugin\<close> and \<open>plugins/ip_replace_plugin\<close>: the plugin that drops addresses by
  their tags, and the one that moves addresses into other networks.
\<close>

section \<open>The filter\<close>

record ip_filter_config =
  if_match_tags :: "string list"
  if_exclude_tags :: "string list"
  if_whitelist_tags :: "string list"
  if_blacklist_tags :: "string list"

definition make_ip_filter_config ::
  "string list option \<Rightarrow> string list option \<Rightarrow> string list option \<Rightarrow> string list option \<Rightarrow>
   ip_filter_config" where
  "make_ip_filter_config m e w b =
     \<lparr>if_match_tags = normalize_tag_list m, if_exclude_tags = normalize_tag_list e,
      if_whitelist_tags = normalize_tag_list w, if_blacklist_tags = normalize_tag_list b\<rparr>"

definition ip_filter_setup :: "ip_filter_config \<Rightarrow> unit res" where
  "ip_filter_setup cfg = raise_if (if_whitelist_tags cfg = [] \<and> if_blacklist_tags cfg = [])
     (ValueError ''whitelist_tags or blacklist_tags'')"

definition matches_request :: "ip_filter_config \<Rightarrow> string set \<Rightarrow> bool" where
  "matches_request cfg ts =
     (if has_any_tag ts (if_exclude_tags cfg) then False
      else if if_match_tags cfg \<noteq> [] \<and> \<not> has_any_tag ts (if_match_tags cfg) then False
      else True)"

definition is_filterable_answer :: "answer option \<Rightarrow> bool" where
  "is_filterable_answer ans = (case ans of None \<Rightarrow> False
   | Some a \<Rightarrow> (case a_rrset a of None \<Rightarrow> False
       | Some rr \<Rightarrow> if msg_rcode (a_response a) \<noteq> NOERROR then False
                   else a_type a \<in> set address_types \<and> rr_type rr = a_type a))"

definition should_keep_ip_tags :: "ip_filter_config \<Rightarrow> string set \<Rightarrow> bool" where
  "should_keep_ip_tags cfg ip_tags =
     (if if_whitelist_tags cfg \<noteq> [] \<and> \<not> has_any_tag ip_tags (if_whitelist_tags cfg) then False
      else if has_any_tag ip_tags (if_blacklist_tags cfg) then False
      else True)"

text \<open>\<open>record.address\<close>, and the test of one record.\<close>

definition address_of :: "rdata \<Rightarrow> string res" where
  "address_of r = (case rd_address r of None \<Rightarrow> Inl (OtherError ''AttributeError'') | Some a \<Rightarrow> Inr a)"

definition keep_record :: "ip_filter_config \<Rightarrow> (string \<Rightarrow> string set res) \<Rightarrow> rdata \<Rightarrow> bool res" where
  "keep_record cfg look r =
     andthen (address_of r) (\<lambda>a. andthen (look a) (\<lambda>ts. Inr (should_keep_ip_tags cfg ts)))"

definition filter_answer ::
  "ip_filter_config \<Rightarrow> (string \<Rightarrow> string set res) \<Rightarrow> (answer, nat \<times> nat) act" where
  "filter_answer cfg look = (\<lambda>a. case a_rrset a of None \<Rightarrow> (Inr (0, 0), a)
   | Some rr \<Rightarrow>
       let original_count = length (rr_items rr) in
       (case filter_res (keep_record cfg look) (rr_items rr) of
          Inl e \<Rightarrow> (Inl e, a)
        | Inr kept \<Rightarrow>
            if length kept = original_count then (Inr (original_count, original_count), a)
            else if kept = [] then (Inr (original_count, 0), a\<lparr>a_rrset := None\<rparr>)
            else (Inr (original_count, length kept), a\<lparr>a_rrset := Some (rr\<lparr>rr_items := kept\<rparr>)\<rparr>)))"

definition ip_filter_on_upstream_response ::
  "'r radix_lib \<Rightarrow> ('t, 'r) extensions \<Rightarrow> ip_filter_config \<Rightarrow> nat \<Rightarrow> ('w, unit) ctx_act" where
  "ip_filter_on_upstream_response R exts cfg r = with_question (\<lambda>q.
     if q_type q \<notin> set address_types then act_ret ()
     else (\<lambda>c.
       if \<not> matches_request cfg (tags c) then (Inr (), c)
       else case res_answer (result_at r c) of None \<Rightarrow> (Inr (), c)
       | Some i \<Rightarrow>
           if \<not> is_filterable_answer (Some (answer_at i c)) then (Inr (), c)
           else act_bind (act_lift (get_ipset exts)) (\<lambda>ipset.
                act_bind (on_answer i (filter_answer cfg (ip_lookup R ipset))) (\<lambda>_. act_ret ())) c))"

definition ip_filter_plugin ::
  "'r radix_lib \<Rightarrow> ('t, 'r) extensions \<Rightarrow> ip_filter_config \<Rightarrow> 'w plugin" where
  "ip_filter_plugin R exts cfg = (plugin_base ''ip-filter-plugin'')\<lparr>
     upstream_response_order := 50,
     on_upstream_response := ip_filter_on_upstream_response R exts cfg\<rparr>"

section \<open>What the filter keeps\<close>

definition passes :: "ip_filter_config \<Rightarrow> (string \<Rightarrow> string set res) \<Rightarrow> rdata \<Rightarrow> bool" where
  "passes cfg look r \<longleftrightarrow> (\<exists>a ts. rd_address r = Some a \<and> look a = Inr ts \<and>
     (if_whitelist_tags cfg \<noteq> [] \<longrightarrow> set (if_whitelist_tags cfg) \<inter> ts \<noteq> {}) \<and>
     set (if_blacklist_tags cfg) \<inter> ts = {})"

lemma keep_record_passes: "keep_record cfg look r = Inr True \<longleftrightarrow> passes cfg look r"
  by (auto simp: keep_record_def address_of_def andthen_Inr_iff should_keep_ip_tags_def passes_def
      has_any_tag_def split: option.splits if_splits)

text \<open>The records of an answer, none when it has no rrset.\<close>

definition items_of :: "answer \<Rightarrow> rdata list" where
  "items_of a = (case a_rrset a of None \<Rightarrow> [] | Some rr \<Rightarrow> rr_items rr)"

lemma filter_answer_spec:
  assumes "filter_answer cfg look a = (Inr counts, a')"
  shows "items_of a' = filter (passes cfg look) (items_of a)"
    and "counts = (length (items_of a), length (items_of a'))"
    and "a' = a\<lparr>a_rrset := a_rrset a'\<rparr>"
    and "a_rrset a = None \<or> rr_items (the (a_rrset a)) = [] \<or>
          (a_rrset a' = None \<longleftrightarrow> filter (passes cfg look) (items_of a) = [])"
proof -
  have "items_of a' = filter (passes cfg look) (items_of a) \<and>
     counts = (length (items_of a), length (items_of a')) \<and> a' = a\<lparr>a_rrset := a_rrset a'\<rparr> \<and>
     (a_rrset a = None \<or> rr_items (the (a_rrset a)) = [] \<or>
        (a_rrset a' = None \<longleftrightarrow> filter (passes cfg look) (items_of a) = []))"
  proof (cases "a_rrset a")
    case None
    with assms show ?thesis by (auto simp: filter_answer_def items_of_def)
  next
    case (Some rr)
    with assms obtain kept where k: "filter_res (keep_record cfg look) (rr_items rr) = Inr kept"
      by (auto simp: filter_answer_def Let_def split: sum.splits)
    then have kept: "kept = filter (passes cfg look) (rr_items rr)"
      using filter_res_Inr [OF k] by (simp add: keep_record_passes)
    have "length kept = length (rr_items rr) \<Longrightarrow> kept = rr_items rr"
      unfolding kept by (metis length_filter_less filter_True nat_neq_iff)
    with Some k assms kept show ?thesis
      by (auto simp: filter_answer_def Let_def items_of_def split: if_splits)
  qed
  then show "items_of a' = filter (passes cfg look) (items_of a)"
    and "counts = (length (items_of a), length (items_of a'))"
    and "a' = a\<lparr>a_rrset := a_rrset a'\<rparr>"
    and "a_rrset a = None \<or> rr_items (the (a_rrset a)) = [] \<or>
          (a_rrset a' = None \<longleftrightarrow> filter (passes cfg look) (items_of a) = [])" by simp_all
qed

section \<open>Replacement rules\<close>

record replace_rule =
  rp_name :: string
  rp_match_tags :: "string list"
  rp_exclude_tags :: "string list"
  rp_ipv4_targets :: "string list"
  rp_ipv6_targets :: "string list"

fun normalize_networks_loop :: "nat \<Rightarrow> string set \<Rightarrow> string list \<Rightarrow> string list res" where
  "normalize_networks_loop version seen [] = Inr []"
| "normalize_networks_loop version seen (item # rest) =
     andthen (ip_network (py_strip item)) (\<lambda>network.
     if ip_version (network_address network) \<noteq> version then Inl (ValueError ''network of the other family'')
     else if with_prefixlen network \<in> seen then normalize_networks_loop version seen rest
     else andthen (normalize_networks_loop version (insert (with_prefixlen network) seen) rest)
            (\<lambda>normalized. Inr (with_prefixlen network # normalized)))"

definition normalize_networks :: "string list option \<Rightarrow> nat \<Rightarrow> string list res" where
  "normalize_networks value version = (case value of None \<Rightarrow> Inr []
     | Some items \<Rightarrow> normalize_networks_loop version {} items)"

text \<open>\<open>match_tags\<close> is \<open>None\<close> when the field is left out, \<open>Some None\<close> when it is null.\<close>

definition make_replace_rule ::
  "string \<Rightarrow> string list option option \<Rightarrow> string list option \<Rightarrow> string list option \<Rightarrow>
   string list option \<Rightarrow> replace_rule res" where
  "make_replace_rule name mt et ipv4 ipv6 =
     (let m = (case mt of None \<Rightarrow> [] | Some v \<Rightarrow> normalize_tag_list v) in
      andthen (raise_if (mt \<noteq> None \<and> m = []) (ValueError ''match_tags'')) (\<lambda>_.
      andthen (normalize_networks ipv4 4) (\<lambda>t4.
      andthen (normalize_networks ipv6 6) (\<lambda>t6.
      andthen (raise_if (t4 = [] \<and> t6 = []) (ValueError ''no target'')) (\<lambda>_.
      Inr \<lparr>rp_name = name, rp_match_tags = m, rp_exclude_tags = normalize_tag_list et,
           rp_ipv4_targets = t4, rp_ipv6_targets = t6\<rparr>)))))"

record compiled_rule =
  cr_name :: string
  cr_match_tags :: "string set"
  cr_exclude_tags :: "string set"
  cr_ipv4_targets :: "ip_network list"
  cr_ipv6_targets :: "ip_network list"

text \<open>\<open>ip_network(text)\<close> in its strict form, which refuses an address with host bits.\<close>

definition ip_network_strict :: "string \<Rightarrow> ip_network res" where
  "ip_network_strict s =
     andthen (ip_network s) (\<lambda>n.
     andthen (ip_address (hd (py_split CHR ''/'' s))) (\<lambda>w.
     if w = network_address n then Inr n else Inl (ValueError ''has host bits set'')))"

definition compile_rule :: "replace_rule \<Rightarrow> compiled_rule res" where
  "compile_rule rule =
     andthen (map_res ip_network_strict (rp_ipv4_targets rule)) (\<lambda>t4.
     andthen (map_res ip_network_strict (rp_ipv6_targets rule)) (\<lambda>t6.
     Inr \<lparr>cr_name = rp_name rule, cr_match_tags = set (rp_match_tags rule),
          cr_exclude_tags = set (rp_exclude_tags rule), cr_ipv4_targets = t4, cr_ipv6_targets = t6\<rparr>))"

record replace_service =
  rs_rules :: "compiled_rule list"
  rs_skip_tags :: "string set"

definition replace_service_init :: "replace_rule list \<Rightarrow> string list option \<Rightarrow> replace_service res" where
  "replace_service_init rules' skip_tags =
     andthen (map_res compile_rule rules') (\<lambda>compiled.
     Inr \<lparr>rs_rules = compiled, rs_skip_tags = (case skip_tags of None \<Rightarrow> {} | Some ts \<Rightarrow> set ts)\<rparr>)"

section \<open>Replacement\<close>

definition is_normal_address_answer :: "answer option \<Rightarrow> bool" where
  "is_normal_address_answer ans = (case ans of None \<Rightarrow> False
   | Some a \<Rightarrow> if a_rrset a = None then False
              else if msg_rcode (a_response a) \<noteq> NOERROR then False
              else a_type a \<in> {RT_A, RT_AAAA})"

definition targets_of :: "nat \<Rightarrow> compiled_rule \<Rightarrow> ip_network list" where
  "targets_of version rule = (if version = 4 then cr_ipv4_targets rule else cr_ipv6_targets rule)"

fun match_rule :: "compiled_rule list \<Rightarrow> string set \<Rightarrow> nat \<Rightarrow> compiled_rule option" where
  "match_rule [] ts version = None"
| "match_rule (rule # rest) ts version =
     (if cr_match_tags rule \<inter> ts = {} then match_rule rest ts version
      else if cr_exclude_tags rule \<inter> ts \<noteq> {} then match_rule rest ts version
      else if targets_of version rule \<noteq> [] then Some rule
      else match_rule rest ts version)"

definition extract_addresses :: "answer \<Rightarrow> string list" where
  "extract_addresses a = List.map_filter rd_address (items_of a)"

text \<open>\<open>_map_ip_to_network\<close>\<close>

definition map_ip_to_network :: "ip \<Rightarrow> ip_network \<Rightarrow> ip res" where
  "map_ip_to_network original_ip target =
     (let host_bits = max_prefixlen original_ip - prefixlen target;
          host_mask = (if host_bits > 0 then 2 ^ host_bits - 1 else 0);
          mapped_value = ip_int (network_address target) OR (ip_int original_ip AND host_mask) in
      ip_of_int mapped_value)"

fun expand_targets ::
  "ip \<Rightarrow> ip_network list \<Rightarrow> string list \<times> string set \<Rightarrow> (string list \<times> string set) res" where
  "expand_targets original_ip [] acc = Inr acc"
| "expand_targets original_ip (target # rest) (expanded, seen) =
     andthen (map_ip_to_network original_ip target) (\<lambda>replaced.
     if compressed replaced \<in> seen then expand_targets original_ip rest (expanded, seen)
     else expand_targets original_ip rest
            (expanded @ [compressed replaced], insert (compressed replaced) seen))"

fun expand_loop ::
  "string list \<Rightarrow> ip_network list \<Rightarrow> string list \<times> string set \<Rightarrow> (string list \<times> string set) res" where
  "expand_loop [] targets acc = Inr acc"
| "expand_loop (address # rest) targets acc =
     andthen (ip_address address) (\<lambda>original_ip.
     andthen (expand_targets original_ip targets acc) (expand_loop rest targets))"

definition expand_addresses :: "string list \<Rightarrow> ip_network list \<Rightarrow> string list res" where
  "expand_addresses original targets =
     andthen (expand_loop original targets ([], {})) (\<lambda>acc. Inr (fst acc))"

text \<open>\<open>replace_answer\<close>, an action on the answer: whether it was replaced.\<close>

definition replace_answer :: "dnslib \<Rightarrow> replace_service \<Rightarrow> string set \<Rightarrow> (answer, bool) act" where
  "replace_answer L srv ts = (\<lambda>a.
     if ts = {} then (Inr False, a)
     else if rs_skip_tags srv \<inter> ts \<noteq> {} then (Inr False, a)
     else if \<not> is_normal_address_answer (Some a) then (Inr False, a)
     else
       let original = extract_addresses a;
           version = (if a_type a = RT_A then 4 else 6) in
       if original = [] then (Inr False, a)
       else case match_rule (rs_rules srv) ts version of None \<Rightarrow> (Inr False, a)
       | Some rule \<Rightarrow>
           (case expand_addresses original (targets_of version rule) of Inl e \<Rightarrow> (Inl e, a)
            | Inr replaced \<Rightarrow>
                if replaced = original then (Inr False, a)
                else (case rrset_from_texts L (rr_name (the (a_rrset a))) (rr_ttl (the (a_rrset a)))
                             (a_class a) (a_type a) replaced of
                   Inl e \<Rightarrow> (Inl e, a)
                 | Inr rr \<Rightarrow>
                     (case sync_answer_rrset_to_response (a\<lparr>a_rrset := Some rr\<rparr>) of
                        Inl e \<Rightarrow> (Inl e, a\<lparr>a_rrset := Some rr\<rparr>)
                      | Inr a' \<Rightarrow> (Inr True, a')))))"

definition replace_on_upstream_response ::
  "dnslib \<Rightarrow> replace_service \<Rightarrow> nat \<Rightarrow> ('w, unit) ctx_act" where
  "replace_on_upstream_response L srv r = with_question (\<lambda>q.
     if q_type q \<notin> set address_types then act_ret ()
     else (\<lambda>c. case res_answer (result_at r c) of None \<Rightarrow> (Inr (), c)
       | Some i \<Rightarrow> act_bind (on_answer i (replace_answer L srv (res_tags (result_at r c))))
                     (\<lambda>_. act_ret ()) c))"

definition replace_on_response :: "dnslib \<Rightarrow> replace_service \<Rightarrow> ('w, unit) ctx_act" where
  "replace_on_response L srv = with_question (\<lambda>q.
     if q_type q \<notin> set address_types then act_ret ()
     else (\<lambda>c.
       if upstream_results c = [] then (Inr (), c)
       else case final_answer c of None \<Rightarrow> (Inr (), c)
       | Some i \<Rightarrow> act_bind (on_answer i (replace_answer L srv
                       (res_tags (result_at (last (upstream_results c)) c)))) (\<lambda>_. act_ret ()) c))"

definition ip_replace_plugin :: "dnslib \<Rightarrow> replace_service \<Rightarrow> 'w plugin" where
  "ip_replace_plugin L srv = (plugin_base ''ip-replace-plugin'')\<lparr>
     upstream_response_order := 100, response_order := 500,
     on_upstream_response := replace_on_upstream_response L srv,
     on_response := replace_on_response L srv\<rparr>"

section \<open>Where a replaced address lies\<close>

lemma or_low_bits:
  fixes n x :: nat
  assumes "2 ^ k dvd n"
  shows "n OR (x AND (2 ^ k - 1)) = n + x mod 2 ^ k"
proof -
  obtain q where "n = 2 ^ k * q" using assms by (auto simp: dvd_def)
  then have q: "n = push_bit k q" by (simp add: push_bit_eq_mult)
  have x: "x AND (2 ^ k - 1) = take_bit k x" by (simp add: take_bit_eq_mask mask_eq_exp_minus_1)
  have "push_bit k q AND take_bit k x = 0"
    by (rule bit_eqI) (auto simp: bit_and_iff bit_push_bit_iff bit_take_bit_iff)
  then have "push_bit k q + take_bit k x = push_bit k q OR take_bit k x"
    by (rule disjunctive_add_eq_or)
  then show ?thesis by (simp only: q x take_bit_eq_mod [symmetric])
qed

lemma ip_eqI: "ip_version a = ip_version b \<Longrightarrow> ip_int a = ip_int b \<Longrightarrow> a = b"
  by (cases a; cases b) (auto simp: unsigned_word_eqI)

lemma ip_of_int_v4: "n < 2 ^ 32 \<Longrightarrow> \<exists>b. ip_of_int n = Inr b \<and> ip_version b = 4 \<and> ip_int b = n"
  by (simp add: ip_of_int_def unsigned_of_nat take_bit_nat_eq_self)

lemma ip_of_int_v6:
  "2 ^ 32 \<le> n \<Longrightarrow> n < 2 ^ 128 \<Longrightarrow> \<exists>b. ip_of_int n = Inr b \<and> ip_version b = 6 \<and> ip_int b = n"
  by (simp add: ip_of_int_def unsigned_of_nat take_bit_nat_eq_self)

lemma max_prefixlen_version: "max_prefixlen a = (if ip_version a = 4 then 32 else 128)"
  by (cases a) auto

lemma prefix_plus_bound:
  fixes n x :: nat
  assumes "2 ^ k dvd n" and "n < 2 ^ w" and "k \<le> w"
  shows "n + x mod 2 ^ k < 2 ^ w"
proof -
  obtain q where q: "n = 2 ^ k * q" using assms(1) by (auto simp: dvd_def)
  obtain j where w: "w = k + j" using assms(3) by (auto simp: le_iff_add)
  have "q < 2 ^ j" using assms(2) by (simp add: q w power_add)
  then have "2 ^ k * (q + 1) \<le> (2::nat) ^ k * 2 ^ j" by (intro mult_le_mono2) simp
  then have "n + 2 ^ k \<le> 2 ^ w" by (simp add: q w power_add)
  moreover have "x mod 2 ^ k < 2 ^ k" by simp
  ultimately show ?thesis by linarith
qed

lemma map_ip_value:
  assumes "ip_network s = Inr n" and "ip_version a = ip_version (network_address n)"
  shows "map_ip_to_network a n =
      ip_of_int (ip_int (network_address n) + ip_int a mod 2 ^ (max_prefixlen a - prefixlen n))"
    and "ip_int (network_address n) + ip_int a mod 2 ^ (max_prefixlen a - prefixlen n) < 2 ^ max_prefixlen a"
    and "2 ^ (max_prefixlen a - prefixlen n) dvd ip_int (network_address n)"
proof -
  have w: "max_prefixlen a = max_prefixlen (network_address n)"
    using assms(2) by (simp add: max_prefixlen_version)
  have d: "2 ^ (max_prefixlen a - prefixlen n) dvd ip_int (network_address n)"
    using ip_network_host_bits [OF assms(1)] by (simp add: w)
  then show "2 ^ (max_prefixlen a - prefixlen n) dvd ip_int (network_address n)" .
  show "map_ip_to_network a n =
      ip_of_int (ip_int (network_address n) + ip_int a mod 2 ^ (max_prefixlen a - prefixlen n))"
    using or_low_bits [OF d, of "ip_int a"]
    by (cases "max_prefixlen a - prefixlen n") (simp_all add: map_ip_to_network_def Let_def)
  show "ip_int (network_address n) + ip_int a mod 2 ^ (max_prefixlen a - prefixlen n) < 2 ^ max_prefixlen a"
    using prefix_plus_bound [OF d] ip_int_bound [of "network_address n"] by (simp add: w)
qed

section \<open>The expanded addresses\<close>

lemma expand_targets_spec:
  "expand_targets a ts (xs, seen) = Inr (ys, seen') \<Longrightarrow> set xs = seen \<Longrightarrow> distinct xs \<Longrightarrow>
     set ys = seen' \<and> distinct ys \<and>
     seen' = seen \<union> {compressed b |b t. t \<in> set ts \<and> map_ip_to_network a t = Inr b}"
proof (induction ts arbitrary: xs seen)
  case (Cons t ts)
  from Cons.prems(1) obtain b where b: "map_ip_to_network a t = Inr b"
    and rest: "(if compressed b \<in> seen then expand_targets a ts (xs, seen)
       else expand_targets a ts (xs @ [compressed b], insert (compressed b) seen)) = Inr (ys, seen')"
    by (auto simp: andthen_Inr_iff)
  show ?case
  proof (cases "compressed b \<in> seen")
    case True
    with rest Cons.IH [of xs seen] Cons.prems(2,3) b show ?thesis by auto
  next
    case False
    with rest Cons.IH [of "xs @ [compressed b]" "insert (compressed b) seen"] Cons.prems(2,3) b
    show ?thesis by auto
  qed
qed auto

lemma expand_loop_spec:
  "expand_loop as ts (xs, seen) = Inr (ys, seen') \<Longrightarrow> set xs = seen \<Longrightarrow> distinct xs \<Longrightarrow>
     set ys = seen' \<and> distinct ys \<and>
     seen' = seen \<union> {compressed b |b t a w. a \<in> set as \<and> ip_address a = Inr w \<and> t \<in> set ts \<and>
        map_ip_to_network w t = Inr b}"
proof (induction as arbitrary: xs seen)
  case (Cons a as)
  from Cons.prems(1) obtain w acc where w: "ip_address a = Inr w"
    and acc: "expand_targets w ts (xs, seen) = Inr acc" and rest: "expand_loop as ts acc = Inr (ys, seen')"
    by (auto simp: andthen_Inr_iff)
  obtain zs sz where z: "acc = (zs, sz)" by fastforce
  from expand_targets_spec [OF acc [unfolded z] Cons.prems(2,3)]
  have e: "set zs = sz" "distinct zs"
    "sz = seen \<union> {compressed b |b t. t \<in> set ts \<and> map_ip_to_network w t = Inr b}" by auto
  from Cons.IH [OF rest [unfolded z] e(1,2)] e(3) w show ?case by auto
qed auto

section \<open>Properties\<close>

text \<open>
  The filter plugin, when the request matches and the answer is one it filters, leaves in the
  rrset exactly the records whose address has a whitelisted tag (if there is a whitelist) and no
  blacklisted one, in their order, drops the rrset when none is left, and changes no other answer.
\<close>

theorem ip_filter_keeps_passing:
  assumes "question_of c = Inr q" and "q_type q \<in> set address_types" and "matches_request cfg (tags c)"
    and "res_answer (results (store_of c) ! r) = Some i" and "i < length (answers (store_of c))"
    and "is_filterable_answer (Some (answers (store_of c) ! i))" and "get_ipset exts = Inr ips"
    and "ip_filter_on_upstream_response R exts cfg r c = (Inr (), c')"
  shows "items_of (answers (store_of c') ! i) =
       filter (passes cfg (ip_lookup R ips)) (items_of (answers (store_of c) ! i)) \<and>
     a_response (answers (store_of c') ! i) = a_response (answers (store_of c) ! i) \<and>
     list_all (\<lambda>j. j = i \<or> answers (store_of c') ! j = answers (store_of c) ! j)
       [0..<length (answers (store_of c))]"
proof -
  obtain counts a' where f: "filter_answer cfg (ip_lookup R ips) (answer_at i c) = (Inr counts, a')"
    and c': "c' = c\<lparr>store_of := upd_answer i (\<lambda>_. a') (store_of c)\<rparr>"
    using assms by (auto simp: ip_filter_on_upstream_response_def with_question_def act_bind_Inr
        act_defs on_answer_def split: prod.splits)
  note sp = filter_answer_spec [OF f]
  have "a_response a' = a_response (answer_at i c)" using arg_cong [OF sp(3), of a_response] by simp
  with sp(1) assms(5) show ?thesis by (auto simp: c' list_all_iff upd_answer_def nth_list_update)
qed

definition sample_filter :: ip_filter_config where
  "sample_filter = \<lparr>if_match_tags = [], if_exclude_tags = [], if_whitelist_tags = [''lan''],
     if_blacklist_tags = []\<rparr>"

definition sample_address_answer :: answer where
  "sample_address_answer = \<lparr>a_qname = ''example.cn.'', a_type = RT_A, a_class = IN,
     a_response = sample_message 5 32768 0,
     a_rrset = Some \<lparr>rr_name = ''example.cn.'', rr_ttl = 60, rr_class = IN, rr_type = RT_A,
        rr_items = [AddressData ''10.1.2.3'', AddressData ''10.1.2.3'']\<rparr>,
     a_canonical = ''example.cn.'', a_expiration = 0, a_chain = [], a_nameserver = None, a_port = None\<rparr>"

definition sample_filter_context :: "nat ctx" where
  "sample_filter_context = (fresh_context sample_request ''c'' ''udp'' 0)\<lparr>
     store_of := \<lparr>answers = [sample_address_answer], results = [\<lparr>upstream_name = ''u1'', duration_ms = 1,
       res_answer = Some 0, res_error = None, res_tags = {}, collected_results = []\<rparr>]\<rparr>\<rparr>"

definition sample_ip_exts :: "(nat, (string \<times> string list) list) extensions" where
  "sample_ip_exts = [''core.ipset'' \<mapsto> IpSetExt None]"

lemma sample_filter_lookup:
  "ip_lookup list_radix None ''10.1.2.3'' = Inr {}"
  by (simp add: ip_lookup_def)

theorem ip_filter_keeps_passing_witness:
  "items_of (answers (store_of (snd (ip_filter_on_upstream_response list_radix
      sample_ip_exts sample_filter 0 sample_filter_context))) ! 0) = []"
proof -
  let ?hook = "ip_filter_on_upstream_response list_radix sample_ip_exts sample_filter 0"
  let ?c = sample_filter_context
  have q: "question_of ?c = Inr sample_question" "q_type sample_question \<in> set address_types"
    by (simp_all add: question_of_def sample_filter_context_def fresh_context_def build_context_def
        sample_request_def sample_message_def sample_question_def address_types_def)
  have m: "matches_request sample_filter (tags ?c)"
    by (simp add: matches_request_def sample_filter_def has_any_tag_def)
  have a: "res_answer (results (store_of ?c) ! 0) = Some 0" "0 < length (answers (store_of ?c))"
    "is_filterable_answer (Some (answers (store_of ?c) ! 0))"
    by (simp_all add: sample_filter_context_def is_filterable_answer_def sample_address_answer_def
        address_types_def sample_message_def)
  have i: "get_ipset sample_ip_exts = Inr None" by (simp add: get_ipset_def sample_ip_exts_def)
  have rr: "answers (store_of ?c) ! 0 = sample_address_answer"
    by (simp add: sample_filter_context_def)
  have k: "filter_res (keep_record sample_filter (ip_lookup list_radix None))
      [AddressData ''10.1.2.3'', AddressData ''10.1.2.3''] = Inr []"
    by (simp add: keep_record_def address_of_def sample_filter_lookup should_keep_ip_tags_def
        sample_filter_def has_any_tag_def)
  have "\<exists>c'. ?hook ?c = (Inr (), c')"
    using a(3) rr k by (simp add: ip_filter_on_upstream_response_def with_question_def q m a i act_run
        on_answer_def act_bind_apply filter_answer_def sample_address_answer_def)
  then obtain c' where run: "?hook ?c = (Inr (), c')" by blast
  have "filter (passes sample_filter (ip_lookup list_radix None)) (items_of sample_address_answer) = []"
    by (simp add: items_of_def sample_address_answer_def passes_def sample_filter_lookup sample_filter_def)
  with ip_filter_keeps_passing [OF q m a i run] show ?thesis by (simp add: run rr)
qed

text \<open>
  C30: A replaced address lies in the target network and keeps the host part of the original, and
  is an address of the same family. For IPv6 this needs a target whose address does not fit in 32
  bits.
\<close>

theorem ip_replace_maps_into_target:
  assumes "ip_network s = Inr n" and "ip_version a = ip_version (network_address n)"
    and "ip_version a = 4 \<or> 2 ^ 32 \<le> ip_int (network_address n)"
  shows "\<exists>b. map_ip_to_network a n = Inr b \<and> ip_version b = ip_version a \<and>
     mask_ip (prefixlen n) b = network_address n \<and>
     ip_int b mod 2 ^ (max_prefixlen a - prefixlen n) = ip_int a mod 2 ^ (max_prefixlen a - prefixlen n)"
proof -
  let ?h = "max_prefixlen a - prefixlen n"
  let ?v = "ip_int (network_address n) + ip_int a mod 2 ^ ?h"
  note m = map_ip_value [OF assms(1,2)]
  obtain b where b: "ip_of_int ?v = Inr b" "ip_version b = ip_version a" "ip_int b = ?v"
  proof (cases "ip_version a = 4")
    case True
    with m(2) ip_of_int_v4 [of ?v] that show thesis by (auto simp: max_prefixlen_version)
  next
    case False
    then have "ip_version a = 6" using ip_version_cases by blast
    with False m(2) assms(3) ip_of_int_v6 [of ?v] that show thesis
      by (auto simp: max_prefixlen_version)
  qed
  have w: "max_prefixlen b = max_prefixlen a" using b(2) by (simp add: max_prefixlen_version)
  obtain k where k: "ip_int (network_address n) = 2 ^ ?h * k" using m(3) by (auto simp: dvd_def)
  have "mask_ip (prefixlen n) b = network_address n"
  proof (rule ip_eqI)
    show "ip_int (mask_ip (prefixlen n) b) = ip_int (network_address n)"
      by (simp add: ip_int_mask w b(3) k)
  qed (use assms(2) b(2) in simp)
  moreover have "ip_int b mod 2 ^ ?h = ip_int a mod 2 ^ ?h" by (simp add: b(3) k)
  ultimately show ?thesis using m(1) b(1,2) by auto
qed

theorem ip_replace_maps_into_target_witness:
  "\<exists>b. map_ip_to_network (IPv4 167838211) \<lparr>network_address = IPv4 167772160, prefixlen = 8\<rparr> = Inr b \<and>
     ip_version b = 4"
proof -
  have "ip_version (IPv4 167838211) = ip_version (network_address \<lparr>network_address = IPv4 167772160, prefixlen = 8\<rparr>)"
    by simp
  from ip_replace_maps_into_target [OF sample_network this] show ?thesis by auto
qed

text \<open>
  When the address of an IPv6 target and the host part of the original fit together in 32
  bits, the replaced address comes out as an IPv4 address.
\<close>

theorem ip_replace_v6_becomes_v4:
  assumes "ip_network s = Inr n" and "ip_version a = 6" and "ip_version (network_address n) = 6"
    and "ip_int (network_address n) + ip_int a mod 2 ^ (128 - prefixlen n) < 2 ^ 32"
  shows "\<exists>b. map_ip_to_network a n = Inr b \<and> ip_version b = 4"
  using map_ip_value(1) [OF assms(1)] ip_of_int_v4 [OF assms(4)] assms(2,3)
  by (auto simp: max_prefixlen_version)

lemma sample_parse_v6: "parse_ipv6 ''::'' = Some 0" "parse_ipv4 ''::'' = None"
  by (simp_all add: parse_ipv6_def expand_ipv4_suffix_def parse_ipv6_parts_def hextets_val_def upt_rec
      parse_ipv4_def parse_octet_def is_digit_def)

lemma sample_v6_network: "ip_network ''::/96'' = Inr \<lparr>network_address = IPv6 0, prefixlen = 96\<rparr>"
  by (simp add: ip_network_def ip_address_def sample_parse_v6 parse_prefix_def is_digit_def
      dec_val_def digit_val_def mask_ip_def)

theorem ip_replace_v6_becomes_v4_witness:
  "\<exists>b. map_ip_to_network (IPv6 7) \<lparr>network_address = IPv6 0, prefixlen = 96\<rparr> = Inr b \<and> ip_version b = 4"
  by (rule ip_replace_v6_becomes_v4 [OF sample_v6_network]) simp_all

text \<open>
  The list of replaced addresses has no duplicates, and holds exactly the images of the
  original addresses in the target networks.
\<close>

theorem ip_replace_expands_all:
  assumes "expand_addresses as ts = Inr ys"
  shows "distinct ys \<and> set ys = {compressed b |b t a w. a \<in> set as \<and> ip_address a = Inr w \<and>
     t \<in> set ts \<and> map_ip_to_network w t = Inr b}"
proof -
  from assms obtain seen where "expand_loop as ts ([], {}) = Inr (ys, seen)"
    by (auto simp: expand_addresses_def andthen_Inr_iff)
  from expand_loop_spec [OF this] show ?thesis by auto
qed

lemma sample_expand:
  "expand_addresses [''10.1.2.3''] [\<lparr>network_address = IPv4 167772160, prefixlen = 8\<rparr>] = Inr [''10.1.2.3'']"
proof -
  have a: "ip_address ''10.1.2.3'' = Inr (IPv4 167838211)" by (simp add: ip_address_def sample_parse)
  have "map_ip_to_network (IPv4 167838211) \<lparr>network_address = IPv4 167772160, prefixlen = 8\<rparr> =
      ip_of_int 167838211"
    using map_ip_value(1) [OF sample_network, of "IPv4 167838211"] by simp
  then show ?thesis by (simp add: expand_addresses_def a ip_of_int_def sample_print)
qed

theorem ip_replace_expands_all_witness:
  "''10.1.2.3'' \<in> {compressed b |b t a w. a \<in> set [''10.1.2.3''] \<and> ip_address a = Inr w \<and>
     t \<in> set [\<lparr>network_address = IPv4 167772160, prefixlen = 8\<rparr>] \<and> map_ip_to_network w t = Inr b}"
  unfolding conjunct2 [OF ip_replace_expands_all [OF sample_expand], symmetric]
  by (rule list.set_intros(1))

end
