(* ===== verification/Https_Plugin.thy ===== *)
theory Https_Plugin
  imports Plugin_Kit
begin

text \<open>
  \<open>plugins/https_plugin/plugin.py\<close>: removes the ALPN identifier \<open>h3\<close> and the address hints from
  the HTTPS records of a response. \<open>rdata.replace(params=...)\<close> is dnspython's; it is the argument
  \<open>repl\<close>, and is relied on to accept parameters that are consistent (\<open>svcb_ok\<close>).
\<close>

section \<open>Parameters\<close>

definition H3_ALPN_ID :: bytes where
  "H3_ALPN_ID = [104, 51]"

definition has_param :: "param_key \<Rightarrow> svc_params \<Rightarrow> bool" where
  "has_param k params \<longleftrightarrow> k \<in> fst ` set params"

text \<open>\<open>params.get(k)\<close>: a parameter without a value is stored as \<open>None\<close>.\<close>

definition get_param :: "param_key \<Rightarrow> svc_params \<Rightarrow> svc_param option" where
  "get_param k params = (case map_of params k of Some NoDefaultALPN \<Rightarrow> None | p \<Rightarrow> p)"

fun alpn_ids :: "svc_param \<Rightarrow> bytes list res" where
  "alpn_ids (ALPNParam ids) = Inr ids"
| "alpn_ids _ = Inl (OtherError ''AttributeError'')"

fun mandatory_keys :: "svc_param \<Rightarrow> param_key list res" where
  "mandatory_keys (MandatoryParam ks) = Inr ks"
| "mandatory_keys _ = Inl (OtherError ''AttributeError'')"

text \<open>
  The three steps of \<open>_sanitize_https_rdata\<close>. Their state is \<open>params\<close>, \<open>changed\<close>,
  \<open>removed_keys\<close>; the counts are those the source logs.
\<close>

record sanitizing =
  sz_params :: svc_params
  sz_changed :: bool
  sz_removed :: "param_key set"
  sz_h3_ids :: nat
  sz_hint_params :: nat

definition strip_alpn :: "sanitizing \<Rightarrow> sanitizing res" where
  "strip_alpn s = (case get_param ALPN (sz_params s) of None \<Rightarrow> Inr s
   | Some alpn \<Rightarrow> andthen (alpn_ids alpn) (\<lambda>ids.
       let filtered_ids = filter (\<lambda>item. item \<noteq> H3_ALPN_ID) ids;
           s1 = s\<lparr>sz_changed := True, sz_h3_ids := length ids - length filtered_ids\<rparr> in
       if filtered_ids = ids then Inr s
       else if filtered_ids \<noteq> [] then
         Inr (s1\<lparr>sz_params := dict_set ALPN (ALPNParam filtered_ids) (sz_params s)\<rparr>)
       else
         let s2 = s1\<lparr>sz_params := dict_pop ALPN (sz_params s), sz_removed := insert ALPN (sz_removed s)\<rparr> in
         Inr (if has_param NO_DEFAULT_ALPN (sz_params s2)
              then s2\<lparr>sz_params := dict_pop NO_DEFAULT_ALPN (sz_params s2),
                      sz_removed := insert NO_DEFAULT_ALPN (sz_removed s2)\<rparr>
              else s2)))"

definition strip_hint :: "param_key \<Rightarrow> sanitizing \<Rightarrow> sanitizing" where
  "strip_hint hint_key s =
     (if has_param hint_key (sz_params s)
      then s\<lparr>sz_params := dict_pop hint_key (sz_params s), sz_changed := True,
             sz_removed := insert hint_key (sz_removed s), sz_hint_params := sz_hint_params s + 1\<rparr>
      else s)"

definition strip_mandatory :: "sanitizing \<Rightarrow> sanitizing res" where
  "strip_mandatory s = (case get_param MANDATORY (sz_params s) of None \<Rightarrow> Inr s
   | Some mandatory \<Rightarrow>
       if sz_removed s = {} then Inr s
       else andthen (mandatory_keys mandatory) (\<lambda>ks.
         let remaining_keys = filter (\<lambda>k. k \<notin> sz_removed s) ks in
         Inr (if remaining_keys = ks then s
              else s\<lparr>sz_changed := True,
                     sz_params := (if remaining_keys \<noteq> []
                       then dict_set MANDATORY (MandatoryParam remaining_keys) (sz_params s)
                       else dict_pop MANDATORY (sz_params s))\<rparr>)))"

definition sanitize_params :: "svc_params \<Rightarrow> sanitizing res" where
  "sanitize_params params =
     andthen (strip_alpn \<lparr>sz_params = params, sz_changed = False, sz_removed = {}, sz_h3_ids = 0,
                         sz_hint_params = 0\<rparr>) (\<lambda>s.
     strip_mandatory (strip_hint IPV6HINT (strip_hint IPV4HINT s)))"

text \<open>The new record (\<open>None\<close> when it is the old one) and the counts.\<close>

definition sanitize_https_rdata ::
  "(rdata \<Rightarrow> svc_params \<Rightarrow> rdata res) \<Rightarrow> rdata \<Rightarrow> (rdata option \<times> nat \<times> nat) res" where
  "sanitize_https_rdata repl rdata = (case rd_params rdata of
     None \<Rightarrow> Inl (OtherError ''AttributeError'')
   | Some params \<Rightarrow> andthen (sanitize_params params) (\<lambda>s.
       if \<not> sz_changed s then Inr (None, 0, 0)
       else andthen (repl rdata (sz_params s)) (\<lambda>rdata'.
              Inr (Some rdata', sz_h3_ids s, sz_hint_params s))))"

section \<open>Answers\<close>

fun sanitize_loop ::
  "(rdata \<Rightarrow> svc_params \<Rightarrow> rdata res) \<Rightarrow> rdata list \<Rightarrow> (rdata list \<times> nat) res" where
  "sanitize_loop repl [] = Inr ([], 0)"
| "sanitize_loop repl (rdata # rest) =
     andthen (sanitize_https_rdata repl rdata) (\<lambda>(r, h3, hints).
     andthen (sanitize_loop repl rest) (\<lambda>(rs, changed_records).
     Inr (case r of None \<Rightarrow> (rdata # rs, changed_records)
          | Some rdata' \<Rightarrow> (rdata' # rs, Suc changed_records))))"

text \<open>The number of changed records. \<open>from_rdata_list\<close> keeps name, time to live and type.\<close>

definition sanitize_https_answer ::
  "(rdata \<Rightarrow> svc_params \<Rightarrow> rdata res) \<Rightarrow> (answer, nat) act" where
  "sanitize_https_answer repl = (\<lambda>a. case a_rrset a of None \<Rightarrow> (Inr 0, a)
   | Some rr \<Rightarrow>
       if a_type a \<noteq> RT_HTTPS \<or> rr_type rr \<noteq> RT_HTTPS then (Inr 0, a)
       else (case sanitize_loop repl (rr_items rr) of
          Inl e \<Rightarrow> (Inl e, a)
        | Inr (rdatas, changed_records) \<Rightarrow>
            if changed_records = 0 then (Inr 0, a)
            else (Inr changed_records, a\<lparr>a_rrset := Some (rr\<lparr>rr_items := rdatas\<rparr>)\<rparr>)))"

text \<open>
  The answer the hooks of this plugin and of the ECH plugin begin with: \<open>final_answer\<close>, or one
  built from a \<open>final_response\<close> without error.
\<close>

definition answer_or_from_response :: "dnslib \<Rightarrow> real \<Rightarrow> ('w, nat option) ctx_act" where
  "answer_or_from_response L now = (\<lambda>c. case final_answer c of Some i \<Rightarrow> (Inr (Some i), c)
   | None \<Rightarrow> (case final_response c of None \<Rightarrow> (Inr None, c)
      | Some response \<Rightarrow>
          if msg_rcode response \<noteq> NOERROR then (Inr None, c)
          else (case build_answer_from_response L now (request c) response of
             Inl e \<Rightarrow> (Inl e, c)
           | Inr a \<Rightarrow> (case alloc_answer a (store_of c) of (i, st) \<Rightarrow>
               (Inr (Some i), c\<lparr>final_answer := Some i, store_of := st\<rparr>)))))"

definition https_on_response ::
  "dnslib \<Rightarrow> real \<Rightarrow> (rdata \<Rightarrow> svc_params \<Rightarrow> rdata res) \<Rightarrow> ('w, unit) ctx_act" where
  "https_on_response L now repl = with_question (\<lambda>q.
     if q_type q \<noteq> RT_HTTPS then act_ret ()
     else act_bind (answer_or_from_response L now) (\<lambda>ans.
       case ans of None \<Rightarrow> act_ret ()
       | Some i \<Rightarrow> act_bind (on_answer i (sanitize_https_answer repl)) (\<lambda>_. act_ret ())))"

definition https_plugin ::
  "dnslib \<Rightarrow> real \<Rightarrow> (rdata \<Rightarrow> svc_params \<Rightarrow> rdata res) \<Rightarrow> 'w plugin" where
  "https_plugin L now repl = (plugin_base ''https-plugin'')\<lparr>
     response_order := 800, on_response := https_on_response L now repl\<rparr>"

section \<open>What sanitising leaves\<close>

lemma has_param_dom: "has_param k ps \<longleftrightarrow> k \<in> dom (map_of ps)"
  by (simp add: has_param_def dom_map_of_conv_image_fst)

text \<open>What dnspython checks of the parameters of a record.\<close>

definition mandatory_ok :: "svc_params \<Rightarrow> bool" where
  "mandatory_ok ps \<longleftrightarrow> (\<forall>ks. map_of ps MANDATORY = Some (MandatoryParam ks) \<longrightarrow> set ks \<subseteq> dom (map_of ps))"

definition alpn_ok :: "svc_params \<Rightarrow> bool" where
  "alpn_ok ps \<longleftrightarrow> (NO_DEFAULT_ALPN \<in> dom (map_of ps) \<longrightarrow> ALPN \<in> dom (map_of ps))"

definition svcb_ok :: "svc_params \<Rightarrow> bool" where
  "svcb_ok ps \<longleftrightarrow> mandatory_ok ps \<and> alpn_ok ps"

definition no_h3 :: "svc_params \<Rightarrow> bool" where
  "no_h3 ps \<longleftrightarrow> (\<forall>ids. map_of ps ALPN = Some (ALPNParam ids) \<longrightarrow> H3_ALPN_ID \<notin> set ids)"

text \<open>The state of sanitising, relative to the parameters it began with.\<close>

definition stripped :: "svc_params \<Rightarrow> sanitizing \<Rightarrow> bool" where
  "stripped ps s \<longleftrightarrow>
     sz_removed s = dom (map_of ps) - dom (map_of (sz_params s)) \<and>
     dom (map_of (sz_params s)) \<subseteq> dom (map_of ps) \<and>
     sz_removed s \<subseteq> {ALPN, NO_DEFAULT_ALPN, IPV4HINT, IPV6HINT} \<and>
     (\<forall>k \<in> dom (map_of (sz_params s)) - {ALPN}. map_of (sz_params s) k = map_of ps k) \<and>
     (alpn_ok ps \<longrightarrow> alpn_ok (sz_params s)) \<and> no_h3 (sz_params s) \<and>
     (\<not> sz_changed s \<longrightarrow> sz_params s = ps \<and> sz_removed s = {})"

lemma strip_alpn_stripped:
  assumes "strip_alpn \<lparr>sz_params = ps, sz_changed = False, sz_removed = {}, sz_h3_ids = 0, sz_hint_params = 0\<rparr> = Inr s"
  shows "stripped ps s"
proof (cases "get_param ALPN ps")
  case None
  then have "no_h3 ps" by (auto simp: get_param_def no_h3_def split: option.splits svc_param.splits)
  with None assms show ?thesis by (auto simp: strip_alpn_def stripped_def)
next
  case (Some alpn)
  with assms obtain ids where ids: "alpn = ALPNParam ids" by (cases alpn) (auto simp: strip_alpn_def)
  with Some have m: "map_of ps ALPN = Some (ALPNParam ids)"
    by (auto simp: get_param_def split: option.splits svc_param.splits)
  let ?f = "filter (\<lambda>item. item \<noteq> H3_ALPN_ID) ids"
  have h: "H3_ALPN_ID \<notin> set ?f" by simp
  show ?thesis
  proof (cases "?f = ids")
    case True
    with h have "no_h3 ps" by (simp add: no_h3_def m)
    with True Some ids assms show ?thesis by (auto simp: strip_alpn_def stripped_def)
  next
    case False
    show ?thesis
    proof (cases "?f = []")
      case True
      then show ?thesis using False Some ids assms m
        by (auto simp: strip_alpn_def stripped_def Let_def has_param_dom alpn_ok_def no_h3_def
            split: if_splits)
    next
      case ne: False
      then show ?thesis using False Some ids assms m
        by (auto simp: strip_alpn_def stripped_def Let_def alpn_ok_def no_h3_def split: if_splits)
    qed
  qed
qed

lemma strip_hint_stripped:
  assumes "stripped ps s" and "k \<in> {IPV4HINT, IPV6HINT}"
  shows "stripped ps (strip_hint k s)" and "k \<notin> dom (map_of (sz_params (strip_hint k s)))"
    and "j \<notin> dom (map_of (sz_params s)) \<Longrightarrow> j \<notin> dom (map_of (sz_params (strip_hint k s)))"
proof -
  show "k \<notin> dom (map_of (sz_params (strip_hint k s)))"
    by (simp add: strip_hint_def has_param_dom domIff)
  show "j \<notin> dom (map_of (sz_params s)) \<Longrightarrow> j \<notin> dom (map_of (sz_params (strip_hint k s)))"
    by (simp add: strip_hint_def domIff)
  show "stripped ps (strip_hint k s)"
  proof (cases "has_param k (sz_params s)")
    case True
    then have k: "k \<in> dom (map_of (sz_params s))" by (simp add: has_param_dom)
    have "stripped ps (s\<lparr>sz_params := dict_pop k (sz_params s), sz_changed := True,
             sz_removed := insert k (sz_removed s), sz_hint_params := sz_hint_params s + 1\<rparr>)"
      using assms k unfolding stripped_def
      by (auto simp: alpn_ok_def no_h3_def)
    with True show ?thesis by (simp add: strip_hint_def)
  next
    case False
    with assms show ?thesis by (simp add: strip_hint_def)
  qed
qed

lemma strip_mandatory_ok:
  assumes "stripped ps s" and "mandatory_ok ps" and "strip_mandatory s = Inr s'"
  shows "mandatory_ok (sz_params s')" and "no_h3 (sz_params s')"
    and "alpn_ok ps \<Longrightarrow> alpn_ok (sz_params s')"
    and "k \<noteq> MANDATORY \<Longrightarrow> map_of (sz_params s') k = map_of (sz_params s) k"
    and "\<not> sz_changed s' \<Longrightarrow> \<not> sz_changed s \<and> s' = s"
proof -
  have st: "sz_removed s = dom (map_of ps) - dom (map_of (sz_params s))"
    "\<And>k. k \<in> dom (map_of (sz_params s)) \<Longrightarrow> k \<noteq> ALPN \<Longrightarrow> map_of (sz_params s) k = map_of ps k"
    "no_h3 (sz_params s)" "alpn_ok ps \<Longrightarrow> alpn_ok (sz_params s)"
    using assms(1) by (auto simp: stripped_def)
  have mand: "map_of (sz_params s) MANDATORY = Some p \<Longrightarrow> map_of ps MANDATORY = Some p" for p
    using st(2) [of MANDATORY] by (metis domI param_key.distinct(1))
  have keep: "mandatory_ok (sz_params s)" if "sz_removed s = {} \<or>
      (\<forall>ks. map_of (sz_params s) MANDATORY = Some (MandatoryParam ks) \<longrightarrow> filter (\<lambda>k. k \<notin> sz_removed s) ks = ks)"
    using that assms(2) mand st(1) unfolding mandatory_ok_def filter_id_conv by blast
  have "mandatory_ok (sz_params s') \<and> no_h3 (sz_params s') \<and> (alpn_ok ps \<longrightarrow> alpn_ok (sz_params s')) \<and>
     (k \<noteq> MANDATORY \<longrightarrow> map_of (sz_params s') k = map_of (sz_params s) k) \<and>
     (\<not> sz_changed s' \<longrightarrow> \<not> sz_changed s \<and> s' = s)"
  proof (cases "get_param MANDATORY (sz_params s)")
    case None
    then have "map_of (sz_params s) MANDATORY \<noteq> Some (MandatoryParam ks)" for ks
      by (auto simp: get_param_def split: option.splits svc_param.splits)
    then have "mandatory_ok (sz_params s)" by (simp add: mandatory_ok_def)
    with None assms(3) st(3,4) show ?thesis by (auto simp: strip_mandatory_def)
  next
    case (Some m)
    then have m: "map_of (sz_params s) MANDATORY = Some m"
      by (auto simp: get_param_def split: option.splits svc_param.splits)
    show ?thesis
    proof (cases "sz_removed s = {}")
      case True
      with Some assms(3) keep st(3,4) show ?thesis by (auto simp: strip_mandatory_def)
    next
      case rem: False
      with Some assms(3) obtain ks where ks: "m = MandatoryParam ks"
        by (cases m) (auto simp: strip_mandatory_def)
      let ?r = "filter (\<lambda>k. k \<notin> sz_removed s) ks"
      have sub: "set ?r \<subseteq> dom (map_of (sz_params s))"
        using assms(2) mand m ks st(1) by (auto simp: mandatory_ok_def)
      show ?thesis
      proof (cases "?r = ks")
        case True
        with m ks keep have "mandatory_ok (sz_params s)" by simp
        with True Some rem ks assms(3) st(3,4) show ?thesis by (auto simp: strip_mandatory_def)
      next
        case False
        with Some rem ks assms(3) have s': "s' = s\<lparr>sz_changed := True,
            sz_params := (if ?r \<noteq> [] then dict_set MANDATORY (MandatoryParam ?r) (sz_params s)
                          else dict_pop MANDATORY (sz_params s))\<rparr>"
          by (auto simp: strip_mandatory_def Let_def)
        show ?thesis
          using sub st(3,4) by (auto simp: s' mandatory_ok_def no_h3_def alpn_ok_def)
      qed
    qed
  qed
  then show "mandatory_ok (sz_params s')" and "no_h3 (sz_params s')"
    and "alpn_ok ps \<Longrightarrow> alpn_ok (sz_params s')"
    and "k \<noteq> MANDATORY \<Longrightarrow> map_of (sz_params s') k = map_of (sz_params s) k"
    and "\<not> sz_changed s' \<Longrightarrow> \<not> sz_changed s \<and> s' = s" by blast+
qed

lemma sanitize_params_ok:
  assumes "sanitize_params ps = Inr s" and "svcb_ok ps"
  shows "svcb_ok (sz_params s)" and "no_h3 (sz_params s)"
    and "IPV4HINT \<notin> dom (map_of (sz_params s))" and "IPV6HINT \<notin> dom (map_of (sz_params s))"
    and "\<not> sz_changed s \<Longrightarrow> sz_params s = ps"
    and "k \<notin> {MANDATORY, ALPN, NO_DEFAULT_ALPN, IPV4HINT, IPV6HINT} \<Longrightarrow>
           map_of (sz_params s) k = map_of ps k"
proof -
  obtain s1 where s1: "strip_alpn \<lparr>sz_params = ps, sz_changed = False, sz_removed = {}, sz_h3_ids = 0,
      sz_hint_params = 0\<rparr> = Inr s1"
    and s: "strip_mandatory (strip_hint IPV6HINT (strip_hint IPV4HINT s1)) = Inr s"
    using assms(1) by (auto simp: sanitize_params_def andthen_Inr_iff)
  let ?s3 = "strip_hint IPV6HINT (strip_hint IPV4HINT s1)"
  note h4 = strip_hint_stripped [OF strip_alpn_stripped [OF s1], of IPV4HINT, simplified]
  note h6 = strip_hint_stripped [OF h4(1), of IPV6HINT, simplified]
  have mand: "mandatory_ok ps" and alpn: "alpn_ok ps" using assms(2) by (auto simp: svcb_ok_def)
  note m = strip_mandatory_ok [OF h6(1) mand s]
  show "svcb_ok (sz_params s)" using m(1,3) alpn by (simp add: svcb_ok_def)
  show "no_h3 (sz_params s)" by (rule m(2))
  show "IPV6HINT \<notin> dom (map_of (sz_params s))" using h6(2) m(4) [of IPV6HINT] by (simp add: domIff)
  show "IPV4HINT \<notin> dom (map_of (sz_params s))"
    using h6(3) [OF h4(2)] m(4) [of IPV4HINT] by (simp add: domIff)
  show "\<not> sz_changed s \<Longrightarrow> sz_params s = ps" using m(5) h6(1) by (auto simp: stripped_def)
  show "map_of (sz_params s) k = map_of ps k"
    if "k \<notin> {MANDATORY, ALPN, NO_DEFAULT_ALPN, IPV4HINT, IPV6HINT}"
  proof -
    have st: "sz_removed ?s3 = dom (map_of ps) - dom (map_of (sz_params ?s3))"
      "sz_removed ?s3 \<subseteq> {ALPN, NO_DEFAULT_ALPN, IPV4HINT, IPV6HINT}"
      "\<forall>k \<in> dom (map_of (sz_params ?s3)) - {ALPN}. map_of (sz_params ?s3) k = map_of ps k"
      using h6(1) unfolding stripped_def by blast+
    have "map_of (sz_params ?s3) k = map_of ps k"
    proof (cases "k \<in> dom (map_of (sz_params ?s3))")
      case True
      with st(3) that show ?thesis by blast
    next
      case False
      with st(1,2) that have "k \<notin> dom (map_of ps)" by blast
      with False show ?thesis by (simp add: domIff)
    qed
    with m(4) [of k] that show ?thesis by simp
  qed
qed

lemma sanitize_params_clean:
  assumes "no_h3 ps" and "IPV4HINT \<notin> dom (map_of ps)" and "IPV6HINT \<notin> dom (map_of ps)"
    and "\<And>p. map_of ps ALPN = Some p \<Longrightarrow> \<exists>ids. p = ALPNParam ids"
  shows "\<exists>s. sanitize_params ps = Inr s \<and> \<not> sz_changed s"
proof -
  let ?s = "\<lparr>sz_params = ps, sz_changed = False, sz_removed = {}, sz_h3_ids = 0, sz_hint_params = 0\<rparr>"
  have "strip_alpn ?s = Inr ?s"
  proof (cases "map_of ps ALPN")
    case None
    then show ?thesis by (simp add: strip_alpn_def get_param_def)
  next
    case (Some p)
    with assms(4) obtain ids where "p = ALPNParam ids" by blast
    with Some assms(1) show ?thesis
      by (auto simp: strip_alpn_def get_param_def no_h3_def Let_def filter_id_conv)
  qed
  moreover have "strip_hint IPV6HINT (strip_hint IPV4HINT ?s) = ?s"
    using assms(2,3) by (simp add: strip_hint_def has_param_dom)
  moreover have "strip_mandatory ?s = Inr ?s"
    by (simp add: strip_mandatory_def split: option.split)
  ultimately show ?thesis by (simp add: sanitize_params_def)
qed

section \<open>Properties\<close>

text \<open>
  C31: Sanitising the parameters of a consistent HTTPS record leaves them consistent (no mandatory
  key is missing, \<open>no-default-alpn\<close> is not left without \<open>alpn\<close>), without the identifier \<open>h3\<close>
  and without address hints, and does not touch any other parameter.
\<close>

theorem https_sanitize_sound:
  assumes "sanitize_params ps = Inr s" and "svcb_ok ps"
  shows "svcb_ok (sz_params s) \<and> no_h3 (sz_params s) \<and> map_of (sz_params s) IPV4HINT = None \<and>
     map_of (sz_params s) IPV6HINT = None \<and> map_of (sz_params s) PORT = map_of ps PORT \<and>
     map_of (sz_params s) ECH = map_of ps ECH \<and>
     map_of (sz_params s) (OTHER_KEY n) = map_of ps (OTHER_KEY n)"
  using sanitize_params_ok(1-4) [OF assms] sanitize_params_ok(6) [OF assms, of PORT]
    sanitize_params_ok(6) [OF assms, of ECH] sanitize_params_ok(6) [OF assms, of "OTHER_KEY n"]
  by (simp add: domIff)

theorem https_sanitize_sound_witness:
  "svcb_ok (sz_params \<lparr>sz_params = [(PORT, OtherParam [1])], sz_changed = True,
     sz_removed = {IPV4HINT, NO_DEFAULT_ALPN, ALPN}, sz_h3_ids = 1, sz_hint_params = 1\<rparr>)"
proof -
  let ?ps = "[(MANDATORY, MandatoryParam [ALPN]), (ALPN, ALPNParam [[104, 51]]),
     (NO_DEFAULT_ALPN, NoDefaultALPN), (IPV4HINT, HintParam [''10.1.2.3'']), (PORT, OtherParam [1])]"
  have "sanitize_params ?ps = Inr \<lparr>sz_params = [(PORT, OtherParam [1])], sz_changed = True,
     sz_removed = {IPV4HINT, NO_DEFAULT_ALPN, ALPN}, sz_h3_ids = 1, sz_hint_params = 1\<rparr>"
    by (simp add: sanitize_params_def strip_alpn_def get_param_def H3_ALPN_ID_def dict_pop_def
        has_param_def strip_hint_def strip_mandatory_def)
  moreover have "svcb_ok ?ps" by (simp add: svcb_ok_def mandatory_ok_def alpn_ok_def)
  ultimately show ?thesis using https_sanitize_sound by blast
qed

text \<open>Sanitised parameters are left alone when they are sanitised again.\<close>

theorem https_sanitize_idempotent:
  assumes "sanitize_params ps = Inr s" and "svcb_ok ps"
    and "map_of (sz_params s) ALPN = None \<or> (\<exists>ids. map_of (sz_params s) ALPN = Some (ALPNParam ids))"
  shows "\<exists>s'. sanitize_params (sz_params s) = Inr s' \<and> \<not> sz_changed s'"
  using sanitize_params_ok [OF assms(1,2)] assms(3) by (intro sanitize_params_clean) auto

theorem https_sanitize_idempotent_witness:
  "\<exists>s'. sanitize_params [(ALPN, ALPNParam [[104, 50]])] = Inr s' \<and> \<not> sz_changed s'"
proof -
  let ?ps = "[(ALPN, ALPNParam [[104, 51], [104, 50]])]"
  have "sanitize_params ?ps = Inr \<lparr>sz_params = [(ALPN, ALPNParam [[104, 50]])], sz_changed = True,
     sz_removed = {}, sz_h3_ids = 1, sz_hint_params = 0\<rparr>"
    by (simp add: sanitize_params_def strip_alpn_def get_param_def H3_ALPN_ID_def dict_pop_def
        has_param_def strip_hint_def strip_mandatory_def)
  moreover have "svcb_ok ?ps" by (simp add: svcb_ok_def mandatory_ok_def alpn_ok_def)
  ultimately show ?thesis using https_sanitize_idempotent by fastforce
qed

end
