(* ===== verification/Base64.thy ===== *)
theory Base64
  imports Prelude
begin

text \<open>
  Python's \<open>base64\<close>, as far as the source uses it: \<open>b64encode\<close>, \<open>urlsafe_b64encode\<close> and
  \<open>b64decode(..., altchars=b"-_", validate=True)\<close>, on bytes given as numbers below 256. The strict
  decoder refuses characters outside the alphabet and padding that is not the one an encoder
  writes; it ignores the spare bits of the last group.
\<close>

section \<open>Groups of six bits\<close>

fun sextets :: "nat list \<Rightarrow> nat list" where
  "sextets [] = []"
| "sextets [a] = [a div 4, (a mod 4) * 16]"
| "sextets [a, b] = [a div 4, (a mod 4) * 16 + b div 16, (b mod 16) * 4]"
| "sextets (a # b # c # rest) =
     [a div 4, (a mod 4) * 16 + b div 16, (b mod 16) * 4 + c div 64, c mod 64] @ sextets rest"

fun octets :: "nat list \<Rightarrow> nat list option" where
  "octets [] = Some []"
| "octets [w] = None"
| "octets [w, x] = Some [w * 4 + x div 16]"
| "octets [w, x, y] = Some [w * 4 + x div 16, (x mod 16) * 16 + y div 4]"
| "octets (w # x # y # z # rest) =
     map_option (\<lambda>bs. [w * 4 + x div 16, (x mod 16) * 16 + y div 4, (y mod 4) * 64 + z] @ bs)
       (octets rest)"

lemma octets_sextets:
  "list_all (\<lambda>b. b < 256) bs \<Longrightarrow> octets (sextets bs) = Some bs"
proof (induction bs rule: sextets.induct)
  case (4 a b c rest)
  have "(a mod 4) * 16 + b div 16 < 64" and "((a mod 4) * 16 + b div 16) div 16 = a mod 4"
    and "((a mod 4) * 16 + b div 16) mod 16 = b div 16"
    and "((b mod 16) * 4 + c div 64) div 4 = b mod 16" and "((b mod 16) * 4 + c div 64) mod 4 = c div 64"
    using 4(2) by auto
  with 4 show ?case by simp
next
  case (3 a b)
  have "((a mod 4) * 16 + b div 16) div 16 = a mod 4"
    and "((a mod 4) * 16 + b div 16) mod 16 = b div 16" using 3 by auto
  then show ?case by simp
qed simp_all

lemma sextets_bound:
  "list_all (\<lambda>b. b < 256) bs \<Longrightarrow> list_all (\<lambda>s. s < 64) (sextets bs)"
  by (induction bs rule: sextets.induct) auto

lemma length_sextets:
  "length (sextets bs) = 4 * (length bs div 3) + (if length bs mod 3 = 0 then 0 else length bs mod 3 + 1)"
proof (induction bs rule: sextets.induct)
  case (4 a b c rest)
  have d: "Suc (Suc (Suc (length rest))) div 3 = Suc (length rest div 3)"
    and m: "Suc (Suc (Suc (length rest))) mod 3 = length rest mod 3" by presburger+
  show ?case using 4 by (simp add: d m)
qed simp_all

section \<open>Text\<close>

definition b64_alphabet :: string where
  "b64_alphabet = ''ABCDEFGHIJKLMNOPQRSTUVWXYZabcdefghijklmnopqrstuvwxyz0123456789+/''"

definition b64_char :: "nat \<Rightarrow> char" where
  "b64_char s = b64_alphabet ! s"

definition b64_val :: "char \<Rightarrow> nat option" where
  "b64_val c = find (\<lambda>i. b64_alphabet ! i = c) [0..<64]"

definition b64encode :: "nat list \<Rightarrow> string" where
  "b64encode bs = map b64_char (sextets bs) @ replicate ((3 - length bs mod 3) mod 3) CHR ''=''"

definition urlsafe_char :: "char \<Rightarrow> char" where
  "urlsafe_char c = (if c = CHR ''+'' then CHR ''-'' else if c = CHR ''/'' then CHR ''_'' else c)"

definition standard_char :: "char \<Rightarrow> char" where
  "standard_char c = (if c = CHR ''-'' then CHR ''+'' else if c = CHR ''_'' then CHR ''/'' else c)"

definition urlsafe_b64encode :: "nat list \<Rightarrow> string" where
  "urlsafe_b64encode bs = map urlsafe_char (b64encode bs)"

fun all_values :: "string \<Rightarrow> nat list option" where
  "all_values [] = Some []"
| "all_values (c # cs) = (case (b64_val c, all_values cs) of
     (Some v, Some vs) \<Rightarrow> Some (v # vs) | _ \<Rightarrow> None)"

text \<open>\<open>None\<close> is \<open>binascii.Error\<close>.\<close>

definition b64decode_strict :: "string \<Rightarrow> nat list option" where
  "b64decode_strict s =
     (let t = map standard_char s;
          content = takeWhile (\<lambda>c. c \<noteq> CHR ''='') t;
          pad = dropWhile (\<lambda>c. c \<noteq> CHR ''='') t in
      if length content mod 4 = 1 then None
      else if pad = replicate ((4 - length content mod 4) mod 4) CHR ''=''
      then Option.bind (all_values content) octets
      else None)"

section \<open>Round trip\<close>

lemma alphabet_distinct: "distinct b64_alphabet" "length b64_alphabet = 64"
  by (simp_all add: b64_alphabet_def)

lemma b64_val_char: "s < 64 \<Longrightarrow> b64_val (b64_char s) = Some s"
proof -
  assume s: "s < 64"
  have "[0..<64] = [0..<s] @ s # [Suc s..<64]"
    using s by (metis le_eq_less_or_eq less_imp_add_positive upt_add_eq_append upt_conv_Cons zero_le)
  moreover have "\<forall>i \<in> set [0..<s]. b64_alphabet ! i \<noteq> b64_char s"
    using s alphabet_distinct by (auto simp: b64_char_def nth_eq_iff_index_eq)
  ultimately show ?thesis unfolding b64_val_def by (simp add: find_append_hit b64_char_def)
qed

lemma alphabet_chars: "c \<in> set b64_alphabet \<Longrightarrow> c \<noteq> CHR ''='' \<and> c \<noteq> CHR ''-'' \<and> c \<noteq> CHR ''_''"
  by (auto simp: b64_alphabet_def)

lemma b64_char_plain: "s < 64 \<Longrightarrow> b64_char s \<noteq> CHR ''='' \<and> b64_char s \<noteq> CHR ''-'' \<and> b64_char s \<noteq> CHR ''_''"
  using alphabet_distinct(2) by (intro alphabet_chars) (simp add: b64_char_def)

lemma standard_urlsafe: "s < 64 \<Longrightarrow> standard_char (urlsafe_char (b64_char s)) = b64_char s"
  using b64_char_plain [of s] by (auto simp: standard_char_def urlsafe_char_def)

lemma urlsafe_no_pad: "s < 64 \<Longrightarrow> urlsafe_char (b64_char s) \<noteq> CHR ''=''"
  using b64_char_plain [of s] by (auto simp: urlsafe_char_def)

lemma all_values_chars: "list_all (\<lambda>s. s < 64) ss \<Longrightarrow> all_values (map b64_char ss) = Some ss"
  by (induction ss) (simp_all add: b64_val_char)

text \<open>The text without its padding, as the client puts it into the URL.\<close>

lemma rstrip_pad:
  assumes "list_all (\<lambda>b. b < 256) bs"
  shows "py_rstrip (\<lambda>c. c = CHR ''='') (urlsafe_b64encode bs) = map (urlsafe_char \<circ> b64_char) (sextets bs)"
proof -
  have u: "urlsafe_b64encode bs = map (urlsafe_char \<circ> b64_char) (sextets bs) @
      replicate ((3 - length bs mod 3) mod 3) CHR ''=''"
    by (simp add: urlsafe_b64encode_def b64encode_def urlsafe_char_def)
  have strip: "py_rstrip (\<lambda>c. c = CHR ''='') (t @ replicate n CHR ''='') = py_rstrip (\<lambda>c. c = CHR ''='') t"
    for t n
  proof (induction n)
    case (Suc n)
    have "t @ replicate (Suc n) CHR ''='' = (t @ replicate n CHR ''='') @ [CHR ''='']"
      by (simp add: replicate_append_same)
    with Suc show ?case by (simp only: py_rstrip_snoc simp_thms if_True)
  qed simp
  have "c \<noteq> CHR ''=''" if "c \<in> set (map (urlsafe_char \<circ> b64_char) (sextets bs))" for c
    using that sextets_bound [OF assms] urlsafe_no_pad by (auto simp: list_all_iff)
  then have "py_rstrip (\<lambda>c. c = CHR ''='') (map (urlsafe_char \<circ> b64_char) (sextets bs)) =
      map (urlsafe_char \<circ> b64_char) (sextets bs)"
    by (intro rstrip_fixed) (metis last_in_set)
  then show ?thesis by (simp only: u strip)
qed

lemma pad_split:
  assumes "\<forall>x \<in> set t. x \<noteq> CHR ''=''"
  shows "takeWhile (\<lambda>c. c \<noteq> CHR ''='') (t @ replicate n CHR ''='') = t"
    and "dropWhile (\<lambda>c. c \<noteq> CHR ''='') (t @ replicate n CHR ''='') = replicate n CHR ''=''"
  using assms by (cases n; simp add: takeWhile_append2 dropWhile_append2)+

lemma decode_unpadded:
  assumes "list_all (\<lambda>b. b < 256) bs"
  shows "b64decode_strict (map (urlsafe_char \<circ> b64_char) (sextets bs) @
           replicate ((4 - length (sextets bs) mod 4) mod 4) CHR ''='') = Some bs"
proof -
  let ?ss = "sextets bs"
  have b: "list_all (\<lambda>s. s < 64) ?ss" by (rule sextets_bound [OF assms])
  have m: "map standard_char (map (urlsafe_char \<circ> b64_char) ?ss) = map b64_char ?ss"
    using b standard_urlsafe by (auto simp: list_all_iff)
  have c: "\<forall>x \<in> set (map b64_char ?ss). x \<noteq> CHR ''=''"
    using b b64_char_plain by (auto simp: list_all_iff)
  let ?p = "replicate ((4 - length ?ss mod 4) mod 4) CHR ''=''"
  have t: "map standard_char (map (urlsafe_char \<circ> b64_char) ?ss @ ?p) = map b64_char ?ss @ ?p"
    by (simp only: map_append m) (simp add: standard_char_def)
  have "takeWhile (\<lambda>c. c \<noteq> CHR ''='') (map b64_char ?ss @ ?p) = map b64_char ?ss"
    and "dropWhile (\<lambda>c. c \<noteq> CHR ''='') (map b64_char ?ss @ ?p) = ?p"
    using pad_split [OF c] by simp_all
  moreover have "length ?ss mod 4 \<noteq> 1"
  proof -
    have "length bs mod 3 = 0 \<or> length bs mod 3 = 1 \<or> length bs mod 3 = 2" by presburger
    then show ?thesis unfolding length_sextets by auto
  qed
  ultimately show ?thesis
    using all_values_chars [OF b] octets_sextets [OF assms]
    by (simp only: b64decode_strict_def Let_def t length_map if_False if_True refl bind.bind_lunit)
qed

end
