(* ===== verification/Ech_Plugin.thy ===== *)
theory Ech_Plugin
  imports Https_Plugin Tag_Plugin Base64
begin

text \<open>
  \<open>plugins/cloudflare_ech_plugin\<close>: adds the ECH parameter of \<open>cloudflare-ech.com\<close> to the HTTPS
  records of a response whose tags ask for it.

  \<open>resolve\<close> is \<open>context.resolve\<close> (\<open>None\<close> without a handler). The result of the ECH query is kept
  by \<open>alru_cache(maxsize=1, ttl=300)\<close>; with one handler the cache is one value and its time, in
  the part \<open>pt\<close> of the world.
\<close>

section \<open>Configuration\<close>

record ech_config =
  ec_match_tags :: "string list"
  ec_exclude_tags :: "string list"
  ec_skip_tags :: "string list"

definition make_ech_config ::
  "string list option \<Rightarrow> string list option \<Rightarrow> string list option \<Rightarrow> ech_config" where
  "make_ech_config m e s = \<lparr>ec_match_tags = normalize_tag_list m,
     ec_exclude_tags = normalize_tag_list e, ec_skip_tags = normalize_tag_list s\<rparr>"

definition ech_setup :: "ech_config \<Rightarrow> unit res" where
  "ech_setup cfg = raise_if (ec_match_tags cfg = []) (ValueError ''match_tags'')"

definition CLOUDFLARE_ECH_DOMAIN :: string where
  "CLOUDFLARE_ECH_DOMAIN = ''cloudflare-ech.com''"

section \<open>The ECH value\<close>

type_synonym ech_payload = "bytes \<times> nat"

fun find_ech :: "rdata list \<Rightarrow> nat \<Rightarrow> ech_payload option res" where
  "find_ech [] ttl = Inr None"
| "find_ech (rdata # rest) ttl =
     (if rd_priority rdata = 0 then find_ech rest ttl
      else case rd_params rdata of None \<Rightarrow> Inl (OtherError ''AttributeError'')
      | Some params \<Rightarrow> (case get_param ECH params of
            Some (ECHParam ech) \<Rightarrow> Inr (Some (ech, ttl))
          | _ \<Rightarrow> find_ech rest ttl))"

definition extract_ech_bytes :: "answer \<Rightarrow> ech_payload option res" where
  "extract_ech_bytes a = (case a_rrset a of None \<Rightarrow> Inr None
   | Some rr \<Rightarrow> if a_type a \<noteq> RT_HTTPS \<or> rr_type rr \<noteq> RT_HTTPS then Inr None
       else find_ech (rr_items rr) (max (rr_ttl rr) 1))"

definition load_ech_uncached :: "'w resolver \<Rightarrow> ('w, ech_payload option) ctx_act" where
  "load_ech_uncached resolve =
     act_bind (act_try (act_bind (resolve CLOUDFLARE_ECH_DOMAIN ''HTTPS'') (\<lambda>i. act_ret (Some i)))
                       (\<lambda>_. act_ret None)) (\<lambda>ans.
     case ans of None \<Rightarrow> act_ret None
     | Some i \<Rightarrow> act_bind (act_get (answer_at i)) (\<lambda>a. act_lift (extract_ech_bytes a)))"

record ech_cache =
  ech_value :: "ech_payload option"
  ech_stored_at :: real

definition load_ech_cached ::
  "real \<Rightarrow> ('w, ech_cache option) part \<Rightarrow> 'w resolver \<Rightarrow> ('w, ech_payload option) ctx_act" where
  "load_ech_cached now pt resolve =
     act_bind (on_part pt (act_get id)) (\<lambda>cached.
     case cached of
       Some e \<Rightarrow> if now < ech_stored_at e + 300 then act_ret (ech_value e)
                 else act_bind (load_ech_uncached resolve) (\<lambda>v.
                      act_bind (on_part pt (act_upd (\<lambda>_. Some \<lparr>ech_value = v, ech_stored_at = now\<rparr>)))
                        (\<lambda>_. act_ret v))
     | None \<Rightarrow> act_bind (load_ech_uncached resolve) (\<lambda>v.
               act_bind (on_part pt (act_upd (\<lambda>_. Some \<lparr>ech_value = v, ech_stored_at = now\<rparr>)))
                 (\<lambda>_. act_ret v)))"

definition load_ech_for_context ::
  "real \<Rightarrow> ('w, ech_cache option) part \<Rightarrow> 'w resolver option \<Rightarrow> ('w, ech_payload option) ctx_act" where
  "load_ech_for_context now pt resolve =
     (case resolve of None \<Rightarrow> act_ret None | Some f \<Rightarrow> load_ech_cached now pt f)"

section \<open>Injection\<close>

text \<open>
  \<open>from_text\<close> is \<open>dns.rdata.from_text\<close> for an HTTPS record, \<open>repl\<close> the \<open>replace\<close> of a record.
\<close>

definition build_service_mode_rrset ::
  "(string \<Rightarrow> rdata res) \<Rightarrow> dname \<Rightarrow> nat \<Rightarrow> bytes \<Rightarrow> rrset res" where
  "build_service_mode_rrset from_text name ttl ech_bytes =
     andthen (from_text (''1 . ech='' @ [CHR 0x22] @ b64encode ech_bytes @ [CHR 0x22])) (\<lambda>rdata.
     Inr \<lparr>rr_name = name, rr_ttl = max ttl 1, rr_class = IN, rr_type = RT_HTTPS, rr_items = [rdata]\<rparr>)"

fun inject_loop ::
  "(rdata \<Rightarrow> svc_params \<Rightarrow> rdata res) \<Rightarrow> bytes \<Rightarrow> rdata list \<Rightarrow> (rdata list \<times> nat) res" where
  "inject_loop repl ech_bytes [] = Inr ([], 0)"
| "inject_loop repl ech_bytes (rdata # rest) =
     (if rd_priority rdata = 0
      then andthen (inject_loop repl ech_bytes rest) (\<lambda>(rs, n). Inr (rdata # rs, n))
      else case rd_params rdata of None \<Rightarrow> Inl (OtherError ''AttributeError'')
      | Some params \<Rightarrow>
          if has_param ECH params
          then andthen (inject_loop repl ech_bytes rest) (\<lambda>(rs, n). Inr (rdata # rs, n))
          else andthen (repl rdata (dict_set ECH (ECHParam ech_bytes) params)) (\<lambda>rdata'.
               andthen (inject_loop repl ech_bytes rest) (\<lambda>(rs, n). Inr (rdata' # rs, Suc n))))"

definition inject_ech ::
  "(string \<Rightarrow> rdata res) \<Rightarrow> (rdata \<Rightarrow> svc_params \<Rightarrow> rdata res) \<Rightarrow> bytes \<Rightarrow> nat \<Rightarrow> (answer, nat) act" where
  "inject_ech from_text repl ech_bytes ttl = (\<lambda>a. case a_rrset a of
     None \<Rightarrow> (case build_service_mode_rrset from_text (a_qname a) ttl ech_bytes of
        Inl e \<Rightarrow> (Inl e, a) | Inr rr \<Rightarrow> (Inr 1, a\<lparr>a_rrset := Some rr\<rparr>))
   | Some rr \<Rightarrow> (case inject_loop repl ech_bytes (rr_items rr) of
        Inl e \<Rightarrow> (Inl e, a)
      | Inr (rdatas, updated_count) \<Rightarrow>
          (Inr updated_count, if updated_count > 0 then a\<lparr>a_rrset := Some (rr\<lparr>rr_items := rdatas\<rparr>)\<rparr> else a)))"

section \<open>The hook\<close>

definition get_https_answer :: "dnslib \<Rightarrow> real \<Rightarrow> ('w, nat option) ctx_act" where
  "get_https_answer L now =
     act_bind (answer_or_from_response L now) (\<lambda>ans. \<lambda>c.
     case ans of None \<Rightarrow> (Inr None, c)
     | Some i \<Rightarrow>
         let a = answer_at i c in
         (Inr (if msg_rcode (a_response a) \<noteq> NOERROR then None
               else if a_type a \<noteq> RT_HTTPS then None
               else case a_rrset a of
                 None \<Rightarrow> Some i
               | Some rr \<Rightarrow> if rr_type rr \<noteq> RT_HTTPS then None else Some i), c))"

text \<open>\<open>any(ECH in rdata.params for rdata in rrset)\<close>\<close>

fun any_ech :: "rdata list \<Rightarrow> bool res" where
  "any_ech [] = Inr False"
| "any_ech (rdata # rest) = (case rd_params rdata of
     None \<Rightarrow> Inl (OtherError ''AttributeError'')
   | Some params \<Rightarrow> if has_param ECH params then Inr True else any_ech rest)"

definition has_any_ech :: "answer \<Rightarrow> bool res" where
  "has_any_ech a = (case a_rrset a of None \<Rightarrow> Inr False | Some rr \<Rightarrow> any_ech (rr_items rr))"

fun tags_of_records :: "(string \<Rightarrow> string set res) \<Rightarrow> rdata list \<Rightarrow> string set \<Rightarrow> string set res" where
  "tags_of_records look [] ts = Inr ts"
| "tags_of_records look (record # rest) ts = (case rd_address record of
     None \<Rightarrow> tags_of_records look rest ts
   | Some address \<Rightarrow> andthen (look address) (\<lambda>s. tags_of_records look rest (ts \<union> s)))"

definition resolve_address_tags ::
  "'r radix_lib \<Rightarrow> 'r option \<Rightarrow> 'w resolver option \<Rightarrow> question \<Rightarrow> ('w, string set) ctx_act" where
  "resolve_address_tags R ipset resolve q =
     act_bind (act_try
       (case resolve of None \<Rightarrow> act_raise (NestedResolveError ''context.resolve is not set up'')
        | Some f \<Rightarrow> act_bind (f (rstrip_dot (q_name q)) ''A'') (\<lambda>i. act_ret (Some i)))
       (\<lambda>_. act_ret None)) (\<lambda>ans. \<lambda>c.
     case ans of None \<Rightarrow> (Inr {}, c)
     | Some i \<Rightarrow> (case a_rrset (answer_at i c) of None \<Rightarrow> (Inr {}, c)
         | Some rr \<Rightarrow> if a_type (answer_at i c) \<noteq> RT_A then (Inr {}, c)
             else (tags_of_records (ip_lookup R ipset) (rr_items rr) {}, c)))"

text \<open>The decision by tags: \<open>True\<close> when ECH is to be added.\<close>

definition ech_wanted ::
  "'r radix_lib \<Rightarrow> ('t, 'r) extensions \<Rightarrow> ech_config \<Rightarrow> 'w resolver option \<Rightarrow> question \<Rightarrow>
   string set \<Rightarrow> ('w, bool) ctx_act" where
  "ech_wanted R exts cfg resolve q base_tags =
     (if has_any_tag base_tags (ec_exclude_tags cfg) then act_ret False
      else if has_any_tag base_tags (ec_match_tags cfg) then act_ret True
      else if HAS_HINT_TAG \<in> base_tags then act_ret False
      else act_bind (act_lift (get_ipset exts)) (\<lambda>ipset.
           act_bind (resolve_address_tags R ipset resolve q) (\<lambda>subquery_tags.
           act_ret (\<not> has_any_tag subquery_tags (ec_exclude_tags cfg) \<and>
                    has_any_tag subquery_tags (ec_match_tags cfg)))))"

definition base_tags_of :: "'w ctx \<Rightarrow> string set" where
  "base_tags_of c = (if upstream_results c \<noteq> [] then res_tags (result_at (last (upstream_results c)) c)
                     else tags c)"

definition ech_on_response ::
  "dnslib \<Rightarrow> real \<Rightarrow> (string \<Rightarrow> rdata res) \<Rightarrow> (rdata \<Rightarrow> svc_params \<Rightarrow> rdata res) \<Rightarrow> 'r radix_lib \<Rightarrow>
   ('t, 'r) extensions \<Rightarrow> ech_config \<Rightarrow> ('w, ech_cache option) part \<Rightarrow> 'w resolver option \<Rightarrow>
   ('w, unit) ctx_act" where
  "ech_on_response L now from_text repl R exts cfg pt resolve = with_question (\<lambda>q. \<lambda>c.
     if q_type q \<noteq> RT_HTTPS then (Inr (), c)
     else if has_any_tag (tags c) (ec_skip_tags cfg) then (Inr (), c)
     else act_bind (get_https_answer L now) (\<lambda>ans.
       case ans of None \<Rightarrow> act_ret ()
       | Some i \<Rightarrow>
           act_bind (\<lambda>c. (has_any_ech (answer_at i c), c)) (\<lambda>has_ech.
           if has_ech then act_ret ()
           else act_bind (act_get base_tags_of) (\<lambda>base_tags.
           act_bind (ech_wanted R exts cfg resolve q base_tags) (\<lambda>wanted.
           if \<not> wanted then act_ret ()
           else act_bind (load_ech_for_context now pt resolve) (\<lambda>payload.
             case payload of None \<Rightarrow> act_ret ()
             | Some (ech_bytes, ttl) \<Rightarrow>
                 act_bind (on_answer i (inject_ech from_text repl ech_bytes ttl)) (\<lambda>_. act_ret ())))))) c)"

definition ech_plugin where
  "ech_plugin L now from_text repl R exts cfg pt resolve = (plugin_base ''cloudflare-ech-plugin'')\<lparr>
     response_order := 700,
     on_response := ech_on_response L now from_text repl R exts cfg pt resolve\<rparr>"

section \<open>What is injected, and when\<close>

text \<open>\<open>replace\<close> of a record, for parameters dnspython accepts.\<close>

definition repl_ok :: "(rdata \<Rightarrow> svc_params \<Rightarrow> rdata res) \<Rightarrow> bool" where
  "repl_ok repl \<longleftrightarrow> (\<forall>p t ps ps'. svcb_ok ps' \<longrightarrow> repl (SvcbData p t ps) ps' = Inr (SvcbData p t ps'))"

definition svcb_record :: "rdata \<Rightarrow> bool" where
  "svcb_record r \<longleftrightarrow> (\<exists>p t ps. r = SvcbData p t ps \<and> svcb_ok ps)"

text \<open>A record that gets the parameter: one in service mode without it.\<close>

fun lacks_ech :: "rdata \<Rightarrow> bool" where
  "lacks_ech (SvcbData p t ps) \<longleftrightarrow> p \<noteq> 0 \<and> map_of ps ECH = None"
| "lacks_ech _ \<longleftrightarrow> False"

fun with_ech :: "bytes \<Rightarrow> rdata \<Rightarrow> rdata" where
  "with_ech ech (SvcbData p t ps) = SvcbData p t (dict_set ECH (ECHParam ech) ps)"
| "with_ech ech r = r"

lemma svcb_ok_ech: "svcb_ok ps \<Longrightarrow> svcb_ok (dict_set ECH (ECHParam ech) ps)"
  by (auto simp: svcb_ok_def mandatory_ok_def alpn_ok_def)

lemma inject_loop_all:
  assumes "repl_ok repl" and "list_all svcb_record items"
  shows "inject_loop repl ech items =
     Inr (map (\<lambda>r. if lacks_ech r then with_ech ech r else r) items, length (filter lacks_ech items))"
  using assms(2)
proof (induction items)
  case (Cons r items)
  then obtain p t ps where r: "r = SvcbData p t ps" "svcb_ok ps" by (auto simp: svcb_record_def)
  then have "repl r (dict_set ECH (ECHParam ech) ps) = Inr (with_ech ech r)"
    using assms(1) svcb_ok_ech by (simp add: repl_ok_def)
  with Cons r show ?case by (auto simp: has_param_dom domIff)
qed simp

lemma lacks_with_ech: "\<not> lacks_ech (with_ech ech r)"
  by (cases r) simp_all

lemma answer_at_parts:
  "find_ech items ttl = Inr (Some (ech, ttl')) \<Longrightarrow> ttl' = ttl \<and>
     (\<exists>p t ps. SvcbData p t ps \<in> set items \<and> p \<noteq> 0 \<and> map_of ps ECH = Some (ECHParam ech))"
proof (induction items)
  case (Cons r items)
  show ?case
  proof (cases "find_ech items ttl = Inr (Some (ech, ttl'))")
    case True
    with Cons.IH show ?thesis by auto
  next
    case False
    with Cons.prems obtain ps where ps: "rd_priority r \<noteq> 0" "rd_params r = Some ps"
      "get_param ECH ps = Some (ECHParam ech)" "ttl' = ttl"
      by (auto split: if_splits option.splits svc_param.splits)
    then show ?thesis
      by (cases r) (auto simp: get_param_def split: option.splits svc_param.splits)
  qed
qed simp

section \<open>Properties\<close>

text \<open>
  Injecting ECH into an answer with valid HTTPS records never fails: afterwards every record
  in service mode has an \<open>ech\<close> parameter, the records that had one and those in alias mode are as
  before, and the count is that of the changed records.
\<close>

theorem ech_injected_everywhere:
  assumes "repl_ok repl" and "a_rrset a = Some rr" and "list_all svcb_record (rr_items rr)"
    and "inject_ech from_text repl ech ttl a = (r, a')"
  shows "r = Inr (length (filter lacks_ech (rr_items rr))) \<and>
     a' = a\<lparr>a_rrset := Some (rr\<lparr>rr_items := map (\<lambda>r. if lacks_ech r then with_ech ech r else r) (rr_items rr)\<rparr>)\<rparr> \<and>
     list_all (\<lambda>r. \<not> lacks_ech r) (rr_items (the (a_rrset a')))"
proof -
  let ?f = "\<lambda>r. if lacks_ech r then with_ech ech r else r"
  have same: "filter lacks_ech (rr_items rr) = [] \<Longrightarrow> map ?f (rr_items rr) = rr_items rr"
    by (simp add: filter_empty_conv map_idI)
  have "a = a\<lparr>a_rrset := Some rr\<rparr>" using assms(2) by simp
  with inject_loop_all [OF assms(1,3)] assms(2,4) same
  have "r = Inr (length (filter lacks_ech (rr_items rr))) \<and>
     a' = a\<lparr>a_rrset := Some (rr\<lparr>rr_items := map ?f (rr_items rr)\<rparr>)\<rparr>"
    by (cases "filter lacks_ech (rr_items rr) = []") (auto simp: inject_ech_def split: if_splits)
  moreover have "list_all (\<lambda>r. \<not> lacks_ech r) (map ?f (rr_items rr))"
    by (auto simp: list_all_iff lacks_with_ech)
  ultimately show ?thesis by simp
qed

definition sample_repl :: "rdata \<Rightarrow> svc_params \<Rightarrow> rdata res" where
  "sample_repl r ps' = (case r of SvcbData p t ps \<Rightarrow> Inr (SvcbData p t ps') | _ \<Rightarrow> Inl (OtherError ''AttributeError''))"

definition sample_https_answer :: answer where
  "sample_https_answer = sample_answer\<lparr>a_type := RT_HTTPS, a_rrset := Some \<lparr>rr_name = ''a.cn.'', rr_ttl = 60,
     rr_class = IN, rr_type = RT_HTTPS, rr_items = [SvcbData 0 ''b.cn.'' [], SvcbData 1 ''.'' [(PORT, OtherParam [1])]]\<rparr>\<rparr>"

theorem ech_injected_everywhere_witness:
  "rr_items (the (a_rrset (snd (inject_ech (\<lambda>_. Inl IndexError) sample_repl [7] 60 sample_https_answer)))) =
     [SvcbData 0 ''b.cn.'' [], SvcbData 1 ''.'' [(PORT, OtherParam [1]), (ECH, ECHParam [7])]]"
proof -
  have r: "repl_ok sample_repl" by (simp add: repl_ok_def sample_repl_def)
  obtain rr where rr: "a_rrset sample_https_answer = Some rr"
    "rr_items rr = [SvcbData 0 ''b.cn.'' [], SvcbData 1 ''.'' [(PORT, OtherParam [1])]]"
    by (simp add: sample_https_answer_def)
  then have ok: "list_all svcb_record (rr_items rr)"
    by (simp add: svcb_record_def svcb_ok_def mandatory_ok_def alpn_ok_def)
  from ech_injected_everywhere [OF r rr(1) ok prod.collapse [symmetric]] rr show ?thesis by simp
qed

text \<open>
  ECH is added only when no exclude tag is among the tags of the result, and either a match
  tag is among them, or the result has no address hints and the tags of the addresses from a
  subquery have a match tag and no exclude tag.
\<close>

theorem ech_wanted_by_tags:
  assumes "ech_wanted R exts cfg resolve q base_tags c = (Inr True, c')"
  shows "set (ec_exclude_tags cfg) \<inter> base_tags = {} \<and>
    (set (ec_match_tags cfg) \<inter> base_tags \<noteq> {} \<and> c' = c \<or>
     HAS_HINT_TAG \<notin> base_tags \<and>
     (\<exists>ipset ts. get_ipset exts = Inr ipset \<and>
        resolve_address_tags R ipset resolve q c = (Inr ts, c') \<and>
        set (ec_match_tags cfg) \<inter> ts \<noteq> {} \<and> set (ec_exclude_tags cfg) \<inter> ts = {}))"
  using assms unfolding ech_wanted_def has_any_tag_def
  by (auto simp: act_bind_Inr act_defs split: if_splits)

theorem ech_wanted_by_tags_witness:
  "set (ec_exclude_tags \<lparr>ec_match_tags = [''cf''], ec_exclude_tags = [''no''], ec_skip_tags = []\<rparr>) \<inter> {''cf''} = {}"
  using ech_wanted_by_tags [of list_radix sample_exts
      "\<lparr>ec_match_tags = [''cf''], ec_exclude_tags = [''no''], ec_skip_tags = []\<rparr>" None sample_question
      "{''cf''}" sample_result_context sample_result_context]
  by (simp add: ech_wanted_def has_any_tag_def act_defs)

end
