(* ===== verification/Servers.thy ===== *)
theory Servers
  imports Engine Base64
begin

text \<open>
  The listeners \<open>server/udp.py\<close>, \<open>server/tcp.py\<close> and \<open>server/doh.py\<close>: from the bytes of a client to
  the bytes of the reply. \<open>process\<close> is \<open>runtime_manager.process_query\<close>, an action on the state
  \<open>'s\<close> of the runtime that is given the request, the address of the client and the name of the
  listener. Binding, accepting and closing sockets are the library's; a TCP connection is the
  list of the bytes the client sends before it closes.
\<close>

type_synonym 's process = "message \<Rightarrow> string \<Rightarrow> string \<Rightarrow> ('s, message option) act"

section \<open>UDP\<close>

text \<open>
  \<open>handle_datagram\<close>: the bytes sent, if any. \<open>is_open\<close> says whether the socket is still there.
  Exceptions of parsing and of sending are handled, those of \<open>process_query\<close> are not.
\<close>

definition handle_datagram ::
  "dnslib \<Rightarrow> 's process \<Rightarrow> string \<Rightarrow> bool \<Rightarrow> bytes \<Rightarrow> string \<Rightarrow> ('s, bytes option) act" where
  "handle_datagram L process name is_open data addr =
     (if \<not> is_open then act_ret None
      else case from_wire L data of
        Inl e \<Rightarrow> if is_Exception e then act_ret None else act_raise e
      | Inr req \<Rightarrow>
          act_bind (process req addr name) (\<lambda>response.
          case response of None \<Rightarrow> act_ret None
          | Some m \<Rightarrow> (case to_wire L m of
              Inl e \<Rightarrow> if is_Exception e then act_ret None else act_raise e
            | Inr wire \<Rightarrow> act_ret (Some wire))))"

section \<open>TCP\<close>

text \<open>\<open>len(wire).to_bytes(2, "big") + wire\<close>\<close>

definition frame :: "bytes \<Rightarrow> bytes res" where
  "frame wire = (if length wire < 65536 then Inr ([length wire div 256, length wire mod 256] @ wire)
                 else Inl (OtherError ''OverflowError''))"

text \<open>\<open>receive_exactly(n)\<close>: the bytes and the rest of the stream.\<close>

definition receive_exactly :: "nat \<Rightarrow> bytes \<Rightarrow> (bytes \<times> bytes) res" where
  "receive_exactly n stream =
     (if length stream < n then Inl (OtherError ''IncompleteRead'')
      else Inr (take n stream, drop n stream))"

definition receive_frame :: "bytes \<Rightarrow> (bytes \<times> bytes) res" where
  "receive_frame stream =
     andthen (receive_exactly 2 stream) (\<lambda>(length_bytes, rest).
     receive_exactly (length_bytes ! 0 * 256 + length_bytes ! 1) rest)"

lemma receive_frame_shorter:
  "receive_frame stream = Inr (payload, rest) \<Longrightarrow> length rest < length stream"
  by (auto simp: receive_frame_def receive_exactly_def andthen_Inr_iff split: if_splits prod.splits)

text \<open>
  The loop of \<open>handle_client\<close>: what is sent, and the exception that ends the loop, \<open>None\<close> for the
  \<open>break\<close> after a request that cannot be parsed.
\<close>

function tcp_loop ::
  "dnslib \<Rightarrow> 's process \<Rightarrow> string \<Rightarrow> string \<Rightarrow> bytes \<Rightarrow> 's \<Rightarrow> (bytes \<times> py_exn option) \<times> 's" where
  "tcp_loop L process name addr stream s =
     (case receive_frame stream of
        Inl e \<Rightarrow> (([], Some e), s)
      | Inr (payload, rest) \<Rightarrow>
          (case from_wire L payload of
             Inl e \<Rightarrow> (([], if is_Exception e then None else Some e), s)
           | Inr req \<Rightarrow>
               (case process req addr name s of
                  (Inl e, s') \<Rightarrow> (([], Some e), s')
                | (Inr None, s') \<Rightarrow> tcp_loop L process name addr rest s'
                | (Inr (Some m), s') \<Rightarrow>
                    (case andthen (to_wire L m) frame of
                       Inl e \<Rightarrow> (([], Some e), s')
                     | Inr sent \<Rightarrow>
                         (case tcp_loop L process name addr rest s' of
                            ((later, ending), s'') \<Rightarrow> ((sent @ later, ending), s''))))))"
  by pat_completeness auto

termination
  by (relation "measure (\<lambda>(L, process, name, addr, stream, s). length stream)")
     (auto dest: receive_frame_shorter)

declare tcp_loop.simps [simp del]

text \<open>\<open>handle_client\<close>: every exception but the cancellation ends the connection and no more.\<close>

definition handle_client ::
  "dnslib \<Rightarrow> 's process \<Rightarrow> string \<Rightarrow> string \<Rightarrow> bytes \<Rightarrow> 's \<Rightarrow> (bytes \<times> unit res) \<times> 's" where
  "handle_client L process name addr stream s =
     (case tcp_loop L process name addr stream s of
        ((sent, ending), s') \<Rightarrow>
          ((sent, case ending of None \<Rightarrow> Inr ()
                  | Some e \<Rightarrow> if is_Exception e then Inr () else Inl e), s'))"

section \<open>DNS over HTTPS\<close>

definition DOH_MEDIA_TYPE :: string where
  "DOH_MEDIA_TYPE = ''application/dns-message''"

record http_response =
  hr_content :: bytes
  hr_media_type :: string
  hr_headers :: "(string \<times> string) list"

text \<open>
  \<open>_decode_doh_query\<close>. A character outside ASCII is refused by \<open>encode\<close>, as it would be by the
  strict decoder.
\<close>

definition decode_doh_query :: "string \<Rightarrow> bytes res" where
  "decode_doh_query value =
     (let padded = value @ replicate ((4 - length value mod 4) mod 4) CHR ''='' in
      case b64decode_strict padded of Some wire \<Rightarrow> Inr wire | None \<Rightarrow> Inl (HTTPException 400))"

definition before :: "char \<Rightarrow> string \<Rightarrow> string" where
  "before c s = takeWhile (\<lambda>x. x \<noteq> c) s"

definition normalize_media_type :: "string option \<Rightarrow> string option" where
  "normalize_media_type value = map_option (\<lambda>v. py_lower (py_strip (before CHR '';'' v))) value"

definition ensure_accepts_dns_message :: "string option \<Rightarrow> unit res" where
  "ensure_accepts_dns_message value = (case value of None \<Rightarrow> Inr ()
   | Some v \<Rightarrow>
      if py_strip v = [] then Inr ()
      else
        let media_types = (\<lambda>part. py_lower (py_strip (before CHR '';'' part))) `
              {part \<in> set (py_split CHR '','' v). py_strip part \<noteq> []} in
        raise_if (\<not> (DOH_MEDIA_TYPE \<in> media_types \<or> ''*/*'' \<in> media_types \<or> ''application/*'' \<in> media_types))
          (HTTPException 406))"

text \<open>\<open>record.minimum\<close>\<close>

fun rd_minimum :: "rdata \<Rightarrow> nat res" where
  "rd_minimum (SoaData t n) = Inr n"
| "rd_minimum _ = Inl (OtherError ''AttributeError'')"

fun record_ttls :: "nat \<Rightarrow> rdata list \<Rightarrow> nat list res" where
  "record_ttls ttl [] = Inr []"
| "record_ttls ttl (record # rest) =
     andthen (rd_minimum record) (\<lambda>m. andthen (record_ttls ttl rest) (\<lambda>ns. Inr (min ttl m # ns)))"

fun authority_ttls :: "rrset list \<Rightarrow> nat list res" where
  "authority_ttls [] = Inr []"
| "authority_ttls (rrset # rest) =
     (if rr_class rrset \<noteq> IN \<or> rr_type rrset \<noteq> RT_SOA then authority_ttls rest
      else andthen (record_ttls (rr_ttl rrset) (rr_items rrset)) (\<lambda>ns.
           andthen (authority_ttls rest) (\<lambda>ms. Inr (ns @ ms))))"

definition max_age :: "nat list \<Rightarrow> string" where
  "max_age ttls = ''max-age='' @ dec_str (Min (set ttls))"

definition cache_control_header :: "message \<Rightarrow> string res" where
  "cache_control_header response =
     (let answer_ttls = map rr_ttl (msg_answer response) in
      if answer_ttls \<noteq> [] then Inr (max_age answer_ttls)
      else andthen (authority_ttls (msg_authority response)) (\<lambda>ttls.
           Inr (if ttls \<noteq> [] then max_age ttls else ''no-store'')))"

definition client_address :: "(string \<times> nat) option \<Rightarrow> string \<times> nat" where
  "client_address client = (case client of None \<Rightarrow> (''0.0.0.0'', 0) | Some c \<Rightarrow> c)"

definition handle_doh_wire ::
  "dnslib \<Rightarrow> 's process \<Rightarrow> string \<Rightarrow> string option \<Rightarrow> string \<Rightarrow> bytes \<Rightarrow> bool \<Rightarrow> ('s, http_response) act" where
  "handle_doh_wire L process lname accept caddr wire is_get =
     act_bind (act_lift (ensure_accepts_dns_message accept)) (\<lambda>_.
     act_bind (act_lift (case from_wire L wire of
         Inl e \<Rightarrow> Inl (if is_Exception e then HTTPException 400 else e) | Inr m \<Rightarrow> Inr m)) (\<lambda>msg.
     act_bind (process msg caddr lname) (\<lambda>answered.
     act_bind (act_lift (case answered of Some m \<Rightarrow> Inr m
         | None \<Rightarrow> make_error_response L msg RC_REFUSED)) (\<lambda>response.
     act_bind (act_lift (if is_get then andthen (cache_control_header response)
                              (\<lambda>v. Inr [(''Cache-Control'', v)]) else Inr [])) (\<lambda>headers.
     act_bind (act_lift (to_wire L response)) (\<lambda>content.
     act_ret \<lparr>hr_content = content, hr_media_type = DOH_MEDIA_TYPE, hr_headers = headers\<rparr>))))))"

definition handle_get ::
  "dnslib \<Rightarrow> 's process \<Rightarrow> string \<Rightarrow> string option \<Rightarrow> string \<Rightarrow> string option \<Rightarrow> ('s, http_response) act" where
  "handle_get L process lname accept caddr dns_param = (case dns_param of
     None \<Rightarrow> act_raise (HTTPException 400)
   | Some value \<Rightarrow> act_bind (act_lift (decode_doh_query value)) (\<lambda>wire.
       handle_doh_wire L process lname accept caddr wire True))"

definition handle_post ::
  "dnslib \<Rightarrow> 's process \<Rightarrow> string \<Rightarrow> string option \<Rightarrow> string option \<Rightarrow> string \<Rightarrow> bytes \<Rightarrow>
   ('s, http_response) act" where
  "handle_post L process lname content_type accept caddr body =
     (if normalize_media_type content_type \<noteq> Some DOH_MEDIA_TYPE then act_raise (HTTPException 415)
      else if body = [] then act_raise (HTTPException 400)
      else handle_doh_wire L process lname accept caddr body False)"

section \<open>Framing\<close>

lemma receive_frame_frame:
  assumes "frame wire = Inr sent"
  shows "receive_frame (sent @ rest) = Inr (wire, rest)"
proof -
  from assms have b: "length wire < 65536" and sent: "sent = [length wire div 256, length wire mod 256] @ wire"
    by (auto simp: frame_def split: if_splits)
  have "length wire div 256 * 256 + length wire mod 256 = length wire" by presburger
  then show ?thesis by (simp add: receive_frame_def receive_exactly_def sent)
qed

lemma receive_frame_Nil [simp]: "receive_frame [] = Inl (OtherError ''IncompleteRead'')"
  by (simp add: receive_frame_def receive_exactly_def)

text \<open>
  The reference: the requests are processed one after another, each reply is framed, a dropped
  request sends nothing.
\<close>

fun serve_all ::
  "dnslib \<Rightarrow> 's process \<Rightarrow> string \<Rightarrow> string \<Rightarrow> message list \<Rightarrow> 's \<Rightarrow> bytes res \<times> 's" where
  "serve_all L process name addr [] s = (Inr [], s)"
| "serve_all L process name addr (q # qs) s =
     (case process q addr name s of
        (Inl e, s') \<Rightarrow> (Inl e, s')
      | (Inr r, s') \<Rightarrow>
          (case (case r of None \<Rightarrow> Inr [] | Some m \<Rightarrow> andthen (to_wire L m) frame) of
             Inl e \<Rightarrow> (Inl e, s')
           | Inr sent \<Rightarrow>
               (case serve_all L process name addr qs s' of
                  (Inl e, s'') \<Rightarrow> (Inl e, s'')
                | (Inr out, s'') \<Rightarrow> (Inr (sent @ out), s''))))"

lemma tcp_loop_serves:
  assumes "list_all2 (\<lambda>q f. \<exists>w. from_wire L w = Inr q \<and> frame w = Inr f) qs fs"
    and "serve_all L process name addr qs s = (Inr out, s')"
  shows "tcp_loop L process name addr (concat fs) s = ((out, Some (OtherError ''IncompleteRead'')), s')"
  using assms
proof (induction qs fs arbitrary: s out rule: list_all2_induct)
  case Nil
  then show ?case by (simp add: tcp_loop.simps)
next
  case (Cons q qs f fs)
  then obtain w where w: "from_wire L w = Inr q" "frame w = Inr f" by blast
  from Cons.prems obtain r s1 sent out' where p: "process q addr name s = (Inr r, s1)"
    and sent: "(case r of None \<Rightarrow> Inr [] | Some m \<Rightarrow> andthen (to_wire L m) frame) = Inr sent"
    and rest: "serve_all L process name addr qs s1 = (Inr out', s')" and out: "out = sent @ out'"
    by (auto split: prod.splits sum.splits)
  have rf: "receive_frame (f @ concat fs) = Inr (w, concat fs)" by (rule receive_frame_frame [OF w(2)])
  show ?case
    using Cons.IH [OF rest] sent
    by (cases r) (simp_all add: tcp_loop.simps [of L process name addr "f @ concat fs"] rf w p out)
qed

lemma udp_reply:
  "handle_datagram L process name op data addr s = (Inr (Some wire), s') \<Longrightarrow>
     \<exists>q m. from_wire L data = Inr q \<and> process q addr name s = (Inr (Some m), s') \<and> to_wire L m = Inr wire"
proof -
  assume *: "handle_datagram L process name op data addr s = (Inr (Some wire), s')"
  then have op: op by (auto simp: handle_datagram_def act_defs split: if_splits)
  obtain q where q: "from_wire L data = Inr q"
    using * op by (cases "from_wire L data") (auto simp: handle_datagram_def act_defs split: if_splits)
  have run: "act_bind (process q addr name) (\<lambda>response.
          case response of None \<Rightarrow> act_ret None
          | Some m \<Rightarrow> (case to_wire L m of
              Inl e \<Rightarrow> if is_Exception e then act_ret None else act_raise e
            | Inr wire \<Rightarrow> act_ret (Some wire))) s = (Inr (Some wire), s')"
    using * op q by (simp add: handle_datagram_def)
  from run obtain r s1 where p: "process q addr name s = (Inr r, s1)"
    and rest: "(case r of None \<Rightarrow> act_ret None
          | Some m \<Rightarrow> (case to_wire L m of
              Inl e \<Rightarrow> if is_Exception e then act_ret None else act_raise e
            | Inr wire \<Rightarrow> act_ret (Some wire))) s1 = (Inr (Some wire), s')"
    by (auto simp: act_bind_Inr)
  from rest p q show ?thesis
    by (cases r; cases "to_wire L (the r)") (auto simp: act_defs split: if_splits)
qed

lemma decode_encode_doh:
  assumes "list_all (\<lambda>b. b < 256) wire"
  shows "decode_doh_query (py_rstrip (\<lambda>c. c = CHR ''='') (urlsafe_b64encode wire)) = Inr wire"
  using decode_unpadded [OF assms] by (simp add: decode_doh_query_def Let_def rstrip_pad [OF assms])

section \<open>Properties\<close>

text \<open>
  C32: A TCP connection on which the client sends framed requests and closes is served in order:
  what is sent is the concatenation of the framed replies, dropped requests left out, and the
  state of the runtime is the one that processing the requests one after another leaves.
\<close>

theorem tcp_serves_in_order:
  assumes "list_all2 (\<lambda>q f. \<exists>w. from_wire L w = Inr q \<and> frame w = Inr f) qs fs"
    and "serve_all L process name addr qs s = (Inr out, s')"
  shows "handle_client L process name addr (concat fs) s = ((out, Inr ()), s')"
  using tcp_loop_serves [OF assms] by (simp add: handle_client_def is_Exception_def)

definition sample_process :: "nat process" where
  "sample_process q addr name = (\<lambda>n. (Inr (Some (sample_message (msg_id q) 32768 0)), Suc n))"

theorem tcp_serves_in_order_witness:
  "handle_client sample_lib sample_process ''tcp'' ''c'' [0, 3, 5, 0, 0, 0, 3, 6, 0, 0] 0 =
     (([0, 3, 5, 32768, 0, 0, 3, 6, 32768, 0], Inr ()), 2)"
proof -
  have 1: "list_all2 (\<lambda>q f. \<exists>w. from_wire sample_lib w = Inr q \<and> frame w = Inr f)
      [sample_message 5 0 0, sample_message 6 0 0] [[0, 3, 5, 0, 0], [0, 3, 6, 0, 0]]"
    by (auto simp: sample_lib_def frame_def intro: exI [of _ "[5, 0, 0]"] exI [of _ "[6, 0, 0]"])
  have 2: "serve_all sample_lib sample_process ''tcp'' ''c'' [sample_message 5 0 0, sample_message 6 0 0] 0 =
      (Inr [0, 3, 5, 32768, 0, 0, 3, 6, 32768, 0], 2)"
    by (simp add: sample_process_def sample_lib_def sample_message_def frame_def)
  from tcp_serves_in_order [OF 1 2] show ?thesis by simp
qed

text \<open>
  A UDP reply belongs to its datagram: with the engine behind the listener, the bytes sent are
  the encoding of a response with the identifier of the request that was read from the datagram.
\<close>

theorem udp_reply_matches_request:
  assumes "handle_datagram L (\<lambda>q addr name. handle_message E q addr name) name True data addr w =
     (Inr (Some wire), w')"
  shows "\<exists>q m. from_wire L data = Inr q \<and> to_wire L m = Inr wire \<and> msg_id m = msg_id q"
  using udp_reply [OF assms] handle_message_id [of E] by blast

definition formerr_lib :: dnslib where
  "formerr_lib = sample_lib\<lparr>from_wire := (\<lambda>w. Inr (sample_request\<lparr>msg_opcode := 4\<rparr>))\<rparr>"

theorem udp_reply_matches_request_witness:
  "\<exists>q m. from_wire formerr_lib [1] = Inr q \<and> to_wire formerr_lib m = Inr [5, 32768, FORMERR] \<and> msg_id m = msg_id q"
proof (rule udp_reply_matches_request)
  have "handle_message (sample_engine []) (sample_request\<lparr>msg_opcode := 4\<rparr>) ''c'' ''udp'' 0 =
      (Inr (Some (sample_message 5 32768 FORMERR)), 0)"
    by (simp add: handle_message_def validate_request_or_error_def sample_engine_def sample_error
        sample_request_def sample_message_def)
  then show "handle_datagram formerr_lib (\<lambda>q addr name. handle_message (sample_engine []) q addr name)
      ''udp'' True [1] ''c'' 0 = (Inr (Some [5, 32768, FORMERR]), 0)"
    by (simp add: handle_datagram_def formerr_lib_def act_bind_apply act_defs)
      (simp add: sample_lib_def sample_message_def act_defs)
qed

text \<open>
  C33: A query sent to the DoH endpoint by GET, its message in the \<open>dns\<close> parameter as the client of
  this program writes it (URL-safe base64 without padding), is answered as the same message sent
  by POST, but for the caching header, and leaves the runtime in the same state.
\<close>

theorem doh_get_post_agree:
  assumes "list_all (\<lambda>b. b < 256) wire" and "wire \<noteq> []"
    and "handle_get L process name accept addr
           (Some (py_rstrip (\<lambda>c. c = CHR ''='') (urlsafe_b64encode wire))) s = (Inr h, s')"
  shows "handle_post L process name (Some DOH_MEDIA_TYPE) accept addr wire s =
     (Inr (h\<lparr>hr_headers := []\<rparr>), s')"
proof -
  have mt: "normalize_media_type (Some DOH_MEDIA_TYPE) = Some DOH_MEDIA_TYPE" by code_simp
  from assms(3) have "handle_doh_wire L process name accept addr wire True s = (Inr h, s')"
    by (simp add: handle_get_def act_bind_apply act_defs decode_encode_doh [OF assms(1)])
  then have "handle_doh_wire L process name accept addr wire False s = (Inr (h\<lparr>hr_headers := []\<rparr>), s')"
    by (auto simp: handle_doh_wire_def act_bind_Inr act_defs)
  with mt assms(2) show ?thesis by (simp add: handle_post_def)
qed

lemma sample_get:
  "handle_get sample_lib sample_process ''doh'' None ''c''
     (Some (py_rstrip (\<lambda>c. c = CHR ''='') (urlsafe_b64encode [5, 0, 0]))) 0 =
   (Inr \<lparr>hr_content = [5, 32768, 0], hr_media_type = DOH_MEDIA_TYPE,
         hr_headers = [(''Cache-Control'', ''no-store'')]\<rparr>, 1)"
proof -
  have w: "list_all (\<lambda>b. b < 256) [5, 0, 0 :: nat]" by simp
  show ?thesis
    by (simp add: handle_get_def act_bind_apply act_defs decode_encode_doh [OF w] handle_doh_wire_def
        ensure_accepts_dns_message_def sample_process_def)
      (simp add: sample_lib_def sample_message_def cache_control_header_def act_bind_apply)
qed

theorem doh_get_post_agree_witness:
  "handle_post sample_lib sample_process ''doh'' (Some DOH_MEDIA_TYPE) None ''c'' [5, 0, 0] 0 =
     (Inr \<lparr>hr_content = [5, 32768, 0], hr_media_type = DOH_MEDIA_TYPE, hr_headers = []\<rparr>, 1)"
  using doh_get_post_agree [OF _ _ sample_get] by simp

end
