(* ===== verification/Dnscrypt.thy ===== *)
theory Dnscrypt
  imports Dns_Msg Ip_Address
begin

text \<open>
  \<open>resolver/nameservers/dnscrypt.py\<close>: addresses, padding, the choice of a certificate, and the
  exchange of an encrypted query. The cryptography (PyNaCl), the sockets and dnspython's codec with
  its options are the record \<open>crypt_env\<close> of functions.
\<close>

definition DNSCRYPT_MINIMUM_SIZE :: nat where "DNSCRYPT_MINIMUM_SIZE = 256"

definition DNSCRYPT_MODULO_SIZE :: nat where "DNSCRYPT_MODULO_SIZE = 64"

definition DNSCRYPT_NONCE_SIZE :: nat where "DNSCRYPT_NONCE_SIZE = 12"

definition ascii_bytes :: "string \<Rightarrow> bytes" where
  "ascii_bytes s = map of_char s"

definition DNSCRYPT_RESOLVER_MAGIC :: bytes where
  "DNSCRYPT_RESOLVER_MAGIC = ascii_bytes ''r6fnvWj8''"

definition DNSCRYPT_CERT_MAGIC :: bytes where
  "DNSCRYPT_CERT_MAGIC = ascii_bytes ''DNSC''"

section \<open>Addresses\<close>

definition normalize_hex :: "string \<Rightarrow> string" where
  "normalize_hex value = py_lower (py_strip (filter (\<lambda>c. c \<noteq> CHR '':'') value))"

text \<open>
  \<open>int(text)\<close>: white space around, a sign, decimal digits with single underscores between them.
\<close>

definition py_int :: "string \<Rightarrow> int option" where
  "py_int text =
     (let t = py_strip text;
          body = (if t \<noteq> [] \<and> hd t \<in> {CHR ''+'', CHR ''-''} then tl t else t);
          groups = py_split CHR ''_'' body in
      if list_all (\<lambda>g. g \<noteq> [] \<and> list_all is_digit g) groups
      then Some (if t \<noteq> [] \<and> hd t = CHR ''-'' then - int (dec_val (concat groups))
                 else int (dec_val (concat groups)))
      else None)"

definition parse_port_text :: "string \<Rightarrow> nat res" where
  "parse_port_text port_text = (case py_int port_text of
     None \<Rightarrow> Inl (ValueError port_text)
   | Some p \<Rightarrow> if 1 \<le> p \<and> p \<le> 65535 then Inr (nat p) else Inl (ValueError ''port out of range''))"

text \<open>\<open>s.find(c)\<close> and \<open>s.rpartition(c)\<close> for one character; \<open>None\<close> when it does not occur.\<close>

definition find_char :: "char \<Rightarrow> string \<Rightarrow> nat option" where
  "find_char c s = (if c \<in> set s then Some (length (takeWhile (\<lambda>x. x \<noteq> c) s)) else None)"

definition rpartition :: "char \<Rightarrow> string \<Rightarrow> (string \<times> string) option" where
  "rpartition c s = (if c \<in> set s
     then Some (rev (tl (dropWhile (\<lambda>x. x \<noteq> c) (rev s))), rev (takeWhile (\<lambda>x. x \<noteq> c) (rev s)))
     else None)"

definition after_bracket :: "string \<Rightarrow> nat \<Rightarrow> (string \<times> nat) res option" where
  "after_bracket val port =
     (if val \<noteq> [] \<and> hd val = CHR ''['' then
        (case find_char CHR '']'' val of
           Some closing \<Rightarrow>
             if closing > 0 then
               let host = drop 1 (take closing val); suffix = drop (closing + 1) val in
               Some (if suffix \<noteq> [] \<and> hd suffix = CHR '':'' \<and> length suffix > 1
                     then andthen (parse_port_text (tl suffix)) (\<lambda>p. Inr (host, p))
                     else Inr (host, port))
             else None
         | None \<Rightarrow> None)
      else None)"

definition normalize_server_address :: "string \<Rightarrow> nat \<Rightarrow> (string \<times> nat) res" where
  "normalize_server_address address port =
     (let val = py_strip address in
      if val = [] then Inl (ValueError ''dnscrypt address must not be empty'')
      else case after_bracket val port of
        Some r \<Rightarrow> r
      | None \<Rightarrow>
          (case ip_address val of
             Inr _ \<Rightarrow> Inr (val, port)
           | Inl _ \<Rightarrow> (case rpartition CHR '':'' val of
               None \<Rightarrow> Inr (val, port)
             | Some (host, port_text) \<Rightarrow>
                 if host = [] then Inr (val, port)
                 else (case parse_port_text port_text of
                     Inr p \<Rightarrow> Inr (host, p) | Inl _ \<Rightarrow> Inr (val, port)))))"

definition is_multicast_text :: "string \<Rightarrow> bool" where
  "is_multicast_text address = (case ip_address address of Inr a \<Rightarrow> is_multicast a | Inl _ \<Rightarrow> False)"

section \<open>Padding\<close>

definition pad_query :: "bytes \<Rightarrow> bytes" where
  "pad_query msg =
     (let target = max (length msg + 1) DNSCRYPT_MINIMUM_SIZE;
          remainder = target mod DNSCRYPT_MODULO_SIZE;
          target_size = (if remainder \<noteq> 0 then target + (DNSCRYPT_MODULO_SIZE - remainder) else target);
          padding_size = target_size - length msg in
      if padding_size \<le> 0 then msg
      else msg @ 128 # replicate (padding_size - 1) 0)"

text \<open>What the other side does: drop the zeros and the byte 0x80 from the end.\<close>

definition unpad :: "bytes \<Rightarrow> bytes option" where
  "unpad bs = (case dropWhile (\<lambda>b. b = 0) (rev bs) of b # r \<Rightarrow> if b = 128 then Some (rev r) else None | [] \<Rightarrow> None)"

section \<open>Certificates\<close>

definition be :: "bytes \<Rightarrow> nat" where
  "be bs = foldl (\<lambda>n b. 256 * n + b) 0 bs"

text \<open>A field of \<open>n\<close> bytes at an offset, as \<open>struct.unpack\<close> cuts it out.\<close>

definition bytes_at :: "nat \<Rightarrow> nat \<Rightarrow> bytes \<Rightarrow> bytes" where
  "bytes_at offset n bs = take n (drop offset bs)"

type_synonym cert_choice = "nat \<times> bytes \<times> bytes"

text \<open>
  One candidate: the serial, the client magic and the key of the resolver, if the certificate is
  well formed, signed and valid now. \<open>verify\<close> gives the signed data, \<open>None\<close> for a bad signature.
\<close>

definition read_candidate :: "(bytes \<Rightarrow> bytes option) \<Rightarrow> real \<Rightarrow> bytes \<Rightarrow> cert_choice option" where
  "read_candidate verify now candidate =
     (if length candidate \<le> 8 then None
      else if bytes_at 0 4 candidate \<noteq> DNSCRYPT_CERT_MAGIC \<or> be (bytes_at 4 2 candidate) \<noteq> 1 then None
      else case verify (drop 8 candidate) of
        None \<Rightarrow> None
      | Some data \<Rightarrow>
          if length data \<le> 52 then None
          else
            let pk = bytes_at 0 32 data; client_magic = bytes_at 32 8 data;
                serial = be (bytes_at 40 4 data);
                start = be (bytes_at 44 4 data); expire = be (bytes_at 48 4 data) in
            if real start > now \<or> real expire < now then None else Some (serial, client_magic, pk))"

fun select_cert ::
  "(bytes \<Rightarrow> bytes option) \<Rightarrow> real \<Rightarrow> bytes list \<Rightarrow> cert_choice option \<Rightarrow> cert_choice option" where
  "select_cert verify now [] selected = selected"
| "select_cert verify now (candidate # rest) selected =
     select_cert verify now rest
       (case read_candidate verify now candidate of
          None \<Rightarrow> selected
        | Some new \<Rightarrow> (case selected of None \<Rightarrow> Some new
            | Some old \<Rightarrow> if fst new > fst old then Some new else Some old))"

text \<open>\<open>b"".join(rdata.strings)\<close> for each record of the answer.\<close>

fun strings_of :: "rdata \<Rightarrow> bytes res" where
  "strings_of (TxtData xs) = Inr (concat xs)"
| "strings_of _ = Inl (OtherError ''AttributeError'')"

fun candidates_of :: "rdata list \<Rightarrow> bytes list res" where
  "candidates_of [] = Inr []"
| "candidates_of (r # rs) =
     andthen (strings_of r) (\<lambda>b. andthen (candidates_of rs) (\<lambda>bs. Inr (b # bs)))"

section \<open>The resolver\<close>

record crypt_env =
  cx_encrypt :: "bytes \<Rightarrow> bytes \<Rightarrow> bytes"
  cx_decrypt :: "bytes \<Rightarrow> bytes \<Rightarrow> bytes res"
  cx_to_wire :: "message \<Rightarrow> bytes res"
  cx_from_wire :: "bool \<Rightarrow> bool \<Rightarrow> bytes \<Rightarrow> message res"
  cx_is_response :: "message \<Rightarrow> message \<Rightarrow> bool"

record crypt_resolver =
  dr_address :: string
  dr_port :: nat
  dr_tcp_only :: bool
  dr_client_magic :: bytes
  dr_public_key :: bytes

definition truncated :: "message \<Rightarrow> bool" where
  "truncated m \<longleftrightarrow> msg_flags m div 512 mod 2 = 1"

definition is_timeout :: "py_exn \<Rightarrow> bool" where
  "is_timeout e \<longleftrightarrow> (case e of TimeoutError _ \<Rightarrow> True | _ \<Rightarrow> False)"

text \<open>
  The query for the certificates: \<open>udp\<close> and \<open>tcp\<close> are the two queries of dnspython. The result
  says whether the resolver is marked as TCP only.
\<close>

definition fetch_answer :: "message res \<Rightarrow> message res \<Rightarrow> message res \<times> bool" where
  "fetch_answer udp tcp =
     (case andthen udp (\<lambda>a. if truncated a then tcp else Inr a) of
        Inl e \<Rightarrow> if is_timeout e then (tcp, True) else (Inl e, False)
      | Inr a \<Rightarrow> (Inr a, False))"

definition fetch_server_key ::
  "(bytes \<Rightarrow> bytes option) \<Rightarrow> real \<Rightarrow> message res \<Rightarrow> message res \<Rightarrow> (bytes \<times> bytes) res \<times> bool" where
  "fetch_server_key verify now udp tcp =
     (case fetch_answer udp tcp of (ans, tcp_only) \<Rightarrow>
        (andthen ans (\<lambda>a.
         andthen (candidates_of (concat (map rr_items (msg_answer a)))) (\<lambda>candidates.
         case select_cert verify now candidates None of
           None \<Rightarrow> Inl (TypeError ''no valid certificate'')
         | Some (serial, client_magic, pk) \<Rightarrow> Inr (client_magic, pk))), tcp_only))"

definition encrypt_query :: "crypt_env \<Rightarrow> crypt_resolver \<Rightarrow> bytes \<Rightarrow> message \<Rightarrow> bytes res" where
  "encrypt_query X R client_nonce query =
     andthen (cx_to_wire X query) (\<lambda>wire.
     let msg = pad_query wire;
         encrypted = cx_encrypt X msg (client_nonce @ replicate DNSCRYPT_NONCE_SIZE 0) in
     Inr (dr_client_magic R @ dr_public_key R @
          take DNSCRYPT_NONCE_SIZE encrypted @ drop (DNSCRYPT_NONCE_SIZE * 2) encrypted))"

definition decrypt_response :: "crypt_env \<Rightarrow> bool \<Rightarrow> bool \<Rightarrow> bytes \<Rightarrow> message res" where
  "decrypt_response X one_rr ignore_trailing wire =
     (if length wire < 32 then Inl (OtherError ''FormError: too short'')
      else
        let magic = bytes_at 0 8 wire; nonce = bytes_at 8 24 wire; data = drop 32 wire in
        if magic \<noteq> DNSCRYPT_RESOLVER_MAGIC then Inl (OtherError ''FormError: not DNSCrypt'')
        else andthen (cx_decrypt X data nonce) (cx_from_wire X one_rr ignore_trailing))"

definition accept_response :: "crypt_env \<Rightarrow> message \<Rightarrow> message res \<Rightarrow> message res" where
  "accept_response X request' response =
     andthen response (\<lambda>r. if cx_is_response X request' r then Inr r else Inl (OtherError ''BadResponse''))"

text \<open>
  The datagrams that arrive before the expiration, each with its source: the loop takes the first
  from the resolver. A datagram is expected when its source is the destination, or when the
  resolver is a multicast address and the port is the same.
\<close>

fun receive_expected :: "bool \<Rightarrow> ('a \<Rightarrow> bool) \<Rightarrow> (bytes \<times> 'a) list \<Rightarrow> bytes res" where
  "receive_expected ignore_unexpected expected [] = Inl (TimeoutError ''udp'')"
| "receive_expected ignore_unexpected expected ((wire, source) # rest) =
     (if expected source then Inr wire
      else if \<not> ignore_unexpected then Inl (OtherError ''UnexpectedSource'')
      else receive_expected ignore_unexpected expected rest)"

definition expected_source ::
  "(string \<times> nat \<Rightarrow> string \<times> nat \<Rightarrow> bool) \<Rightarrow> string \<Rightarrow> string \<times> nat \<Rightarrow> string \<times> nat \<Rightarrow> bool" where
  "expected_source equal address destination source \<longleftrightarrow>
     equal source destination \<or> (is_multicast_text address \<and> snd source = snd destination)"

text \<open>\<open>net\<close> is the exchange over UDP: from the wire sent to the datagrams received.\<close>

definition crypt_udp ::
  "crypt_env \<Rightarrow> crypt_resolver \<Rightarrow> bytes \<Rightarrow> (string \<times> nat \<Rightarrow> string \<times> nat \<Rightarrow> bool) \<Rightarrow>
   (bytes \<Rightarrow> (bytes \<times> string \<times> nat) list) \<Rightarrow> message \<Rightarrow> bool \<Rightarrow> bool \<Rightarrow> message res" where
  "crypt_udp X R client_nonce equal net q one_rr ignore_trailing =
     andthen (encrypt_query X R client_nonce q) (\<lambda>wire.
     andthen (receive_expected True (expected_source equal (dr_address R) (dr_address R, dr_port R))
                (net wire)) (\<lambda>response_wire.
     accept_response X q (decrypt_response X one_rr ignore_trailing response_wire)))"

text \<open>Over TCP the stream of the server is read: two bytes of length and the payload.\<close>

definition crypt_tcp ::
  "crypt_env \<Rightarrow> crypt_resolver \<Rightarrow> bytes \<Rightarrow> (bytes \<Rightarrow> bytes res) \<Rightarrow> message \<Rightarrow> bool \<Rightarrow> bool \<Rightarrow> message res" where
  "crypt_tcp X R client_nonce net q one_rr ignore_trailing =
     andthen (encrypt_query X R client_nonce q) (\<lambda>wire.
     andthen (if length wire < 65536 then Inr ([length wire div 256, length wire mod 256] @ wire)
              else Inl (OtherError ''struct.error'')) (\<lambda>framed.
     andthen (net framed) (\<lambda>stream.
     andthen (if length stream < 2 then Inl (OtherError ''EOFError'') else Inr (be (take 2 stream))) (\<lambda>n.
     andthen (if length stream < 2 + n then Inl (OtherError ''EOFError'') else Inr (bytes_at 2 n stream))
       (\<lambda>response_wire.
     accept_response X q (decrypt_response X one_rr ignore_trailing response_wire))))))"

text \<open>\<open>query\<close>: TCP when asked for or when UDP did not work, else UDP and TCP after truncation.\<close>

definition crypt_query :: "crypt_resolver \<Rightarrow> bool \<Rightarrow> message res \<Rightarrow> message res \<Rightarrow> message res" where
  "crypt_query R max_size udp tcp =
     (if max_size \<or> dr_tcp_only R then tcp
      else andthen udp (\<lambda>response. if truncated response then tcp else Inr response))"

section \<open>Keys and the nameserver\<close>

text \<open>
  Keys of PyNaCl: making and reading a private key, reading a key that verifies (which gives the signed
  data, \<open>None\<close> for a bad signature), the public half of a private key.
\<close>

record 'k key_env =
  ky_generate :: 'k
  ky_private :: "string \<Rightarrow> 'k res"
  ky_public :: "'k \<Rightarrow> bytes"
  ky_verify :: "string \<Rightarrow> (bytes \<Rightarrow> bytes option) res"

definition load_private_key :: "'k key_env \<Rightarrow> string option \<Rightarrow> 'k res" where
  "load_private_key Y private_key = (case private_key of None \<Rightarrow> Inr (ky_generate Y)
     | Some text \<Rightarrow> ky_private Y (normalize_hex text))"

text \<open>\<open>bytes.decode("ascii")\<close>\<close>

definition ascii_text :: "bytes \<Rightarrow> string res" where
  "ascii_text bs = (if list_all (\<lambda>b. b < 128) bs then Inr (map char_of bs)
     else Inl (ValueError ''UnicodeDecodeError''))"

text \<open>The first record of the first set of the answer to the TXT query.\<close>

definition fingerprint_of :: "answer \<Rightarrow> string res" where
  "fingerprint_of a = (case msg_answer (a_response a) of [] \<Rightarrow> Inl IndexError
     | rr # _ \<Rightarrow> (case rr_items rr of [] \<Rightarrow> Inl IndexError
         | r # _ \<Rightarrow> andthen (strings_of r) ascii_text))"

definition load_verify_key ::
  "'k key_env \<Rightarrow> (string \<Rightarrow> answer res) \<Rightarrow> string \<Rightarrow> (bytes \<Rightarrow> bytes option) res" where
  "load_verify_key Y resolve_txt provider_pk = (case ky_verify Y (normalize_hex provider_pk) of
     Inr k \<Rightarrow> Inr k
   | Inl e \<Rightarrow> if \<not> is_Exception e then Inl e
       else (case andthen (resolve_txt provider_pk) (\<lambda>a.
                  andthen (fingerprint_of a) (\<lambda>f. ky_verify Y (normalize_hex f))) of
           Inr k \<Rightarrow> Inr k
         | Inl e' \<Rightarrow> if is_Exception e' then Inl (TypeError ''no valid public key'') else Inl e'))"

text \<open>
  The constructor of \<open>DNSCryptResolver\<close>: \<open>udp\<close> and \<open>tcp\<close> are the two queries for the certificates to an
  address and port.
\<close>

definition crypt_init ::
  "'k key_env \<Rightarrow> (string \<Rightarrow> answer res) \<Rightarrow> (string \<Rightarrow> nat \<Rightarrow> message res) \<Rightarrow> (string \<Rightarrow> nat \<Rightarrow> message res) \<Rightarrow> real \<Rightarrow>
   string \<Rightarrow> string \<Rightarrow> string option \<Rightarrow> nat \<Rightarrow> crypt_resolver res" where
  "crypt_init Y resolve_txt udp tcp now address provider_pk private_key port =
     andthen (normalize_server_address address port) (\<lambda>(host, p).
     andthen (load_private_key Y private_key) (\<lambda>key.
     andthen (load_verify_key Y resolve_txt provider_pk) (\<lambda>verify.
     case fetch_server_key verify now (udp host p) (tcp host p) of (server, tcp_only) \<Rightarrow>
       andthen server (\<lambda>(client_magic, server_key).
       Inr \<lparr>dr_address = host, dr_port = p, dr_tcp_only = tcp_only, dr_client_magic = client_magic,
            dr_public_key = ky_public Y key\<rparr>))))"

record crypt_nameserver =
  cn_address :: string
  cn_port :: nat
  cn_provider :: string
  cn_resolver :: crypt_resolver

text \<open>\<open>DNSCryptNameserver\<close>; the resolver normalises the normalised address once more.\<close>

definition crypt_nameserver_init ::
  "'k key_env \<Rightarrow> (string \<Rightarrow> answer res) \<Rightarrow> (string \<Rightarrow> nat \<Rightarrow> message res) \<Rightarrow> (string \<Rightarrow> nat \<Rightarrow> message res) \<Rightarrow> real \<Rightarrow>
   string \<Rightarrow> string \<Rightarrow> string \<Rightarrow> string option \<Rightarrow> nat \<Rightarrow> crypt_nameserver res" where
  "crypt_nameserver_init Y resolve_txt udp tcp now address provider provider_pk private_key port =
     andthen (normalize_server_address address port) (\<lambda>(host, p).
     andthen (crypt_init Y resolve_txt udp tcp now host provider_pk private_key p) (\<lambda>resolver.
     Inr \<lparr>cn_address = host, cn_port = p, cn_provider = provider, cn_resolver = resolver\<rparr>))"

definition crypt_nameserver_str :: "crypt_nameserver \<Rightarrow> string" where
  "crypt_nameserver_str ns =
     ''DNSCrypt:'' @ cn_address ns @ ''@'' @ dec_str (cn_port ns) @ ''/'' @ cn_provider ns"

section \<open>Padding and certificates\<close>

lemma pad_query_eq:
  "\<exists>n. pad_query msg = msg @ 128 # replicate n 0 \<and> (length msg + 1 + n) mod 64 = 0 \<and>
     256 \<le> length msg + 1 + n \<and> length msg + 1 + n < max (length msg + 1) 256 + 64"
proof -
  define t where "t = max (length msg + 1) 256"
  define u where "u = (if t mod 64 \<noteq> 0 then t + (64 - t mod 64) else t)"
  have t: "length msg < t" "256 \<le> t" by (simp_all add: t_def)
  have u: "t \<le> u" "u mod 64 = 0" "u < t + 64"
  proof -
    show "t \<le> u" unfolding u_def by presburger
    show "u mod 64 = 0" unfolding u_def by presburger
    show "u < t + 64" unfolding u_def by presburger
  qed
  have "pad_query msg = (if u - length msg \<le> 0 then msg else msg @ 128 # replicate (u - length msg - 1) 0)"
    by (simp only: pad_query_def DNSCRYPT_MINIMUM_SIZE_def DNSCRYPT_MODULO_SIZE_def Let_def t_def u_def)
  moreover have "\<not> u - length msg \<le> 0" using t(1) u(1) by linarith
  ultimately have p: "pad_query msg = msg @ 128 # replicate (u - length msg - 1) 0"
    by (simp only: if_False)
  have "length msg + 1 + (u - length msg - 1) = u" using t u by linarith
  with p u t show ?thesis by (intro exI [of _ "u - length msg - 1"]) (simp add: t_def)
qed

lemma unpad_padding: "unpad (msg @ 128 # replicate n 0) = Some msg"
proof -
  have "rev (msg @ 128 # replicate n 0) = replicate n 0 @ 128 # rev msg" by simp
  moreover have "dropWhile (\<lambda>b. b = 0) (replicate n 0 @ 128 # rev msg) = 128 # rev msg"
    by (induction n) simp_all
  ultimately show ?thesis by (simp add: unpad_def del: rev_append)
qed

lemma select_cert_spec:
  "select_cert verify now cs sel = Some c \<Longrightarrow>
     (sel = Some c \<and> list_all (\<lambda>x. \<forall>d. read_candidate verify now x = Some d \<longrightarrow> fst d \<le> fst c) cs) \<or>
     (\<exists>xs x ys. cs = xs @ x # ys \<and> read_candidate verify now x = Some c \<and>
        (\<forall>old. sel = Some old \<longrightarrow> fst old < fst c) \<and>
        list_all (\<lambda>y. \<forall>d. read_candidate verify now y = Some d \<longrightarrow> fst d < fst c) xs \<and>
        list_all (\<lambda>y. \<forall>d. read_candidate verify now y = Some d \<longrightarrow> fst d \<le> fst c) ys)"
proof (induction cs arbitrary: sel)
  case (Cons a cs)
  let ?sel = "case read_candidate verify now a of None \<Rightarrow> sel
     | Some new \<Rightarrow> (case sel of None \<Rightarrow> Some new | Some old \<Rightarrow> if fst new > fst old then Some new else Some old)"
  from Cons.prems have "select_cert verify now cs ?sel = Some c" by simp
  from Cons.IH [OF this] show ?case
  proof (elim disjE exE conjE)
    assume sel: "?sel = Some c"
      and all: "list_all (\<lambda>x. \<forall>d. read_candidate verify now x = Some d \<longrightarrow> fst d \<le> fst c) cs"
    show ?thesis
    proof (cases "read_candidate verify now a = Some c \<and> (\<forall>old. sel = Some old \<longrightarrow> fst old < fst c)")
      case True
      with all show ?thesis by (intro disjI2 exI [of _ "[]"] exI [of _ a] exI [of _ cs]) simp
    next
      case False
      with sel have "sel = Some c \<and> (\<forall>d. read_candidate verify now a = Some d \<longrightarrow> fst d \<le> fst c)"
        by (auto split: option.splits if_splits)
      with all show ?thesis by simp
    qed
  next
    fix xs x ys
    assume h: "cs = xs @ x # ys" "read_candidate verify now x = Some c"
      "\<forall>old. ?sel = Some old \<longrightarrow> fst old < fst c"
      "list_all (\<lambda>y. \<forall>d. read_candidate verify now y = Some d \<longrightarrow> fst d < fst c) xs"
      "list_all (\<lambda>y. \<forall>d. read_candidate verify now y = Some d \<longrightarrow> fst d \<le> fst c) ys"
    have "\<forall>old. sel = Some old \<longrightarrow> fst old < fst c"
      and "\<forall>d. read_candidate verify now a = Some d \<longrightarrow> fst d < fst c"
      using h(3) by (auto split: option.splits if_splits)
    with h show ?thesis by (intro disjI2 exI [of _ "a # xs"] exI [of _ x] exI [of _ ys]) simp
  qed
qed simp

lemma select_cert_None:
  "select_cert verify now cs sel = None \<longleftrightarrow> sel = None \<and> list_all (\<lambda>x. read_candidate verify now x = None) cs"
  by (induction cs arbitrary: sel) (auto split: option.splits)

lemma read_candidate_plain:
  "verify (drop 8 candidate) = Some data \<Longrightarrow> length data = 52 \<Longrightarrow> read_candidate verify now candidate = None"
  by (simp add: read_candidate_def)

text \<open>What a resolver sends: its magic, the nonce and the box of the padded message.\<close>

lemma decrypt_response_padded:
  assumes "cx_decrypt X data nonce = Inr plain" and "length nonce = 24"
  shows "decrypt_response X one_rr ign (DNSCRYPT_RESOLVER_MAGIC @ nonce @ data) = cx_from_wire X one_rr ign plain"
  using assms by (simp add: decrypt_response_def bytes_at_def DNSCRYPT_RESOLVER_MAGIC_def ascii_bytes_def)

section \<open>Properties\<close>

text \<open>
  C35: A padded query has a length of at least 256 that is a multiple of 64, is less than 64 bytes
  longer than it has to be, and gives the query back when the padding is removed.
\<close>

theorem dnscrypt_padding_bounds:
  "length (pad_query msg) mod 64 = 0 \<and> 256 \<le> length (pad_query msg) \<and>
   length (pad_query msg) < max (length msg + 1) 256 + 64 \<and> unpad (pad_query msg) = Some msg"
  using pad_query_eq [of msg] unpad_padding by fastforce

text \<open>
  The certificate chosen is a valid one with the greatest serial number, the first of those in
  the answer; there is none only when no candidate is valid.
\<close>

theorem dnscrypt_newest_certificate:
  "(select_cert verify now cs None = None \<and> list_all (\<lambda>x. read_candidate verify now x = None) cs) \<or>
   (\<exists>c xs x ys. select_cert verify now cs None = Some c \<and> cs = xs @ x # ys \<and>
      read_candidate verify now x = Some c \<and>
      list_all (\<lambda>y. case read_candidate verify now y of None \<Rightarrow> True | Some d \<Rightarrow> fst d < fst c) xs \<and>
      list_all (\<lambda>y. case read_candidate verify now y of None \<Rightarrow> True | Some d \<Rightarrow> fst d \<le> fst c) ys)"
proof (cases "select_cert verify now cs None")
  case None
  then show ?thesis by (simp add: select_cert_None)
next
  case (Some c)
  have all: "list_all (\<lambda>y. case f y of None \<Rightarrow> True | Some d \<Rightarrow> P d) ys \<longleftrightarrow> list_all (\<lambda>y. \<forall>d. f y = Some d \<longrightarrow> P d) ys"
    for f :: "bytes \<Rightarrow> cert_choice option" and P ys
    by (auto simp: list_all_iff split: option.splits)
  from select_cert_spec [OF Some] Some show ?thesis unfolding all by blast
qed

text \<open>
  A certificate without extensions, whose signed part is the 52 bytes of its fixed fields, is
  never accepted: with such certificates only, the resolver cannot be set up.
\<close>

theorem dnscrypt_plain_certificate_refused:
  assumes "list_all (\<lambda>x. \<forall>data. verify (drop 8 x) = Some data \<longrightarrow> length data = 52) cs"
    and "andthen udp (\<lambda>a. if truncated a then tcp else Inr a) = Inr a"
    and "candidates_of (concat (map rr_items (msg_answer a))) = Inr cs"
  shows "fetch_server_key verify now udp tcp = (Inl (TypeError ''no valid certificate''), False)"
proof -
  have "read_candidate verify now x = None" if "x \<in> set cs" for x
    using assms(1) that read_candidate_plain [of verify x]
    by (cases "verify (drop 8 x)") (auto simp: list_all_iff read_candidate_def)
  then have "select_cert verify now cs None = None" by (simp add: select_cert_None list_all_iff)
  with assms(2,3) show ?thesis by (simp add: fetch_server_key_def fetch_answer_def)
qed

text \<open>
  A response that is padded, as the protocol has it, is refused: the padding is not removed
  after decryption, and the codec raises on bytes after the message.
\<close>

theorem dnscrypt_padded_response_refused:
  assumes "cx_to_wire X m = Inr w"
    and "\<And>junk. junk \<noteq> [] \<Longrightarrow> cx_from_wire X one_rr False (w @ junk) = Inl (OtherError ''TrailingJunk'')"
    and "cx_decrypt X data nonce = Inr (pad_query w)" and "length nonce = 24"
  shows "decrypt_response X one_rr False (DNSCRYPT_RESOLVER_MAGIC @ nonce @ data) = Inl (OtherError ''TrailingJunk'')"
  using decrypt_response_padded [OF assms(3,4)] assms(2) pad_query_eq [of w] by fastforce

definition sample_crypt :: crypt_env where
  "sample_crypt = \<lparr>cx_encrypt = (\<lambda>m n. n @ m), cx_decrypt = (\<lambda>d n. Inr d), cx_to_wire = (\<lambda>m. Inr [msg_id m]),
     cx_from_wire = (\<lambda>o' i w. if length w = 1 then Inl IndexError else Inl (OtherError ''TrailingJunk'')),
     cx_is_response = (\<lambda>q r. True)\<rparr>"

definition sample_crypt_message :: message where
  "sample_crypt_message = \<lparr>msg_id = 7, msg_flags = 0, msg_opcode = 0, msg_rcode = 0, msg_question = [],
     msg_answer = [\<lparr>rr_name = ''p.'', rr_ttl = 1, rr_class = IN, rr_type = 16, rr_items = [TxtData [[1, 2], [3]]]\<rparr>],
     msg_authority = [], msg_additional = []\<rparr>"

theorem dnscrypt_plain_certificate_refused_witness:
  "fetch_server_key (\<lambda>signed. Some (replicate 52 0)) 0 (Inr sample_crypt_message) (Inl IndexError) =
     (Inl (TypeError ''no valid certificate''), False)"
  by (rule dnscrypt_plain_certificate_refused [where cs = "[[1, 2, 3]]" and a = sample_crypt_message])
    (simp_all add: sample_crypt_message_def truncated_def)

theorem dnscrypt_padded_response_refused_witness:
  "decrypt_response sample_crypt False False (DNSCRYPT_RESOLVER_MAGIC @ replicate 24 0 @ pad_query [7]) =
     Inl (OtherError ''TrailingJunk'')"
  by (rule dnscrypt_padded_response_refused [where m = sample_crypt_message])
    (simp_all add: sample_crypt_def sample_crypt_message_def)

section \<open>The two addresses of a nameserver\<close>

text \<open>
  The host of a bracketed address is not looked at: \<open>[a:5]\<close> gives the nameserver the host \<open>a:5\<close>, and its
  resolver, which normalises that again, the host \<open>a\<close> and the port 5. For an address of the network the
  two agree.
\<close>

lemma normalize_address_literal:
  assumes "ip_address host = Inr ip" and "py_strip host = host" and "host \<noteq> []" and "hd host \<noteq> CHR ''[''"
  shows "normalize_server_address host port = Inr (host, port)"
  using assms by (simp add: normalize_server_address_def Let_def after_bracket_def)

lemma crypt_nameserver_addresses:
  assumes "crypt_nameserver_init Y resolve_txt udp tcp now address provider provider_pk private_key port = Inr ns"
    and "ip_address (cn_address ns) = Inr ip" and "py_strip (cn_address ns) = cn_address ns"
    and "cn_address ns \<noteq> []" and "hd (cn_address ns) \<noteq> CHR ''[''"
  shows "dr_address (cn_resolver ns) = cn_address ns \<and> dr_port (cn_resolver ns) = cn_port ns"
  using assms(1) normalize_address_literal [OF assms(2-5)]
  by (auto simp: crypt_nameserver_init_def crypt_init_def andthen_Inr_iff case_prod_unfold)

lemma bracketed_address_normalised_twice:
  "normalize_server_address ''[a:5]'' 53 = Inr (''a:5'', 53)"
  "normalize_server_address ''a:5'' 53 = Inr (''a'', 5)"
  by code_simp+

end
