(* ===== verification/Url.thy ===== *)
theory Url
  imports Ip_Address
begin

text \<open>
  The functions of \<open>urllib.parse\<close> the DoH clients use: \<open>urlsplit\<close> with \<open>hostname\<close> and \<open>port\<close>,
  \<open>urlunsplit\<close>, \<open>parse_qsl(..., keep_blank_values=True)\<close> and \<open>urlencode\<close>, for texts of ASCII
  characters without white space; the check of brackets in \<open>urlsplit\<close> is left out.
\<close>

section \<open>Splitting\<close>

text \<open>\<open>s.partition(c)\<close>: \<open>None\<close> when \<open>c\<close> does not occur.\<close>

definition partition1 :: "char \<Rightarrow> string \<Rightarrow> (string \<times> string) option" where
  "partition1 c s = (if c \<in> set s
     then Some (takeWhile (\<lambda>x. x \<noteq> c) s, tl (dropWhile (\<lambda>x. x \<noteq> c) s)) else None)"

definition cut :: "char \<Rightarrow> string \<Rightarrow> string \<times> string" where
  "cut c s = (case partition1 c s of None \<Rightarrow> (s, []) | Some p \<Rightarrow> p)"

definition is_alpha :: "char \<Rightarrow> bool" where
  "is_alpha c = (let n = of_char c :: nat in (65 \<le> n \<and> n \<le> 90) \<or> (97 \<le> n \<and> n \<le> 122))"

definition is_scheme_char :: "char \<Rightarrow> bool" where
  "is_scheme_char c \<longleftrightarrow> is_alpha c \<or> is_digit c \<or> c \<in> {CHR ''+'', CHR ''-'', CHR ''.''}"

record url_parts =
  u_scheme :: string
  u_netloc :: string
  u_path :: string
  u_query :: string
  u_fragment :: string

definition split_scheme :: "string \<Rightarrow> string \<times> string" where
  "split_scheme url = (case partition1 CHR '':'' url of
     Some (s, rest) \<Rightarrow> if s \<noteq> [] \<and> is_alpha (hd s) \<and> list_all is_scheme_char s
                       then (py_lower s, rest) else ([], url)
   | None \<Rightarrow> ([], url))"

definition ends_netloc :: "char \<Rightarrow> bool" where
  "ends_netloc c \<longleftrightarrow> c \<in> {CHR ''/'', CHR ''?'', CHR ''#''}"

definition split_netloc :: "string \<Rightarrow> string \<times> string" where
  "split_netloc url = (if take 2 url = ''//''
     then (takeWhile (\<lambda>c. \<not> ends_netloc c) (drop 2 url), dropWhile (\<lambda>c. \<not> ends_netloc c) (drop 2 url))
     else ([], url))"

definition urlsplit :: "string \<Rightarrow> url_parts" where
  "urlsplit url =
     (case split_scheme url of (scheme, rest) \<Rightarrow>
      case split_netloc rest of (netloc, rest) \<Rightarrow>
      case cut CHR ''#'' rest of (rest, fragment) \<Rightarrow>
      case cut CHR ''?'' rest of (path, query) \<Rightarrow>
      \<lparr>u_scheme = scheme, u_netloc = netloc, u_path = path, u_query = query, u_fragment = fragment\<rparr>)"

text \<open>\<open>_hostinfo\<close>: the host and the text of the port, empty when there is none.\<close>

definition hostinfo :: "string \<Rightarrow> string \<times> string" where
  "hostinfo netloc =
     (let info = rev (takeWhile (\<lambda>c. c \<noteq> CHR ''@'') (rev netloc)) in
      case partition1 CHR ''['' info of
        Some (_, bracketed) \<Rightarrow> (case cut CHR '']'' bracketed of (host, tail) \<Rightarrow> (host, snd (cut CHR '':'' tail)))
      | None \<Rightarrow> cut CHR '':'' info)"

definition url_hostname :: "string \<Rightarrow> string option" where
  "url_hostname url =
     (let host = fst (hostinfo (u_netloc (urlsplit url))) in
      if host = [] then None
      else Some (case partition1 CHR ''%'' host of
        None \<Rightarrow> py_lower host | Some (h, zone) \<Rightarrow> py_lower h @ ''%'' @ zone))"

definition url_port :: "string \<Rightarrow> nat res" where
  "url_port url =
     (let parts = urlsplit url; port = snd (hostinfo (u_netloc parts)) in
      if port = [] then Inr (if u_scheme parts = ''https'' then 443 else 80)
      else if \<not> list_all is_digit port then Inl (ValueError ''Port could not be cast to integer value'')
      else if dec_val port > 65535 then Inl (ValueError ''Port out of range 0-65535'')
      else Inr (dec_val port))"

definition urlunsplit :: "url_parts \<Rightarrow> string" where
  "urlunsplit u =
     (let path = u_path u;
          path = (if u_netloc u \<noteq> [] \<and> path \<noteq> [] \<and> hd path \<noteq> CHR ''/'' then CHR ''/'' # path else path);
          url = (if u_netloc u \<noteq> [] then ''//'' @ u_netloc u @ path
                 else if take 2 path = ''//'' then ''//'' @ path else path);
          url = (if u_scheme u \<noteq> [] then u_scheme u @ '':'' @ url else url);
          url = (if u_query u \<noteq> [] then url @ ''?'' @ u_query u else url) in
      if u_fragment u \<noteq> [] then url @ ''#'' @ u_fragment u else url)"

section \<open>Query strings\<close>

definition always_safe :: "char \<Rightarrow> bool" where
  "always_safe c \<longleftrightarrow> is_alpha c \<or> is_digit c \<or> c \<in> {CHR ''_'', CHR ''.'', CHR ''-'', CHR ''~''}"

definition hex_upper :: "nat \<Rightarrow> char" where
  "hex_upper d = char_of (if d < 10 then 48 + d else 55 + d)"

definition quote_plus_char :: "char \<Rightarrow> string" where
  "quote_plus_char c =
     (if c = CHR '' '' then ''+''
      else if always_safe c then [c]
      else [CHR ''%'', hex_upper (of_char c div 16), hex_upper (of_char c mod 16)])"

definition quote_plus :: "string \<Rightarrow> string" where
  "quote_plus s = concat (map quote_plus_char s)"

definition urlencode :: "(string \<times> string) list \<Rightarrow> string" where
  "urlencode items = py_join ''&'' (map (\<lambda>(k, v). quote_plus k @ ''='' @ quote_plus v) items)"

text \<open>\<open>unquote(s.replace("+", " "))\<close>: a \<open>%\<close> that no two hexadecimal digits follow stays.\<close>

fun unquote_plus :: "string \<Rightarrow> string" where
  "unquote_plus [] = []"
| "unquote_plus (c # cs) =
     (if c = CHR ''+'' then CHR '' '' # unquote_plus cs
      else if c = CHR ''%'' then
        (case cs of
           x # y # rest \<Rightarrow> (case (hex_digit_val x, hex_digit_val y) of
               (Some m, Some n) \<Rightarrow> char_of (16 * m + n) # unquote_plus rest
             | _ \<Rightarrow> c # unquote_plus cs)
         | _ \<Rightarrow> c # unquote_plus cs)
      else c # unquote_plus cs)"

definition parse_qsl :: "string \<Rightarrow> (string \<times> string) list" where
  "parse_qsl qs = map (\<lambda>item. case cut CHR ''='' item of (k, v) \<Rightarrow> (unquote_plus k, unquote_plus v))
     (filter (\<lambda>item. item \<noteq> []) (py_split CHR ''&'' qs))"

section \<open>A query reads back\<close>

lemma hex_upper_val: "d < 16 \<Longrightarrow> hex_digit_val (hex_upper d) = Some d"
  by (auto simp: hex_upper_def hex_digit_val_def Let_def)

lemma of_char_bound: "(of_char c :: nat) < 256"
  using of_char_mod_256 [of c, where 'a = nat] by (metis mod_less_divisor zero_less_numeral)

lemma of_char_div: "(of_char c :: nat) div 16 < 16"
  using of_char_bound [of c] by (intro less_mult_imp_div_less) linarith

lemma unquote_quote_char: "unquote_plus (quote_plus_char c @ s) = c # unquote_plus s"
proof (cases "c = CHR '' '' \<or> always_safe c")
  case True
  have "\<not> always_safe (CHR ''+'')" "\<not> always_safe (CHR ''%'')"
    by (simp_all add: always_safe_def is_alpha_def is_digit_def Let_def)
  with True show ?thesis by (auto simp: quote_plus_char_def)
next
  case False
  have b: "(of_char c :: nat) div 16 < 16" by (rule of_char_div)
  have "16 * ((of_char c :: nat) div 16) + of_char c mod 16 = of_char c" by presburger
  with b False show ?thesis by (simp add: quote_plus_char_def hex_upper_val)
qed

lemma unquote_quote: "unquote_plus (quote_plus s) = s"
  by (induction s) (simp_all add: quote_plus_def unquote_quote_char)

definition plain_char :: "char \<Rightarrow> bool" where
  "plain_char c \<longleftrightarrow> always_safe c \<or> c = CHR ''%'' \<or> c = CHR ''+''"

lemma hex_upper_safe: "d < 16 \<Longrightarrow> always_safe (hex_upper d)"
  by (auto simp: hex_upper_def always_safe_def is_alpha_def is_digit_def Let_def)

lemma quote_plus_plain: "c \<in> set (quote_plus s) \<Longrightarrow> plain_char c"
proof -
  assume "c \<in> set (quote_plus s)"
  then obtain x where x: "c \<in> set (quote_plus_char x)" by (auto simp: quote_plus_def)
  have "(of_char x :: nat) div 16 < 16" "(of_char x :: nat) mod 16 < 16"
    using of_char_div [of x] by simp_all
  with x show ?thesis by (auto simp: quote_plus_char_def plain_char_def hex_upper_safe split: if_splits)
qed

lemma plain_not: "\<not> plain_char CHR ''&''" "\<not> plain_char CHR ''=''" "\<not> plain_char CHR ''#''"
  "\<not> plain_char CHR ''?''"
  by (simp_all add: plain_char_def always_safe_def is_alpha_def is_digit_def Let_def)

lemma quote_plus_not: "CHR ''&'' \<notin> set (quote_plus s)" "CHR ''='' \<notin> set (quote_plus s)"
  "CHR ''#'' \<notin> set (quote_plus s)"
  using quote_plus_plain [of _ s] plain_not by blast+

lemma cut_at: "c \<notin> set a \<Longrightarrow> cut c (a @ c # b) = (a, b)"
proof -
  assume "c \<notin> set a"
  then have "\<forall>x \<in> set a. x \<noteq> c" by blast
  then show ?thesis by (simp add: cut_def partition1_def takeWhile_append2 dropWhile_append2)
qed

lemma cut_none: "c \<notin> set a \<Longrightarrow> cut c a = (a, [])"
  by (simp add: cut_def partition1_def)

lemma cut_parts:
  "cut c s = (a, b) \<Longrightarrow> c \<notin> set a \<and> (s = a \<and> b = [] \<or> s = a @ c # b)"
proof -
  assume *: "cut c s = (a, b)"
  show ?thesis
  proof (cases "c \<in> set s")
    case True
    with * have a: "a = takeWhile (\<lambda>x. x \<noteq> c) s" and b: "b = tl (dropWhile (\<lambda>x. x \<noteq> c) s)"
      by (simp_all add: cut_def partition1_def)
    obtain y ys where y: "dropWhile (\<lambda>x. x \<noteq> c) s = y # ys"
      using True by (cases "dropWhile (\<lambda>x. x \<noteq> c) s") (auto simp: dropWhile_eq_Nil_conv)
    then have "y = c" using hd_dropWhile [of "\<lambda>x. x \<noteq> c" s] by simp
    with y b have "s = a @ c # b" unfolding a by (metis list.sel(3) takeWhile_dropWhile_id)
    moreover have "c \<notin> set a" unfolding a using set_takeWhileD by fastforce
    ultimately show ?thesis by blast
  next
    case False
    with * cut_none [OF False] show ?thesis by auto
  qed
qed

lemma parse_urlencode: "parse_qsl (urlencode items) = items"
proof (cases "items = []")
  case True
  then show ?thesis by (simp add: urlencode_def parse_qsl_def)
next
  case False
  let ?enc = "\<lambda>(k, v). quote_plus k @ ''='' @ quote_plus v"
  have "\<forall>w \<in> set (map ?enc items). CHR ''&'' \<notin> set w" using quote_plus_not(1) by auto
  then have s: "py_split CHR ''&'' (urlencode items) = map ?enc items"
    using False unfolding urlencode_def by (intro py_split_join) auto
  have ne: "filter (\<lambda>item. item \<noteq> []) (map ?enc items) = map ?enc items"
    by (auto simp: filter_id_conv)
  have d: "(case cut CHR ''='' (?enc it) of (k, v) \<Rightarrow> (unquote_plus k, unquote_plus v)) = it" for it
    by (cases it) (simp add: cut_at quote_plus_not unquote_quote)
  show ?thesis unfolding parse_qsl_def s ne map_map by (rule map_idI) (simp only: comp_apply d)
qed

section \<open>A URL with another query reads back\<close>

lemma is_alpha_lower: "is_alpha c \<Longrightarrow> is_alpha (lower_char c)"
  by (auto simp: is_alpha_def lower_char_def Let_def)

lemma scheme_char_lower: "is_scheme_char c \<Longrightarrow> is_scheme_char (lower_char c)"
  by (auto simp: is_scheme_char_def is_alpha_lower) (auto simp: lower_char_def is_digit_def Let_def)

lemma scheme_char_colon: "\<not> is_scheme_char CHR '':''"
  by (simp add: is_scheme_char_def is_alpha_def is_digit_def Let_def)

definition wf_scheme :: "string \<Rightarrow> bool" where
  "wf_scheme s \<longleftrightarrow> s \<noteq> [] \<and> is_alpha (hd s) \<and> list_all is_scheme_char s \<and> py_lower s = s"

lemma split_scheme_wf: "split_scheme url = (s, rest) \<Longrightarrow> s \<noteq> [] \<Longrightarrow> wf_scheme s"
  by (auto simp: split_scheme_def wf_scheme_def py_lower_def list_all_iff hd_map
      is_alpha_lower scheme_char_lower split: option.splits if_splits)

lemma split_scheme_again: "wf_scheme s \<Longrightarrow> split_scheme (s @ CHR '':'' # rest) = (s, rest)"
proof -
  assume s: "wf_scheme s"
  then have "\<forall>x \<in> set s. x \<noteq> CHR '':''"
    using scheme_char_colon by (auto simp: wf_scheme_def list_all_iff)
  with s show ?thesis
    by (simp add: split_scheme_def partition1_def wf_scheme_def takeWhile_append2 dropWhile_append2)
qed

lemma split_netloc_parts:
  assumes "split_netloc url = (n, rest)" and "n \<noteq> []"
  shows "list_all (\<lambda>c. \<not> ends_netloc c) n \<and> (rest = [] \<or> ends_netloc (hd rest))"
proof -
  have n: "n = takeWhile (\<lambda>c. \<not> ends_netloc c) (drop 2 url)"
    and rest: "rest = dropWhile (\<lambda>c. \<not> ends_netloc c) (drop 2 url)"
    using assms by (auto simp: split_netloc_def split: if_splits)
  have "list_all (\<lambda>c. \<not> ends_netloc c) n" unfolding n list_all_iff by (auto dest: set_takeWhileD)
  moreover have "rest = [] \<or> ends_netloc (hd rest)"
    unfolding rest using hd_dropWhile [of "\<lambda>c. \<not> ends_netloc c" "drop 2 url"] by blast
  ultimately show ?thesis ..
qed

lemma split_netloc_again:
  assumes "list_all (\<lambda>c. \<not> ends_netloc c) n" and "rest = [] \<or> ends_netloc (hd rest)"
  shows "split_netloc (''//'' @ n @ rest) = (n, rest)"
proof -
  have "\<forall>c \<in> set n. \<not> ends_netloc c" using assms(1) by (simp add: list_all_iff)
  moreover have "takeWhile (\<lambda>c. \<not> ends_netloc c) rest = []" "dropWhile (\<lambda>c. \<not> ends_netloc c) rest = rest"
    using assms(2) by (cases rest; simp)+
  ultimately show ?thesis by (simp add: split_netloc_def takeWhile_append2 dropWhile_append2)
qed

lemma urlencode_no_fragment: "CHR ''#'' \<notin> set (urlencode items)"
proof -
  have "CHR ''#'' \<notin> set (py_join [c] (map (\<lambda>(k, v). quote_plus k @ ''='' @ quote_plus v) its))"
    if "c \<noteq> CHR ''#''" for c its
    using that by (induction its rule: induct_list012) (auto simp: quote_plus_not)
  then show ?thesis by (simp add: urlencode_def)
qed

lemma urlencode_nonempty: "items \<noteq> [] \<Longrightarrow> urlencode items \<noteq> []"
  using parse_urlencode [of items] by (auto simp: parse_qsl_def)

text \<open>\<open>urlsplit(urlunsplit(parts._replace(query=q)))\<close> for an absolute URL with a host.\<close>

lemma urlsplit_query:
  assumes s: "u_scheme (urlsplit url) \<noteq> []" and n: "u_netloc (urlsplit url) \<noteq> []"
    and q: "CHR ''#'' \<notin> set q" "q \<noteq> []"
  shows "urlsplit (urlunsplit ((urlsplit url)\<lparr>u_query := q\<rparr>)) = (urlsplit url)\<lparr>u_query := q\<rparr>"
proof -
  obtain sc r1 where sc: "split_scheme url = (sc, r1)" by fastforce
  obtain nl r2 where nl: "split_netloc r1 = (nl, r2)" by fastforce
  obtain r3 f where f: "cut CHR ''#'' r2 = (r3, f)" by fastforce
  obtain pa old where pa: "cut CHR ''?'' r3 = (pa, old)" by fastforce
  have u: "urlsplit url = \<lparr>u_scheme = sc, u_netloc = nl, u_path = pa, u_query = old, u_fragment = f\<rparr>"
    by (simp add: urlsplit_def sc nl f pa)
  have wf: "wf_scheme sc" using split_scheme_wf [OF sc] s u by simp
  have nl2: "list_all (\<lambda>c. \<not> ends_netloc c) nl" "r2 = [] \<or> ends_netloc (hd r2)"
    using split_netloc_parts [OF nl] n u by simp_all
  have path: "pa = [] \<or> hd pa = CHR ''/''" and nq: "CHR ''?'' \<notin> set pa" "CHR ''#'' \<notin> set pa"
    using cut_parts [OF f] cut_parts [OF pa] nl2(2) by (cases pa; auto simp: ends_netloc_def)+
  let ?tail = "pa @ CHR ''?'' # q @ (if f = [] then [] else CHR ''#'' # f)"
  have "urlunsplit ((urlsplit url)\<lparr>u_query := q\<rparr>) = sc @ CHR '':'' # (''//'' @ nl @ ?tail)"
    using s n q path by (auto simp: u urlunsplit_def Let_def wf_scheme_def)
  then have "urlsplit (urlunsplit ((urlsplit url)\<lparr>u_query := q\<rparr>)) =
      urlsplit (sc @ CHR '':'' # (''//'' @ nl @ ?tail))" by (rule arg_cong)
  moreover have "split_netloc (''//'' @ nl @ ?tail) = (nl, ?tail)"
    using path by (intro split_netloc_again nl2(1)) (cases pa; auto simp: ends_netloc_def)
  moreover have "cut CHR ''#'' ?tail = (pa @ CHR ''?'' # q, f)"
    using nq q cut_at [of "CHR ''#''" "pa @ CHR ''?'' # q" f] cut_none [of "CHR ''#''" "pa @ CHR ''?'' # q"]
    by simp
  moreover have "cut CHR ''?'' (pa @ CHR ''?'' # q) = (pa, q)" by (rule cut_at [OF nq(1)])
  ultimately have "urlsplit (urlunsplit ((urlsplit url)\<lparr>u_query := q\<rparr>)) =
      \<lparr>u_scheme = sc, u_netloc = nl, u_path = pa, u_query = q, u_fragment = f\<rparr>"
    by (simp add: urlsplit_def [of "sc @ _"] split_scheme_again [OF wf])
  then show ?thesis by (simp only: u) simp
qed

end
