(* ===== verification/Doh_Client.thy ===== *)
theory Doh_Client
  imports Url Base64 App_Config Servers
begin

text \<open>
  The DoH clients of \<open>resolver/nameservers\<close>: \<open>doh_client_common.py\<close> (the request to send),
  \<open>doh_httpx.py\<close>, \<open>doh_aiohttp.py\<close>, \<open>doh_curl_cffi.py\<close> and \<open>doh_custom.py\<close> with their shared
  sessions. A session of a library is a number with what it was opened with; sending a request is
  the argument \<open>send\<close>, which gives the body of a successful HTTP response or raises.
\<close>

section \<open>Requests\<close>

record doh_request =
  dq_method :: string
  dq_url :: string
  dq_headers :: "(string \<times> string) list"
  dq_body :: "bytes option"

definition base64url_no_padding :: "bytes \<Rightarrow> string" where
  "base64url_no_padding data = py_rstrip (\<lambda>c. c = CHR ''='') (urlsafe_b64encode data)"

definition url_with_dns_param :: "string \<Rightarrow> bytes \<Rightarrow> string" where
  "url_with_dns_param url wire =
     (let parts = urlsplit url;
          query_items = parse_qsl (u_query parts) @ [(''dns'', base64url_no_padding wire)] in
      urlunsplit (parts\<lparr>u_query := urlencode query_items\<rparr>))"

definition build_doh_request ::
  "dnslib \<Rightarrow> message \<Rightarrow> string \<Rightarrow> bool \<Rightarrow> string option \<Rightarrow> doh_request res" where
  "build_doh_request L req url want_get http_host =
     andthen (to_wire L req) (\<lambda>wire.
     let headers = [(''Accept'', DOH_MEDIA_TYPE)] @
           (case http_host of Some h \<Rightarrow> if h \<noteq> [] then [(''Host'', h)] else [] | None \<Rightarrow> []) in
     Inr (if want_get
          then \<lparr>dq_method = ''GET'', dq_url = url_with_dns_param url wire, dq_headers = headers, dq_body = None\<rparr>
          else \<lparr>dq_method = ''POST'', dq_url = url,
                dq_headers = headers @ [(''Content-Type'', DOH_MEDIA_TYPE)], dq_body = Some wire\<rparr>))"

type_synonym frozen_hosts = "(string \<times> string list) list"

definition freeze_hosts :: "(string \<times> string list) list option \<Rightarrow> frozen_hosts" where
  "freeze_hosts hs = (case hs of None \<Rightarrow> [] | Some h \<Rightarrow> sort_key fst h)"

definition answer_nameserver :: "string \<Rightarrow> string" where
  "answer_nameserver url = (case url_hostname url of Some h \<Rightarrow> h | None \<Rightarrow> url)"

section \<open>Shared sessions\<close>

text \<open>\<open>doh_httpx.py\<close>: one client. The state is the client and the next number.\<close>

record 's sessions =
  ss_open :: 's
  ss_next :: nat

definition httpx_get_shared_client :: "(nat option sessions, nat) act" where
  "httpx_get_shared_client = (\<lambda>s. case ss_open s of Some client \<Rightarrow> (Inr client, s)
     | None \<Rightarrow> (Inr (ss_next s), \<lparr>ss_open = Some (ss_next s), ss_next = Suc (ss_next s)\<rparr>))"

text \<open>The clients that are closed.\<close>

definition httpx_close :: "nat option sessions \<Rightarrow> nat list \<times> nat option sessions" where
  "httpx_close s = ((case ss_open s of None \<Rightarrow> [] | Some c \<Rightarrow> [c]), s\<lparr>ss_open := None\<rparr>)"

text \<open>
  \<open>doh_custom.py\<close> keeps one client for each \<open>verify\<close>, \<open>doh_curl_cffi.py\<close> one session for each tuple
  of resolve entries: dictionaries by key.
\<close>

definition keyed_get_shared :: "'k \<Rightarrow> (('k \<times> nat) list sessions, nat) act" where
  "keyed_get_shared key = (\<lambda>s. case map_of (ss_open s) key of Some client \<Rightarrow> (Inr client, s)
     | None \<Rightarrow> (Inr (ss_next s),
         \<lparr>ss_open = dict_set key (ss_next s) (ss_open s), ss_next = Suc (ss_next s)\<rparr>))"

definition keyed_close :: "('k \<times> nat) list sessions \<Rightarrow> nat list \<times> ('k \<times> nat) list sessions" where
  "keyed_close s = (map snd (ss_open s), s\<lparr>ss_open := []\<rparr>)"

text \<open>
  \<open>doh_aiohttp.py\<close>: one session, opened for a bootstrap resolver and hosts. \<open>closed\<close> holds the
  sessions that are closed.
\<close>

record aiohttp_state =
  ah_session :: "nat option"
  ah_bootstrap :: "string list option"
  ah_hosts :: "frozen_hosts option"
  ah_closed :: "nat set"
  ah_next :: nat

definition aiohttp_get_shared_session :: "string list \<Rightarrow> frozen_hosts \<Rightarrow> (aiohttp_state, nat) act" where
  "aiohttp_get_shared_session boot hs = (\<lambda>s.
     case ah_session s of
       Some sess \<Rightarrow>
         if sess \<notin> ah_closed s then
           (if ah_bootstrap s \<noteq> Some boot \<or> ah_hosts s \<noteq> Some hs
            then (Inl (RuntimeError ''bootstrap_resolver/hosts changed while session is active''), s)
            else (Inr sess, s))
         else (Inr (ah_next s), s\<lparr>ah_session := Some (ah_next s), ah_bootstrap := Some boot,
                 ah_hosts := Some hs, ah_next := Suc (ah_next s)\<rparr>)
     | None \<Rightarrow> (Inr (ah_next s), s\<lparr>ah_session := Some (ah_next s), ah_bootstrap := Some boot,
                 ah_hosts := Some hs, ah_next := Suc (ah_next s)\<rparr>))"

definition aiohttp_close :: "aiohttp_state \<Rightarrow> aiohttp_state" where
  "aiohttp_close s = s\<lparr>ah_session := None, ah_bootstrap := None, ah_hosts := None,
     ah_closed := (case ah_session s of None \<Rightarrow> ah_closed s | Some sess \<Rightarrow> insert sess (ah_closed s))\<rparr>"

section \<open>Queries\<close>

text \<open>\<open>HostsAsyncResolver.resolve\<close>: \<open>lookup\<close> is the library's resolver, families are the versions.\<close>

definition normalize_host :: "string \<Rightarrow> string" where
  "normalize_host host = py_lower (rstrip_dot (py_strip host))"

record resolved_host =
  rh_hostname :: string
  rh_host :: string
  rh_port :: nat
  rh_family :: nat

fun hosts_resolve_results ::
  "string \<Rightarrow> nat \<Rightarrow> nat option \<Rightarrow> string list \<Rightarrow> resolved_host list res" where
  "hosts_resolve_results host port family [] = Inr []"
| "hosts_resolve_results host port family (address # rest) =
     andthen (ip_address address) (\<lambda>ip.
     andthen (hosts_resolve_results host port family rest) (\<lambda>results.
     Inr (if family \<noteq> None \<and> family \<noteq> Some (ip_version ip) then results
          else \<lparr>rh_hostname = host, rh_host = compressed ip, rh_port = port, rh_family = ip_version ip\<rparr> # results)))"

definition hosts_resolve ::
  "(string \<Rightarrow> nat \<Rightarrow> nat option \<Rightarrow> resolved_host list res) \<Rightarrow> frozen_hosts \<Rightarrow> string \<Rightarrow> nat \<Rightarrow> nat option \<Rightarrow>
   resolved_host list res" where
  "hosts_resolve lookup hs host port family =
     (case map_of (rev hs) (normalize_host host) of
        None \<Rightarrow> lookup host port family
      | Some addresses \<Rightarrow>
          andthen (hosts_resolve_results host port family addresses) (\<lambda>results.
          if results = [] then Inl (OtherError ''OSError: DNS lookup failed'') else Inr results))"

datatype resolver_choice = DefaultResolver | HostsResolver frozen_hosts "string list" | BootstrapResolver "string list"

definition aiohttp_build_resolver :: "string list \<Rightarrow> frozen_hosts \<Rightarrow> resolver_choice" where
  "aiohttp_build_resolver boot hs =
     (if hs \<noteq> [] then HostsResolver hs boot
      else if boot \<noteq> [] then BootstrapResolver boot
      else DefaultResolver)"

text \<open>The query of the three clients, around their library's request.\<close>

definition httpx_query ::
  "dnslib \<Rightarrow> (nat \<Rightarrow> doh_request \<Rightarrow> string option \<Rightarrow> bytes res) \<Rightarrow> string \<Rightarrow> bool \<Rightarrow> string option \<Rightarrow>
   string option \<Rightarrow> message \<Rightarrow> (nat option sessions, message) act" where
  "httpx_query L send url want_get http_host server_hostname req =
     act_bind (act_lift (build_doh_request L req url want_get http_host)) (\<lambda>q.
     act_bind httpx_get_shared_client (\<lambda>client.
     act_lift (andthen (send client q server_hostname) (from_wire L))))"

definition aiohttp_query ::
  "dnslib \<Rightarrow> (nat \<Rightarrow> doh_request \<Rightarrow> verify \<Rightarrow> string option \<Rightarrow> bytes res) \<Rightarrow> string \<Rightarrow> bool \<Rightarrow> string option \<Rightarrow>
   verify \<Rightarrow> string option \<Rightarrow> string list \<Rightarrow> frozen_hosts \<Rightarrow> message \<Rightarrow> (aiohttp_state, message) act" where
  "aiohttp_query L send url want_get http_host verify server_hostname bootstrap hs req =
     act_bind (act_lift (build_doh_request L req url want_get http_host)) (\<lambda>q.
     act_bind (aiohttp_get_shared_session bootstrap hs) (\<lambda>sess.
     act_lift (andthen (send sess q verify server_hostname) (from_wire L))))"

definition curl_resolve_address :: "string \<Rightarrow> string res" where
  "curl_resolve_address address = andthen (ip_address address) (\<lambda>ip.
     Inr (if ip_version ip = 6 then ''['' @ compressed ip @ '']'' else compressed ip))"

fun curl_addresses :: "string list \<Rightarrow> string list res" where
  "curl_addresses [] = Inr []"
| "curl_addresses (a # as) =
     andthen (curl_resolve_address a) (\<lambda>t. andthen (curl_addresses as) (\<lambda>ts. Inr (t # ts)))"

fun curl_resolve_entries :: "frozen_hosts \<Rightarrow> nat \<Rightarrow> string list res" where
  "curl_resolve_entries [] port = Inr []"
| "curl_resolve_entries ((host, addresses) # rest) port =
     andthen (curl_addresses addresses) (\<lambda>texts.
     andthen (curl_resolve_entries rest port) (\<lambda>entries.
     Inr ((host @ '':'' @ dec_str port @ '':'' @ py_join '','' texts) # entries)))"

definition curl_query ::
  "dnslib \<Rightarrow> (nat \<Rightarrow> doh_request \<Rightarrow> bool \<Rightarrow> http_version \<Rightarrow> string option \<Rightarrow> bytes res) \<Rightarrow> string \<Rightarrow> bool \<Rightarrow>
   string option \<Rightarrow> bool \<Rightarrow> http_version \<Rightarrow> string option \<Rightarrow> string list \<Rightarrow> message \<Rightarrow>
   ((string list \<times> nat) list sessions, message) act" where
  "curl_query L send url want_get http_host verify version fp resolve_entries req =
     act_bind (act_lift (build_doh_request L req url want_get http_host)) (\<lambda>q.
     act_bind (keyed_get_shared resolve_entries) (\<lambda>sess.
     act_lift (andthen (send sess q verify version fp) (from_wire L))))"

text \<open>\<open>DoHCustomNameserver\<close>: dnspython's own query, with a shared client when it can be used.\<close>

definition can_use_shared_client :: "string option \<Rightarrow> verify \<Rightarrow> http_version \<Rightarrow> bool" where
  "can_use_shared_client bootstrap_address verify version \<longleftrightarrow>
     bootstrap_address = None \<and> (case verify of VerifyFlag _ \<Rightarrow> True | VerifyFile _ \<Rightarrow> False) \<and>
     version \<in> {HTTP_DEFAULT, HTTP_H1, HTTP_H2}"

definition custom_query ::
  "(nat option \<Rightarrow> message \<Rightarrow> message res) \<Rightarrow> string option \<Rightarrow> verify \<Rightarrow> http_version \<Rightarrow> message \<Rightarrow>
   ((verify \<times> nat) list sessions, message) act" where
  "custom_query https bootstrap_address verify version req =
     (if can_use_shared_client bootstrap_address verify version
      then act_bind (keyed_get_shared verify) (\<lambda>client. act_lift (https (Some client) req))
      else act_lift (https None req))"

section \<open>A shared session is opened once\<close>

text \<open>
  What the modules that share sessions promise: a key that has a live session gets it, one that
  has none gets a new one, and closing closes every live session.
\<close>

locale shared_sessions =
  fixes get_session :: "'k \<Rightarrow> ('s, nat) act"
    and close_sessions :: "'s \<Rightarrow> nat list \<times> 's"
    and live :: "'s \<Rightarrow> 'k \<rightharpoonup> nat"
  assumes get_live: "live s k = Some c \<Longrightarrow> get_session k s = (Inr c, s)"
    and get_new: "live s k = None \<Longrightarrow> \<exists>c s'. get_session k s = (Inr c, s') \<and> live s' = (live s)(k \<mapsto> c)"
    and close_live: "ran (live s) \<subseteq> set (fst (close_sessions s))"
    and close_empty: "live (snd (close_sessions s)) = Map.empty"
begin

lemma get_total: "\<exists>c s'. get_session k s = (Inr c, s') \<and> live s' k = Some c"
proof (cases "live s k")
  case None
  from get_new [OF this] show ?thesis by auto
next
  case (Some c)
  with get_live [OF Some] show ?thesis by simp
qed

lemma get_again:
  "get_session k s = (r, s') \<Longrightarrow> get_session k s' = (r, s')"
  using get_total [of k s] get_live [of s' k] by auto

lemma get_keeps_others:
  "get_session k s = (r, s') \<Longrightarrow> k' \<noteq> k \<Longrightarrow> live s' k' = live s k'"
  using get_live [of s k] get_new [of s k] by (cases "live s k") auto

lemma closed_then_new: "live (snd (close_sessions s)) k = None"
  by (simp add: close_empty)

end

interpretation httpx: shared_sessions "\<lambda>_ :: unit. httpx_get_shared_client" httpx_close "\<lambda>s _. ss_open s"
  by unfold_locales
    (auto simp: httpx_get_shared_client_def httpx_close_def ran_def split: option.splits)

lemma map_of_values: "map_of d k = Some v \<Longrightarrow> v \<in> snd ` set d"
  by (force dest: map_of_SomeD)

interpretation keyed: shared_sessions keyed_get_shared keyed_close "\<lambda>s. map_of (ss_open s)"
  by unfold_locales
    (auto simp: keyed_get_shared_def keyed_close_def map_of_dict_set ran_def
      dest: map_of_values split: option.splits)

section \<open>Properties\<close>

text \<open>
  C34: the URL of a GET request differs from the configured one in its query only; the query holds
  the items of the configured query and after them \<open>dns\<close>, which the decoder of the DoH server
  reads back to the wire format of the request.
\<close>

theorem doh_get_url_carries_query:
  assumes "u_scheme (urlsplit url) \<noteq> []" and "u_netloc (urlsplit url) \<noteq> []"
    and wire: "to_wire L req = Inr wire" and bytes: "list_all (\<lambda>b. b < 256) wire"
  shows "\<exists>q d. build_doh_request L req url True http_host = Inr q \<and>
    urlsplit (dq_url q) = (urlsplit url)\<lparr>u_query := u_query (urlsplit (dq_url q))\<rparr> \<and>
    parse_qsl (u_query (urlsplit (dq_url q))) = parse_qsl (u_query (urlsplit url)) @ [(''dns'', d)] \<and>
    decode_doh_query d = Inr wire"
proof -
  let ?items = "parse_qsl (u_query (urlsplit url)) @ [(''dns'', base64url_no_padding wire)]"
  have "urlsplit (url_with_dns_param url wire) = (urlsplit url)\<lparr>u_query := urlencode ?items\<rparr>"
    unfolding url_with_dns_param_def Let_def
    by (rule urlsplit_query) (use assms(1,2) urlencode_no_fragment urlencode_nonempty in simp_all)
  then show ?thesis
    using wire decode_encode_doh [OF bytes]
    by (simp add: build_doh_request_def parse_urlencode base64url_no_padding_def)
qed

theorem doh_get_url_carries_query_witness:
  "\<exists>q d. build_doh_request sample_lib sample_request ''https://dns.example/q?k=v'' True None = Inr q \<and>
    parse_qsl (u_query (urlsplit (dq_url q))) = [(''k'', ''v''), (''dns'', d)] \<and>
    decode_doh_query d = Inr [5, 0, 0]"
proof -
  have w: "to_wire sample_lib sample_request = Inr [5, 0, 0]"
    by (simp add: sample_lib_def sample_request_def sample_message_def)
  have p: "parse_qsl (u_query (urlsplit ''https://dns.example/q?k=v'')) = [(''k'', ''v'')]" by code_simp
  have "u_scheme (urlsplit ''https://dns.example/q?k=v'') \<noteq> []"
    "u_netloc (urlsplit ''https://dns.example/q?k=v'') \<noteq> []" by code_simp+
  from doh_get_url_carries_query [OF this w, of None] show ?thesis by (auto simp: p)
qed

end
