(* ===== verification/Cache_Plugin.thy ===== *)
theory Cache_Plugin
  imports Plugin_Kit Single_Flight
begin

text \<open>
  \<open>plugins/cache_plugin/plugin.py\<close> over the service of \<open>Single_Flight\<close>. The service and the
  \<open>CachePluginContext\<close> of a request are parts of the world. While a request waits for another one
  the other requests work on the service: \<open>env n\<close> is what they do during the \<open>n\<close>-th wait, which
  ends when the event has its outcome.
\<close>

section \<open>State\<close>

record cache_context =
  cc_hit :: bool
  cc_shared :: bool
  cc_owner :: bool
  cc_key :: "cache_key option"

definition cache_context_new :: cache_context where
  "cache_context_new = \<lparr>cc_hit = False, cc_shared = False, cc_owner = False, cc_key = None\<rparr>"

text \<open>What the plugin is given: the codec, the LRU cache, the clock and its parts of the world.\<close>

record ('w, 'l) cache_env =
  ce_lib :: dnslib
  ce_lru :: "'l lru_lib"
  ce_now :: real
  ce_service :: "('w, 'l cache_service) part"
  ce_context :: "('w, cache_context) part"

definition upd_cache_context :: "('w, 'l) cache_env \<Rightarrow> (cache_context \<Rightarrow> cache_context) \<Rightarrow> ('w, unit) ctx_act" where
  "upd_cache_context V f = on_part (ce_context V) (act_upd f)"

definition get_cache_context :: "('w, 'l) cache_env \<Rightarrow> 'w ctx \<Rightarrow> cache_context" where
  "get_cache_context V c = part_get (ce_context V) (world c)"

definition get_service :: "('w, 'l) cache_env \<Rightarrow> 'w ctx \<Rightarrow> 'l cache_service" where
  "get_service V c = part_get (ce_service V) (world c)"

section \<open>\<open>on_request\<close>\<close>

definition use_cached :: "('w, 'l) cache_env \<Rightarrow> answer \<Rightarrow> ('w, unit) ctx_act" where
  "use_cached V a =
     act_bind (upd_cache_context V (\<lambda>x. x\<lparr>cc_hit := True\<rparr>)) (\<lambda>_.
     act_upd (\<lambda>c. case alloc_answer a (store_of c) of (i, st) \<Rightarrow>
       c\<lparr>metadata := (metadata c)(''cache_hit'' \<mapsto> ''True''), final_answer := Some i, store_of := st,
         stop_processing := True\<rparr>))"

definition use_shared :: "('w, 'l) cache_env \<Rightarrow> message \<Rightarrow> ('w, unit) ctx_act" where
  "use_shared V m =
     act_bind (upd_cache_context V (\<lambda>x. x\<lparr>cc_shared := True\<rparr>)) (\<lambda>_.
     act_bind (act_upd (\<lambda>c. c\<lparr>metadata := (metadata c)(''cache_shared'' \<mapsto> ''True''), final_response := Some m\<rparr>)) (\<lambda>_.
     act_bind (\<lambda>c. (build_answer_from_response (ce_lib V) (ce_now V) (request c) m, c)) (\<lambda>a.
     act_upd (\<lambda>c. case alloc_answer a (store_of c) of (i, st) \<Rightarrow>
       c\<lparr>final_answer := Some i, store_of := st, stop_processing := True\<rparr>))))"

text \<open>
  The \<open>while True\<close> loop. A wait whose event never gets an outcome does not end: \<open>Hang\<close>; so does
  a loop that uses up its fuel, the number of waits.
\<close>

fun cache_loop ::
  "('w, 'l) cache_env \<Rightarrow> (nat \<Rightarrow> 'l cache_service \<Rightarrow> 'l cache_service) \<Rightarrow> cache_key \<Rightarrow> nat \<Rightarrow> nat \<Rightarrow> ('w, unit) ctx_act" where
  "cache_loop V env key n 0 = act_raise Hang"
| "cache_loop V env key n (Suc fuel) =
     act_bind (\<lambda>c. on_part (ce_service V) (get_for_request (ce_lib V) (ce_lru V) (ce_now V) (request c)) c) (\<lambda>cached.
     case cached of
       Some a \<Rightarrow> use_cached V a
     | None \<Rightarrow>
         act_bind (on_part (ce_service V) (\<lambda>s. case service_acquire key s of (r, s') \<Rightarrow> (Inr r, s'))) (\<lambda>pending.
         case pending of
           None \<Rightarrow> upd_cache_context V (\<lambda>x. x\<lparr>cc_owner := True\<rparr>)
         | Some i \<Rightarrow>
             act_bind (on_part (ce_service V) (act_upd (env n))) (\<lambda>_. \<lambda>c.
             (case event_outcome (cs_table (get_service V c)) i of
                None \<Rightarrow> (Inl Hang, c)
              | Some wire \<Rightarrow>
                  act_bind (act_lift (shared_response (ce_lib V) wire (request c))) (\<lambda>shared.
                  case shared of None \<Rightarrow> cache_loop V env key (Suc n) fuel | Some m \<Rightarrow> use_shared V m) c))))"

definition cache_on_request ::
  "('w, 'l) cache_env \<Rightarrow> (nat \<Rightarrow> 'l cache_service \<Rightarrow> 'l cache_service) \<Rightarrow> nat \<Rightarrow> ('w, unit) ctx_act" where
  "cache_on_request V env fuel =
     act_bind (\<lambda>c. (make_key_from_request (request c), c)) (\<lambda>key.
     act_bind (upd_cache_context V (\<lambda>x. x\<lparr>cc_key := Some key\<rparr>)) (\<lambda>_.
     cache_loop V env key 0 fuel))"

section \<open>\<open>on_response\<close> and \<open>on_finish\<close>\<close>

text \<open>\<open>sync_answer_response(context.final_answer)\<close>: the answer after it.\<close>

definition synced_answer :: "('w, 'l) cache_env \<Rightarrow> nat \<Rightarrow> ('w, answer) ctx_act" where
  "synced_answer V i =
     act_bind (sync_answer_at (ce_lib V) i) (\<lambda>_. act_get (\<lambda>c. answers (store_of c) ! i))"

definition resolve_cacheable_answer :: "('w, 'l) cache_env \<Rightarrow> ('w, answer option) ctx_act" where
  "resolve_cacheable_answer V = (\<lambda>c.
     case final_answer c of
       Some i \<Rightarrow>
         (case final_response c of
            Some m \<Rightarrow> if msg_rcode m \<noteq> NOERROR then (Inr None, c)
                      else act_bind (synced_answer V i) (\<lambda>a. act_ret (Some a)) c
          | None \<Rightarrow> act_bind (synced_answer V i) (\<lambda>a. act_ret (Some a)) c)
     | None \<Rightarrow>
         (case final_response c of
            None \<Rightarrow> (Inr None, c)
          | Some m \<Rightarrow>
              if msg_rcode m \<noteq> NOERROR then (Inr None, c)
              else (andthen (build_answer_from_response (ce_lib V) (ce_now V) (request c) m) (\<lambda>a. Inr (Some a)), c)))"

definition resolve_response_to_share :: "('w, 'l) cache_env \<Rightarrow> ('w, message) ctx_act" where
  "resolve_response_to_share V = (\<lambda>c.
     case (final_answer c, final_response c) of
       (Some i, _) \<Rightarrow> act_bind (synced_answer V i) (\<lambda>a. act_ret (a_response a)) c
     | (None, Some m) \<Rightarrow> (Inr m, c)
     | (None, None) \<Rightarrow>
         (case make_error_response (ce_lib V) (request c) SERVFAIL of
            Inl e \<Rightarrow> (Inl e, c)
          | Inr m \<Rightarrow> (Inr m, c\<lparr>final_response := Some m\<rparr>)))"

definition complete_part :: "('w, 'l) cache_env \<Rightarrow> cache_key \<Rightarrow> message option \<Rightarrow> ('w, unit) ctx_act" where
  "complete_part V key response = on_part (ce_service V) (service_complete (ce_lib V) key response)"

definition share_result :: "('w, 'l) cache_env \<Rightarrow> answer option \<Rightarrow> ('w, unit) ctx_act" where
  "share_result V cached = (\<lambda>c.
     let x = get_cache_context V c in
     case (cc_owner x, cc_key x) of
       (True, Some key) \<Rightarrow>
         (case cached of
            Some _ \<Rightarrow> complete_part V key None c
          | None \<Rightarrow> act_bind (resolve_response_to_share V) (\<lambda>m. complete_part V key (Some m)) c)
     | _ \<Rightarrow> (Inr (), c))"

definition cache_on_response :: "('w, 'l) cache_env \<Rightarrow> ('w, unit) ctx_act" where
  "cache_on_response V = (\<lambda>c.
     let x = get_cache_context V c in
     if cc_hit x \<or> cc_shared x then (Inr (), c)
     else with_question (\<lambda>_.
       act_bind (resolve_cacheable_answer V) (\<lambda>cached.
       act_bind (case cached of None \<Rightarrow> act_ret ()
           | Some a \<Rightarrow> on_part (ce_service V) (put_answer (ce_lib V) (ce_lru V) a)) (\<lambda>_.
       share_result V cached))) c)"

definition cache_on_finish :: "('w, 'l) cache_env \<Rightarrow> ('w, unit) ctx_act" where
  "cache_on_finish V = (\<lambda>c.
     let x = get_cache_context V c in
     case (cc_owner x, cc_key x) of
       (True, Some key) \<Rightarrow>
         if \<not> has_pending key (get_service V c) then (Inr (), c)
         else act_bind (resolve_response_to_share V) (\<lambda>m. complete_part V key (Some m)) c
     | _ \<Rightarrow> (Inr (), c))"

definition cache_plugin ::
  "('w, 'l) cache_env \<Rightarrow> (nat \<Rightarrow> 'l cache_service \<Rightarrow> 'l cache_service) \<Rightarrow> nat \<Rightarrow> 'w plugin" where
  "cache_plugin V env fuel = (plugin_base ''cache-plugin'')\<lparr>response_order := 1000,
     on_request := cache_on_request V env fuel, on_response := cache_on_response V,
     on_finish := cache_on_finish V\<rparr>"

text \<open>\<open>setup\<close>: the service and the factory of the contexts are registered.\<close>

definition cache_setup ::
  "(nat \<Rightarrow> 'v) \<Rightarrow> (unit \<Rightarrow> 'v) \<Rightarrow> nat \<Rightarrow> ('v, 'm) plugin_registry \<Rightarrow> ('v, 'm) plugin_registry res" where
  "cache_setup mk_service mk_context max_size reg =
     andthen (register_context ''cache.service'' (mk_service max_size) reg)
       (register_context_factory ''cache.context'' mk_context)"

section \<open>Laws of the parts\<close>

definition parts_ok :: "('w, 'l) cache_env \<Rightarrow> bool" where
  "parts_ok V \<longleftrightarrow> part_ok (ce_service V) \<and> part_ok (ce_context V) \<and>
     (\<forall>w x. part_get (ce_service V) (part_put (ce_context V) x w) = part_get (ce_service V) w) \<and>
     (\<forall>w s. part_get (ce_context V) (part_put (ce_service V) s w) = part_get (ce_context V) w)"

lemma on_part_Inr:
  "on_part P m c = (Inr r, c') \<longleftrightarrow>
     (\<exists>s. m (part_get P (world c)) = (Inr r, s) \<and> c' = c\<lparr>world := part_put P s (world c)\<rparr>)"
  by (auto simp: on_part_def split: prod.splits)

lemma cache_parts_simps:
  assumes "parts_ok V"
  shows "get_service V (c\<lparr>world := part_put (ce_service V) s w\<rparr>) = s"
    and "get_cache_context V (c\<lparr>world := part_put (ce_context V) x w\<rparr>) = x"
    and "get_service V (c\<lparr>world := part_put (ce_context V) x w\<rparr>) = part_get (ce_service V) w"
    and "get_cache_context V (c\<lparr>world := part_put (ce_service V) s w\<rparr>) = part_get (ce_context V) w"
  using assms by (simp_all add: parts_ok_def part_ok_def get_service_def get_cache_context_def)

lemma use_cached_Inr:
  assumes "parts_ok V" and "use_cached V a c = (Inr u, c')"
  shows "cc_hit (get_cache_context V c') \<and> stop_processing c' \<and> final_answer c' \<noteq> None"
  using assms(2) cache_parts_simps [OF assms(1)]
  by (auto simp: use_cached_def upd_cache_context_def act_bind_Inr on_part_Inr act_upd_def alloc_answer_def
      get_cache_context_def part_ok_def parts_ok_def)

lemma use_shared_Inr:
  assumes "parts_ok V" and "use_shared V m c = (Inr u, c')"
  shows "cc_shared (get_cache_context V c') \<and> stop_processing c' \<and> final_response c' = Some m"
proof -
  from assms(2) obtain c1 a where c1: "upd_cache_context V (\<lambda>x. x\<lparr>cc_shared := True\<rparr>) c = (Inr (), c1)"
    and c': "c' = (case alloc_answer a (store_of c1) of (i, st) \<Rightarrow>
       c1\<lparr>metadata := (metadata c1)(''cache_shared'' \<mapsto> ''True''), final_response := Some m,
         final_answer := Some i, store_of := st, stop_processing := True\<rparr>)"
    by (auto simp: use_shared_def act_bind_Inr act_upd_def)
  from c1 obtain w where "c1 = c\<lparr>world := part_put (ce_context V) w (world c)\<rparr>" "cc_shared w"
    by (auto simp: upd_cache_context_def on_part_Inr act_upd_def)
  with c' assms(1) show ?thesis
    by (auto simp: alloc_answer_def get_cache_context_def parts_ok_def part_ok_def)
qed

lemma shared_response_id: "shared_response L w q = Inr (Some m) \<Longrightarrow> msg_id m = msg_id q"
  using clone_response_id by (cases w) (auto simp: shared_response_def andthen_Inr_iff)

text \<open>What a request is after the loop: a hit, a follower that shares, or the owner of the entry.\<close>

definition cache_outcome :: "('w, 'l) cache_env \<Rightarrow> cache_key \<Rightarrow> message \<Rightarrow> 'w ctx \<Rightarrow> bool" where
  "cache_outcome V key req c \<longleftrightarrow>
     (let x = get_cache_context V c in
      (cc_hit x \<and> stop_processing c \<and> final_answer c \<noteq> None) \<or>
      (cc_shared x \<and> stop_processing c \<and> (\<exists>m. final_response c = Some m \<and> msg_id m = msg_id req)) \<or>
      (cc_owner x \<and> has_pending key (get_service V c)))"

lemma acquire_owner: "service_acquire key s = (None, s') \<Longrightarrow> has_pending key s'"
  by (auto simp: service_acquire_def acquire_entry_def has_pending_def split: option.splits prod.splits)

lemma owner_outcome:
  assumes V: "parts_ok V" and "has_pending key (get_service V c)"
    and "upd_cache_context V (\<lambda>x. x\<lparr>cc_owner := True\<rparr>) c = (Inr u, c')"
  shows "cache_outcome V key req c'"
proof -
  from assms(3) obtain x where c': "c' = c\<lparr>world := part_put (ce_context V) x (world c)\<rparr>" "cc_owner x"
    by (auto simp: upd_cache_context_def on_part_Inr act_upd_def)
  then have "cc_owner (get_cache_context V c')" "get_service V c' = get_service V c"
    using cache_parts_simps(2,3) [OF V] by (simp_all add: get_service_def [of V c])
  with assms(2) show ?thesis by (simp add: cache_outcome_def Let_def)
qed

lemma cache_loop_outcome:
  assumes V: "parts_ok V"
  shows "cache_loop V env key n fuel c = (Inr u, c') \<Longrightarrow> cache_outcome V key (request c) c'"
proof (induction fuel arbitrary: n c)
  case 0
  then show ?case by (simp add: act_raise_def)
next
  case (Suc fuel)
  let ?get = "\<lambda>c. on_part (ce_service V) (get_for_request (ce_lib V) (ce_lru V) (ce_now V) (request c)) c"
  from Suc.prems obtain cached c1 where get: "?get c = (Inr cached, c1)"
    and rest: "(case cached of Some a \<Rightarrow> use_cached V a
     | None \<Rightarrow>
         act_bind (on_part (ce_service V) (\<lambda>s. case service_acquire key s of (r, s') \<Rightarrow> (Inr r, s'))) (\<lambda>pending.
         case pending of
           None \<Rightarrow> upd_cache_context V (\<lambda>x. x\<lparr>cc_owner := True\<rparr>)
         | Some i \<Rightarrow>
             act_bind (on_part (ce_service V) (act_upd (env n))) (\<lambda>_. \<lambda>c.
             (case event_outcome (cs_table (get_service V c)) i of
                None \<Rightarrow> (Inl Hang, c)
              | Some wire \<Rightarrow>
                  act_bind (act_lift (shared_response (ce_lib V) wire (request c))) (\<lambda>shared.
                  case shared of None \<Rightarrow> cache_loop V env key (Suc n) fuel | Some m \<Rightarrow> use_shared V m) c)))) c1 = (Inr u, c')"
    by (auto simp: act_bind_Inr)
  have r1: "request c1 = request c" using get by (auto simp: on_part_Inr)
  show ?case
  proof (cases cached)
    case (Some a)
    with rest use_cached_Inr [OF V] show ?thesis by (simp add: cache_outcome_def Let_def)
  next
    case None
    with rest obtain pending c2 where acq: "on_part (ce_service V)
        (\<lambda>s. case service_acquire key s of (r, s') \<Rightarrow> (Inr r, s')) c1 = (Inr pending, c2)"
      and rest2: "(case pending of
           None \<Rightarrow> upd_cache_context V (\<lambda>x. x\<lparr>cc_owner := True\<rparr>)
         | Some i \<Rightarrow>
             act_bind (on_part (ce_service V) (act_upd (env n))) (\<lambda>_. \<lambda>c.
             (case event_outcome (cs_table (get_service V c)) i of
                None \<Rightarrow> (Inl Hang, c)
              | Some wire \<Rightarrow>
                  act_bind (act_lift (shared_response (ce_lib V) wire (request c))) (\<lambda>shared.
                  case shared of None \<Rightarrow> cache_loop V env key (Suc n) fuel | Some m \<Rightarrow> use_shared V m) c))) c2 = (Inr u, c')"
      by (auto simp: act_bind_Inr)
    show ?thesis
    proof (cases pending)
      case p: None
      then have "has_pending key (get_service V c2)"
        using acq acquire_owner [of key "part_get (ce_service V) (world c1)"] cache_parts_simps(1) [OF V]
        by (cases "service_acquire key (part_get (ce_service V) (world c1))") (auto simp: on_part_Inr)
      with rest2 p show ?thesis using owner_outcome [OF V] by simp
    next
      case (Some i)
      with rest2 obtain c3 where c3: "on_part (ce_service V) (act_upd (env n)) c2 = (Inr (), c3)"
        and rest3: "(case event_outcome (cs_table (get_service V c3)) i of
                None \<Rightarrow> (Inl Hang, c3)
              | Some wire \<Rightarrow>
                  act_bind (act_lift (shared_response (ce_lib V) wire (request c3))) (\<lambda>shared.
                  case shared of None \<Rightarrow> cache_loop V env key (Suc n) fuel | Some m \<Rightarrow> use_shared V m) c3) = (Inr u, c')"
        by (auto simp: act_bind_Inr)
      have r3: "request c3 = request c" using c3 acq r1 by (auto simp: on_part_Inr split: prod.splits)
      from rest3 obtain wire shared where w: "shared_response (ce_lib V) wire (request c3) = Inr shared"
        and rest4: "(case shared of None \<Rightarrow> cache_loop V env key (Suc n) fuel | Some m \<Rightarrow> use_shared V m) c3 = (Inr u, c')"
        by (auto simp: act_bind_Inr act_lift_def split: option.splits)
      show ?thesis
      proof (cases shared)
        case s: None
        with Suc.IH [of "Suc n" c3] rest4 r3 show ?thesis by simp
      next
        case s: (Some m)
        then have "msg_id m = msg_id (request c)" using shared_response_id w r3 by simp
        with use_shared_Inr [OF V] rest4 s show ?thesis by (auto simp: cache_outcome_def Let_def)
      qed
    qed
  qed
qed

section \<open>The owner lets its followers go\<close>

lemma sync_answer_at_world: "world (snd (sync_answer_at L i c)) = world c"
  by (simp add: sync_answer_at_def split: prod.splits)

lemma resolve_response_world: "resolve_response_to_share V c = (r, c') \<Longrightarrow> world c' = world c"
proof -
  assume *: "resolve_response_to_share V c = (r, c')"
  have "world (snd (act_bind (synced_answer V i) (\<lambda>a. act_ret (a_response a)) c)) = world c" for i
    using sync_answer_at_world [of "ce_lib V" i c]
    by (cases "sync_answer_at (ce_lib V) i c"; cases "fst (sync_answer_at (ce_lib V) i c)")
      (simp_all add: synced_answer_def act_simps)
  note this [of "the (final_answer c)"]
  with * show ?thesis
    by (cases "final_answer c"; cases "final_response c")
      (auto simp: resolve_response_to_share_def split: sum.splits)
qed

lemma service_complete_done:
  assumes "service_complete L key response s = (Inr u, s')"
  shows "\<not> has_pending key s' \<and>
    (\<forall>i. pt_pending (cs_table s) key = Some i \<longrightarrow> i < length (pt_events (cs_table s)) \<longrightarrow>
       event_outcome (cs_table s') i \<noteq> None)"
  using assms
  by (auto simp: service_complete_def pop_entry_def has_pending_def set_event_def event_outcome_def
      split: option.splits sum.splits if_splits)

lemma cache_finish_done:
  assumes V: "parts_ok V" and x: "cc_owner (get_cache_context V c)" "cc_key (get_cache_context V c) = Some key"
    and fin: "cache_on_finish V c = (Inr u, c')"
  shows "\<not> has_pending key (get_service V c') \<and>
    (\<forall>i. pt_pending (cs_table (get_service V c)) key = Some i \<longrightarrow>
       i < length (pt_events (cs_table (get_service V c))) \<longrightarrow> event_outcome (cs_table (get_service V c')) i \<noteq> None)"
proof (cases "has_pending key (get_service V c)")
  case False
  with fin x show ?thesis by (auto simp: cache_on_finish_def Let_def has_pending_def)
next
  case True
  with fin x obtain m c1 where r: "resolve_response_to_share V c = (Inr m, c1)"
    and compl: "complete_part V key (Some m) c1 = (Inr u, c')"
    by (auto simp: cache_on_finish_def Let_def act_bind_Inr)
  from compl obtain s' where s': "service_complete (ce_lib V) key (Some m) (part_get (ce_service V) (world c1)) = (Inr u, s')"
    and c': "c' = c1\<lparr>world := part_put (ce_service V) s' (world c1)\<rparr>"
    by (auto simp: complete_part_def on_part_Inr)
  have "get_service V c' = s'" unfolding c' by (rule cache_parts_simps(1) [OF V])
  with service_complete_done [OF s'] resolve_response_world [OF r] show ?thesis
    by (simp add: get_service_def [of V c])
qed

section \<open>Properties\<close>


definition empty_lru :: "unit lru_lib" where
  "empty_lru = \<lparr>lru_get = (\<lambda>k l. (None, l)), lru_put = (\<lambda>k a l. l)\<rparr>"

definition sample_cache_env :: "(unit cache_service \<times> cache_context, unit) cache_env" where
  "sample_cache_env = \<lparr>ce_lib = hit_lib, ce_lru = empty_lru, ce_now = 0,
     ce_service = \<lparr>part_get = fst, part_put = (\<lambda>s w. (s, snd w))\<rparr>,
     ce_context = \<lparr>part_get = snd, part_put = (\<lambda>x w. (fst w, x))\<rparr>\<rparr>"

lemma sample_cache_parts: "parts_ok sample_cache_env"
  by (simp add: parts_ok_def part_ok_def sample_cache_env_def)

definition sample_cache_ctx :: "unit cache_service \<Rightarrow> cache_context \<Rightarrow> (unit cache_service \<times> cache_context) ctx" where
  "sample_cache_ctx s x = build_context (hit_message 9 0) ''c'' ''l'' \<lparr>answers = [], results = []\<rparr> [] (s, x)"

definition busy_service :: "unit cache_service" where
  "busy_service = \<lparr>cs_lru = (), cs_table = \<lparr>pt_pending = [sample_key \<mapsto> 0], pt_events = [None]\<rparr>\<rparr>"


text \<open>
  C25: When \<open>on_finish\<close> of an owner has run, nothing is pending under its key and whoever waited for
  the entry has its outcome, however the request ended. The entry is found by its key alone: an
  entry that another request has made under the key in the meantime is completed as well.
\<close>

theorem cache_finish_releases:
  assumes "parts_ok V" and "table_ok (cs_table (get_service V c))"
    and "cc_owner (get_cache_context V c)" and "cc_key (get_cache_context V c) = Some key"
    and "cache_on_finish V c = (Inr u, c')"
  shows "\<not> has_pending key (get_service V c') \<and>
    (\<forall>i. pt_pending (cs_table (get_service V c)) key = Some i \<longrightarrow>
       event_outcome (cs_table (get_service V c')) i \<noteq> None)"
  using cache_finish_done [OF assms(1,3,4,5)] table_okD(1) [OF assms(2)] by blast

theorem cache_finish_releases_witness:
  "\<not> has_pending sample_key (get_service sample_cache_env (snd (cache_on_finish sample_cache_env
     (sample_cache_ctx busy_service \<lparr>cc_hit = False, cc_shared = False, cc_owner = True, cc_key = Some sample_key\<rparr>))))"
proof -
  let ?c = "sample_cache_ctx busy_service \<lparr>cc_hit = False, cc_shared = False, cc_owner = True, cc_key = Some sample_key\<rparr>"
  have ok: "table_ok (cs_table (get_service sample_cache_env ?c))"
    by (rule table_okI) (auto simp: sample_cache_env_def get_service_def sample_cache_ctx_def build_context_def
        busy_service_def split: if_splits)
  have x: "cc_owner (get_cache_context sample_cache_env ?c)" "cc_key (get_cache_context sample_cache_env ?c) = Some sample_key"
    by (simp_all add: get_cache_context_def sample_cache_env_def sample_cache_ctx_def build_context_def)
  have "fst (cache_on_finish sample_cache_env ?c) = Inr ()"
    by (simp add: cache_on_finish_def sample_cache_ctx_def build_context_def sample_cache_env_def busy_service_def
        get_cache_context_def get_service_def has_pending_def resolve_response_to_share_def make_error_response_def
        hit_lib_def act_simps complete_part_def on_part_def service_complete_def pop_entry_def event_outcome_def)
  then obtain c' where c': "cache_on_finish sample_cache_env ?c = (Inr (), c')" by (metis prod.collapse)
  from cache_finish_releases [OF sample_cache_parts ok x c'] c' show ?thesis by simp
qed

end
