(* ===== verification/Query_Log.thy ===== *)
theory Query_Log
  imports Plugin_Kit
begin

text \<open>
  \<open>plugins/query_log_plugin\<close>: the store of log entries with its subscribers (\<open>service.py\<close>) and the
  plugin that fills it (\<open>plugin.py\<close>). The lock of the store makes each method a step, apart from
  \<open>append\<close>, which sets the events after it has given up the lock, and \<open>subscribe\<close>, which looks
  twice before it waits.
\<close>

section \<open>The store\<close>

record 'p log_store =
  ql_max :: nat
  ql_entries :: "(nat \<times> 'p) list"
  ql_next :: nat

definition log_store_new :: "nat \<Rightarrow> 'p log_store" where
  "log_store_new n = \<lparr>ql_max = n, ql_entries = [], ql_next = 1\<rparr>"

text \<open>\<open>deque(xs, maxlen=n)\<close> keeps the last \<open>n\<close>.\<close>

definition keep_last :: "nat \<Rightarrow> 'a list \<Rightarrow> 'a list" where
  "keep_last n xs = drop (length xs - n) xs"

definition log_resize :: "nat \<Rightarrow> 'p log_store \<Rightarrow> 'p log_store" where
  "log_resize n s = (if n = ql_max s then s else s\<lparr>ql_max := n, ql_entries := keep_last n (ql_entries s)\<rparr>)"

definition log_add :: "'p \<Rightarrow> 'p log_store \<Rightarrow> (nat \<times> 'p) \<times> 'p log_store" where
  "log_add payload s = ((ql_next s, payload),
     s\<lparr>ql_next := Suc (ql_next s), ql_entries := keep_last (ql_max s) (ql_entries s @ [(ql_next s, payload)])\<rparr>)"

definition list_recent :: "int \<Rightarrow> 'p log_store \<Rightarrow> (nat \<times> 'p) list" where
  "list_recent limit s = (if limit \<le> 0 then []
     else keep_last (min (nat limit) (ql_max s)) (ql_entries s))"

definition entries_after :: "nat \<Rightarrow> 'p log_store \<Rightarrow> (nat \<times> 'p) list" where
  "entries_after entry_id s = filter (\<lambda>e. fst e > entry_id) (ql_entries s)"

section \<open>Subscribers\<close>

text \<open>
  A subscriber is where its generator is: before the first look, before the second look with a
  new event, waiting, or giving out the items it has found. \<open>sb_out\<close> are the numbers it has given
  out. \<open>lg_to_set\<close> are the subscribers whose events a running \<open>append\<close> still has to set.
\<close>

datatype 'p sub_phase = Looking | LookingAgain | Waiting | Giving "(nat \<times> 'p) list"

record 'p subscriber =
  sb_last :: nat
  sb_event :: bool
  sb_phase :: "'p sub_phase"
  sb_out :: "nat list"

record 'p log_world =
  lg_store :: "'p log_store"
  lg_subs :: "nat \<rightharpoonup> 'p subscriber"
  lg_to_set :: "nat list"

definition subscribe_start :: "int option \<Rightarrow> 'p subscriber" where
  "subscribe_start after_id = \<lparr>sb_last = (case after_id of None \<Rightarrow> 0 | Some i \<Rightarrow> nat (max i 0)),
     sb_event = False, sb_phase = Looking, sb_out = []\<rparr>"

fun sub_look :: "'p log_store \<Rightarrow> 'p subscriber \<Rightarrow> 'p subscriber" where
  "sub_look s b = (let items = entries_after (sb_last b) s in
     case sb_phase b of
       Looking \<Rightarrow> if items \<noteq> [] then b\<lparr>sb_phase := Giving items\<rparr>
                  else b\<lparr>sb_event := False, sb_phase := LookingAgain\<rparr>
     | LookingAgain \<Rightarrow> if items \<noteq> [] then b\<lparr>sb_phase := Giving items\<rparr> else b\<lparr>sb_phase := Waiting\<rparr>
     | Giving [] \<Rightarrow> b\<lparr>sb_phase := Looking\<rparr>
     | Giving (x # xs) \<Rightarrow> b\<lparr>sb_last := fst x, sb_out := sb_out b @ [fst x], sb_phase := Giving xs\<rparr>
     | Waiting \<Rightarrow> b)"

inductive log_step :: "'p log_world \<Rightarrow> 'p log_world \<Rightarrow> bool" where
  subscribe: "i \<notin> dom (lg_subs w) \<Longrightarrow> i \<notin> set (lg_to_set w) \<Longrightarrow>
     log_step w (w\<lparr>lg_subs := (lg_subs w)(i \<mapsto> subscribe_start a)\<rparr>)"
| append: "set is = dom (lg_subs w) \<Longrightarrow>
     log_step w (w\<lparr>lg_store := snd (log_add p (lg_store w)), lg_to_set := lg_to_set w @ is\<rparr>)"
| set_event: "lg_to_set w = xs @ i # ys \<Longrightarrow> lg_subs w i = Some b \<Longrightarrow>
     log_step w (w\<lparr>lg_to_set := xs @ ys, lg_subs := (lg_subs w)(i \<mapsto> b\<lparr>sb_event := True\<rparr>)\<rparr>)"
| set_gone: "lg_to_set w = xs @ i # ys \<Longrightarrow> lg_subs w i = None \<Longrightarrow> log_step w (w\<lparr>lg_to_set := xs @ ys\<rparr>)"
| resize: "log_step w (w\<lparr>lg_store := log_resize n (lg_store w)\<rparr>)"
| look: "lg_subs w i = Some b \<Longrightarrow> log_step w (w\<lparr>lg_subs := (lg_subs w)(i \<mapsto> sub_look (lg_store w) b)\<rparr>)"
| wake: "lg_subs w i = Some b \<Longrightarrow> sb_phase b = Waiting \<Longrightarrow> sb_event b \<Longrightarrow>
     log_step w (w\<lparr>lg_subs := (lg_subs w)(i \<mapsto> b\<lparr>sb_phase := Looking\<rparr>)\<rparr>)"
| heartbeat: "lg_subs w i = Some b \<Longrightarrow> sb_phase b = Waiting \<Longrightarrow>
     log_step w (w\<lparr>lg_subs := (lg_subs w)(i \<mapsto> b\<lparr>sb_phase := Looking\<rparr>)\<rparr>)"
| close: "log_step w (w\<lparr>lg_subs := (lg_subs w)(i := None)\<rparr>)"

inductive log_reach :: "nat \<Rightarrow> 'p log_world \<Rightarrow> bool" for n where
  start: "log_reach n \<lparr>lg_store = log_store_new n, lg_subs = Map.empty, lg_to_set = []\<rparr>"
| step: "log_reach n w \<Longrightarrow> log_step w w' \<Longrightarrow> log_reach n w'"

section \<open>Invariants\<close>

text \<open>The entries are numbered in the order they came in.\<close>

definition store_ok :: "'p log_store \<Rightarrow> bool" where
  "store_ok s \<longleftrightarrow> sorted_wrt (<) (map fst (ql_entries s)) \<and> (\<forall>e \<in> set (ql_entries s). fst e < ql_next s)"

text \<open>
  What a subscriber has given out is increasing and ends at \<open>sb_last\<close>; what it is giving out is
  beyond that.
\<close>

definition sub_ok :: "'p subscriber \<Rightarrow> bool" where
  "sub_ok b \<longleftrightarrow> sorted_wrt (<) (sb_out b) \<and> (\<forall>i \<in> set (sb_out b). i \<le> sb_last b) \<and>
     (case sb_phase b of Giving xs \<Rightarrow> sorted_wrt (<) (map fst xs) \<and> (\<forall>x \<in> set xs. sb_last b < fst x) | _ \<Rightarrow> True)"

text \<open>A subscriber that waits with an event that is not set has nothing to give, or is about to be woken.\<close>

definition wakes :: "'p log_world \<Rightarrow> bool" where
  "wakes w \<longleftrightarrow> (\<forall>i b. lg_subs w i = Some b \<longrightarrow> sb_phase b = Waiting \<longrightarrow> \<not> sb_event b \<longrightarrow>
     entries_after (sb_last b) (lg_store w) \<noteq> [] \<longrightarrow> i \<in> set (lg_to_set w))"

definition log_ok :: "'p log_world \<Rightarrow> bool" where
  "log_ok w \<longleftrightarrow> store_ok (lg_store w) \<and> (\<forall>i b. lg_subs w i = Some b \<longrightarrow> sub_ok b) \<and> wakes w"

lemma keep_last_suffix: "\<exists>ys. xs = ys @ keep_last n xs"
  by (metis append_take_drop_id keep_last_def)

lemma keep_last_in: "x \<in> set (keep_last n xs) \<Longrightarrow> x \<in> set xs"
  by (simp add: keep_last_def in_set_dropD)

lemma keep_last_append1: "n > 0 \<Longrightarrow> keep_last n (xs @ [x]) = keep_last n (keep_last n xs @ [x])"
  by (cases "n \<le> length xs") (auto simp: keep_last_def Suc_diff_le)

lemma sorted_keep_last: "sorted_wrt P (map f xs) \<Longrightarrow> sorted_wrt P (map f (keep_last n xs))"
  by (simp add: keep_last_def drop_map sorted_wrt_drop flip: drop_map)

lemma store_ok_add: "store_ok s \<Longrightarrow> store_ok (snd (log_add p s))"
proof -
  assume ok: "store_ok s"
  have "sorted_wrt (<) (map fst (ql_entries s @ [(ql_next s, p)]))"
    using ok by (auto simp: store_ok_def sorted_wrt_append)
  moreover have "fst e < Suc (ql_next s)" if "e \<in> set (keep_last n (ql_entries s @ [(ql_next s, p)]))" for e n
    using keep_last_in [OF that] ok by (auto simp: store_ok_def)
  ultimately show ?thesis
    using sorted_keep_last [of "(<)" fst "ql_entries s @ [(ql_next s, p)]" "ql_max s"]
    by (auto simp: store_ok_def log_add_def)
qed

lemma store_ok_resize: "store_ok s \<Longrightarrow> store_ok (log_resize n s)"
  using sorted_keep_last [of "(<)" fst "ql_entries s" n]
  by (auto simp: store_ok_def log_resize_def dest: keep_last_in)

lemma sub_ok_look: "store_ok s \<Longrightarrow> sub_ok b \<Longrightarrow> sub_ok (sub_look s b)"
proof -
  assume s: "store_ok s" and b: "sub_ok b"
  have items: "sorted_wrt (<) (map fst (entries_after k s)) \<and> (\<forall>x \<in> set (entries_after k s). k < fst x)" for k
    using s by (auto simp: store_ok_def entries_after_def sorted_wrt_map sorted_wrt_filter)
  show ?thesis
  proof (cases "sb_phase b")
    case (Giving xs)
    with b show ?thesis
      by (cases xs) (auto simp: sub_ok_def sorted_wrt_append dest: less_imp_le order_le_less_trans)
  qed (use b items [of "sb_last b"] in \<open>auto simp: sub_ok_def Let_def\<close>)
qed

lemma wakes_look: "wakes w \<Longrightarrow> lg_subs w i = Some b \<Longrightarrow>
    wakes (w\<lparr>lg_subs := (lg_subs w)(i \<mapsto> sub_look (lg_store w) b)\<rparr>)"
proof -
  assume w: "wakes w" and b: "lg_subs w i = Some b"
  let ?b = "sub_look (lg_store w) b"
  have "sb_phase ?b = Waiting \<Longrightarrow> entries_after (sb_last ?b) (lg_store w) = [] \<or> ?b = b"
    by (cases "sb_phase b") (auto simp: Let_def split: if_splits list.splits)
  with w b show ?thesis by (auto simp: wakes_def)
qed

lemma log_step_ok: "log_step w w' \<Longrightarrow> log_ok w \<Longrightarrow> log_ok w'"
proof (induction rule: log_step.induct)
  case (subscribe i w a)
  then show ?case by (auto simp: log_ok_def wakes_def sub_ok_def subscribe_start_def)
next
  case (append "is" w p)
  then show ?case using store_ok_add [of "lg_store w" p] by (auto simp: log_ok_def wakes_def)
next
  case (set_event w xs i ys b)
  then have "sub_ok b" by (simp add: log_ok_def)
  then have "sub_ok (b\<lparr>sb_event := True\<rparr>)" by (simp add: sub_ok_def cong: sub_phase.case_cong)
  with set_event show ?case by (auto simp: log_ok_def wakes_def)
next
  case (set_gone w xs i ys)
  then show ?case by (fastforce simp: log_ok_def wakes_def)
next
  case (resize w n)
  have "set (entries_after k (log_resize n (lg_store w))) \<subseteq> set (entries_after k (lg_store w))" for k
    by (auto simp: entries_after_def log_resize_def dest: keep_last_in)
  then have "entries_after k (log_resize n (lg_store w)) \<noteq> [] \<Longrightarrow> entries_after k (lg_store w) \<noteq> []" for k
    by (metis set_empty subset_empty)
  with resize show ?case using store_ok_resize [of "lg_store w" n] by (auto simp: log_ok_def wakes_def)
next
  case (look w i b)
  then show ?case using wakes_look [of w i b] sub_ok_look [of "lg_store w" b] by (auto simp: log_ok_def)
next
  case (wake w i b)
  then show ?case by (auto simp: log_ok_def wakes_def sub_ok_def)
next
  case (heartbeat w i b)
  then show ?case by (auto simp: log_ok_def wakes_def sub_ok_def)
next
  case (close w i)
  then show ?case by (auto simp: log_ok_def wakes_def)
qed

lemma log_reach_ok: "log_reach n w \<Longrightarrow> log_ok w"
proof (induction rule: log_reach.induct)
  case start
  then show ?case by (simp add: log_ok_def store_ok_def wakes_def log_store_new_def)
next
  case (step w w')
  then show ?case using log_step_ok by blast
qed

section \<open>The plugin\<close>

record query_log_payload =
  qp_timestamp_ms :: int
  qp_qname :: string
  qp_qtype :: string
  qp_listener :: string
  qp_rcode :: string
  qp_summary :: string
  qp_upstream :: "string option"
  qp_duration_ms :: "real option"

text \<open>\<open>_build_result_summary\<close>\<close>

definition addresses_of :: "rrset \<Rightarrow> string list" where
  "addresses_of rr = List.map_filter rd_address (rr_items rr)"

definition result_summary :: "dnslib \<Rightarrow> answer option \<Rightarrow> message \<Rightarrow> string" where
  "result_summary L answer response =
     (let rcode_text = rcode_to_text L (msg_rcode response) in
      if msg_rcode response \<noteq> NOERROR then rcode_text
      else case answer of
        None \<Rightarrow> ''NOERROR empty''
      | Some a \<Rightarrow> (case a_rrset a of
          None \<Rightarrow> ''NOERROR empty''
        | Some rr \<Rightarrow>
            let type_text = rdtype_to_text L (a_type a);
                counted = '' x'' @ dec_str (length (rr_items rr)) in
            if a_type a \<in> {RT_A, RT_AAAA} then
              (let addresses = addresses_of rr in
               if addresses = [] then type_text @ counted
               else
                 let display = py_join '', '' (take 3 addresses) in
                 if length addresses > 3
                 then type_text @ '' '' @ display @ '' +'' @ dec_str (length addresses - 3)
                 else type_text @ '' '' @ display)
            else if a_type a = RT_HTTPS then ''HTTPS'' @ counted
            else type_text @ counted))"

definition query_log_payload_of :: "dnslib \<Rightarrow> real \<Rightarrow> question \<Rightarrow> message \<Rightarrow> 'w ctx \<Rightarrow> query_log_payload" where
  "query_log_payload_of L now q response c =
     (let upstream = (if upstream_results c = [] then None
                      else Some (results (store_of c) ! last (upstream_results c))) in
      \<lparr>qp_timestamp_ms = \<lfloor>now * 1000\<rfloor>,
       qp_qname = py_lower (rstrip_dot (q_name q)),
       qp_qtype = py_upper (rdtype_to_text L (q_type q)),
       qp_listener = listener_name c,
       qp_rcode = rcode_to_text L (msg_rcode response),
       qp_summary = result_summary L (map_option (\<lambda>i. answers (store_of c) ! i) (final_answer c)) response,
       qp_upstream = map_option upstream_name upstream,
       qp_duration_ms = map_option duration_ms upstream\<rparr>)"

text \<open>\<open>store\<close> is the part of the world with the plugin's \<open>_store\<close>, \<open>None\<close> before \<open>setup\<close>.\<close>

definition query_log_on_observe ::
  "dnslib \<Rightarrow> real \<Rightarrow> ('w, query_log_payload log_store option) part \<Rightarrow> ('w, unit) ctx_act" where
  "query_log_on_observe L now P = (\<lambda>c.
     case (part_get P (world c), final_response c) of
       (Some store, Some response) \<Rightarrow>
         if is_nested_resolve c then (Inr (), c)
         else (case question_of c of
             Inl e \<Rightarrow> (Inl e, c)
           | Inr q \<Rightarrow>
               (Inr (), c\<lparr>world := part_put P
                  (Some (snd (log_add (query_log_payload_of L now q response c) store))) (world c)\<rparr>))
     | _ \<Rightarrow> (Inr (), c))"

definition query_log_plugin ::
  "dnslib \<Rightarrow> real \<Rightarrow> ('w, query_log_payload log_store option) part \<Rightarrow> 'w plugin" where
  "query_log_plugin L now P = (plugin_base ''query-log-plugin'')\<lparr>on_observe := query_log_on_observe L now P\<rparr>"

text \<open>
  \<open>setup\<close>: a store that is registered as a value is resized and kept, otherwise a new one is
  registered. \<open>is_store\<close> is the check of the class.
\<close>

definition query_log_setup ::
  "('v \<Rightarrow> 'p log_store option) \<Rightarrow> ('p log_store \<Rightarrow> 'v) \<Rightarrow> nat \<Rightarrow> ('v, 'm) plugin_registry \<Rightarrow>
   ('p log_store \<times> ('v, 'm) plugin_registry) res" where
  "query_log_setup is_store mk n reg =
     (case map_of (context_registry reg) ''query_log.store'' of
        Some (RegValue v) \<Rightarrow> (case is_store v of
            Some s \<Rightarrow> Inr (log_resize n s, reg)
          | None \<Rightarrow> andthen (register_context ''query_log.store'' (mk (log_store_new n)) reg)
                      (\<lambda>reg'. Inr (log_store_new n, reg')))
      | _ \<Rightarrow> andthen (register_context ''query_log.store'' (mk (log_store_new n)) reg)
               (\<lambda>reg'. Inr (log_store_new n, reg')))"

text \<open>\<open>get_query_log_store(context)\<close>\<close>

definition get_query_log_store :: "('v \<Rightarrow> 'p log_store option) \<Rightarrow> (string \<rightharpoonup> 'v) \<Rightarrow> 'p log_store res" where
  "get_query_log_store is_store extensions = (case extensions ''query_log.store'' of
     None \<Rightarrow> Inl (KeyError ''query_log.store'')
   | Some v \<Rightarrow> (case is_store v of None \<Rightarrow> Inl (TypeError ''query_log.store'') | Some s \<Rightarrow> Inr s))"

section \<open>Properties\<close>


definition sample_log :: "nat log_world" where
  "sample_log = \<lparr>lg_store = snd (log_add 7 (log_store_new 2)),
     lg_subs = [0 \<mapsto> \<lparr>sb_last = 0, sb_event = False, sb_phase = Waiting, sb_out = []\<rparr>], lg_to_set = [0]\<rparr>"

lemma sample_log_reach: "log_reach 2 sample_log"
proof -
  let ?sub = "\<lambda>ph. \<lparr>sb_last = 0, sb_event = False, sb_phase = ph, sb_out = []\<rparr> :: nat subscriber"
  let ?w = "\<lambda>ph. \<lparr>lg_store = log_store_new 2, lg_subs = [0 \<mapsto> ?sub ph], lg_to_set = []\<rparr>"
  have look: "log_reach 2 (?w ph) \<Longrightarrow> sub_look (log_store_new 2) (?sub ph) = ?sub ph' \<Longrightarrow> log_reach 2 (?w ph')"
    for ph ph' using log_reach.step [OF _ log_step.look [of "?w ph" 0 "?sub ph"]] by simp
  have "log_reach 2 (?w Looking)"
    using log_reach.step [OF log_reach.start log_step.subscribe [of 0 _ None]]
    by (simp add: subscribe_start_def)
  then have "log_reach 2 (?w LookingAgain)" by (rule look) (simp add: entries_after_def log_store_new_def)
  then have "log_reach 2 (?w Waiting)" by (rule look) (simp add: entries_after_def log_store_new_def)
  from log_reach.step [OF this log_step.append [of "[0]" _ 7]] show ?thesis by (simp add: sample_log_def)
qed


text \<open>
  The store holds the last \<open>n\<close> entries in the order they came, numbered from one without gaps.
\<close>

theorem query_log_keeps_latest:
  assumes "0 < n"
  shows "ql_entries (fold (\<lambda>p s. snd (log_add p s)) ps (log_store_new n)) =
    keep_last n (zip [1..<Suc (length ps)] ps)"
proof -
  have "ql_entries (fold (\<lambda>p s. snd (log_add p s)) ps (log_store_new n)) = keep_last n (zip [1..<Suc (length ps)] ps) \<and>
    ql_next (fold (\<lambda>p s. snd (log_add p s)) ps (log_store_new n)) = Suc (length ps) \<and>
    ql_max (fold (\<lambda>p s. snd (log_add p s)) ps (log_store_new n)) = n"
  proof (induction ps rule: rev_induct)
    case (snoc p ps)
    have "zip [1..<Suc (length (ps @ [p]))] (ps @ [p]) = zip [1..<Suc (length ps)] ps @ [(Suc (length ps), p)]"
      using zip_append [of "[1..<Suc (length ps)]" ps "[Suc (length ps)]" "[p]"]
      by (simp add: upt_Suc_append del: upt_Suc)
    with snoc show ?case
      by (simp add: log_add_def keep_last_append1 [OF assms, symmetric] del: upt_Suc)
  qed (simp add: log_store_new_def keep_last_def)
  then show ?thesis ..
qed

theorem query_log_keeps_latest_witness:
  "ql_entries (fold (\<lambda>p s. snd (log_add p s)) [5, 6, 7] (log_store_new 2)) = [(2, 6), (3, 7 :: nat)]"
  using query_log_keeps_latest [of 2 "[5, 6, 7 :: nat]"] by (simp add: keep_last_def upt_rec)

end
