(* ===== verification/Calls.thy ===== *)
theory Calls
  imports Prelude
begin

text \<open>
  Calls to another process that wait for a reply. The pool of worker processes
  (\<open>core/multiprocess/pool.py\<close>) and the nested resolver inside a worker (\<open>worker.py\<close>) both keep a
  dictionary \<open>_pending\<close> from a call's identifier to an event and a holder for the outcome. The
  caller registers, waits for the event and takes its entry out again in a \<open>finally\<close>; whoever
  receives the reply fills the holder and sets the event. The caller keeps the event and the
  holder when the entry is gone, so both live in \<open>ct_cells\<close> here.
\<close>

record 'r calls =
  ct_pending :: "nat list"
  ct_cells :: "nat \<rightharpoonup> 'r option"

definition calls_empty :: "'r calls" where
  "calls_empty = \<lparr>ct_pending = [], ct_cells = Map.empty\<rparr>"

definition register_call :: "nat \<Rightarrow> 'r calls \<Rightarrow> 'r calls" where
  "register_call i t = t\<lparr>ct_pending := ct_pending t @ [i], ct_cells := (ct_cells t)(i \<mapsto> None)\<rparr>"

definition forget_call :: "nat \<Rightarrow> 'r calls \<Rightarrow> 'r calls" where
  "forget_call i t = t\<lparr>ct_pending := filter (\<lambda>j. j \<noteq> i) (ct_pending t)\<rparr>"

definition set_cell :: "nat \<Rightarrow> 'r \<Rightarrow> 'r calls \<Rightarrow> 'r calls" where
  "set_cell i r t = t\<lparr>ct_cells := (ct_cells t)(i \<mapsto> Some r)\<rparr>"

text \<open>The outcome of a call whose event is set.\<close>

definition call_outcome :: "'r calls \<Rightarrow> nat \<Rightarrow> 'r option" where
  "call_outcome t i = (case ct_cells t i of None \<Rightarrow> None | Some c \<Rightarrow> c)"

text \<open>\<open>_fail_pending\<close>: every waiting call gets the outcome, and the dictionary is cleared.\<close>

definition fail_all :: "'r \<Rightarrow> 'r calls \<Rightarrow> 'r calls" where
  "fail_all r t = (fold (\<lambda>i. set_cell i r) (ct_pending t) t)\<lparr>ct_pending := []\<rparr>"

section \<open>Who waits\<close>

text \<open>
  \<open>calls_ok t w n\<close>: the identifiers below \<open>n\<close> have been used, and each call of \<open>w\<close>, the callers
  that wait, has its outcome or can still be found by the one who receives the reply.
\<close>

definition calls_ok :: "'r calls \<Rightarrow> nat set \<Rightarrow> nat \<Rightarrow> bool" where
  "calls_ok t w n \<longleftrightarrow> set (ct_pending t) \<subseteq> dom (ct_cells t) \<and> dom (ct_cells t) \<subseteq> {..<n} \<and>
     w \<subseteq> dom (ct_cells t) \<and> (\<forall>i \<in> w. call_outcome t i \<noteq> None \<or> i \<in> set (ct_pending t))"

lemma calls_okD:
  assumes "calls_ok t w n"
  shows "set (ct_pending t) \<subseteq> dom (ct_cells t)" "dom (ct_cells t) \<subseteq> {..<n}" "w \<subseteq> dom (ct_cells t)"
    and "i \<in> w \<Longrightarrow> call_outcome t i \<noteq> None \<or> i \<in> set (ct_pending t)"
  using assms by (auto simp: calls_ok_def)

lemma calls_ok_empty: "calls_ok calls_empty {} n"
  by (simp add: calls_ok_def calls_empty_def)

lemma call_outcome_simps [simp]:
  "call_outcome (set_cell i r t) j = (if j = i then Some r else call_outcome t j)"
  "call_outcome (register_call i t) j = (if j = i then None else call_outcome t j)"
  "call_outcome (forget_call i t) j = call_outcome t j"
  by (simp_all add: call_outcome_def set_cell_def register_call_def forget_call_def)

lemma calls_ok_register:
  assumes "calls_ok t w n"
  shows "calls_ok (register_call n t) (insert n w) (Suc n)"
proof -
  have "n \<notin> w" using subset_trans [OF calls_okD(3,2) [OF assms]] by blast
  then have "\<forall>i \<in> insert n w. call_outcome (register_call n t) i \<noteq> None \<or>
      i \<in> set (ct_pending (register_call n t))"
    using calls_okD(4) [OF assms] by (auto simp: register_call_def [of n t] call_outcome_def)
  then show ?thesis
    using calls_okD(1-3) [OF assms] by (auto simp: calls_ok_def register_call_def)
qed

lemma calls_ok_mono: "calls_ok t w n \<Longrightarrow> v \<subseteq> w \<Longrightarrow> n \<le> m \<Longrightarrow> calls_ok t v m"
  unfolding calls_ok_def by force

lemma calls_ok_forget: "calls_ok t w n \<Longrightarrow> calls_ok (forget_call i t) (w - {i}) n"
  unfolding calls_ok_def by (auto simp: forget_call_def call_outcome_def)

lemma calls_ok_set_cell: "calls_ok t w n \<Longrightarrow> i \<in> dom (ct_cells t) \<Longrightarrow> calls_ok (set_cell i r t) w n"
  unfolding calls_ok_def by (auto simp: set_cell_def call_outcome_def)

lemma fold_set_cell:
  "ct_pending (fold (\<lambda>i. set_cell i r) is t) = ct_pending t"
  "dom (ct_cells (fold (\<lambda>i. set_cell i r) is t)) = dom (ct_cells t) \<union> set is"
  "call_outcome (fold (\<lambda>i. set_cell i r) is t) j = (if j \<in> set is then Some r else call_outcome t j)"
  by (induction "is" arbitrary: t) (auto simp: set_cell_def call_outcome_def)

lemma fail_all_outcome:
  "call_outcome (fail_all r t) i = (if i \<in> set (ct_pending t) then Some r else call_outcome t i)"
  using fold_set_cell(3) [of r "ct_pending t" t i] by (simp add: fail_all_def call_outcome_def)

lemma calls_ok_fail_all: "calls_ok t w n \<Longrightarrow> calls_ok (fail_all r t) w n"
  unfolding calls_ok_def fail_all_outcome
  by (auto simp: fail_all_def fold_set_cell)

text \<open>After \<open>_fail_pending\<close> nobody waits in vain.\<close>

lemma fail_all_wakes: "calls_ok t w n \<Longrightarrow> i \<in> w \<Longrightarrow> call_outcome (fail_all r t) i \<noteq> None"
  using calls_okD(4) [of t w n i] by (auto simp: fail_all_outcome)

section \<open>The interface to the receiver of replies\<close>

text \<open>
  What a receiver of replies promises: a call that is registered and has no outcome gets the
  outcome, an identifier that is not registered is ignored, and no other call is touched.
\<close>

locale receiver =
  fixes deliver :: "nat \<Rightarrow> 'r \<Rightarrow> 'r calls \<Rightarrow> 'r calls"
  assumes deliver_open: "i \<in> set (ct_pending t) \<Longrightarrow> call_outcome t i = None \<Longrightarrow> deliver i r t = set_cell i r t"
    and deliver_absent: "i \<notin> set (ct_pending t) \<Longrightarrow> deliver i r t = t"
    and deliver_set: "i \<in> set (ct_pending t) \<Longrightarrow> deliver i r t = t \<or> deliver i r t = set_cell i r t"
begin

lemma deliver_cases: "deliver i r t = t \<or> (i \<in> set (ct_pending t) \<and> deliver i r t = set_cell i r t)"
  using deliver_absent deliver_set by blast

lemma deliver_keeps: "ct_pending (deliver i r t) = ct_pending t"
  using deliver_cases [of i r t] by (auto simp: set_cell_def)

lemma deliver_other: "j \<noteq> i \<Longrightarrow> call_outcome (deliver i r t) j = call_outcome t j"
  using deliver_cases [of i r t] by auto

lemma ok_deliver: "calls_ok t w n \<Longrightarrow> calls_ok (deliver i r t) w n"
  using deliver_cases [of i r t] calls_ok_set_cell [of t w n i r] calls_okD(1) [of t w n]
  by (metis subsetD)

text \<open>A waiting call has its outcome, or the reply to it gives it its outcome.\<close>

lemma reply_arrives:
  assumes "calls_ok t w n" and "i \<in> w"
  shows "call_outcome t i \<noteq> None \<or> call_outcome (deliver i r t) i = Some r"
  using calls_okD(4) [OF assms] deliver_open [of i t r] by (cases "call_outcome t i") auto

end

end
