(* ===== verification/Worker_Pool.thy ===== *)
theory Worker_Pool
  imports Engine Calls "HOL-Library.Multiset"
begin

text \<open>
  \<open>core/multiprocess/ipc.py\<close> and \<open>pool.py\<close>: the master's side of the worker processes.

  A queue between processes is the list of its messages, with the capacity the configuration
  gives; a process is what its future says. Identifiers of requests (\<open>pid-counter\<close>) are the
  counter. The methods of the pool run on one event loop, so a method is a step up to its next
  \<open>await\<close>; those with an \<open>await\<close> are split there.
\<close>

section \<open>Messages between the processes\<close>

text \<open>What a worker sends; all but \<open>StopReader\<close> carry the worker's number and generation.\<close>

datatype pool_message =
    WorkerReady nat nat
  | QueryResponse nat nat nat "string option" "bytes option"
  | ResolveRequest nat nat nat string string string string "(string \<times> string) list"
  | QueryLog nat nat json
  | StopReader

text \<open>What a worker receives; the reply to a resolve request is an error or a wire.\<close>

datatype worker_message =
    QueryMessage nat bytes string string
  | ResolveResponse nat nat "string \<times> string + bytes"
  | StopMessage

fun message_origin :: "pool_message \<Rightarrow> (nat \<times> nat) option" where
  "message_origin (WorkerReady w g) = Some (w, g)"
| "message_origin (QueryResponse w g _ _ _) = Some (w, g)"
| "message_origin (ResolveRequest w g _ _ _ _ _ _) = Some (w, g)"
| "message_origin (QueryLog w g _) = Some (w, g)"
| "message_origin StopReader = None"

text \<open>\<open>serialize_resolve_error_type\<close>: the class of the exception. \<open>str(exc)\<close> is \<open>exn_text\<close>.\<close>

fun exn_class :: "py_exn \<Rightarrow> string" where
  "exn_class (ValueError _) = ''ValueError''"
| "exn_class (TypeError _) = ''TypeError''"
| "exn_class (KeyError _) = ''KeyError''"
| "exn_class IndexError = ''IndexError''"
| "exn_class (RuntimeError _) = ''RuntimeError''"
| "exn_class (FileNotFoundError _) = ''FileNotFoundError''"
| "exn_class (NotADirectoryError _) = ''NotADirectoryError''"
| "exn_class (TimeoutError _) = ''TimeoutError''"
| "exn_class (HTTPException _) = ''HTTPException''"
| "exn_class NXDOMAIN = ''NXDOMAIN''"
| "exn_class (NestedResolveError _) = ''NestedResolveError''"
| "exn_class (NestedResolveRecursionError _) = ''NestedResolveRecursionError''"
| "exn_class BrokenProcessPool = ''BrokenProcessPool''"
| "exn_class (OtherError t) = ''OtherError''"
| "exn_class Cancelled = ''CancelledError''"
| "exn_class Hang = []"

fun exn_text :: "py_exn \<Rightarrow> string" where
  "exn_text (ValueError t) = t"
| "exn_text (TypeError t) = t"
| "exn_text (KeyError t) = t"
| "exn_text (RuntimeError t) = t"
| "exn_text (FileNotFoundError t) = t"
| "exn_text (NotADirectoryError t) = t"
| "exn_text (TimeoutError t) = t"
| "exn_text (HTTPException n) = dec_str n"
| "exn_text (NestedResolveError t) = t"
| "exn_text (NestedResolveRecursionError t) = t"
| "exn_text (OtherError t) = t"
| "exn_text _ = []"

definition serialize_resolve_error_type :: "py_exn \<Rightarrow> string" where
  "serialize_resolve_error_type e = exn_class e"

definition deserialize_resolve_error :: "string \<Rightarrow> string \<Rightarrow> py_exn" where
  "deserialize_resolve_error error_type text =
     (if error_type = ''NXDOMAIN'' then NXDOMAIN
      else if error_type = ''NestedResolveRecursionError'' then NestedResolveRecursionError text
      else RuntimeError (if text \<noteq> [] then text else error_type))"

definition is_query_log_plugin_enabled :: "plugin_config list \<Rightarrow> bool" where
  "is_query_log_plugin_enabled ps = list_ex (\<lambda>p. p_enabled p \<and> p_module p = ''query_log_plugin'') ps"

text \<open>\<open>int(value)\<close> on what JSON can hold; \<open>int_of_text\<close> reads a text.\<close>

fun json_int :: "(string \<Rightarrow> int res) \<Rightarrow> json \<Rightarrow> int res" where
  "json_int int_of_text (JInt n) = Inr n"
| "json_int int_of_text (JBool b) = Inr (if b then 1 else 0)"
| "json_int int_of_text (JReal r) = Inr (if r < 0 then \<lceil>r\<rceil> else \<lfloor>r\<rfloor>)"
| "json_int int_of_text (JStr t) = int_of_text t"
| "json_int int_of_text _ = Inl (TypeError ''int()'')"

fun json_get :: "json \<Rightarrow> string \<Rightarrow> json option" where
  "json_get (JObj d) k = map_of d k"
| "json_get _ k = None"

fun query_log_max_entries :: "(string \<Rightarrow> int res) \<Rightarrow> plugin_config list \<Rightarrow> int res" where
  "query_log_max_entries int_of_text [] = Inr 500"
| "query_log_max_entries int_of_text (p # ps) =
     (if p_enabled p \<and> p_module p = ''query_log_plugin'' then
        (case json_get (p_config p) ''max_entries'' of
           None \<Rightarrow> Inr 500 | Some value \<Rightarrow> json_int int_of_text value)
      else query_log_max_entries int_of_text ps)"

section \<open>The pool\<close>

datatype future = Unfinished | Returned | Raised py_exn

definition future_done :: "future \<Rightarrow> bool" where
  "future_done f \<longleftrightarrow> f \<noteq> Unfinished"

record worker_handle =
  wh_id :: nat
  wh_generation :: nat
  wh_future :: future

text \<open>The outcome of a call: the text of an error, or the wire (\<open>None\<close> for a dropped request).\<close>

type_synonym reply = "string + bytes option"

record pool =
  pl_size :: nat
  pl_count :: nat
  pl_workers :: "worker_handle list"
  pl_queues :: "worker_message list list"
  pl_executor :: bool
  pl_calls :: "reply calls"
  pl_next_request :: nat
  pl_next_turn :: nat
  pl_next_generation :: nat
  pl_stopping :: bool
  pl_restarting :: bool
  pl_task_group :: bool

definition pool_init :: "nat \<Rightarrow> nat \<Rightarrow> pool" where
  "pool_init capacity n = \<lparr>pl_size = capacity, pl_count = n, pl_workers = [], pl_queues = [],
     pl_executor = False, pl_calls = calls_empty, pl_next_request = 1, pl_next_turn = 0,
     pl_next_generation = 1, pl_stopping = False, pl_restarting = False, pl_task_group = False\<rparr>"

subsection \<open>Queues and workers\<close>

text \<open>\<open>queue.put_nowait\<close> on the queue of a worker; a queue that is closed is gone from the list.\<close>

definition queue_put :: "nat \<Rightarrow> worker_message \<Rightarrow> (pool, unit) act" where
  "queue_put w m = (\<lambda>s.
     if w \<ge> length (pl_queues s) then (Inl (ValueError ''queue is closed''), s)
     else if length (pl_queues s ! w) \<ge> pl_size s then (Inl (OtherError ''queue.Full''), s)
     else (Inr (), s\<lparr>pl_queues := (pl_queues s)[w := pl_queues s ! w @ [m]]\<rparr>))"

text \<open>\<open>ipc.put_nowait\<close>\<close>

definition put_nowait :: "nat \<Rightarrow> worker_message \<Rightarrow> pool \<Rightarrow> pool" where
  "put_nowait w m s = snd (queue_put w m s)"

definition create_ipc_resources :: "pool \<Rightarrow> pool" where
  "create_ipc_resources s = s\<lparr>pl_queues := replicate (pl_count s) []\<rparr>"

definition create_executor :: "pool \<Rightarrow> pool" where
  "create_executor s = s\<lparr>pl_executor := True\<rparr>"

definition start_worker :: "nat \<Rightarrow> (pool, worker_handle) act" where
  "start_worker worker_id = (\<lambda>s.
     if \<not> pl_executor s then (Inl (RuntimeError ''worker executor not started''), s)
     else if worker_id \<ge> length (pl_queues s) then (Inl IndexError, s)
     else (Inr \<lparr>wh_id = worker_id, wh_generation = pl_next_generation s, wh_future = Unfinished\<rparr>,
           s\<lparr>pl_next_generation := Suc (pl_next_generation s)\<rparr>))"

fun start_list :: "nat list \<Rightarrow> (pool, worker_handle list) act" where
  "start_list [] = act_ret []"
| "start_list (i # is) =
     act_bind (start_worker i) (\<lambda>w. act_bind (start_list is) (\<lambda>ws. act_ret (w # ws)))"

definition start_workers :: "(pool, unit) act" where
  "start_workers =
     act_bind (\<lambda>s. start_list [0..<pl_count s] s) (\<lambda>ws. act_upd (\<lambda>s. s\<lparr>pl_workers := ws\<rparr>))"

definition pool_start :: "(pool, unit) act" where
  "pool_start =
     act_bind (act_upd (\<lambda>s. create_executor (create_ipc_resources (s\<lparr>pl_task_group := True\<rparr>)))) (\<lambda>_.
     start_workers)"

definition worker_by_id :: "pool \<Rightarrow> nat \<Rightarrow> worker_handle option" where
  "worker_by_id s worker_id = find (\<lambda>w. wh_id w = worker_id) (pl_workers s)"

definition is_current_worker_message :: "pool \<Rightarrow> pool_message \<Rightarrow> bool" where
  "is_current_worker_message s m =
     (case message_origin m of None \<Rightarrow> False
      | Some (worker_id, generation) \<Rightarrow>
          (case worker_by_id s worker_id of None \<Rightarrow> False | Some w \<Rightarrow> wh_generation w = generation))"

text \<open>\<open>_next_worker\<close>: the first worker that runs, from the turn on.\<close>

definition rotation :: "nat \<Rightarrow> 'a list \<Rightarrow> 'a list" where
  "rotation start xs = map (\<lambda>offset. xs ! ((start + offset) mod length xs)) [0..<length xs]"

definition next_worker :: "(pool, worker_handle) act" where
  "next_worker = (\<lambda>s.
     if pl_workers s = [] then (Inl (RuntimeError ''worker pool not started''), s)
     else (case find (\<lambda>w. \<not> future_done (wh_future w)) (rotation (pl_next_turn s) (pl_workers s)) of
             Some w \<Rightarrow> Inr w
           | None \<Rightarrow> Inl (RuntimeError ''no worker available''),
           s\<lparr>pl_next_turn := Suc (pl_next_turn s)\<rparr>))"

subsection \<open>Queries\<close>

definition upd_calls :: "(reply calls \<Rightarrow> reply calls) \<Rightarrow> pool \<Rightarrow> pool" where
  "upd_calls f s = s\<lparr>pl_calls := f (pl_calls s)\<rparr>"

text \<open>
  \<open>process_query\<close> up to \<open>event.wait()\<close>, with the identifier of the call. What the \<open>try\<close> block
  raises is passed on after the entry is taken out; what is raised before it is not.
\<close>

fun query_timeout :: "py_exn \<Rightarrow> py_exn" where
  "query_timeout (TimeoutError _) = TimeoutError ''UDP query timeout''"
| "query_timeout e = e"

definition enqueue_query :: "dnslib \<Rightarrow> worker_handle \<Rightarrow> nat \<Rightarrow> message \<Rightarrow> string \<Rightarrow> string \<Rightarrow> (pool, unit) act" where
  "enqueue_query L w i req caddr lname =
     act_bind (act_lift (to_wire L req)) (\<lambda>wire. queue_put (wh_id w) (QueryMessage i wire caddr lname))"

definition begin_query :: "dnslib \<Rightarrow> message \<Rightarrow> string \<Rightarrow> string \<Rightarrow> (pool, nat) act" where
  "begin_query L req caddr lname =
     act_bind (act_get pl_next_request) (\<lambda>i.
     act_bind (act_upd (\<lambda>s. upd_calls (register_call i) (s\<lparr>pl_next_request := Suc i\<rparr>))) (\<lambda>_.
     act_bind next_worker (\<lambda>w. \<lambda>s.
       case enqueue_query L w i req caddr lname s of
         (Inl e, s') \<Rightarrow> (Inl (query_timeout e), upd_calls (forget_call i) s')
       | (Inr _, s') \<Rightarrow> (Inr i, s'))))"

text \<open>The rest of \<open>process_query\<close>, when the event is set, or when the wait is given up.\<close>

definition read_reply :: "dnslib \<Rightarrow> reply \<Rightarrow> message option res" where
  "read_reply L r = (case r of
     Inl error \<Rightarrow> Inl (RuntimeError error)
   | Inr None \<Rightarrow> Inr None
   | Inr (Some wire) \<Rightarrow> andthen (from_wire L wire) (\<lambda>m. Inr (Some m)))"

definition end_query :: "dnslib \<Rightarrow> nat \<Rightarrow> reply \<Rightarrow> (pool, message option) act" where
  "end_query L i r =
     act_bind (act_upd (upd_calls (forget_call i))) (\<lambda>_. act_lift (read_reply L r))"

definition give_up_query :: "nat \<Rightarrow> py_exn \<Rightarrow> (pool, message option) act" where
  "give_up_query i e =
     act_bind (act_upd (upd_calls (forget_call i))) (\<lambda>_. act_raise (query_timeout e))"

subsection \<open>Messages of the workers\<close>

text \<open>\<open>_handle_query_response\<close>: an empty error is no error.\<close>

definition deliver_reply :: "nat \<Rightarrow> reply \<Rightarrow> reply calls \<Rightarrow> reply calls" where
  "deliver_reply i r t = (if i \<notin> set (ct_pending t) then t else set_cell i r t)"

definition handle_query_response :: "nat \<Rightarrow> string option \<Rightarrow> bytes option \<Rightarrow> pool \<Rightarrow> pool" where
  "handle_query_response i err wire =
     upd_calls (deliver_reply i (case err of Some e \<Rightarrow> if e \<noteq> [] then Inl e else Inr wire | None \<Rightarrow> Inr wire))"

text \<open>\<open>_handle_result\<close>: the new state and the message for which a task is started.\<close>

definition handle_result :: "pool_message \<Rightarrow> pool \<Rightarrow> pool_message list \<times> pool" where
  "handle_result m s = (case m of
     QueryResponse w g i err wire \<Rightarrow>
       if \<not> is_current_worker_message s m then ([], s) else ([], handle_query_response i err wire s)
   | ResolveRequest w g i qname qtype caddr lname chain \<Rightarrow>
       if \<not> is_current_worker_message s m then ([], s) else (if pl_task_group s then [m] else [], s)
   | QueryLog w g payload \<Rightarrow>
       if \<not> is_current_worker_message s m then ([], s) else (if pl_task_group s then [m] else [], s)
   | WorkerReady w g \<Rightarrow> ([], s)
   | StopReader \<Rightarrow> ([], s))"

text \<open>\<open>_handle_resolve_request\<close>, with the answer of the manager's \<open>resolve_nested_query\<close>.\<close>

definition resolve_reply :: "dnslib \<Rightarrow> answer res \<Rightarrow> string \<times> string + bytes" where
  "resolve_reply L result =
     (case andthen result (\<lambda>a.
             case sync_answer_response L a of (r, a') \<Rightarrow> andthen r (\<lambda>_. to_wire L (a_response a'))) of
        Inl e \<Rightarrow> Inl (serialize_resolve_error_type e, exn_text e)
      | Inr wire \<Rightarrow> Inr wire)"

definition handle_resolve_request :: "dnslib \<Rightarrow> answer res \<Rightarrow> nat \<Rightarrow> nat \<Rightarrow> pool \<Rightarrow> pool" where
  "handle_resolve_request L result w resolve_id s = (case worker_by_id s w of
     None \<Rightarrow> s
   | Some worker \<Rightarrow>
       put_nowait (wh_id worker) (ResolveResponse resolve_id (wh_generation worker) (resolve_reply L result)) s)"

subsection \<open>Supervision\<close>

definition fail_pending :: "string \<Rightarrow> pool \<Rightarrow> pool" where
  "fail_pending error = upd_calls (fail_all (Inl error))"

text \<open>
  \<open>_restart_finished_workers_once\<close>: workers whose task is over are started again; \<open>True\<close> when the
  pool is broken and has to be rebuilt, which ends the loop.
\<close>

fun restart_loop :: "(nat \<times> worker_handle) list \<Rightarrow> (pool, bool) act" where
  "restart_loop [] = act_ret False"
| "restart_loop ((index, worker) # rest) =
     (if \<not> future_done (wh_future worker) then restart_loop rest
      else if wh_future worker = Raised BrokenProcessPool then act_ret True
      else (\<lambda>s. if pl_restarting s \<or> pl_stopping s then (Inr False, s)
           else act_bind (start_worker (wh_id worker)) (\<lambda>new.
                act_bind (act_upd (\<lambda>s. s\<lparr>pl_workers := (pl_workers s)[index := new]\<rparr>)) (\<lambda>_.
                restart_loop rest)) s))"

definition restart_finished_workers_once :: "(pool, bool) act" where
  "restart_finished_workers_once = (\<lambda>s.
     if pl_restarting s \<or> pl_stopping s then (Inr False, s)
     else restart_loop (zip [0..<length (pl_workers s)] (pl_workers s)) s)"

text \<open>\<open>_restart_broken_pool\<close> before and after it waits for the reader and the executor to end.\<close>

definition begin_restart :: "pool \<Rightarrow> pool" where
  "begin_restart s = (if pl_restarting s \<or> pl_stopping s then s
     else fail_pending ''worker pool broken'' (s\<lparr>pl_restarting := True\<rparr>))"

definition close_ipc_resources :: "pool \<Rightarrow> pool" where
  "close_ipc_resources s = s\<lparr>pl_queues := []\<rparr>"

definition end_restart :: "(pool, unit) act" where
  "end_restart =
     act_bind (act_upd (\<lambda>s. close_ipc_resources (s\<lparr>pl_executor := False\<rparr>))) (\<lambda>_.
     act_bind (act_upd (\<lambda>s. create_executor (create_ipc_resources (s\<lparr>pl_workers := []\<rparr>)))) (\<lambda>_.
     act_finally start_workers (act_upd (\<lambda>s. s\<lparr>pl_restarting := False\<rparr>))))"

subsection \<open>Stopping\<close>

text \<open>\<open>stop\<close> before it waits for the workers, and after.\<close>

definition begin_stop :: "pool \<Rightarrow> pool" where
  "begin_stop s = fold (\<lambda>w. put_nowait (wh_id w) StopMessage) (pl_workers s) (s\<lparr>pl_stopping := True\<rparr>)"

definition end_stop :: "pool \<Rightarrow> pool" where
  "end_stop s = close_ipc_resources (fail_pending ''worker pool stopped''
     (s\<lparr>pl_executor := False, pl_workers := []\<rparr>))"

text \<open>
  The calls of \<open>_stop_executor\<close>, by what is still running after each wait of three seconds.
\<close>

datatype executor_call = Shutdown | Terminate | Kill

definition stop_executor :: "bool \<Rightarrow> bool \<Rightarrow> bool \<Rightarrow> bool \<Rightarrow> executor_call list" where
  "stop_executor executor futures pending_after_stop pending_after_terminate =
     (if \<not> executor then []
      else let pending = futures \<and> pending_after_stop in
        if \<not> pending then [Shutdown]
        else Terminate # (if pending_after_terminate then [Kill] else []))"

section \<open>Runs of the pool\<close>

text \<open>
  The pool with the calls that wait, in any interleaving: calls begin, wake up or are given up,
  messages of the workers arrive, workers take their messages and end, the supervisor works, the
  pool is rebuilt and stopped.
\<close>

record pool_run =
  pr_pool :: pool
  pr_waiting :: "nat set"

definition end_worker :: "nat \<Rightarrow> future \<Rightarrow> pool \<Rightarrow> pool" where
  "end_worker i f s = s\<lparr>pl_workers := (pl_workers s)[i := (pl_workers s ! i)\<lparr>wh_future := f\<rparr>]\<rparr>"

definition take_message :: "nat \<Rightarrow> pool \<Rightarrow> pool" where
  "take_message i s = s\<lparr>pl_queues := (pl_queues s)[i := tl (pl_queues s ! i)]\<rparr>"

inductive pool_step :: "dnslib \<Rightarrow> pool_run \<Rightarrow> pool_run \<Rightarrow> bool" for L where
  call: "begin_query L req ca li (pr_pool s) = (Inr i, p) \<Longrightarrow>
     pool_step L s \<lparr>pr_pool = p, pr_waiting = insert i (pr_waiting s)\<rparr>"
| call_fails: "begin_query L req ca li (pr_pool s) = (Inl e, p) \<Longrightarrow> pool_step L s (s\<lparr>pr_pool := p\<rparr>)"
| wake: "i \<in> pr_waiting s \<Longrightarrow> call_outcome (pl_calls (pr_pool s)) i = Some r \<Longrightarrow>
     pool_step L s \<lparr>pr_pool = snd (end_query L i r (pr_pool s)), pr_waiting = pr_waiting s - {i}\<rparr>"
| give_up: "i \<in> pr_waiting s \<Longrightarrow>
     pool_step L s \<lparr>pr_pool = snd (give_up_query i e (pr_pool s)), pr_waiting = pr_waiting s - {i}\<rparr>"
| message: "pool_step L s (s\<lparr>pr_pool := snd (handle_result m (pr_pool s))\<rparr>)"
| resolve: "pool_step L s (s\<lparr>pr_pool := handle_resolve_request L result w rid (pr_pool s)\<rparr>)"
| worker_takes: "pool_step L s (s\<lparr>pr_pool := take_message i (pr_pool s)\<rparr>)"
| worker_ends: "i < length (pl_workers (pr_pool s)) \<Longrightarrow> future_done f \<Longrightarrow>
     pool_step L s (s\<lparr>pr_pool := end_worker i f (pr_pool s)\<rparr>)"
| supervise: "restart_finished_workers_once (pr_pool s) = (r, p) \<Longrightarrow>
     pool_step L s (s\<lparr>pr_pool := (if r = Inr True then begin_restart p else p)\<rparr>)"
| rebuild: "pl_restarting (pr_pool s) \<Longrightarrow> pool_step L s (s\<lparr>pr_pool := snd (end_restart (pr_pool s))\<rparr>)"
| stop: "pool_step L s (s\<lparr>pr_pool := begin_stop (pr_pool s)\<rparr>)"
| stopped: "pl_stopping (pr_pool s) \<Longrightarrow> pool_step L s (s\<lparr>pr_pool := end_stop (pr_pool s)\<rparr>)"

inductive pool_reach :: "dnslib \<Rightarrow> nat \<Rightarrow> nat \<Rightarrow> pool_run \<Rightarrow> bool" for L capacity n where
  started: "pool_start (pool_init capacity n) = (Inr (), p) \<Longrightarrow>
     pool_reach L capacity n \<lparr>pr_pool = p, pr_waiting = {}\<rparr>"
| step: "pool_reach L capacity n s \<Longrightarrow> pool_step L s s' \<Longrightarrow> pool_reach L capacity n s'"

subsection \<open>What does not touch the calls\<close>

text \<open>The part of the pool the calls depend on.\<close>

definition call_part :: "pool \<Rightarrow> reply calls \<times> nat" where
  "call_part s = (pl_calls s, pl_next_request s)"

definition worker_part :: "pool \<Rightarrow> worker_handle list \<times> nat" where
  "worker_part s = (pl_workers s, pl_next_generation s)"

lemma upd_calls_simps [simp]:
  "pl_calls (upd_calls f s) = f (pl_calls s)" "pl_next_request (upd_calls f s) = pl_next_request s"
  "worker_part (upd_calls f s) = worker_part s" "pl_next_turn (upd_calls f s) = pl_next_turn s"
  "pl_workers (upd_calls f s) = pl_workers s"
  by (simp_all add: upd_calls_def worker_part_def)

lemma parts_simps [simp]:
  "call_part (s\<lparr>pl_workers := w\<rparr>) = call_part s" "call_part (s\<lparr>pl_queues := q\<rparr>) = call_part s"
  "call_part (s\<lparr>pl_executor := b\<rparr>) = call_part s" "call_part (s\<lparr>pl_restarting := b\<rparr>) = call_part s"
  "call_part (s\<lparr>pl_stopping := b\<rparr>) = call_part s" "call_part (s\<lparr>pl_next_turn := k\<rparr>) = call_part s"
  "call_part (s\<lparr>pl_next_generation := k\<rparr>) = call_part s" "call_part (s\<lparr>pl_task_group := b\<rparr>) = call_part s"
  "worker_part (s\<lparr>pl_queues := q\<rparr>) = worker_part s" "worker_part (s\<lparr>pl_executor := b\<rparr>) = worker_part s"
  "worker_part (s\<lparr>pl_restarting := b\<rparr>) = worker_part s" "worker_part (s\<lparr>pl_stopping := b\<rparr>) = worker_part s"
  "worker_part (s\<lparr>pl_next_turn := k\<rparr>) = worker_part s" "worker_part (s\<lparr>pl_task_group := b\<rparr>) = worker_part s"
  "worker_part (s\<lparr>pl_next_request := k\<rparr>) = worker_part s"
  by (simp_all add: call_part_def worker_part_def)

lemma queue_put_parts:
  "call_part (snd (queue_put w m s)) = call_part s" "worker_part (snd (queue_put w m s)) = worker_part s"
  by (simp_all add: queue_put_def)

lemma put_nowait_parts [simp]:
  "call_part (put_nowait w m s) = call_part s" "worker_part (put_nowait w m s) = worker_part s"
  by (simp_all add: put_nowait_def queue_put_parts)

lemma next_worker_parts:
  "next_worker s = (r, s') \<Longrightarrow> call_part s' = call_part s \<and> worker_part s' = worker_part s"
  by (auto simp: next_worker_def split: if_splits)

lemma enqueue_query_parts:
  "enqueue_query L w i req ca li s = (r, s') \<Longrightarrow> call_part s' = call_part s \<and> worker_part s' = worker_part s"
  by (auto simp: enqueue_query_def act_bind_apply act_lift_def queue_put_def split: sum.splits if_splits)

lemma start_worker_call_part: "call_part (snd (start_worker i s)) = call_part s"
  by (simp add: start_worker_def)

lemma start_list_call_part: "call_part (snd (start_list is s)) = call_part s"
proof (induction "is" arbitrary: s)
  case (Cons i "is")
  show ?case
  proof (cases "start_worker i s")
    case (Pair r s')
    then have "call_part s' = call_part s" using start_worker_call_part [of i s] by simp
    with Cons.IH [of s'] Pair show ?thesis
      by (cases r; cases "start_list is s'") (auto simp: act_bind_apply act_ret_def split: sum.splits)
  qed
qed (simp add: act_ret_def)

lemma start_workers_call_part: "call_part (snd (start_workers s)) = call_part s"
  using start_list_call_part [of "[0..<pl_count s]" s]
  by (cases "start_list [0..<pl_count s] s")
    (auto simp: start_workers_def act_bind_apply act_upd_def split: sum.splits)

lemma restart_loop_call_part: "call_part (snd (restart_loop ws s)) = call_part s"
proof (induction ws arbitrary: s rule: restart_loop.induct)
  case (2 index worker rest)
  show ?case
  proof (cases "start_worker (wh_id worker) s")
    case (Pair r s')
    then have "call_part s' = call_part s" using start_worker_call_part [of "wh_id worker" s] by simp
    with 2 Pair show ?thesis
      by (cases r) (auto simp: act_bind_apply act_ret_def act_upd_def)
  qed
qed (simp add: act_ret_def)

subsection \<open>Workers and their generations\<close>

definition generations :: "pool \<Rightarrow> nat set" where
  "generations s = wh_generation ` set (pl_workers s)"

definition workers_ok :: "pool \<Rightarrow> bool" where
  "workers_ok s \<longleftrightarrow> map wh_id (pl_workers s) = [0..<length (pl_workers s)] \<and>
     distinct (map wh_generation (pl_workers s)) \<and> generations s \<subseteq> {..<pl_next_generation s}"

text \<open>Generations are used once: those of the workers are the old ones or new ones.\<close>

definition evolves :: "pool \<Rightarrow> pool \<Rightarrow> bool" where
  "evolves s s' \<longleftrightarrow> pl_next_generation s \<le> pl_next_generation s' \<and>
     generations s' \<subseteq> generations s \<union> {pl_next_generation s..<pl_next_generation s'} \<and>
     (workers_ok s \<longrightarrow> workers_ok s')"

lemma evolves_parts: "worker_part s' = worker_part s \<Longrightarrow> evolves s s'"
  by (simp add: evolves_def workers_ok_def worker_part_def generations_def)

lemma evolves_refl: "evolves s s"
  by (rule evolves_parts) simp

lemma evolves_trans:
  assumes "evolves s t" and "evolves t u"
  shows "evolves s u"
proof -
  have "{pl_next_generation s..<pl_next_generation t} \<union> {pl_next_generation t..<pl_next_generation u} =
      {pl_next_generation s..<pl_next_generation u}"
    using assms by (auto simp: evolves_def)
  then show ?thesis using assms by (auto simp: evolves_def)
qed

lemma start_worker_Inr:
  "start_worker i s = (Inr w, s') \<Longrightarrow> wh_id w = i \<and> wh_generation w = pl_next_generation s \<and>
     wh_future w = Unfinished \<and> s' = s\<lparr>pl_next_generation := Suc (pl_next_generation s)\<rparr>"
  by (auto simp: start_worker_def split: if_splits)

lemma start_worker_Inl: "start_worker i s = (Inl e, s') \<Longrightarrow> s' = s"
  by (auto simp: start_worker_def split: if_splits)

lemma start_list_Inr:
  assumes "start_list is s = (Inr ws, s')"
  shows "map wh_id ws = is \<and>
    map wh_generation ws = [pl_next_generation s..<pl_next_generation s + length is] \<and>
    s' = s\<lparr>pl_next_generation := pl_next_generation s + length is\<rparr>"
  using assms
proof (induction "is" arbitrary: s ws)
  case Nil
  then show ?case by (simp add: act_ret_def)
next
  case (Cons i "is")
  then obtain w s1 ws1 where w: "start_worker i s = (Inr w, s1)"
    and rest: "start_list is s1 = (Inr ws1, s')" and ws: "ws = w # ws1"
    by (auto simp: act_bind_Inr act_ret_def)
  from start_worker_Inr [OF w] Cons.IH [OF rest] ws show ?case
    by (simp add: upt_conv_Cons del: upt_Suc)
qed

lemma start_list_workers: "start_list is s = (r, s') \<Longrightarrow>
    pl_workers s' = pl_workers s \<and> pl_next_generation s \<le> pl_next_generation s'"
proof (induction "is" arbitrary: s r)
  case (Cons i "is")
  show ?case
  proof (cases "start_worker i s")
    case (Pair r1 s1)
    then have "pl_workers s1 = pl_workers s \<and> pl_next_generation s \<le> pl_next_generation s1"
      by (auto simp: start_worker_def split: if_splits)
    moreover have "s' = s1 \<or> (\<exists>r2. start_list is s1 = (r2, s'))"
      using Cons.prems Pair
      by (cases r1; cases "start_list is s1") (auto simp: act_bind_apply act_ret_def split: sum.splits)
    ultimately show ?thesis using Cons.IH [of s1] by (metis order_trans)
  qed
qed (simp add: act_ret_def)

lemma start_workers_evolves: "start_workers s = (r, s') \<Longrightarrow> evolves s s'"
proof -
  assume *: "start_workers s = (r, s')"
  obtain r1 s1 where l: "start_list [0..<pl_count s] s = (r1, s1)" by fastforce
  show ?thesis
  proof (cases r1)
    case (Inl e)
    with * l have "s' = s1" by (simp add: start_workers_def act_bind_apply)
    with start_list_workers [OF l] show ?thesis by (auto simp: evolves_def generations_def workers_ok_def)
  next
    case (Inr ws)
    with * l have s': "s' = s1\<lparr>pl_workers := ws\<rparr>"
      by (simp add: start_workers_def act_bind_apply act_upd_def)
    have ws: "map wh_id ws = [0..<pl_count s]"
      "map wh_generation ws = [pl_next_generation s..<pl_next_generation s + pl_count s]"
      "s1 = s\<lparr>pl_next_generation := pl_next_generation s + pl_count s\<rparr>"
      using start_list_Inr [OF l [unfolded Inr]] by simp_all
    have "length ws = pl_count s" using arg_cong [OF ws(1), of length] by simp
    moreover have "wh_generation ` set ws = {pl_next_generation s..<pl_next_generation s + pl_count s}"
      using arg_cong [OF ws(2), of set] by simp
    ultimately show ?thesis
      using ws by (auto simp: evolves_def generations_def workers_ok_def s')
  qed
qed

lemma replace_worker_evolves:
  assumes w: "start_worker i s = (Inr new, s1)"
    and s': "s' = s1\<lparr>pl_workers := (pl_workers s1)[i := new]\<rparr>"
  shows "evolves s s'"
proof -
  have new: "wh_id new = i" "wh_generation new = pl_next_generation s" and s1: "pl_workers s1 = pl_workers s"
    and n: "pl_next_generation s' = Suc (pl_next_generation s)"
    using start_worker_Inr [OF w] by (auto simp: s')
  have gens: "generations s' \<subseteq> insert (pl_next_generation s) (generations s)"
    using set_update_subset_insert [of "pl_workers s" i new] new s1 by (auto simp: generations_def s')
  have "workers_ok s'" if ok: "workers_ok s"
  proof -
    have ids: "map wh_id (pl_workers s') = [0..<length (pl_workers s')]"
    proof -
      have "map wh_id (pl_workers s') = (map wh_id (pl_workers s))[i := i]"
        using new s1 by (simp add: s' map_update)
      also have "\<dots> = [0..<length (pl_workers s)]"
        using ok by (cases "i < length (pl_workers s)") (auto simp: workers_ok_def list_update_same_conv list_update_beyond)
      finally show ?thesis using s1 by (simp add: s')
    qed
    have "pl_next_generation s \<notin> set (map wh_generation (pl_workers s))"
      using ok by (auto simp: workers_ok_def generations_def)
    then have "distinct (map wh_generation (pl_workers s'))"
      using ok new s1 by (auto simp: s' map_update workers_ok_def intro!: distinct_list_update)
    with ids gens n ok show ?thesis by (force simp: workers_ok_def)
  qed
  with gens n show ?thesis by (auto simp: evolves_def)
qed

lemma restart_loop_evolves:
  "restart_loop ws s = (r, s') \<Longrightarrow> \<forall>(i, w) \<in> set ws. wh_id w = i \<Longrightarrow> evolves s s'"
proof (induction ws arbitrary: s r rule: restart_loop.induct)
  case 1
  then show ?case by (simp add: act_ret_def evolves_refl)
next
  case (2 index worker rest)
  have id: "wh_id worker = index" and rest: "\<forall>(i, w) \<in> set rest. wh_id w = i" using 2(4) by auto
  consider (running) "\<not> future_done (wh_future worker)"
    | (ends) "s' = s"
    | (fails) e where "start_worker (wh_id worker) s = (Inl e, s')"
    | (new) new s1 where "start_worker (wh_id worker) s = (Inr new, s1)"
        "restart_loop rest (s1\<lparr>pl_workers := (pl_workers s1)[index := new]\<rparr>) = (r, s')"
        "future_done (wh_future worker)" "wh_future worker \<noteq> Raised BrokenProcessPool"
        "\<not> (pl_restarting s \<or> pl_stopping s)"
    using 2(3)
    by (cases "start_worker (wh_id worker) s")
      (auto simp: act_ret_def act_bind_apply act_upd_def split: if_splits sum.splits)
  then show ?case
  proof cases
    case running
    with 2(1) [OF running] 2(3) rest show ?thesis by simp
  next
    case ends
    then show ?thesis by (simp add: evolves_refl)
  next
    case fails
    then have "s' = s" by (rule start_worker_Inl)
    then show ?thesis by (simp add: evolves_refl)
  next
    case new
    from replace_worker_evolves [OF new(1)] id
    have "evolves s (s1\<lparr>pl_workers := (pl_workers s1)[index := new]\<rparr>)" by simp
    moreover from 2(2) [OF _ _ new(5) new(2) rest] new(3,4)
    have "evolves (s1\<lparr>pl_workers := (pl_workers s1)[index := new]\<rparr>) s'" by simp
    ultimately show ?thesis by (rule evolves_trans)
  qed
qed

subsection \<open>What the operations do to the calls\<close>

interpretation replies: receiver deliver_reply
  by unfold_locales (simp_all add: deliver_reply_def)

lemma call_partD: "call_part p = (c, n) \<Longrightarrow> pl_calls p = c \<and> pl_next_request p = n"
  by (simp add: call_part_def)

lemma begin_query_parts:
  assumes "begin_query L req ca li s = (r, p)"
  shows "worker_part p = worker_part s \<and> pl_next_request p = Suc (pl_next_request s) \<and>
    (case r of
       Inr i \<Rightarrow> i = pl_next_request s \<and> pl_calls p = register_call i (pl_calls s)
     | Inl e \<Rightarrow> pl_calls p = register_call (pl_next_request s) (pl_calls s) \<or>
         pl_calls p = forget_call (pl_next_request s) (register_call (pl_next_request s) (pl_calls s)))"
proof -
  let ?i = "pl_next_request s"
  let ?s1 = "upd_calls (register_call ?i) (s\<lparr>pl_next_request := Suc ?i\<rparr>)"
  have s1: "call_part ?s1 = (register_call ?i (pl_calls s), Suc ?i)" "worker_part ?s1 = worker_part s"
    by (simp_all add: call_part_def)
  obtain r1 s2 where nw: "next_worker ?s1 = (r1, s2)" by fastforce
  have s2: "call_part s2 = (register_call ?i (pl_calls s), Suc ?i)" "worker_part s2 = worker_part s"
    using next_worker_parts [OF nw] s1 by simp_all
  show ?thesis
  proof (cases r1)
    case (Inl e)
    with assms nw have "r = Inl e" "p = s2"
      by (simp_all add: begin_query_def act_bind_apply act_get_def act_upd_def)
    with s2 show ?thesis by (simp add: call_part_def)
  next
    case (Inr w)
    obtain r2 s3 where enq: "enqueue_query L w ?i req ca li s2 = (r2, s3)" by fastforce
    have s3: "call_part s3 = (register_call ?i (pl_calls s), Suc ?i)" "worker_part s3 = worker_part s"
      using enqueue_query_parts [OF enq] s2 by simp_all
    from assms nw Inr enq s3 show ?thesis
      by (cases r2) (auto simp: begin_query_def act_bind_apply act_get_def act_upd_def call_part_def)
  qed
qed

lemma end_query_parts:
  "pl_calls (snd (end_query L i r s)) = forget_call i (pl_calls s)"
  "pl_next_request (snd (end_query L i r s)) = pl_next_request s"
  "worker_part (snd (end_query L i r s)) = worker_part s"
  "pl_calls (snd (give_up_query i e s)) = forget_call i (pl_calls s)"
  "pl_next_request (snd (give_up_query i e s)) = pl_next_request s"
  "worker_part (snd (give_up_query i e s)) = worker_part s"
  by (simp_all add: end_query_def give_up_query_def act_simps)

lemma handle_result_parts:
  "worker_part (snd (handle_result m s)) = worker_part s"
  "pl_next_request (snd (handle_result m s)) = pl_next_request s"
  "pl_calls (snd (handle_result m s)) = pl_calls s \<or>
     (\<exists>i r. pl_calls (snd (handle_result m s)) = deliver_reply i r (pl_calls s))"
  by (auto simp: handle_result_def handle_query_response_def split: pool_message.splits)

lemma handle_resolve_request_parts [simp]:
  "call_part (handle_resolve_request L a w i s) = call_part s"
  "worker_part (handle_resolve_request L a w i s) = worker_part s"
  by (simp_all add: handle_resolve_request_def split: option.splits)

lemma begin_restart_parts:
  "worker_part (begin_restart s) = worker_part s" "pl_next_request (begin_restart s) = pl_next_request s"
  "pl_calls (begin_restart s) = pl_calls s \<or>
     pl_calls (begin_restart s) = fail_all (Inl ''worker pool broken'') (pl_calls s)"
  by (simp_all add: begin_restart_def fail_pending_def)

lemma fold_put_parts:
  "call_part (fold (\<lambda>w. put_nowait (f w) m) ws s) = call_part s"
  "worker_part (fold (\<lambda>w. put_nowait (f w) m) ws s) = worker_part s"
  by (induction ws arbitrary: s) simp_all

lemma begin_stop_parts:
  "call_part (begin_stop s) = call_part s" "worker_part (begin_stop s) = worker_part s"
  by (simp_all add: begin_stop_def fold_put_parts)

lemma end_stop_parts:
  "pl_next_request (end_stop s) = pl_next_request s"
  "pl_calls (end_stop s) = fail_all (Inl ''worker pool stopped'') (pl_calls s)"
  "evolves s (end_stop s)"
  by (auto simp: end_stop_def close_ipc_resources_def fail_pending_def evolves_def generations_def
      workers_ok_def upd_calls_def)

lemma end_restart_eq:
  "end_restart s = act_finally start_workers (act_upd (\<lambda>s. s\<lparr>pl_restarting := False\<rparr>))
     (create_executor (create_ipc_resources (close_ipc_resources (s\<lparr>pl_executor := False\<rparr>)\<lparr>pl_workers := []\<rparr>)))"
  by (simp add: end_restart_def act_bind_apply act_upd_def)

lemma end_restart_parts:
  "call_part (snd (end_restart s)) = call_part s" "evolves s (snd (end_restart s))"
proof -
  let ?s1 = "create_executor (create_ipc_resources (close_ipc_resources (s\<lparr>pl_executor := False\<rparr>)\<lparr>pl_workers := []\<rparr>))"
  have c1: "call_part ?s1 = call_part s"
    by (simp add: create_executor_def create_ipc_resources_def close_ipc_resources_def)
  have e1: "evolves s ?s1"
    by (simp add: evolves_def generations_def workers_ok_def create_executor_def create_ipc_resources_def
        close_ipc_resources_def)
  obtain r s2 where w: "start_workers ?s1 = (r, s2)" by fastforce
  have "snd (end_restart s) = s2 \<or> snd (end_restart s) = s2\<lparr>pl_restarting := False\<rparr>"
    by (simp add: end_restart_eq act_finally_def w act_upd_def)
  moreover have "call_part s2 = call_part s" using start_workers_call_part [of ?s1] w c1 by simp
  moreover have "evolves s s2" using evolves_trans [OF e1 start_workers_evolves [OF w]] .
  moreover have "evolves s2 (s2\<lparr>pl_restarting := False\<rparr>)" by (rule evolves_parts) simp
  ultimately show "call_part (snd (end_restart s)) = call_part s" "evolves s (snd (end_restart s))"
    by (auto intro: evolves_trans)
qed

lemma restart_once_parts:
  assumes "restart_finished_workers_once s = (r, p)"
  shows "call_part p = call_part s" and "workers_ok s \<Longrightarrow> evolves s p"
proof -
  let ?ws = "zip [0..<length (pl_workers s)] (pl_workers s)"
  have cases: "p = s \<or> restart_loop ?ws s = (r, p)"
    using assms by (auto simp: restart_finished_workers_once_def split: if_splits)
  then show "call_part p = call_part s" using restart_loop_call_part [of ?ws s] by auto
  assume ok: "workers_ok s"
  have "wh_id w = i" if "(i, w) \<in> set ?ws" for i w
  proof -
    from that have "i < length (pl_workers s)" "w = pl_workers s ! i" by (auto simp: set_zip)
    moreover have "map wh_id (pl_workers s) ! i = i"
      using ok \<open>i < _\<close> by (simp add: workers_ok_def)
    ultimately show ?thesis by simp
  qed
  then have "\<forall>(i, w) \<in> set ?ws. wh_id w = i" by blast
  with cases show "evolves s p" using restart_loop_evolves evolves_refl by blast
qed

lemma end_worker_evolves: "i < length (pl_workers s) \<Longrightarrow> evolves s (end_worker i f s)"
proof -
  assume i: "i < length (pl_workers s)"
  then have "map wh_id (pl_workers (end_worker i f s)) = map wh_id (pl_workers s)"
    and g: "map wh_generation (pl_workers (end_worker i f s)) = map wh_generation (pl_workers s)"
    by (simp_all add: end_worker_def map_update list_update_same_conv)
  moreover have "generations (end_worker i f s) = generations s"
    using arg_cong [OF g, of set] by (simp add: generations_def)
  moreover have "pl_next_generation (end_worker i f s) = pl_next_generation s"
    "length (pl_workers (end_worker i f s)) = length (pl_workers s)" by (simp_all add: end_worker_def)
  ultimately show ?thesis by (simp add: evolves_def workers_ok_def)
qed

subsection \<open>The invariant\<close>

definition run_ok :: "pool_run \<Rightarrow> bool" where
  "run_ok s \<longleftrightarrow> calls_ok (pl_calls (pr_pool s)) (pr_waiting s) (pl_next_request (pr_pool s)) \<and>
     workers_ok (pr_pool s)"

lemma same_calls: "call_part p = call_part q \<Longrightarrow> pl_calls p = pl_calls q \<and> pl_next_request p = pl_next_request q"
  by (simp add: call_part_def)

lemma pool_step_keeps:
  assumes "pool_step L s s'" and ok: "run_ok s"
  shows "calls_ok (pl_calls (pr_pool s')) (pr_waiting s') (pl_next_request (pr_pool s')) \<and>
    evolves (pr_pool s) (pr_pool s')"
proof -
  have c: "calls_ok (pl_calls (pr_pool s)) (pr_waiting s) (pl_next_request (pr_pool s))"
    and w: "workers_ok (pr_pool s)" using ok by (simp_all add: run_ok_def)
  from assms(1) show ?thesis
  proof cases
    case (call req ca li i p)
    from begin_query_parts [OF call(2)] calls_ok_register [OF c] show ?thesis
      by (simp add: call(1) evolves_parts)
  next
    case (call_fails req ca li e p)
    have r: "calls_ok (register_call (pl_next_request (pr_pool s)) (pl_calls (pr_pool s)))
        (insert (pl_next_request (pr_pool s)) (pr_waiting s)) (Suc (pl_next_request (pr_pool s)))"
      by (rule calls_ok_register [OF c])
    have "pl_next_request (pr_pool s) \<notin> pr_waiting s"
      using subset_trans [OF calls_okD(3,2) [OF c]] by blast
    then have "calls_ok (forget_call (pl_next_request (pr_pool s))
          (register_call (pl_next_request (pr_pool s)) (pl_calls (pr_pool s))))
        (pr_waiting s) (Suc (pl_next_request (pr_pool s)))"
      using calls_ok_forget [OF r, of "pl_next_request (pr_pool s)"] by simp
    moreover have "calls_ok (register_call (pl_next_request (pr_pool s)) (pl_calls (pr_pool s)))
        (pr_waiting s) (Suc (pl_next_request (pr_pool s)))"
      by (rule calls_ok_mono [OF r]) auto
    ultimately show ?thesis
      using begin_query_parts [OF call_fails(2)] by (auto simp: call_fails(1) evolves_parts)
  next
    case (wake i r)
    then show ?thesis using calls_ok_forget [OF c, of i] by (simp add: end_query_parts evolves_parts)
  next
    case (give_up i e)
    then show ?thesis using calls_ok_forget [OF c, of i] by (simp add: end_query_parts evolves_parts)
  next
    case (message m)
    have "calls_ok (pl_calls (snd (handle_result m (pr_pool s)))) (pr_waiting s) (pl_next_request (pr_pool s))"
      using handle_result_parts(3) [of m "pr_pool s"] replies.ok_deliver [OF c] c by auto
    then show ?thesis by (simp add: message handle_result_parts evolves_parts)
  next
    case (resolve result x rid)
    then show ?thesis
      using c same_calls [of "handle_resolve_request L result x rid (pr_pool s)" "pr_pool s"]
      by (simp add: evolves_parts)
  next
    case (worker_takes i)
    then show ?thesis using c by (simp add: take_message_def evolves_parts)
  next
    case (worker_ends i f)
    then show ?thesis using c end_worker_evolves [of i "pr_pool s" f] by (simp add: end_worker_def)
  next
    case (supervise r p)
    have p: "calls_ok (pl_calls p) (pr_waiting s) (pl_next_request p)" "evolves (pr_pool s) p"
      using c restart_once_parts [OF supervise(2)] w by (auto simp: call_part_def)
    have "calls_ok (pl_calls (begin_restart p)) (pr_waiting s) (pl_next_request p)"
      using begin_restart_parts(3) [of p] calls_ok_fail_all [OF p(1)] p(1) by auto
    moreover have "evolves (pr_pool s) (begin_restart p)"
      using evolves_trans [OF p(2) evolves_parts [OF begin_restart_parts(1)]] .
    ultimately show ?thesis using p by (simp add: supervise(1) begin_restart_parts(2))
  next
    case rebuild
    then show ?thesis using c end_restart_parts [of "pr_pool s"] by (simp add: call_part_def)
  next
    case stop
    then show ?thesis
      using c begin_stop_parts [of "pr_pool s"] by (auto simp: call_part_def intro: evolves_parts)
  next
    case stopped
    then show ?thesis using calls_ok_fail_all [OF c] by (simp add: end_stop_parts)
  qed
qed

lemma pool_step_ok: "pool_step L s s' \<Longrightarrow> run_ok s \<Longrightarrow> run_ok s'"
  using pool_step_keeps [of L s s'] by (auto simp: run_ok_def evolves_def)

lemma pool_start_ok: "pool_start (pool_init capacity n) = (Inr (), p) \<Longrightarrow>
    run_ok \<lparr>pr_pool = p, pr_waiting = {}\<rparr>"
proof -
  let ?s = "create_executor (create_ipc_resources (pool_init capacity n\<lparr>pl_task_group := True\<rparr>))"
  assume "pool_start (pool_init capacity n) = (Inr (), p)"
  then have w: "start_workers ?s = (Inr (), p)" by (simp add: pool_start_def act_bind_apply act_upd_def)
  have "call_part p = call_part ?s" using start_workers_call_part [of ?s] w by simp
  then have "pl_calls p = calls_empty"
    by (simp add: call_part_def create_executor_def create_ipc_resources_def pool_init_def)
  moreover have "workers_ok ?s"
    by (simp add: workers_ok_def generations_def create_executor_def create_ipc_resources_def pool_init_def)
  ultimately show ?thesis
    using start_workers_evolves [OF w] calls_ok_empty by (simp add: run_ok_def evolves_def)
qed

lemma pool_reach_ok: "pool_reach L capacity n s \<Longrightarrow> run_ok s"
  by (induction rule: pool_reach.induct) (use pool_start_ok pool_step_ok in blast)+

lemma pool_steps_evolve:
  "(pool_step L)\<^sup>*\<^sup>* s s' \<Longrightarrow> run_ok s \<Longrightarrow> evolves (pr_pool s) (pr_pool s') \<and> run_ok s'"
proof (induction rule: rtranclp_induct)
  case base
  then show ?case by (simp add: evolves_refl)
next
  case (step t u)
  then show ?case using pool_step_keeps [of L t u] pool_step_ok [of L t u] evolves_trans by blast
qed

lemma worker_by_id_generation:
  "worker_by_id s i = Some w \<Longrightarrow> wh_generation w \<in> generations s"
  by (auto simp: worker_by_id_def generations_def dest: find_Some_in)

lemma not_current_ignored:
  "\<not> is_current_worker_message s m \<Longrightarrow> handle_result m s = ([], s)"
  by (cases m) (simp_all add: handle_result_def)

section \<open>Properties\<close>

text \<open>
  C8: In every run of the pool (calls, replies, timeouts, workers that die, restarts and the
  stop of the pool in any order) a call that waits has its outcome already, or is registered: the
  reply of a current worker gives it its outcome, and so does the failing of all calls when the
  pool breaks or stops.
\<close>

theorem pool_loses_no_call:
  assumes "pool_reach L capacity n s" and "i \<in> pr_waiting s"
  shows "call_outcome (pl_calls (pr_pool s)) i \<noteq> None \<or>
    ((\<forall>w g wire. is_current_worker_message (pr_pool s) (QueryResponse w g i None wire) \<longrightarrow>
        call_outcome (pl_calls (snd (handle_result (QueryResponse w g i None wire) (pr_pool s)))) i = Some (Inr wire)) \<and>
     (\<forall>error. call_outcome (pl_calls (fail_pending error (pr_pool s))) i = Some (Inl error)))"
proof -
  have c: "calls_ok (pl_calls (pr_pool s)) (pr_waiting s) (pl_next_request (pr_pool s))"
    using pool_reach_ok [OF assms(1)] by (simp add: run_ok_def)
  show ?thesis
  proof (cases "call_outcome (pl_calls (pr_pool s)) i")
    case None
    then have "i \<in> set (ct_pending (pl_calls (pr_pool s)))" using calls_okD(4) [OF c assms(2)] by simp
    then have "call_outcome (pl_calls (fail_pending error (pr_pool s))) i = Some (Inl error)" for error
      by (simp add: fail_pending_def fail_all_outcome)
    moreover have "call_outcome (deliver_reply i r (pl_calls (pr_pool s))) i = Some r" for r
      using replies.reply_arrives [OF c assms(2)] None by blast
    ultimately show ?thesis by (simp add: handle_result_def handle_query_response_def)
  qed simp
qed

text \<open>
  The workers of the pool are numbered by their position, no two have the same generation,
  and a generation that has been replaced is never current again: whatever a replaced worker has
  sent is ignored from then on.
\<close>

theorem pool_ignores_replaced_workers:
  assumes "pool_reach L capacity n s" and "(pool_step L)\<^sup>*\<^sup>* s s'"
    and "message_origin m = Some (w, g)"
    and "g < pl_next_generation (pr_pool s)" and "g \<notin> generations (pr_pool s)"
  shows "workers_ok (pr_pool s') \<and> handle_result m (pr_pool s') = ([], pr_pool s')"
proof -
  have ev: "evolves (pr_pool s) (pr_pool s')" and ok: "workers_ok (pr_pool s')"
    using pool_steps_evolve [OF assms(2) pool_reach_ok [OF assms(1)]] by (simp_all add: run_ok_def)
  then have "g \<notin> generations (pr_pool s')" using assms(4,5) by (auto simp: evolves_def)
  then have "\<not> is_current_worker_message (pr_pool s') m"
    using worker_by_id_generation by (fastforce simp: is_current_worker_message_def assms(3) split: option.splits)
  with ok not_current_ignored show ?thesis by blast
qed

text \<open>A pool of two workers, on which one call waits.\<close>

definition sample_worker :: "nat \<Rightarrow> nat \<Rightarrow> worker_handle" where
  "sample_worker i g = \<lparr>wh_id = i, wh_generation = g, wh_future = Unfinished\<rparr>"

definition sample_pool :: pool where
  "sample_pool = \<lparr>pl_size = 4, pl_count = 2, pl_workers = [sample_worker 0 1, sample_worker 1 2],
     pl_queues = [[], []], pl_executor = True, pl_calls = calls_empty, pl_next_request = 1, pl_next_turn = 0,
     pl_next_generation = 3, pl_stopping = False, pl_restarting = False, pl_task_group = True\<rparr>"

lemma sample_pool_starts: "pool_start (pool_init 4 2) = (Inr (), sample_pool)"
  by (simp add: pool_start_def pool_init_def create_ipc_resources_def create_executor_def start_workers_def
      act_simps start_worker_def upt_rec sample_pool_def sample_worker_def eval_nat_numeral)

definition busy_pool :: pool where
  "busy_pool = sample_pool\<lparr>pl_queues := [[QueryMessage 1 [5, 0, 0] ''c'' ''l''], []], pl_next_turn := 1,
     pl_next_request := 2, pl_calls := \<lparr>ct_pending = [1], ct_cells = [1 \<mapsto> None]\<rparr>\<rparr>"

lemma next_worker_running:
  "pl_workers s \<noteq> [] \<Longrightarrow> list_all (\<lambda>w. \<not> future_done (wh_future w)) (pl_workers s) \<Longrightarrow>
     next_worker s = (Inr (pl_workers s ! (pl_next_turn s mod length (pl_workers s))),
       s\<lparr>pl_next_turn := Suc (pl_next_turn s)\<rparr>)"
proof -
  let ?ws = "pl_workers s"
  assume ne: "?ws \<noteq> []" and all: "list_all (\<lambda>w. \<not> future_done (wh_future w)) ?ws"
  then have "\<not> future_done (wh_future (?ws ! (pl_next_turn s mod length ?ws)))"
    by (simp add: list_all_length)
  moreover have "[0..<length ?ws] = 0 # [1..<length ?ws]" using ne by (simp add: upt_conv_Cons)
  ultimately have "find (\<lambda>w. \<not> future_done (wh_future w)) (rotation (pl_next_turn s) ?ws) =
      Some (?ws ! (pl_next_turn s mod length ?ws))"
    by (simp add: rotation_def)
  with ne show ?thesis by (simp add: next_worker_def)
qed

lemma sample_call: "begin_query sample_lib sample_request ''c'' ''l'' sample_pool = (Inr 1, busy_pool)"
proof -
  let ?s = "upd_calls (register_call 1) (sample_pool\<lparr>pl_next_request := Suc 1\<rparr>)"
  have "next_worker ?s = (Inr (sample_worker 0 1), ?s\<lparr>pl_next_turn := 1\<rparr>)"
    using next_worker_running [of ?s]
    by (simp add: sample_pool_def sample_worker_def future_done_def upd_calls_def)
  then show ?thesis
    by (simp add: begin_query_def act_simps enqueue_query_def queue_put_def sample_worker_def
        sample_lib_def sample_request_def sample_message_def busy_pool_def sample_pool_def upd_calls_def
        register_call_def calls_empty_def fun_eq_iff)
qed

lemma sample_pool_reach:
  "pool_reach sample_lib 4 2 \<lparr>pr_pool = sample_pool, pr_waiting = {}\<rparr>"
  "pool_reach sample_lib 4 2 \<lparr>pr_pool = busy_pool, pr_waiting = {1}\<rparr>"
proof -
  show s: "pool_reach sample_lib 4 2 \<lparr>pr_pool = sample_pool, pr_waiting = {}\<rparr>"
    by (rule pool_reach.started [OF sample_pool_starts])
  have "pool_step sample_lib \<lparr>pr_pool = sample_pool, pr_waiting = {}\<rparr> \<lparr>pr_pool = busy_pool, pr_waiting = {1}\<rparr>"
    using pool_step.call [of sample_lib sample_request "''c''" "''l''" "\<lparr>pr_pool = sample_pool, pr_waiting = {}\<rparr>"]
    by (simp add: sample_call)
  with s show "pool_reach sample_lib 4 2 \<lparr>pr_pool = busy_pool, pr_waiting = {1}\<rparr>" by (rule pool_reach.step)
qed

theorem pool_loses_no_call_witness:
  "call_outcome (pl_calls (snd (handle_result (QueryResponse 0 1 1 None (Some [9])) busy_pool))) 1 =
     Some (Inr (Some [9]))"
proof -
  have "call_outcome (pl_calls busy_pool) 1 = None" by (simp add: busy_pool_def call_outcome_def)
  moreover have "is_current_worker_message busy_pool (QueryResponse 0 1 1 None (Some [9]))"
    by (simp add: is_current_worker_message_def worker_by_id_def busy_pool_def sample_pool_def sample_worker_def)
  ultimately show ?thesis using pool_loses_no_call [OF sample_pool_reach(2), of 1] by simp
qed

text \<open>The first worker has died and been replaced.\<close>

lemma sample_restart:
  "restart_finished_workers_once (end_worker 0 Returned sample_pool) =
     (Inr False, sample_pool\<lparr>pl_workers := [sample_worker 0 3, sample_worker 1 2], pl_next_generation := 4\<rparr>)"
  by (simp add: restart_finished_workers_once_def end_worker_def sample_pool_def sample_worker_def
      upt_rec future_done_def start_worker_def act_simps)

theorem pool_ignores_replaced_workers_witness:
  "handle_result (QueryResponse 0 1 1 None None)
     (sample_pool\<lparr>pl_workers := [sample_worker 0 3, sample_worker 1 2], pl_next_generation := 4\<rparr>) =
   ([], sample_pool\<lparr>pl_workers := [sample_worker 0 3, sample_worker 1 2], pl_next_generation := 4\<rparr>)"
proof -
  let ?p = "sample_pool\<lparr>pl_workers := [sample_worker 0 3, sample_worker 1 2], pl_next_generation := 4\<rparr>"
  let ?r = "\<lambda>p. \<lparr>pr_pool = p, pr_waiting = {}\<rparr>"
  have "pool_step sample_lib (?r sample_pool) (?r (end_worker 0 Returned sample_pool))"
    using pool_step.worker_ends [of 0 "?r sample_pool" Returned sample_lib]
    by (simp add: sample_pool_def future_done_def)
  then have e: "pool_reach sample_lib 4 2 (?r (end_worker 0 Returned sample_pool))"
    by (rule pool_reach.step [OF sample_pool_reach(1)])
  have "pool_step sample_lib (?r (end_worker 0 Returned sample_pool)) (?r ?p)"
    using pool_step.supervise [of "?r (end_worker 0 Returned sample_pool)" "Inr False" ?p sample_lib] sample_restart
    by simp
  with e have p: "pool_reach sample_lib 4 2 (?r ?p)" by (rule pool_reach.step)
  show ?thesis
    using pool_ignores_replaced_workers [OF p rtranclp.rtrancl_refl, of "QueryResponse 0 1 1 None None" 0 1]
    by (simp add: generations_def sample_worker_def)
qed

lemma put_nowait_flags:
  "pl_stopping (put_nowait w m s) = pl_stopping s" "pl_count (put_nowait w m s) = pl_count s"
  by (simp_all add: put_nowait_def queue_put_def)

lemma stop_flags: "pl_stopping (end_stop (begin_stop s))" "pl_count (end_stop (begin_stop s)) = pl_count s"
proof -
  have "pl_stopping (fold (\<lambda>w. put_nowait (wh_id w) m) ws t) = pl_stopping t \<and>
      pl_count (fold (\<lambda>w. put_nowait (wh_id w) m) ws t) = pl_count t" for m ws and t :: pool
    by (induction ws arbitrary: t) (simp_all add: put_nowait_flags)
  note this [of StopMessage "pl_workers s" "s\<lparr>pl_stopping := True\<rparr>"]
  then show "pl_stopping (end_stop (begin_stop s))" "pl_count (end_stop (begin_stop s)) = pl_count s"
    by (simp_all add: begin_stop_def end_stop_def close_ipc_resources_def fail_pending_def upd_calls_def)
qed

lemma start_list_ok:
  "pl_executor s \<Longrightarrow> \<forall>i \<in> set is. i < length (pl_queues s) \<Longrightarrow>
     \<exists>ws. start_list is s = (Inr ws, s\<lparr>pl_next_generation := pl_next_generation s + length is\<rparr>) \<and>
       length ws = length is \<and>
       list_all (\<lambda>w. wh_future w = Unfinished) ws"
proof (induction "is" arbitrary: s)
  case (Cons i "is")
  let ?s1 = "s\<lparr>pl_next_generation := Suc (pl_next_generation s)\<rparr>"
  obtain ws where "start_list is ?s1 = (Inr ws, s\<lparr>pl_next_generation := Suc (pl_next_generation s) + length is\<rparr>)"
    "length ws = length is" "list_all (\<lambda>w. wh_future w = Unfinished) ws"
    using Cons.IH [of ?s1] Cons.prems by auto
  with Cons.prems show ?case by (simp add: act_simps start_worker_def)
qed (simp add: act_ret_def)

lemma start_workers_ok:
  assumes "pl_executor s" and "length (pl_queues s) = pl_count s"
  shows "\<exists>ws. start_workers s =
      (Inr (), s\<lparr>pl_next_generation := pl_next_generation s + pl_count s, pl_workers := ws\<rparr>) \<and>
    length ws = pl_count s \<and> list_all (\<lambda>w. wh_future w = Unfinished) ws"
proof -
  obtain ws where "start_list [0..<pl_count s] s =
      (Inr ws, s\<lparr>pl_next_generation := pl_next_generation s + pl_count s\<rparr>)"
    "length ws = pl_count s" "list_all (\<lambda>w. wh_future w = Unfinished) ws"
    using start_list_ok [of s "[0..<pl_count s]"] assms by auto
  then show ?thesis by (intro exI [of _ ws]) (simp add: start_workers_def act_bind_apply act_upd_def)
qed

text \<open>Calls in a row.\<close>

fun next_workers :: "nat \<Rightarrow> (pool, worker_handle list) act" where
  "next_workers 0 = act_ret []"
| "next_workers (Suc k) = act_bind next_worker (\<lambda>w. act_bind (next_workers k) (\<lambda>ws. act_ret (w # ws)))"

lemma next_workers_running:
  "pl_workers s \<noteq> [] \<Longrightarrow> list_all (\<lambda>w. \<not> future_done (wh_future w)) (pl_workers s) \<Longrightarrow>
     next_workers k s = (Inr (map (\<lambda>j. pl_workers s ! ((pl_next_turn s + j) mod length (pl_workers s))) [0..<k]),
       s\<lparr>pl_next_turn := pl_next_turn s + k\<rparr>)"
proof (induction k arbitrary: s)
  case (Suc k)
  let ?s1 = "s\<lparr>pl_next_turn := Suc (pl_next_turn s)\<rparr>"
  have ih: "next_workers k ?s1 = (Inr (map (\<lambda>j. pl_workers s ! ((Suc (pl_next_turn s) + j) mod length (pl_workers s))) [0..<k]),
      s\<lparr>pl_next_turn := Suc (pl_next_turn s) + k\<rparr>)"
    using Suc.IH [of ?s1] Suc.prems by simp
  have "[0..<Suc k] = 0 # map Suc [0..<k]" by (simp add: map_Suc_upt upt_conv_Cons del: upt_Suc)
  then show ?case
    using next_worker_running [OF Suc.prems] ih by (simp add: act_simps comp_def del: upt_Suc)
qed (simp add: act_ret_def)

lemma rotation_rotate: "rotation k xs = rotate k xs"
  by (rule nth_equalityI) (simp_all add: rotation_def nth_rotate)

lemma mset_rotation: "mset (rotation k xs) = mset xs"
proof -
  have "mset (rotate1 ys) = mset ys" for ys :: "'a list" by (cases ys) simp_all
  then show ?thesis unfolding rotation_rotate by (induction k) simp_all
qed

text \<open>
  When all workers run, as many calls in a row as there are workers go to each worker once.
\<close>

theorem pool_round_robin:
  assumes "pl_workers s \<noteq> []" and "list_all (\<lambda>w. \<not> future_done (wh_future w)) (pl_workers s)"
  shows "\<exists>ws s'. next_workers (length (pl_workers s)) s = (Inr ws, s') \<and> mset ws = mset (pl_workers s)"
  using next_workers_running [OF assms] mset_rotation [of "pl_next_turn s" "pl_workers s"]
  by (simp add: rotation_def)

theorem pool_round_robin_witness:
  "\<exists>ws s'. next_workers (length (pl_workers sample_pool)) sample_pool = (Inr ws, s') \<and>
     mset ws = mset (pl_workers sample_pool)"
  by (rule pool_round_robin) (simp_all add: sample_pool_def sample_worker_def future_done_def)

text \<open>
  While no worker runs (and for ever after the pool has been stopped) a call raises and leaves
  its entry in the dictionary: the worker is chosen after the registration and outside of the
  \<open>try\<close> block whose \<open>finally\<close> takes the entry out.
\<close>

theorem pool_call_leaks:
  assumes "list_all (\<lambda>w. future_done (wh_future w)) (pl_workers s)"
  shows "\<exists>t s'. begin_query L req caddr lname s = (Inl (RuntimeError t), s') \<and>
    ct_pending (pl_calls s') = ct_pending (pl_calls s) @ [pl_next_request s]"
proof -
  let ?s = "upd_calls (register_call (pl_next_request s)) (s\<lparr>pl_next_request := Suc (pl_next_request s)\<rparr>)"
  have "find (\<lambda>w. \<not> future_done (wh_future w)) (rotation k (pl_workers s)) = None" for k
    using assms set_rotate [of k "pl_workers s"]
    by (auto simp: find_None_iff list_all_iff rotation_rotate)
  then obtain t s1 where n: "next_worker ?s = (Inl (RuntimeError t), s1)"
    by (cases "pl_workers s = []") (auto simp: next_worker_def upd_calls_def)
  then have "pl_calls s1 = register_call (pl_next_request s) (pl_calls s)"
    using next_worker_parts [OF n] by (simp add: call_part_def upd_calls_def)
  with n show ?thesis by (simp add: begin_query_def act_simps register_call_def)
qed

theorem pool_call_leaks_witness:
  "\<exists>t s'. begin_query sample_lib sample_request ''c'' ''l'' (end_stop busy_pool) = (Inl (RuntimeError t), s') \<and>
    ct_pending (pl_calls s') = ct_pending (pl_calls (end_stop busy_pool)) @ [pl_next_request (end_stop busy_pool)]"
  by (rule pool_call_leaks)
    (simp add: end_stop_def close_ipc_resources_def fail_pending_def upd_calls_def)

text \<open>
  C37: A pool that is stopped while it is being rebuilt comes back: after the stop has ended, the
  rebuilding makes a new executor and starts all the workers, which nobody stops any more.
\<close>

theorem restart_revives_stopped_pool:
  assumes "\<not> pl_restarting s" and "\<not> pl_stopping s"
  shows "\<exists>s'. end_restart (end_stop (begin_stop (begin_restart s))) = (Inr (), s') \<and>
    pl_stopping s' \<and> pl_executor s' \<and> length (pl_workers s') = pl_count s \<and>
    list_all (\<lambda>w. wh_future w = Unfinished) (pl_workers s')"
proof -
  let ?t = "end_stop (begin_stop (begin_restart s))"
  let ?u = "create_executor (create_ipc_resources (close_ipc_resources (?t\<lparr>pl_executor := False\<rparr>)\<lparr>pl_workers := []\<rparr>))"
  have t: "pl_stopping ?t" "pl_count ?t = pl_count s"
    by (simp_all add: stop_flags begin_restart_def fail_pending_def upd_calls_def)
  have u: "pl_executor ?u" "length (pl_queues ?u) = pl_count s" "pl_count ?u = pl_count s" "pl_stopping ?u"
    using t by (simp_all add: create_executor_def create_ipc_resources_def close_ipc_resources_def)
  from start_workers_ok [OF u(1) u(2) [folded u(3)]] obtain ws where
    w: "start_workers ?u = (Inr (), ?u\<lparr>pl_next_generation := pl_next_generation ?u + pl_count ?u, pl_workers := ws\<rparr>)"
    and ws: "length ws = pl_count ?u" "list_all (\<lambda>w. wh_future w = Unfinished) ws" by blast
  show ?thesis using w ws u by (simp add: end_restart_eq act_finally_def act_upd_def)
qed

theorem restart_revives_stopped_pool_witness:
  "\<exists>s'. end_restart (end_stop (begin_stop (begin_restart sample_pool))) = (Inr (), s') \<and>
    pl_stopping s' \<and> pl_executor s' \<and> length (pl_workers s') = pl_count sample_pool \<and>
    list_all (\<lambda>w. wh_future w = Unfinished) (pl_workers s')"
  by (rule restart_revives_stopped_pool) (simp_all add: sample_pool_def)

end
