(* ===== verification/Worker.thy ===== *)
theory Worker
  imports Worker_Pool
begin

text \<open>
  \<open>core/multiprocess/worker.py\<close>: a worker process. It takes messages from its request queue one
  after another; a query is answered by a task around the worker's own runtime (\<open>process\<close>), and
  a nested resolution is sent to the master, whose reply comes back on the request queue. The
  result queue is the list of the messages sent.
\<close>

section \<open>State\<close>

record worker =
  wk_id :: nat
  wk_generation :: nat
  wk_calls :: "(py_exn + bytes) calls"
  wk_next :: nat
  wk_results :: "pool_message list"

definition worker_init :: "nat \<Rightarrow> nat \<Rightarrow> worker" where
  "worker_init i g = \<lparr>wk_id = i, wk_generation = g, wk_calls = calls_empty, wk_next = 0, wk_results = []\<rparr>"

definition upd_nested :: "((py_exn + bytes) calls \<Rightarrow> (py_exn + bytes) calls) \<Rightarrow> worker \<Rightarrow> worker" where
  "upd_nested f s = s\<lparr>wk_calls := f (wk_calls s)\<rparr>"

definition send_result :: "pool_message \<Rightarrow> (worker, unit) act" where
  "send_result m = act_upd (\<lambda>s. s\<lparr>wk_results := wk_results s @ [m]\<rparr>)"

section \<open>Nested resolution\<close>

text \<open>
  \<open>WorkerNestedResolver.resolve\<close> up to \<open>event.wait()\<close>. The identifier \<open>uuid4\<close> is a fresh number.
\<close>

definition resolve_guard :: "'w ctx \<Rightarrow> string \<Rightarrow> string \<Rightarrow> unit res" where
  "resolve_guard c qname qtype =
     (if (qname, qtype) \<in> set (nested_resolve_chain c) then Inl (NestedResolveRecursionError qname)
      else if length (nested_resolve_chain c) \<ge> nested_resolve_max_depth c
      then Inl (NestedResolveRecursionError ''too deep'')
      else Inr ())"

definition begin_resolve :: "dnslib \<Rightarrow> 'w ctx \<Rightarrow> string \<Rightarrow> string \<Rightarrow> (worker, nat \<times> message) act" where
  "begin_resolve L c qname qtype =
     act_bind (act_lift (resolve_guard c qname qtype)) (\<lambda>_.
     act_bind (act_get wk_next) (\<lambda>i.
     act_bind (act_lift (make_query L qname qtype)) (\<lambda>nested_request.
     act_bind (act_upd (\<lambda>s. upd_nested (register_call i) (s\<lparr>wk_next := Suc i\<rparr>))) (\<lambda>_.
     act_bind (\<lambda>s. send_result (ResolveRequest (wk_id s) (wk_generation s) i qname qtype (clientaddr c)
                  (listener_name c) (nested_resolve_chain c @ [(qname, qtype)])) s) (\<lambda>_.
     act_ret (i, nested_request))))))"

text \<open>The rest, when the event is set, and when the wait is given up.\<close>

fun nested_timeout :: "py_exn \<Rightarrow> py_exn" where
  "nested_timeout (TimeoutError _) = TimeoutError ''nested resolve timeout''"
| "nested_timeout e = e"

definition end_resolve :: "dnslib \<Rightarrow> real \<Rightarrow> nat \<Rightarrow> message \<Rightarrow> py_exn + bytes \<Rightarrow> (worker, answer) act" where
  "end_resolve L now i nested_request outcome =
     act_bind (act_upd (upd_nested (forget_call i))) (\<lambda>_.
     act_lift (case outcome of
       Inl e \<Rightarrow> Inl e
     | Inr wire \<Rightarrow> andthen (from_wire L wire) (\<lambda>m. build_answer_from_response L now nested_request m)))"

definition give_up_resolve :: "nat \<Rightarrow> py_exn \<Rightarrow> (worker, answer) act" where
  "give_up_resolve i e =
     act_bind (act_upd (upd_nested (forget_call i))) (\<lambda>_. act_raise (nested_timeout e))"

text \<open>\<open>receive_response\<close>: an event that is set is left alone.\<close>

definition deliver_once :: "nat \<Rightarrow> py_exn + bytes \<Rightarrow> (py_exn + bytes) calls \<Rightarrow> (py_exn + bytes) calls" where
  "deliver_once i r t =
     (if i \<notin> set (ct_pending t) then t
      else if call_outcome t i \<noteq> None then t
      else set_cell i r t)"

definition response_outcome :: "string \<times> string + bytes \<Rightarrow> py_exn + bytes" where
  "response_outcome r = (case r of
     Inl (error_type, text) \<Rightarrow>
       if error_type \<noteq> [] then Inl (deserialize_resolve_error error_type text)
       else Inl (RuntimeError ''nested resolve gave no response'')
   | Inr wire \<Rightarrow> Inr wire)"

definition receive_response :: "nat \<Rightarrow> string \<times> string + bytes \<Rightarrow> worker \<Rightarrow> worker" where
  "receive_response i r = upd_nested (deliver_once i (response_outcome r))"

interpretation nested: receiver deliver_once
  by unfold_locales (simp_all add: deliver_once_def)

section \<open>Queries\<close>

text \<open>\<open>WorkerQueryLogStore.append\<close>: dropped when the queue is full.\<close>

definition worker_log_append :: "nat \<Rightarrow> json \<Rightarrow> worker \<Rightarrow> worker" where
  "worker_log_append capacity payload s =
     (if length (wk_results s) \<ge> capacity then s
      else s\<lparr>wk_results := wk_results s @ [QueryLog (wk_id s) (wk_generation s) payload]\<rparr>)"

text \<open>\<open>_handle_query\<close>: the message that is sent back.\<close>

definition worker_process ::
  "dnslib \<Rightarrow> (message \<Rightarrow> string \<Rightarrow> string \<Rightarrow> ('s, message option) act) \<Rightarrow> bytes \<Rightarrow> string \<Rightarrow> string \<Rightarrow>
   ('s, bytes option) act" where
  "worker_process L process wire caddr lname =
     act_bind (act_lift (from_wire L wire)) (\<lambda>req.
     act_bind (process req caddr lname) (\<lambda>response.
     act_lift (case response of None \<Rightarrow> Inr None | Some m \<Rightarrow> andthen (to_wire L m) (\<lambda>w. Inr (Some w)))))"

definition worker_error :: "py_exn \<Rightarrow> string" where
  "worker_error e = exn_class e @ '': '' @ exn_text e"

definition handle_query ::
  "dnslib \<Rightarrow> (message \<Rightarrow> string \<Rightarrow> string \<Rightarrow> ('s, message option) act) \<Rightarrow> nat \<Rightarrow> nat \<Rightarrow> nat \<Rightarrow> bytes \<Rightarrow>
   string \<Rightarrow> string \<Rightarrow> ('s, pool_message) act" where
  "handle_query L process w g i wire caddr lname =
     act_try (act_bind (worker_process L process wire caddr lname) (\<lambda>r. act_ret (QueryResponse w g i None r)))
       (\<lambda>e. act_ret (QueryResponse w g i (Some (worker_error e)) None))"

section \<open>The loop\<close>

text \<open>
  \<open>WorkerRuntime.run\<close> on the messages it takes from its queue: the queries for which tasks are
  started, and whether the loop has ended by a stop message, which cancels the tasks.
\<close>

fun worker_loop :: "worker_message list \<Rightarrow> worker \<Rightarrow> ((nat \<times> bytes \<times> string \<times> string) list \<times> bool) \<times> worker" where
  "worker_loop [] s = (([], False), s)"
| "worker_loop (m # rest) s = (case m of
     StopMessage \<Rightarrow> (([], True), s)
   | ResolveResponse i g r \<Rightarrow> worker_loop rest (receive_response i r s)
   | QueryMessage i wire caddr lname \<Rightarrow>
       (case worker_loop rest s of ((started, stopped), s') \<Rightarrow> (((i, wire, caddr, lname) # started, stopped), s')))"

definition worker_run :: "unit res \<Rightarrow> worker_message list \<Rightarrow>
    (worker, (nat \<times> bytes \<times> string \<times> string) list \<times> bool) act" where
  "worker_run loaded messages =
     act_bind (act_lift loaded) (\<lambda>_.
     act_bind (\<lambda>s. send_result (WorkerReady (wk_id s) (wk_generation s)) s) (\<lambda>_.
     \<lambda>s. case worker_loop messages s of (r, s') \<Rightarrow> (Inr r, s')))"

text \<open>\<open>install_loop_policy\<close> (\<open>core/runtime.py\<close>): \<open>True\<close> when winuvloop is installed.\<close>

definition install_loop_policy :: "bool \<Rightarrow> string \<Rightarrow> bool res" where
  "install_loop_policy winuvloop_available policy =
     (if policy \<notin> {''auto'', ''winuvloop'', ''asyncio''} then Inl (ValueError ''unknown loop_policy'')
      else if policy = ''asyncio'' then Inr False
      else if winuvloop_available then Inr True
      else if policy = ''winuvloop'' then Inl (OtherError ''ImportError'')
      else Inr False)"

text \<open>\<open>worker_entry\<close>, with what the initialiser of the process has left in the global state.\<close>

record process_state =
  ps_queues :: nat
  ps_query_log_enabled :: bool
  ps_query_log_max_entries :: int

definition worker_entry :: "process_state option \<Rightarrow> runtime_config res \<Rightarrow> bool \<Rightarrow> nat \<Rightarrow> nat \<Rightarrow> worker res" where
  "worker_entry state config winuvloop_available worker_id generation =
     (case state of None \<Rightarrow> Inl (RuntimeError ''worker process state not initialised'')
      | Some st \<Rightarrow>
          andthen config (\<lambda>rt.
          andthen (install_loop_policy winuvloop_available (loop_policy rt)) (\<lambda>_.
          if worker_id \<ge> ps_queues st then Inl IndexError
          else Inr (worker_init worker_id generation))))"

section \<open>Runs of the nested resolver\<close>

text \<open>The world of the context plays no part in a nested resolution of a worker.\<close>

record worker_run_state =
  wr_worker :: worker
  wr_waiting :: "nat set"

inductive worker_step :: "dnslib \<Rightarrow> worker_run_state \<Rightarrow> worker_run_state \<Rightarrow> bool" for L where
  resolve: "begin_resolve L (c :: unit ctx) qn qt (wr_worker s) = (Inr (i, q), w) \<Longrightarrow>
     worker_step L s \<lparr>wr_worker = w, wr_waiting = insert i (wr_waiting s)\<rparr>"
| refused: "begin_resolve L (c :: unit ctx) qn qt (wr_worker s) = (Inl e, w) \<Longrightarrow> worker_step L s (s\<lparr>wr_worker := w\<rparr>)"
| reply: "worker_step L s (s\<lparr>wr_worker := receive_response i r (wr_worker s)\<rparr>)"
| wake: "i \<in> wr_waiting s \<Longrightarrow> call_outcome (wk_calls (wr_worker s)) i = Some out \<Longrightarrow>
     worker_step L s \<lparr>wr_worker = snd (end_resolve L now i q out (wr_worker s)), wr_waiting = wr_waiting s - {i}\<rparr>"
| give_up: "i \<in> wr_waiting s \<Longrightarrow>
     worker_step L s \<lparr>wr_worker = snd (give_up_resolve i e (wr_worker s)), wr_waiting = wr_waiting s - {i}\<rparr>"
| log: "worker_step L s (s\<lparr>wr_worker := worker_log_append capacity payload (wr_worker s)\<rparr>)"
| answer: "worker_step L s (s\<lparr>wr_worker := snd (send_result m (wr_worker s))\<rparr>)"

definition worker_ok :: "worker_run_state \<Rightarrow> bool" where
  "worker_ok s \<longleftrightarrow> calls_ok (wk_calls (wr_worker s)) (wr_waiting s) (wk_next (wr_worker s))"

lemma begin_resolve_Inr:
  assumes "begin_resolve L c qn qt s = (Inr (i, q), s')"
  shows "i = wk_next s \<and> make_query L qn qt = Inr q \<and> resolve_guard c qn qt = Inr () \<and>
    s' = s\<lparr>wk_next := Suc i, wk_calls := register_call i (wk_calls s),
      wk_results := wk_results s @ [ResolveRequest (wk_id s) (wk_generation s) i qn qt (clientaddr c)
        (listener_name c) (nested_resolve_chain c @ [(qn, qt)])]\<rparr>"
  using assms
  by (auto simp: begin_resolve_def act_bind_Inr act_defs send_result_def upd_nested_def)

lemma begin_resolve_Inl:
  assumes "begin_resolve L c qn qt s = (Inl e, s')"
  shows "s' = s \<and> (resolve_guard c qn qt = Inl e \<or> make_query L qn qt = Inl e)"
  using assms
  by (auto simp: begin_resolve_def act_bind_Inl act_defs send_result_def)

lemma worker_step_ok: "worker_step L s s' \<Longrightarrow> worker_ok s \<Longrightarrow> worker_ok s'"
proof (induction rule: worker_step.cases)
  case (resolve c qn qt s i q w)
  then show ?case
    using begin_resolve_Inr [OF resolve(3)] calls_ok_register by (auto simp: worker_ok_def)
next
  case (refused c qn qt s e w)
  then show ?case using begin_resolve_Inl [OF refused(3)] by (simp add: worker_ok_def)
next
  case (reply s i r)
  then show ?case using nested.ok_deliver by (simp add: worker_ok_def receive_response_def upd_nested_def)
next
  case (wake i s out now q)
  then show ?case using calls_ok_forget by (simp add: worker_ok_def end_resolve_def act_simps upd_nested_def)
next
  case (give_up i s e)
  then show ?case using calls_ok_forget by (simp add: worker_ok_def give_up_resolve_def act_simps upd_nested_def)
next
  case (log s capacity payload)
  then show ?case by (simp add: worker_ok_def worker_log_append_def)
next
  case (answer s m)
  then show ?case by (simp add: worker_ok_def send_result_def act_simps)
qed

inductive worker_reach :: "dnslib \<Rightarrow> nat \<Rightarrow> nat \<Rightarrow> worker_run_state \<Rightarrow> bool" for L i g where
  start: "worker_reach L i g \<lparr>wr_worker = worker_init i g, wr_waiting = {}\<rparr>"
| step: "worker_reach L i g s \<Longrightarrow> worker_step L s s' \<Longrightarrow> worker_reach L i g s'"

lemma worker_reach_ok: "worker_reach L i g s \<Longrightarrow> worker_ok s"
proof (induction rule: worker_reach.induct)
  case start
  then show ?case by (simp add: worker_ok_def worker_init_def calls_ok_empty)
next
  case (step s s')
  then show ?case using worker_step_ok by blast
qed

section \<open>Properties\<close>

text \<open>
  C17: In every run of a worker a nested resolution that waits has its outcome already, or gets it
  from the reply of the master.
\<close>

theorem worker_reply_arrives:
  assumes "worker_reach L w g s" and "i \<in> wr_waiting s"
  shows "call_outcome (wk_calls (wr_worker s)) i \<noteq> None \<or>
    call_outcome (wk_calls (receive_response i r (wr_worker s))) i = Some (response_outcome r)"
  using nested.reply_arrives [OF worker_reach_ok [OF assms(1), unfolded worker_ok_def] assms(2)]
  by (simp add: receive_response_def upd_nested_def)

text \<open>
  A worker refuses a nested resolution with the exception with which the engine would refuse
  it, and asks the master for the others with the chain the engine would give its nested
  context: recursion is found and bounded across the processes as inside one.
\<close>

theorem worker_guards_like_engine:
  "case nested_call E qname qtype c of
     Inl e \<Rightarrow> begin_resolve (e_lib E) c qname qtype s = (Inl e, s)
   | Inr nested \<Rightarrow> \<exists>i s'. begin_resolve (e_lib E) c qname qtype s = (Inr (i, request nested), s') \<and>
       wk_results s' = wk_results s @ [ResolveRequest (wk_id s) (wk_generation s) i qname qtype
         (clientaddr nested) (listener_name nested) (nested_resolve_chain nested)]"
  by (cases "make_query (e_lib E) qname qtype")
    (simp_all add: nested_call_def Let_def begin_resolve_def resolve_guard_def act_simps send_result_def
      upd_nested_def nested_context_def build_context_def)

text \<open>
  What the master's resolution raises reaches the plugin in the worker: a missing name and a
  recursion as the exceptions they are, any other exception as a \<open>RuntimeError\<close> with its text, or
  its class when it has none.
\<close>

theorem worker_error_transport:
  assumes "is_Exception e"
  shows "response_outcome (resolve_reply L (Inl e)) = Inl (case e of
     NXDOMAIN \<Rightarrow> NXDOMAIN
   | NestedResolveRecursionError t \<Rightarrow> NestedResolveRecursionError t
   | _ \<Rightarrow> RuntimeError (if exn_text e = [] then exn_class e else exn_text e))"
  using assms
  by (cases e) (simp_all add: response_outcome_def resolve_reply_def serialize_resolve_error_type_def
      deserialize_resolve_error_def is_Exception_def)

text \<open>What a call that waits has done.\<close>

lemma begin_query_Inr:
  assumes "begin_query L req caddr lname p = (Inr i, p1)" and ok: "workers_ok p"
  shows "\<exists>w wire. w \<in> set (pl_workers p) \<and> \<not> future_done (wh_future w) \<and> to_wire L req = Inr wire \<and>
    QueryMessage i wire caddr lname \<in> set (pl_queues p1 ! wh_id w) \<and>
    worker_by_id p1 (wh_id w) = Some w \<and> i \<in> set (ct_pending (pl_calls p1))"
proof -
  let ?i = "pl_next_request p"
  let ?s1 = "upd_calls (register_call ?i) (p\<lparr>pl_next_request := Suc ?i\<rparr>)"
  obtain r1 s2 where nw: "next_worker ?s1 = (r1, s2)" by fastforce
  obtain w where r1: "r1 = Inr w"
    using assms(1) nw by (cases r1) (simp_all add: begin_query_def act_bind_apply act_get_def act_upd_def)
  have w: "w \<in> set (pl_workers p)" "\<not> future_done (wh_future w)"
  proof -
    have f: "find (\<lambda>w. \<not> future_done (wh_future w)) (rotation (pl_next_turn p) (pl_workers p)) = Some w"
      and ne: "pl_workers p \<noteq> []"
      using nw r1 by (auto simp: next_worker_def upd_calls_def split: if_splits option.splits)
    from find_Some_in [OF f] show "w \<in> set (pl_workers p)" "\<not> future_done (wh_future w)"
      by (simp_all add: rotation_rotate)
  qed
  obtain r2 s3 where enq: "enqueue_query L w ?i req caddr lname s2 = (r2, s3)" by fastforce
  with assms(1) nw r1 have i: "i = ?i" and p1: "p1 = s3" and r2: "r2 = Inr ()"
    by (cases r2; simp add: begin_query_def act_bind_apply act_get_def act_upd_def)+
  obtain wire where wire: "to_wire L req = Inr wire"
    and put: "queue_put (wh_id w) (QueryMessage ?i wire caddr lname) s2 = (Inr (), s3)"
    using enq r2 by (cases "to_wire L req") (auto simp: enqueue_query_def act_bind_apply act_lift_def)
  have q: "QueryMessage i wire caddr lname \<in> set (pl_queues p1 ! wh_id w)"
    using put i p1 by (auto simp: queue_put_def split: if_splits)
  have same: "pl_workers p1 = pl_workers p" "pl_calls p1 = register_call i (pl_calls p)"
    using begin_query_parts [OF assms(1)] by (simp_all add: worker_part_def)
  have "distinct (map wh_id (pl_workers p))" using ok by (simp add: workers_ok_def)
  then have "worker_by_id p1 (wh_id w) = Some w"
    using w(1) same find_distinct_key [of wh_id "pl_workers p" w] by (simp add: worker_by_id_def)
  with w wire q same show ?thesis by (auto simp: register_call_def)
qed

text \<open>
  C27: A query that goes through a worker is answered as the runtime of the worker answers it: the
  same response, the same dropping of the request, and a \<open>RuntimeError\<close> with the class and the text
  for an exception. Other calls that wait are not touched.
\<close>

theorem pool_answers_like_the_runtime:
  assumes "workers_ok p" and "begin_query L req caddr lname p = (Inr i, p1)"
    and "codec_ok L req" and "process req caddr lname s = (r, s')"
    and "\<forall>m. r = Inr (Some m) \<longrightarrow> codec_ok L m" and "\<forall>e. r = Inl e \<longrightarrow> is_Exception e"
  shows "\<exists>w wire reply out. w \<in> set (pl_workers p) \<and> \<not> future_done (wh_future w) \<and>
    QueryMessage i wire caddr lname \<in> set (pl_queues p1 ! wh_id w) \<and>
    handle_query L process (wh_id w) (wh_generation w) i wire caddr lname s = (Inr reply, s') \<and>
    call_outcome (pl_calls (snd (handle_result reply p1))) i = Some out \<and>
    read_reply L out = (case r of Inl e \<Rightarrow> Inl (RuntimeError (worker_error e)) | Inr m \<Rightarrow> Inr m) \<and>
    (\<forall>j. j \<noteq> i \<longrightarrow> call_outcome (pl_calls (snd (handle_result reply p1))) j = call_outcome (pl_calls p1) j)"
proof -
  from begin_query_Inr [OF assms(2,1)] obtain w wire where
    w: "w \<in> set (pl_workers p)" "\<not> future_done (wh_future w)" "to_wire L req = Inr wire"
      "QueryMessage i wire caddr lname \<in> set (pl_queues p1 ! wh_id w)"
      "worker_by_id p1 (wh_id w) = Some w" "i \<in> set (ct_pending (pl_calls p1))" by blast
  have parsed: "from_wire L wire = Inr req" using assms(3) w(3) by (simp add: codec_ok_def)
  have "\<exists>W. \<forall>m. r = Inr (Some m) \<longrightarrow> to_wire L m = Inr W \<and> from_wire L W = Inr m"
  proof (cases "\<exists>m. r = Inr (Some m)")
    case True
    then obtain m where m: "r = Inr (Some m)" ..
    with assms(5) obtain W where "to_wire L m = Inr W" "from_wire L W = Inr m"
      by (cases "to_wire L m") (auto simp: codec_ok_def)
    with m show ?thesis by auto
  qed simp
  then obtain W where enc: "\<And>m. r = Inr (Some m) \<Longrightarrow> to_wire L m = Inr W \<and> from_wire L W = Inr m" by blast
  define reply where "reply = (case r of
      Inl e \<Rightarrow> QueryResponse (wh_id w) (wh_generation w) i (Some (worker_error e)) None
    | Inr None \<Rightarrow> QueryResponse (wh_id w) (wh_generation w) i None None
    | Inr (Some m) \<Rightarrow> QueryResponse (wh_id w) (wh_generation w) i None (Some W))"
  define out :: reply where "out = (case r of
      Inl e \<Rightarrow> Inl (worker_error e) | Inr None \<Rightarrow> Inr None | Inr (Some m) \<Rightarrow> Inr (Some W))"
  have "handle_query L process (wh_id w) (wh_generation w) i wire caddr lname s = (Inr reply, s')"
    using assms(4,6) parsed enc
    by (cases r)
      (auto simp: handle_query_def worker_process_def act_try_def act_simps reply_def split: sum.splits option.splits)
  moreover have "is_current_worker_message p1 (QueryResponse (wh_id w) (wh_generation w) i e b)" for e b
    by (simp add: is_current_worker_message_def w(5))
  then have "pl_calls (snd (handle_result reply p1)) = deliver_reply i out (pl_calls p1)"
    by (auto simp: handle_result_def handle_query_response_def reply_def out_def worker_error_def
        split: sum.splits option.splits)
  then have "call_outcome (pl_calls (snd (handle_result reply p1))) i = Some out \<and>
      (\<forall>j. j \<noteq> i \<longrightarrow> call_outcome (pl_calls (snd (handle_result reply p1))) j = call_outcome (pl_calls p1) j)"
    using w(6) replies.deliver_other by (simp add: deliver_reply_def)
  moreover have "read_reply L out = (case r of Inl e \<Rightarrow> Inl (RuntimeError (worker_error e)) | Inr m \<Rightarrow> Inr m)"
    using enc by (auto simp: read_reply_def out_def split: sum.splits option.splits)
  ultimately show ?thesis using w by blast
qed

definition sample_runtime :: "message \<Rightarrow> string \<Rightarrow> string \<Rightarrow> (nat, message option) act" where
  "sample_runtime q caddr lname = (\<lambda>s. (Inr (Some (sample_message (msg_id q) 32768 0)), Suc s))"

theorem pool_answers_like_the_runtime_witness:
  "\<exists>w wire reply out. w \<in> set (pl_workers sample_pool) \<and> \<not> future_done (wh_future w) \<and>
    QueryMessage 1 wire ''c'' ''l'' \<in> set (pl_queues busy_pool ! wh_id w) \<and>
    handle_query sample_lib sample_runtime (wh_id w) (wh_generation w) 1 wire ''c'' ''l'' 0 = (Inr reply, 1) \<and>
    call_outcome (pl_calls (snd (handle_result reply busy_pool))) 1 = Some out \<and>
    read_reply sample_lib out = Inr (Some (sample_message 5 32768 0)) \<and>
    (\<forall>j. j \<noteq> 1 \<longrightarrow> call_outcome (pl_calls (snd (handle_result reply busy_pool))) j = call_outcome (pl_calls busy_pool) j)"
proof -
  have ok: "workers_ok sample_pool" using pool_reach_ok [OF sample_pool_reach(1)] by (simp add: run_ok_def)
  have r: "sample_runtime sample_request ''c'' ''l'' 0 = (Inr (Some (sample_message 5 32768 0)), 1)"
    by (simp add: sample_runtime_def sample_request_def sample_message_def)
  show ?thesis
    using pool_answers_like_the_runtime [where process = sample_runtime and s = 0, OF ok sample_call _ r]
      sample_codec
    by (simp add: sample_request_def)
qed

lemma sample_worker_reach:
  "worker_reach sample_lib 0 1 \<lparr>wr_worker = (worker_init 0 1)\<lparr>wk_next := 1,
     wk_calls := \<lparr>ct_pending = [0], ct_cells = [0 \<mapsto> None]\<rparr>,
     wk_results := [ResolveRequest 0 1 0 ''a.cn'' ''A'' ''c'' ''l'' [(''a.cn'', ''A'')]]\<rparr>, wr_waiting = {0}\<rparr>"
proof -
  let ?c = "build_context sample_request ''c'' ''l'' \<lparr>answers = [], results = []\<rparr> [] () :: unit ctx"
  have "begin_resolve sample_lib ?c ''a.cn'' ''A'' (worker_init 0 1) =
      (Inr (0, sample_message 77 0 0), (worker_init 0 1)\<lparr>wk_next := 1,
     wk_calls := \<lparr>ct_pending = [0], ct_cells = [0 \<mapsto> None]\<rparr>,
     wk_results := [ResolveRequest 0 1 0 ''a.cn'' ''A'' ''c'' ''l'' [(''a.cn'', ''A'')]]\<rparr>)"
    by (simp add: begin_resolve_def resolve_guard_def build_context_def max_nested_resolve_depth_def act_simps
        sample_lib_def send_result_def upd_nested_def worker_init_def register_call_def calls_empty_def)
  from worker_step.resolve [of sample_lib ?c "''a.cn''" "''A''"
      "\<lparr>wr_worker = worker_init 0 1, wr_waiting = {}\<rparr>"] this worker_reach.step [OF worker_reach.start]
  show ?thesis by fastforce
qed

theorem worker_reply_arrives_witness:
  "call_outcome (wk_calls (receive_response 0 (Inr [7]) ((worker_init 0 1)\<lparr>wk_next := 1,
     wk_calls := \<lparr>ct_pending = [0], ct_cells = [0 \<mapsto> None]\<rparr>,
     wk_results := [ResolveRequest 0 1 0 ''a.cn'' ''A'' ''c'' ''l'' [(''a.cn'', ''A'')]]\<rparr>))) 0 = Some (Inr [7])"
  using worker_reply_arrives [OF sample_worker_reach, of 0 "Inr [7]"]
  by (simp add: call_outcome_def response_outcome_def)

theorem worker_error_transport_witness:
  "response_outcome (resolve_reply sample_lib (Inl (TimeoutError ''t''))) = Inl (RuntimeError ''t'')"
  using worker_error_transport [of "TimeoutError ''t''" sample_lib] by (simp add: is_Exception_def)

end
