(* ===== verification/Catalog.thy ===== *)
theory Catalog
  imports Plugin_Api Ip_Address
begin

text \<open>
  \<open>plugin_api/catalog.py\<close> and \<open>config/loader.py\<close>: the catalogue of the built-in plugins, the
  completion of a configuration by the plugins it does not mention, the JSON schema of the
  configuration, and loading, dumping and saving a configuration. The models of pydantic and the
  \<open>json\<close> module are arguments.
\<close>

section \<open>The catalogue\<close>

text \<open>The two models of a plugin: their schemas and the dumps of their defaults.\<close>

record plugin_models =
  pm_config_schema :: json
  pm_variables_schema :: json
  pm_config_default :: json
  pm_variables_default :: json

record ('v, 'm) catalog_entry =
  en_module :: string
  en_class :: "('v, 'm) plugin_class"
  en_models :: plugin_models

type_synonym ('v, 'm) modules = "string \<Rightarrow> ('v, 'm) plugin_class option"

fun discover_loop ::
  "('v, 'm) modules \<Rightarrow> (string \<Rightarrow> plugin_models) \<Rightarrow> string list \<Rightarrow> ('v, 'm) catalog_entry list res" where
  "discover_loop modules models [] = Inr []"
| "discover_loop modules models (m # ms) =
     andthen (create_plugin_instance modules m) (\<lambda>cls.
     andthen (discover_loop modules models ms) (\<lambda>entries.
     Inr (\<lparr>en_module = m, en_class = cls, en_models = models m\<rparr> # entries)))"

definition discover_available_plugins ::
  "('v, 'm) modules \<Rightarrow> (string \<Rightarrow> plugin_models) \<Rightarrow> ('v, 'm) catalog_entry list res" where
  "discover_available_plugins modules models = discover_loop modules models static_plugin_module_names"

text \<open>\<open>_build_unique_name\<close>: the loop ends because only finitely many names are used.\<close>

definition suffixed :: "string \<Rightarrow> nat \<Rightarrow> string" where
  "suffixed candidate k = candidate @ ''-'' @ dec_str k"

lemma dec_str_inj: "dec_str a = dec_str b \<Longrightarrow> a = b"
  using dec_str_ok [of a] dec_str_ok [of b] by metis

lemma suffixed_inj: "suffixed c m = suffixed c n \<longleftrightarrow> m = n"
  using dec_str_inj by (auto simp: suffixed_def)

lemma finite_suffixes: "finite {s. suffixed c s \<in> set used}"
proof -
  have "inj (suffixed c)" by (simp add: inj_def suffixed_inj)
  then show ?thesis using finite_vimageI [of "set used" "suffixed c"] by (simp add: vimage_def)
qed

function unique_suffix :: "string \<Rightarrow> string list \<Rightarrow> nat \<Rightarrow> nat" where
  "unique_suffix candidate used k =
     (if suffixed candidate k \<in> set used then unique_suffix candidate used (Suc k) else k)"
  by auto

termination
proof (relation "measure (\<lambda>(c, used, s). card {t. s \<le> t \<and> suffixed c t \<in> set used})")
  fix c :: string and used s
  assume "suffixed c s \<in> set used"
  then have "{t. Suc s \<le> t \<and> suffixed c t \<in> set used} \<subset> {t. s \<le> t \<and> suffixed c t \<in> set used}"
    by (auto simp: Suc_le_eq)
  moreover have "finite {t. s \<le> t \<and> suffixed c t \<in> set used}"
    using finite_suffixes [of c used] by (rule rev_finite_subset) auto
  ultimately show "((c, used, Suc s), (c, used, s)) \<in>
      measure (\<lambda>(c, used, s). card {t. s \<le> t \<and> suffixed c t \<in> set used})"
    by (simp add: psubset_card_mono)
qed simp

declare unique_suffix.simps [simp del]

definition build_unique_name :: "string \<Rightarrow> string list \<Rightarrow> string" where
  "build_unique_name candidate used =
     (if candidate \<notin> set used then candidate else suffixed candidate (unique_suffix candidate used 2))"

lemma unique_suffix_fresh: "suffixed c (unique_suffix c used s) \<notin> set used"
  by (induction c used s rule: unique_suffix.induct) (subst unique_suffix.simps, simp)

lemma build_unique_name_fresh: "build_unique_name c used \<notin> set used"
  by (simp add: build_unique_name_def unique_suffix_fresh)

definition build_default_plugin_config :: "('v, 'm) catalog_entry \<Rightarrow> string list \<Rightarrow> plugin_config" where
  "build_default_plugin_config entry used =
     \<lparr>p_name = build_unique_name (en_module entry) used, p_module = en_module entry, p_enabled = False,
      p_config = pm_config_default (en_models entry), p_variables = pm_variables_default (en_models entry)\<rparr>"

definition describe_entry :: "('v, 'm) catalog_entry \<Rightarrow> (plugin_config \<Rightarrow> json) \<Rightarrow> json" where
  "describe_entry entry dump = JObj
     [(''module'', JStr (en_module entry)),
      (''plugin_name'', JStr (pc_plugin_name (en_class entry))),
      (''ui_meta'', pc_ui_meta (en_class entry)),
      (''config_schema'', pm_config_schema (en_models entry)),
      (''variables_schema'', pm_variables_schema (en_models entry)),
      (''default_config'', dump (build_default_plugin_config entry []))]"

section \<open>Checking and completing the configured plugins\<close>

text \<open>The dictionary of the entries by their module; the modules are all different.\<close>

definition entry_of :: "('v, 'm) catalog_entry list \<Rightarrow> string \<Rightarrow> ('v, 'm) catalog_entry option" where
  "entry_of entries m = map_of (rev (map (\<lambda>e. (en_module e, e)) entries)) m"

definition validate_plugin_config :: "('v, 'm) catalog_entry list \<Rightarrow> plugin_config \<Rightarrow> unit res" where
  "validate_plugin_config entries pc = (case entry_of entries (p_module pc) of
     None \<Rightarrow> Inl (ValueError (''unknown plugin module: '' @ p_module pc))
   | Some entry \<Rightarrow>
       andthen (pc_config (en_class entry) (p_config pc)) (\<lambda>_.
       andthen (pc_variables (en_class entry) (p_variables pc)) (\<lambda>_. Inr ())))"

definition validate_plugin_configs ::
  "('v, 'm) modules \<Rightarrow> (string \<Rightarrow> plugin_models) \<Rightarrow> plugin_config list \<Rightarrow> unit res" where
  "validate_plugin_configs modules models pcs =
     andthen (discover_available_plugins modules models) (\<lambda>entries.
     for_each (validate_plugin_config entries) pcs)"

text \<open>The sets \<open>configured_modules\<close> and \<open>used_names\<close> are those of the list that grows.\<close>

fun materialize_loop :: "('v, 'm) catalog_entry list \<Rightarrow> plugin_config list \<Rightarrow> plugin_config list" where
  "materialize_loop [] pcs = pcs"
| "materialize_loop (entry # rest) pcs =
     (if en_module entry \<in> p_module ` set pcs then materialize_loop rest pcs
      else materialize_loop rest (pcs @ [build_default_plugin_config entry (map p_name pcs)]))"

definition materialize_plugin_configs ::
  "('v, 'm) modules \<Rightarrow> (string \<Rightarrow> plugin_models) \<Rightarrow> plugin_config list \<Rightarrow> plugin_config list res" where
  "materialize_plugin_configs modules models pcs =
     andthen (discover_available_plugins modules models) (\<lambda>entries. Inr (materialize_loop entries pcs))"

section \<open>Loading and dumping\<close>

text \<open>
  \<open>parse\<close> is the validation of \<open>AppConfig\<close> on the values of a file or a text, with
  \<open>validate_references\<close>; \<open>to_json\<close> is \<open>model_dump(mode="json")\<close>, \<open>loads\<close> and \<open>dumps\<close> are those of
  the \<open>json\<close> module.
\<close>

definition finish_config ::
  "('v, 'm) modules \<Rightarrow> (string \<Rightarrow> plugin_models) \<Rightarrow> app_config \<Rightarrow> app_config res" where
  "finish_config modules models config =
     andthen (validate_plugin_configs modules models (plugins config)) (\<lambda>_.
     andthen (materialize_plugin_configs modules models (plugins config)) (\<lambda>pcs.
     Inr (config\<lparr>plugins := pcs\<rparr>)))"

definition load_config ::
  "('v, 'm) modules \<Rightarrow> (string \<Rightarrow> plugin_models) \<Rightarrow> app_config res \<Rightarrow> app_config res" where
  "load_config modules models settings = andthen settings (finish_config modules models)"

definition parse_config_text ::
  "('v, 'm) modules \<Rightarrow> (string \<Rightarrow> plugin_models) \<Rightarrow> (string \<Rightarrow> json res) \<Rightarrow> (json \<Rightarrow> app_config res) \<Rightarrow>
   string \<Rightarrow> app_config res" where
  "parse_config_text modules models loads parse config_text =
     andthen (loads config_text) (\<lambda>raw.
     case raw of
       JObj _ \<Rightarrow> andthen (parse raw) (finish_config modules models)
     | _ \<Rightarrow> Inl (ValueError ''the root must be an object''))"

definition dump_config_text ::
  "('v, 'm) modules \<Rightarrow> (string \<Rightarrow> plugin_models) \<Rightarrow> (app_config \<Rightarrow> json) \<Rightarrow> (json \<Rightarrow> string) \<Rightarrow>
   app_config \<Rightarrow> string res" where
  "dump_config_text modules models to_json dumps config =
     andthen (materialize_plugin_configs modules models (plugins config)) (\<lambda>pcs.
     Inr (dumps (to_json (config\<lparr>plugins := pcs\<rparr>)) @ [CHR 0x0A]))"

text \<open>
  \<open>save_config\<close>: \<open>write_text\<close> opens the file for writing, which empties it, and then writes. The
  state is the content of the file; the operating system may refuse the opening, or the writing
  after some characters.
\<close>

datatype write_answer = Written | OpenFails py_exn | WriteFails nat py_exn

fun write_text :: "write_answer \<Rightarrow> string \<Rightarrow> (string, unit) act" where
  "write_text Written text = act_upd (\<lambda>_. text)"
| "write_text (OpenFails e) text = act_raise e"
| "write_text (WriteFails n e) text = act_bind (act_upd (\<lambda>_. take n text)) (\<lambda>_. act_raise e)"

definition save_config ::
  "('v, 'm) modules \<Rightarrow> (string \<Rightarrow> plugin_models) \<Rightarrow> (app_config \<Rightarrow> json) \<Rightarrow> (json \<Rightarrow> string) \<Rightarrow>
   write_answer \<Rightarrow> app_config \<Rightarrow> (string, unit) act" where
  "save_config modules models to_json dumps answer config =
     act_bind (act_lift (dump_config_text modules models to_json dumps config)) (write_text answer)"

section \<open>The JSON schema\<close>

text \<open>\<open>_rewrite_schema_refs\<close>: every \<open>$ref\<close> to \<open>#/$defs/name\<close> gets the pre.\<close>

definition ref_base :: string where
  "ref_base = ''#/$defs/''"

definition rewrite_ref :: "string \<Rightarrow> string \<Rightarrow> string" where
  "rewrite_ref pre item =
     (if take (length ref_base) item = ref_base
      then ref_base @ pre @ ''.'' @ drop (length ref_base) item else item)"

fun rewrite_schema_refs :: "string \<Rightarrow> json \<Rightarrow> json" where
  "rewrite_schema_refs pre (JObj kvs) = JObj (map (\<lambda>(key, item).
     (key, case item of JStr s \<Rightarrow> if key = ''$ref'' then JStr (rewrite_ref pre s) else JStr s
           | _ \<Rightarrow> rewrite_schema_refs pre item)) kvs)"
| "rewrite_schema_refs pre (JArr items) = JArr (map (rewrite_schema_refs pre) items)"
| "rewrite_schema_refs pre v = v"

definition json_fields :: "json \<Rightarrow> (string \<times> json) list" where
  "json_fields v = (case v of JObj kvs \<Rightarrow> kvs | _ \<Rightarrow> [])"

definition json_pop :: "string \<Rightarrow> json \<Rightarrow> json" where
  "json_pop k v = (case v of JObj kvs \<Rightarrow> JObj (filter (\<lambda>(k', _). k' \<noteq> k) kvs) | _ \<Rightarrow> v)"

definition schema_defs :: "json \<Rightarrow> (string \<times> json) list" where
  "schema_defs schema = (case map_of (json_fields schema) ''$defs'' of Some (JObj ds) \<Rightarrow> ds | _ \<Rightarrow> [])"

definition namespace_json_schema :: "json \<Rightarrow> string \<Rightarrow> json \<times> (string \<times> json) list" where
  "namespace_json_schema schema pre =
     (rewrite_schema_refs pre (json_pop ''$defs'' schema),
      map (\<lambda>(name, d). (pre @ ''.'' @ name, rewrite_schema_refs pre d)) (schema_defs schema))"

definition ui_text :: "json \<Rightarrow> string \<Rightarrow> json option" where
  "ui_text ui k = map_of (json_fields ui) k"

definition plugin_option ::
  "('v, 'm) catalog_entry \<Rightarrow> (plugin_config \<Rightarrow> json) \<Rightarrow> json \<Rightarrow> json \<Rightarrow> json" where
  "plugin_option entry dump config_schema variables_schema = JObj
     [(''title'', case ui_text (pc_ui_meta (en_class entry)) ''title'' of
         Some (JStr t) \<Rightarrow> if t \<noteq> [] then JStr t else JStr (pc_plugin_name (en_class entry))
       | _ \<Rightarrow> JStr (pc_plugin_name (en_class entry))),
      (''description'', case ui_text (pc_ui_meta (en_class entry)) ''description'' of
         Some d \<Rightarrow> d | None \<Rightarrow> JStr []),
      (''type'', JStr ''object''),
      (''properties'', JObj
        [(''name'', JObj [(''title'', JStr ''Name''), (''type'', JStr ''string'')]),
         (''module'', JObj [(''title'', JStr ''Module''), (''type'', JStr ''string''),
            (''const'', JStr (en_module entry)), (''default'', JStr (en_module entry))]),
         (''enabled'', JObj [(''title'', JStr ''Enabled''), (''type'', JStr ''boolean''),
            (''default'', JBool False)]),
         (''config'', config_schema),
         (''variables'', variables_schema)]),
      (''required'', JArr [JStr ''name'', JStr ''module'']),
      (''default'', dump (build_default_plugin_config entry [])),
      (''additionalProperties'', JBool False)]"

text \<open>The loop over the entries: the definitions, a dictionary, and the options.\<close>

definition dict_update :: "('k \<times> 'v) list \<Rightarrow> ('k \<times> 'v) list \<Rightarrow> ('k \<times> 'v) list" where
  "dict_update d new = fold (\<lambda>(k, v) d. dict_set k v d) new d"

fun schema_options ::
  "(plugin_config \<Rightarrow> json) \<Rightarrow> ('v, 'm) catalog_entry list \<Rightarrow> (string \<times> json) list \<times> json list \<Rightarrow>
   (string \<times> json) list \<times> json list" where
  "schema_options dump [] acc = acc"
| "schema_options dump (entry # rest) (definitions, options) =
     (case namespace_json_schema (pm_config_schema (en_models entry)) (en_module entry @ ''.config'') of
        (config_schema, config_defs) \<Rightarrow>
      case namespace_json_schema (pm_variables_schema (en_models entry)) (en_module entry @ ''.variables'') of
        (variables_schema, variables_defs) \<Rightarrow>
      schema_options dump rest
        (dict_update (dict_update definitions config_defs) variables_defs,
         options @ [plugin_option entry dump config_schema variables_schema]))"

definition build_config_json_schema ::
  "('v, 'm) modules \<Rightarrow> (string \<Rightarrow> plugin_models) \<Rightarrow> (plugin_config \<Rightarrow> json) \<Rightarrow> json \<Rightarrow> json res" where
  "build_config_json_schema modules models dump schema =
     andthen (discover_available_plugins modules models) (\<lambda>entries.
     case schema_options dump entries (schema_defs schema, []) of
       (definitions, options) \<Rightarrow>
         Inr (JObj (dict_set ''$defs''
           (JObj (if options = [] then definitions
                  else dict_set ''PluginConfig''
                    (JObj [(''title'', JStr ''PluginConfig''), (''oneOf'', JArr options)]) definitions))
           (json_fields schema))))"

section \<open>Laws of the completion\<close>

lemma discover_loop_modules:
  "discover_loop modules models ms = Inr es \<Longrightarrow> map en_module es = ms"
  by (induction ms arbitrary: es) (auto simp: andthen_Inr_iff)

lemma discover_modules:
  "discover_available_plugins modules models = Inr es \<Longrightarrow> map en_module es = static_plugin_module_names"
  by (simp add: discover_available_plugins_def discover_loop_modules)

lemma materialize_loop_spec:
  "\<exists>new. materialize_loop es pcs = pcs @ new \<and>
     p_module ` set (pcs @ new) = p_module ` set pcs \<union> en_module ` set es \<and>
     (distinct (map p_name pcs) \<longrightarrow> distinct (map p_name (pcs @ new))) \<and>
     list_all (\<lambda>p. \<not> p_enabled p \<and> p_module p \<notin> p_module ` set pcs) new \<and>
     distinct (map p_module new)"
proof (induction es arbitrary: pcs)
  case Nil
  then show ?case by (intro exI [of _ "[]"]) simp
next
  case (Cons e es)
  show ?case
  proof (cases "en_module e \<in> p_module ` set pcs")
    case True
    obtain new where "materialize_loop es pcs = pcs @ new"
      "p_module ` set (pcs @ new) = p_module ` set pcs \<union> en_module ` set es"
      "distinct (map p_name pcs) \<longrightarrow> distinct (map p_name (pcs @ new))"
      "list_all (\<lambda>p. \<not> p_enabled p \<and> p_module p \<notin> p_module ` set pcs) new"
      "distinct (map p_module new)" using Cons.IH [of pcs] by blast
    with True show ?thesis by (intro exI [of _ new]) auto
  next
    case False
    let ?p = "build_default_plugin_config e (map p_name pcs)"
    obtain new where new: "materialize_loop es (pcs @ [?p]) = (pcs @ [?p]) @ new"
      "p_module ` set ((pcs @ [?p]) @ new) = p_module ` set (pcs @ [?p]) \<union> en_module ` set es"
      "distinct (map p_name (pcs @ [?p])) \<longrightarrow> distinct (map p_name ((pcs @ [?p]) @ new))"
      "list_all (\<lambda>p. \<not> p_enabled p \<and> p_module p \<notin> p_module ` set (pcs @ [?p])) new"
      "distinct (map p_module new)" using Cons.IH [of "pcs @ [?p]"] by blast
    have fresh: "p_name ?p \<notin> set (map p_name pcs)"
      using build_unique_name_fresh [of "en_module e" "map p_name pcs"]
      by (simp add: build_default_plugin_config_def)
    have m: "p_module ?p = en_module e" "\<not> p_enabled ?p" by (simp_all add: build_default_plugin_config_def)
    have "materialize_loop (e # es) pcs = pcs @ (?p # new)" using False new(1) by simp
    moreover have "p_module ` set (pcs @ ?p # new) = p_module ` set pcs \<union> en_module ` set (e # es)"
      using new(2) m by auto
    moreover have "distinct (map p_name pcs) \<longrightarrow> distinct (map p_name (pcs @ ?p # new))"
      using new(3) fresh by auto
    moreover have "list_all (\<lambda>p. \<not> p_enabled p \<and> p_module p \<notin> p_module ` set pcs) (?p # new)"
      using new(4) m False by (auto simp: list_all_iff)
    moreover have "distinct (map p_module (?p # new))"
      using new(4,5) m by (auto simp: list_all_iff)
    ultimately show ?thesis by blast
  qed
qed

lemma materialize_loop_complete:
  "en_module ` set es \<subseteq> p_module ` set pcs \<Longrightarrow> materialize_loop es pcs = pcs"
  by (induction es) auto

lemma materialize_loop_again: "materialize_loop es (materialize_loop es pcs) = materialize_loop es pcs"
proof (rule materialize_loop_complete)
  obtain new where "materialize_loop es pcs = pcs @ new"
    "p_module ` set (pcs @ new) = p_module ` set pcs \<union> en_module ` set es"
    using materialize_loop_spec [of es pcs] by blast
  then show "en_module ` set es \<subseteq> p_module ` set (materialize_loop es pcs)" by auto
qed

lemma materialize_loop_added:
  "p \<in> set (materialize_loop es pcs) \<Longrightarrow>
     p \<in> set pcs \<or> (\<exists>e \<in> set es. \<exists>used. p = build_default_plugin_config e used)"
  by (induction es arbitrary: pcs) (fastforce split: if_splits)+

lemma discover_loop_entries:
  "discover_loop modules models ms = Inr es \<Longrightarrow>
     list_all (\<lambda>e. modules (en_module e) = Some (en_class e) \<and> en_models e = models (en_module e)) es"
  by (induction ms arbitrary: es)
    (auto simp: andthen_Inr_iff create_plugin_instance_def split: if_splits option.splits)

lemma entry_of_in:
  assumes "distinct (map en_module es)" and "e \<in> set es"
  shows "entry_of es (en_module e) = Some e"
proof -
  have "map fst (rev (map (\<lambda>e. (en_module e, e)) es)) = rev (map en_module es)" by (simp add: rev_map)
  with assms(1) have "distinct (map fst (rev (map (\<lambda>e. (en_module e, e)) es)))" by simp
  then show ?thesis unfolding entry_of_def using assms(2) by (intro map_of_is_SomeI) auto
qed

lemma static_names_distinct: "distinct static_plugin_module_names"
  by (simp add: static_plugin_module_names_def)

text \<open>The defaults of the plugins are valid configurations when their models say so.\<close>

lemma added_valid:
  assumes es: "discover_available_plugins modules models = Inr es"
    and defaults: "\<And>m cls. modules m = Some cls \<Longrightarrow>
      (\<exists>v. pc_config cls (pm_config_default (models m)) = Inr v) \<and>
      (\<exists>v. pc_variables cls (pm_variables_default (models m)) = Inr v)"
    and p: "p \<in> set (materialize_loop es pcs)"
  shows "p \<in> set pcs \<or> validate_plugin_config es p = Inr ()"
proof -
  from materialize_loop_added [OF p] show ?thesis
  proof
    assume "\<exists>e \<in> set es. \<exists>used. p = build_default_plugin_config e used"
    then obtain e used where e: "e \<in> set es" and pd: "p = build_default_plugin_config e used" by blast
    have "modules (en_module e) = Some (en_class e)" "en_models e = models (en_module e)"
      using discover_loop_entries [OF es [unfolded discover_available_plugins_def]] e by (auto simp: list_all_iff)
    moreover have "entry_of es (en_module e) = Some e"
      using entry_of_in [OF _ e] discover_modules [OF es] static_names_distinct by simp
    ultimately have "validate_plugin_config es p = Inr ()"
      using defaults [of "en_module e" "en_class e"]
      by (auto simp: validate_plugin_config_def pd build_default_plugin_config_def)
    then show ?thesis ..
  qed simp
qed

text \<open>A configuration that was loaded goes through the loading again unchanged.\<close>

lemma finish_config_again:
  assumes loaded: "finish_config modules models c0 = Inr c"
    and defaults: "\<And>m cls. modules m = Some cls \<Longrightarrow>
      (\<exists>v. pc_config cls (pm_config_default (models m)) = Inr v) \<and>
      (\<exists>v. pc_variables cls (pm_variables_default (models m)) = Inr v)"
  shows "finish_config modules models c = Inr c \<and>
    dump_config_text modules models to_json dumps c = Inr (dumps (to_json c) @ [CHR 0x0A])"
proof -
  from loaded obtain es where es: "discover_available_plugins modules models = Inr es"
    and v0: "for_each (validate_plugin_config es) (plugins c0) = Inr ()"
    and c: "c = c0\<lparr>plugins := materialize_loop es (plugins c0)\<rparr>"
    by (auto simp: finish_config_def validate_plugin_configs_def materialize_plugin_configs_def andthen_Inr_iff)
  have mat: "materialize_plugin_configs modules models (plugins c) = Inr (plugins c)"
    by (simp add: materialize_plugin_configs_def es c materialize_loop_again)
  have "validate_plugin_config es p = Inr ()" if "p \<in> set (plugins c)" for p
    using that v0 added_valid [OF es defaults] by (auto simp: c for_each_Inr)
  then have "validate_plugin_configs modules models (plugins c) = Inr ()"
    by (simp add: validate_plugin_configs_def es for_each_Inr)
  with mat show ?thesis by (simp add: finish_config_def dump_config_text_def)
qed

section \<open>References of a schema\<close>

text \<open>The names a schema refers to by \<open>#/$defs/name\<close>.\<close>

fun json_refs :: "json \<Rightarrow> string list" where
  "json_refs (JObj kvs) = concat (map (\<lambda>(key, item). case item of
     JStr s \<Rightarrow> if key = ''$ref'' \<and> take (length ref_base) s = ref_base then [drop (length ref_base) s] else []
   | _ \<Rightarrow> json_refs item) kvs)"
| "json_refs (JArr items) = concat (map json_refs items)"
| "json_refs _ = []"

lemma rewrite_ref_drop:
  "take (length ref_base) s = ref_base \<Longrightarrow>
     take (length ref_base) (rewrite_ref pre s) = ref_base \<and>
     drop (length ref_base) (rewrite_ref pre s) = pre @ ''.'' @ drop (length ref_base) s"
  by (simp add: rewrite_ref_def)

lemma json_refs_item:
  assumes "json_refs (rewrite_schema_refs pre item) = map (\<lambda>n. pre @ ''.'' @ n) (json_refs item)"
  shows "(case (case item of JStr s \<Rightarrow> if key = ''$ref'' then JStr (rewrite_ref pre s) else JStr s
           | _ \<Rightarrow> rewrite_schema_refs pre item) of
     JStr s \<Rightarrow> if key = ''$ref'' \<and> take (length ref_base) s = ref_base then [drop (length ref_base) s] else []
   | _ \<Rightarrow> json_refs (case item of JStr s \<Rightarrow> if key = ''$ref'' then JStr (rewrite_ref pre s) else JStr s
           | _ \<Rightarrow> rewrite_schema_refs pre item)) =
   map (\<lambda>n. pre @ ''.'' @ n) (case item of
     JStr s \<Rightarrow> if key = ''$ref'' \<and> take (length ref_base) s = ref_base then [drop (length ref_base) s] else []
   | _ \<Rightarrow> json_refs item)"
  using assms rewrite_ref_drop [of _ pre]
  by (cases item) (auto simp: rewrite_ref_def [of pre])

lemma json_refs_rewrite:
  "json_refs (rewrite_schema_refs pre v) = map (\<lambda>n. pre @ ''.'' @ n) (json_refs v)"
proof (induction pre v rule: rewrite_schema_refs.induct)
  case (1 pre kvs)
  have "concat (map ((\<lambda>(key, item). case item of
     JStr s \<Rightarrow> if key = ''$ref'' \<and> take (length ref_base) s = ref_base then [drop (length ref_base) s] else []
   | _ \<Rightarrow> json_refs item) \<circ> (\<lambda>(key, item). (key, case item of
       JStr s \<Rightarrow> if key = ''$ref'' then JStr (rewrite_ref pre s) else JStr s
     | _ \<Rightarrow> rewrite_schema_refs pre item))) kvs) =
    concat (map (map (\<lambda>n. pre @ ''.'' @ n) \<circ> (\<lambda>(key, item). case item of
     JStr s \<Rightarrow> if key = ''$ref'' \<and> take (length ref_base) s = ref_base then [drop (length ref_base) s] else []
   | _ \<Rightarrow> json_refs item)) kvs)"
  proof (rule arg_cong [where f = concat], rule map_cong [OF refl])
    fix kv
    assume kv: "kv \<in> set kvs"
    obtain key item where k: "kv = (key, item)" by fastforce
    have "json_refs (rewrite_schema_refs pre item) = map (\<lambda>n. pre @ ''.'' @ n) (json_refs item)"
      using 1 kv k by (cases item) auto
    from json_refs_item [OF this, of key] k
    show "((\<lambda>(key, item). case item of
     JStr s \<Rightarrow> if key = ''$ref'' \<and> take (length ref_base) s = ref_base then [drop (length ref_base) s] else []
   | _ \<Rightarrow> json_refs item) \<circ> (\<lambda>(key, item). (key, case item of
       JStr s \<Rightarrow> if key = ''$ref'' then JStr (rewrite_ref pre s) else JStr s
     | _ \<Rightarrow> rewrite_schema_refs pre item))) kv = (map (\<lambda>n. pre @ ''.'' @ n) \<circ> (\<lambda>(key, item). case item of
     JStr s \<Rightarrow> if key = ''$ref'' \<and> take (length ref_base) s = ref_base then [drop (length ref_base) s] else []
   | _ \<Rightarrow> json_refs item)) kv" by simp
  qed
  then show ?case by (simp add: map_concat)
next
  case (2 pre items)
  then have "map (json_refs \<circ> rewrite_schema_refs pre) items = map (map (\<lambda>n. pre @ ''.'' @ n) \<circ> json_refs) items"
    by auto
  from arg_cong [OF this, of concat] show ?case by (simp add: map_concat)
qed simp_all

section \<open>Properties\<close>

text \<open>
  Completing the configured plugins changes none of them and keeps names unique; afterwards
  every built-in module is configured, the added ones are disabled, and each is added once.
\<close>

theorem materialize_covers_modules:
  assumes "materialize_plugin_configs modules models pcs = Inr all_pcs"
  shows "\<exists>new. all_pcs = pcs @ new \<and>
    p_module ` set all_pcs = p_module ` set pcs \<union> set static_plugin_module_names \<and>
    (distinct (map p_name pcs) \<longrightarrow> distinct (map p_name all_pcs)) \<and>
    list_all (\<lambda>p. \<not> p_enabled p \<and> p_module p \<notin> p_module ` set pcs) new \<and> distinct (map p_module new)"
proof -
  from assms obtain es where es: "discover_available_plugins modules models = Inr es"
    and all: "all_pcs = materialize_loop es pcs"
    by (auto simp: materialize_plugin_configs_def andthen_Inr_iff)
  have "en_module ` set es = set static_plugin_module_names"
    using arg_cong [OF discover_modules [OF es], of set] by simp
  with materialize_loop_spec [of es pcs] all show ?thesis by auto
qed

definition sample_class :: "(nat, nat) plugin_class" where
  "sample_class = \<lparr>pc_plugin_name = ''p'', pc_ui_meta = JNull, pc_config = (\<lambda>j. Inr j),
     pc_variables = (\<lambda>j. Inr j), pc_setup = (\<lambda>c v reg. Inr reg)\<rparr>"

definition sample_models :: "string \<Rightarrow> plugin_models" where
  "sample_models m = \<lparr>pm_config_schema = JObj [], pm_variables_schema = JObj [], pm_config_default = JObj [],
     pm_variables_default = JObj []\<rparr>"

definition sample_modules :: "(nat, nat) modules" where
  "sample_modules m = Some sample_class"

lemma discover_sample:
  "set ms \<subseteq> set static_plugin_module_names \<Longrightarrow>
     discover_loop sample_modules sample_models ms = Inr (map (\<lambda>m. \<lparr>en_module = m, en_class = sample_class, en_models = sample_models m\<rparr>) ms)"
  by (induction ms) (auto simp: create_plugin_instance_def sample_modules_def)

lemma discover_sample_all: "\<exists>es. discover_available_plugins sample_modules sample_models = Inr es"
  using discover_sample [of static_plugin_module_names] by (simp add: discover_available_plugins_def)

theorem materialize_covers_modules_witness:
  "\<exists>all_pcs. materialize_plugin_configs sample_modules sample_models [] = Inr all_pcs \<and>
     p_module ` set all_pcs = set static_plugin_module_names \<and> distinct (map p_name all_pcs)"
proof -
  obtain all_pcs where "materialize_plugin_configs sample_modules sample_models [] = Inr all_pcs"
    using discover_sample_all by (auto simp: materialize_plugin_configs_def)
  from materialize_covers_modules [OF this] this show ?thesis by auto
qed

text \<open>
  C36: Dumping a configuration that was loaded and parsing the text gives the configuration back:
  the plugins the loading added are kept as they are and none is added again. The JSON library
  and the model of the configuration are taken to read back what they write of this one, and the
  models of the plugins to accept their defaults.
\<close>

theorem config_dump_parse_roundtrip:
  assumes loaded: "finish_config modules models c0 = Inr c"
    and json: "loads (dumps (to_json c) @ [CHR 0x0A]) = Inr (to_json c)"
    and model: "parse (to_json c) = Inr c" "to_json c = JObj kvs"
    and defaults: "\<And>m cls. modules m = Some cls \<Longrightarrow>
      (\<exists>v. pc_config cls (pm_config_default (models m)) = Inr v) \<and>
      (\<exists>v. pc_variables cls (pm_variables_default (models m)) = Inr v)"
  shows "\<exists>text. dump_config_text modules models to_json dumps c = Inr text \<and>
    parse_config_text modules models loads parse text = Inr c"
  using finish_config_again [OF loaded defaults, of to_json dumps] json model
  by (simp add: parse_config_text_def)

text \<open>
  Putting the definitions of a plugin's schema under its own prefix leaves no reference in the
  air: when the schema refers to its own definitions only, so does the result, the definitions
  included.
\<close>

theorem schema_refs_resolve:
  assumes "set (json_refs (json_pop ''$defs'' schema)) \<subseteq> fst ` set (schema_defs schema)"
    and "list_all (\<lambda>(name, d). set (json_refs d) \<subseteq> fst ` set (schema_defs schema)) (schema_defs schema)"
  shows "case namespace_json_schema schema pre of (schema', definitions) \<Rightarrow>
    set (json_refs schema') \<subseteq> fst ` set definitions \<and>
    list_all (\<lambda>(name, d). set (json_refs d) \<subseteq> fst ` set definitions) definitions"
proof -
  have "fst ` set (snd (namespace_json_schema schema pre)) = (\<lambda>n. pre @ ''.'' @ n) ` fst ` set (schema_defs schema)"
    by (force simp: namespace_json_schema_def image_iff)
  with assms show ?thesis
    by (auto simp: namespace_json_schema_def json_refs_rewrite list_all_iff split: prod.splits) blast+
qed

definition sample_config :: app_config where
  "sample_config = \<lparr>runtime = runtime_defaults, tree_root = \<lparr>domain_dir = None, ip_dir = None\<rparr>, listeners = [],
     nameservers = [], upstreams = [], groups = [], rules = [], plugins = [],
     webui = \<lparr>w_enabled = True, w_doh_enabled = False, w_host = [], w_port = 1, w_username = [], w_password = []\<rparr>\<rparr>"

text \<open>One configuration, written as an empty object.\<close>

theorem config_dump_parse_roundtrip_witness:
  "\<exists>c text. finish_config sample_modules sample_models sample_config = Inr c \<and>
    dump_config_text sample_modules sample_models (\<lambda>x. JObj []) (\<lambda>d. ''{}'') c = Inr text \<and>
    parse_config_text sample_modules sample_models (\<lambda>s. Inr (JObj [])) (\<lambda>d. Inr c) text = Inr c"
proof -
  obtain c where c: "finish_config sample_modules sample_models sample_config = Inr c"
    using discover_sample_all
    by (auto simp: finish_config_def validate_plugin_configs_def materialize_plugin_configs_def sample_config_def)
  have "(\<exists>v. pc_config cls (pm_config_default (sample_models m)) = Inr v) \<and>
      (\<exists>v. pc_variables cls (pm_variables_default (sample_models m)) = Inr v)"
    if "sample_modules m = Some cls" for m cls
    using that by (auto simp: sample_modules_def sample_class_def)
  from config_dump_parse_roundtrip [OF c _ _ _ this, of "\<lambda>s. Inr (JObj [])" "\<lambda>d. ''{}''" "\<lambda>x. JObj []" "\<lambda>d. Inr c"]
  show ?thesis using c by auto
qed

definition sample_schema :: json where
  "sample_schema = JObj [(''$ref'', JStr ''#/$defs/A''), (''$defs'', JObj [(''A'', JObj [])])]"

theorem schema_refs_resolve_witness:
  "set (json_refs (fst (namespace_json_schema sample_schema ''tag_plugin.config''))) \<subseteq>
    fst ` set (snd (namespace_json_schema sample_schema ''tag_plugin.config''))"
proof -
  have "set (json_refs (json_pop ''$defs'' sample_schema)) \<subseteq> fst ` set (schema_defs sample_schema)"
    "list_all (\<lambda>(name, d). set (json_refs d) \<subseteq> fst ` set (schema_defs sample_schema)) (schema_defs sample_schema)"
    by (simp_all add: sample_schema_def json_pop_def schema_defs_def json_fields_def ref_base_def)
  from schema_refs_resolve [OF this, of "''tag_plugin.config''"] show ?thesis
    by (cases "namespace_json_schema sample_schema ''tag_plugin.config''") simp
qed

end
