(* ===== verification/Runtime.thy ===== *)
theory Runtime
  imports Worker Catalog
begin

text \<open>
  \<open>core/runtime.py\<close> and \<open>core/services.py\<close>: the state a configuration is built into, the DNS
  listeners, and the manager that starts, reloads and stops them. Each method holds the manager's
  lock, so it is one action. \<open>bind\<close> is the operating system's answer to the binding of a listener,
  \<open>web\<close> the outcome of the start of the HTTP server; \<open>rn_sockets\<close> are the sockets that are open,
  by the listener they were bound for.
\<close>

section \<open>Listeners\<close>

record dns_server =
  sv_listener :: listener_config
  sv_address :: "(string \<times> nat) option"

text \<open>What the manager of one process and the manager of many have in common.\<close>

record service_state =
  rn_servers :: "dns_server list"
  rn_webui :: bool
  rn_task_group :: bool
  rn_sockets :: "string list"

record ('v, 'w) runtime_state =
  rs_config :: app_config
  rs_loaded :: "('v, resolver_fun) loaded_plugin list"
  rs_registry :: "('v, resolver_fun) plugin_registry"
  rs_resolvers :: resolver_manager
  rs_pipeline :: "'w engine"

record ('v, 'w) runtime_manager = service_state +
  rn_state :: "('v, 'w) runtime_state option"
  rn_overrides :: "(string \<times> 'v) list"

type_synonym bind_fun = "listener_config \<Rightarrow> (string \<times> nat) res"

definition start_server :: "bind_fun \<Rightarrow> listener_config \<Rightarrow> ('z service_state_scheme, dns_server) act" where
  "start_server bind l =
     act_bind (act_lift (bind l)) (\<lambda>addr.
     act_bind (act_upd (\<lambda>s. s\<lparr>rn_sockets := l_name l # rn_sockets s\<rparr>)) (\<lambda>_.
     act_ret \<lparr>sv_listener = l, sv_address = Some addr\<rparr>))"

fun start_dns_listeners ::
  "bind_fun \<Rightarrow> listener_config list \<Rightarrow> ('z service_state_scheme, dns_server list) act" where
  "start_dns_listeners bind [] = act_ret []"
| "start_dns_listeners bind (l # ls) =
     (if \<not> l_enabled l then start_dns_listeners bind ls
      else act_bind (start_server bind l) (\<lambda>service.
           act_bind (start_dns_listeners bind ls) (\<lambda>services. act_ret (service # services))))"

definition stop_server :: "dns_server \<Rightarrow> 'z service_state_scheme \<Rightarrow> 'z service_state_scheme" where
  "stop_server v s = (case sv_address v of None \<Rightarrow> s
     | Some _ \<Rightarrow> s\<lparr>rn_sockets := remove1 (l_name (sv_listener v)) (rn_sockets s)\<rparr>)"

definition stop_dns_listeners :: "'z service_state_scheme \<Rightarrow> 'z service_state_scheme" where
  "stop_dns_listeners s = (fold stop_server (rn_servers s) s)\<lparr>rn_servers := []\<rparr>"

fun protocol_text :: "listener_protocol \<Rightarrow> string" where
  "protocol_text UDP = ''udp''"
| "protocol_text TCP = ''tcp''"

record listener_status =
  ls_name :: string
  ls_protocol :: string
  ls_address :: "string option"

definition build_listener_status :: "dns_server list \<Rightarrow> listener_config list \<Rightarrow> listener_status list" where
  "build_listener_status services configured =
     (if services \<noteq> [] then map (\<lambda>v. \<lparr>ls_name = l_name (sv_listener v),
          ls_protocol = protocol_text (l_protocol (sv_listener v)),
          ls_address = map_option (\<lambda>(h, p). h @ '':'' @ dec_str p) (sv_address v)\<rparr>) services
      else map (\<lambda>l. \<lparr>ls_name = l_name l, ls_protocol = protocol_text (l_protocol l), ls_address = None\<rparr>) configured)"

section \<open>Building the state\<close>

text \<open>What the building of a state uses that is not part of the configuration.\<close>

record ('v, 'w) build_env =
  be_lib :: dnslib
  be_modules :: "('v, resolver_fun) modules"
  be_resolvers :: "app_config \<Rightarrow> (string \<rightharpoonup> resolver_fun) \<Rightarrow> resolver_manager res"
  be_plugin :: "('v, resolver_fun) loaded_plugin \<Rightarrow> 'w plugin"
  be_domain_set :: "string option \<Rightarrow> 'v res"
  be_ip_set :: "string option \<Rightarrow> 'v res"
  be_is_store :: "'v \<Rightarrow> bool"
  be_sched :: schedule
  be_fuel :: nat
  be_now :: real

definition QUERY_LOG_STORE_KEY :: string where
  "QUERY_LOG_STORE_KEY = ''query_log.store''"

definition get_query_log_store :: "('v, 'w) build_env \<Rightarrow> ('v, 'w) runtime_state option \<Rightarrow> 'v option" where
  "get_query_log_store B state = (case state of None \<Rightarrow> None
   | Some st \<Rightarrow> (case map_of (context_registry (rs_registry st)) QUERY_LOG_STORE_KEY of
       Some (RegValue v) \<Rightarrow> if be_is_store B v then Some v else None
     | _ \<Rightarrow> None))"

definition build_shared_contexts ::
  "('v, 'w) build_env \<Rightarrow> (string \<times> 'v) list \<Rightarrow> ('v, 'w) runtime_state option \<Rightarrow> app_config \<Rightarrow> (string \<times> 'v) list res" where
  "build_shared_contexts B overrides state config =
     andthen (be_domain_set B (domain_dir (tree_root config))) (\<lambda>d.
     andthen (be_ip_set B (ip_dir (tree_root config))) (\<lambda>i.
     let shared = dict_update [(''core.domainset'', d), (''core.ipset'', i)] overrides in
     Inr (if is_query_log_plugin_enabled (plugins config) \<and> QUERY_LOG_STORE_KEY \<notin> fst ` set shared
          then (case get_query_log_store B state of
                  None \<Rightarrow> shared | Some store \<Rightarrow> dict_set QUERY_LOG_STORE_KEY store shared)
          else shared)))"

definition build_pipeline ::
  "('v, 'w) build_env \<Rightarrow> app_config \<Rightarrow> resolver_manager \<Rightarrow> ('v, resolver_fun) loaded_plugin list \<Rightarrow> 'w engine" where
  "build_pipeline B config resolvers loaded =
     \<lparr>e_lib = be_lib B, e_rm = resolvers, e_rules = rules config,
      e_default_group = default_upstream_group (runtime config),
      e_default_dispatcher = default_upstream_policy (runtime config),
      e_plugins = map (be_plugin B) loaded, e_sched = be_sched B, e_fuel = be_fuel B, e_now = be_now B\<rparr>"

text \<open>\<open>_build_state\<close>, with what \<open>load_config\<close> gives.\<close>

definition build_state ::
  "('v, 'w) build_env \<Rightarrow> app_config res \<Rightarrow> (string \<times> 'v) list \<Rightarrow> ('v, 'w) runtime_state option \<Rightarrow>
   ('v, 'w) runtime_state res" where
  "build_state B config_res overrides state =
     andthen config_res (\<lambda>config.
     andthen (build_shared_contexts B overrides state config) (\<lambda>shared.
     andthen (plugin_manager_build (be_modules B) (plugins config) shared) (\<lambda>(loaded, reg).
     andthen (be_resolvers B config (map_of (resolver_registry reg))) (\<lambda>resolvers.
     Inr \<lparr>rs_config = config, rs_loaded = loaded, rs_registry = reg, rs_resolvers = resolvers,
          rs_pipeline = build_pipeline B config resolvers loaded\<rparr>))))"

section \<open>\<open>RuntimeManager\<close>\<close>

definition runtime_init :: "(string \<times> 'v) list \<Rightarrow> ('v, 'w) runtime_manager" where
  "runtime_init overrides = \<lparr>rn_servers = [], rn_webui = False, rn_task_group = False, rn_sockets = [],
     rn_state = None, rn_overrides = overrides\<rparr>"

definition services_started :: "'z service_state_scheme \<Rightarrow> bool" where
  "services_started s \<longleftrightarrow> rn_servers s \<noteq> [] \<or> rn_webui s"

definition service_signature ::
  "app_config \<Rightarrow> (string \<times> string \<times> string \<times> int \<times> bool) list \<times> bool \<times> bool \<times> string \<times> int" where
  "service_signature config =
     (map (\<lambda>l. (l_name l, protocol_text (l_protocol l), l_host l, l_port l, l_enabled l)) (listeners config),
      w_enabled (webui config), w_doh_enabled (webui config), w_host (webui config), w_port (webui config))"

definition rebuild :: "('v, 'w) build_env \<Rightarrow> app_config res \<Rightarrow> (('v, 'w) runtime_manager, ('v, 'w) runtime_state) act" where
  "rebuild B config_res = (\<lambda>s. (build_state B config_res (rn_overrides s) (rn_state s), s))"

definition runtime_load :: "('v, 'w) build_env \<Rightarrow> app_config res \<Rightarrow> (('v, 'w) runtime_manager, ('v, 'w) runtime_state) act" where
  "runtime_load B config_res =
     act_bind (rebuild B config_res) (\<lambda>st.
     act_bind (act_upd (\<lambda>s. s\<lparr>rn_state := Some st\<rparr>)) (\<lambda>_. act_ret st))"

definition start_services ::
  "bind_fun \<Rightarrow> (webui_config \<Rightarrow> unit res) \<Rightarrow> app_config \<Rightarrow> ('z service_state_scheme, unit) act" where
  "start_services bind web config =
     act_bind (start_dns_listeners bind (listeners config)) (\<lambda>services.
     act_bind (act_upd (\<lambda>s. s\<lparr>rn_servers := services\<rparr>)) (\<lambda>_.
     if w_enabled (webui config) \<or> w_doh_enabled (webui config)
     then act_bind (act_lift (web (webui config))) (\<lambda>_. act_upd (\<lambda>s. s\<lparr>rn_webui := True\<rparr>))
     else act_ret ()))"

definition ensure_state :: "('v, 'w) build_env \<Rightarrow> app_config res \<Rightarrow> (('v, 'w) runtime_manager, ('v, 'w) runtime_state) act" where
  "ensure_state B config_res = (\<lambda>s. case rn_state s of
     Some st \<Rightarrow> (Inr st, s) | None \<Rightarrow> runtime_load B config_res s)"

definition runtime_start ::
  "('v, 'w) build_env \<Rightarrow> app_config res \<Rightarrow> bind_fun \<Rightarrow> (webui_config \<Rightarrow> unit res) \<Rightarrow>
   (('v, 'w) runtime_manager, unit) act" where
  "runtime_start B config_res bind web =
     act_bind (ensure_state B config_res) (\<lambda>st. \<lambda>s.
     if services_started s then (Inr (), s)
     else act_bind (act_upd (\<lambda>s. s\<lparr>rn_task_group := True\<rparr>)) (\<lambda>_.
          start_services bind web (rs_config st)) s)"

text \<open>\<open>stop\<close>; the sessions of the nameservers are closed by their modules.\<close>

definition runtime_stop :: "('v, 'w) runtime_manager \<Rightarrow> ('v, 'w) runtime_manager" where
  "runtime_stop s = (stop_dns_listeners (s\<lparr>rn_webui := False\<rparr>))\<lparr>rn_task_group := False\<rparr>"

definition runtime_reload :: "('v, 'w) build_env \<Rightarrow> app_config res \<Rightarrow> (('v, 'w) runtime_manager, ('v, 'w) runtime_state) act" where
  "runtime_reload B config_res =
     act_bind (rebuild B config_res) (\<lambda>new_state. \<lambda>s.
     case rn_state s of
       Some st \<Rightarrow>
         if services_started s \<and> service_signature (rs_config st) \<noteq> service_signature (rs_config new_state)
         then (Inl (RuntimeError ''listener or webui address changed''), s)
         else (Inr new_state, s\<lparr>rn_state := Some new_state\<rparr>)
     | None \<Rightarrow> (Inr new_state, s\<lparr>rn_state := Some new_state\<rparr>))"

definition get_state :: "('v, 'w) runtime_manager \<Rightarrow> ('v, 'w) runtime_state res" where
  "get_state s = (case rn_state s of None \<Rightarrow> Inl (RuntimeError ''runtime not loaded'') | Some st \<Rightarrow> Inr st)"

definition runtime_process_query ::
  "('v, 'w) runtime_manager \<Rightarrow> message \<Rightarrow> string \<Rightarrow> string \<Rightarrow> ('w, message option) act" where
  "runtime_process_query s req caddr lname = (\<lambda>w. case get_state s of
     Inl e \<Rightarrow> (Inl e, w)
   | Inr st \<Rightarrow> handle_message (rs_pipeline st) req caddr lname w)"

record runtime_status =
  st_config_path :: string
  st_default_group :: string
  st_listeners :: "listener_status list"
  st_upstreams :: "string list"
  st_groups :: "string list"
  st_rules :: "string list"

definition get_status :: "string \<Rightarrow> ('v, 'w) runtime_manager \<Rightarrow> runtime_status res" where
  "get_status path s = andthen (get_state s) (\<lambda>st.
     Inr \<lparr>st_config_path = path,
          st_default_group = default_upstream_group (runtime (rs_config st)),
          st_listeners = build_listener_status (rn_servers s) (listeners (rs_config st)),
          st_upstreams = map u_name (upstreams (rs_config st)),
          st_groups = map g_name (groups (rs_config st)),
          st_rules = map r_name (rules (rs_config st))\<rparr>)"

section \<open>The entry point\<close>

datatype manager_kind = SingleProcess | MultiProcess

definition create_runtime_manager :: "int option \<Rightarrow> app_config res \<Rightarrow> manager_kind res" where
  "create_runtime_manager cpu config_res = andthen config_res (\<lambda>config.
     Inr (if resolved_workers cpu (multiprocess (runtime config)) > 1 then MultiProcess else SingleProcess))"

datatype main_outcome = ConfigOk nat nat nat | Serve manager_kind

text \<open>\<open>main\<close> for the commands \<open>serve\<close> and \<open>check-config\<close>; the file is read again by \<open>serve\<close>.\<close>

definition main_program ::
  "int option \<Rightarrow> bool \<Rightarrow> string \<Rightarrow> app_config res \<Rightarrow> app_config res \<Rightarrow> main_outcome res" where
  "main_program cpu winuvloop_available command config_res config_again =
     andthen config_res (\<lambda>config.
     andthen (install_loop_policy winuvloop_available (loop_policy (runtime config))) (\<lambda>_.
     if command = ''check-config''
     then Inr (ConfigOk (length (listeners config)) (length (upstreams config)) (length (plugins config)))
     else andthen (create_runtime_manager cpu config_again) (\<lambda>kind. Inr (Serve kind))))"

section \<open>Correctness of the manager\<close>

lemma start_server_simps [simp]:
  "bind l = Inr a \<Longrightarrow> start_server bind l s =
     (Inr \<lparr>sv_listener = l, sv_address = Some a\<rparr>, s\<lparr>rn_sockets := l_name l # rn_sockets s\<rparr>)"
  "bind l = Inl e \<Longrightarrow> start_server bind l s = (Inl e, s)"
  by (simp_all add: start_server_def act_simps)

lemma start_dns_listeners_result:
  "start_dns_listeners bind ls s = (r, t) \<Longrightarrow>
     (\<forall>vs. r = Inr vs \<longrightarrow> map sv_listener vs = filter l_enabled ls) \<and> (\<exists>socks. t = s\<lparr>rn_sockets := socks\<rparr>)"
proof (induction ls arbitrary: r s t)
  case (Cons l ls)
  show ?case
  proof (cases "l_enabled l")
    case en: True
    show ?thesis
    proof (cases "bind l")
      case (Inl e)
      with Cons.prems en have "r = Inl e" "t = s" by (auto simp: act_bind_apply)
      then show ?thesis by (intro conjI exI [of _ "rn_sockets s"]) simp_all
    next
      case (Inr a)
      let ?s = "s\<lparr>rn_sockets := l_name l # rn_sockets s\<rparr>"
      obtain r' t' where d: "start_dns_listeners bind ls ?s = (r', t')" by (cases "start_dns_listeners bind ls ?s")
      with Cons.prems Inr en have "t = t'" "r = map_sum id ((#) \<lparr>sv_listener = l, sv_address = Some a\<rparr>) r'"
        by (auto simp: act_bind_apply act_ret_def split: sum.splits)
      with Cons.IH [OF d] en show ?thesis by (cases r') auto
    qed
  qed (use Cons in auto)
next
  case Nil
  then show ?case by (auto simp: act_ret_def intro: exI [of _ "rn_sockets s"])
qed

text \<open>A listener that cannot be bound ends the loop: the sockets bound before it are open, and no
  list names them.\<close>

lemma start_dns_listeners_raise:
  assumes "bind l = Inl e" and "l_enabled l"
    and "\<forall>x \<in> set ls. l_enabled x \<longrightarrow> (\<exists>a. bind x = Inr a)"
  shows "start_dns_listeners bind (ls @ l # rest) s =
     (Inl e, s\<lparr>rn_sockets := rev (map l_name (filter l_enabled ls)) @ rn_sockets s\<rparr>)"
  using assms(3)
proof (induction ls arbitrary: s)
  case Nil
  then show ?case using assms by (simp add: act_bind_apply)
next
  case (Cons x ls)
  then show ?case by (auto simp: act_bind_apply)
qed

lemma same_more:
  "service_state.more t = service_state.more s \<Longrightarrow> rn_state t = rn_state s \<and> rn_overrides t = rn_overrides s"
  by (cases t; cases s) simp

lemma start_services_result:
  assumes "start_services bind web config s = (r, t)" and "\<not> services_started s"
  shows "service_state.more t = service_state.more s \<and>
     (services_started t \<longrightarrow> map sv_listener (rn_servers t) = filter l_enabled (listeners config) \<and>
        (rn_webui t \<longrightarrow> w_enabled (webui config) \<or> w_doh_enabled (webui config)))"
proof (cases "start_dns_listeners bind (listeners config) s")
  case (Pair r1 u)
  from start_dns_listeners_result [OF Pair] obtain socks where u: "u = s\<lparr>rn_sockets := socks\<rparr>" by blast
  show ?thesis
  proof (cases r1)
    case (Inl e)
    with Pair u assms show ?thesis by (auto simp: start_services_def act_simps services_started_def)
  next
    case (Inr vs)
    with start_dns_listeners_result [OF Pair]
    have "map sv_listener vs = filter l_enabled (listeners config)" by simp
    with assms Pair Inr u show ?thesis
      by (auto simp: start_services_def act_simps services_started_def split: if_splits sum.splits)
  qed
qed

text \<open>The states a manager goes through, for any files, bindings and outcomes of the start of the
  HTTP server. \<open>load\<close> is called before the services are started.\<close>

inductive runtime_reach :: "('v, 'w) build_env \<Rightarrow> ('v, 'w) runtime_manager \<Rightarrow> bool" for B where
  init: "runtime_reach B (runtime_init overrides)"
| load: "runtime_reach B s \<Longrightarrow> \<not> services_started s \<Longrightarrow> runtime_reach B (snd (runtime_load B c s))"
| start: "runtime_reach B s \<Longrightarrow> runtime_reach B (snd (runtime_start B c bind web s))"
| reload: "runtime_reach B s \<Longrightarrow> runtime_reach B (snd (runtime_reload B c s))"
| stop: "runtime_reach B s \<Longrightarrow> runtime_reach B (runtime_stop s)"

definition serves :: "('v, 'w) runtime_manager \<Rightarrow> bool" where
  "serves s \<longleftrightarrow> (services_started s \<longrightarrow> (\<exists>st. rn_state s = Some st \<and>
     map sv_listener (rn_servers s) = filter l_enabled (listeners (rs_config st)) \<and>
     (rn_webui s \<longrightarrow> w_enabled (webui (rs_config st)) \<or> w_doh_enabled (webui (rs_config st)))))"

lemma serves_idle: "\<not> services_started s \<Longrightarrow> serves s"
  by (simp add: serves_def)

lemma fold_stop_server:
  "\<exists>socks. fold stop_server vs s = s\<lparr>rn_sockets := socks\<rparr>"
proof (induction vs arbitrary: s)
  case Nil
  show ?case by (intro exI [of _ "rn_sockets s"]) simp
next
  case (Cons v vs)
  obtain u where "stop_server v s = s\<lparr>rn_sockets := u\<rparr>"
    by (cases "sv_address v") (auto simp: stop_server_def intro: that [of "rn_sockets s"])
  moreover obtain w where "fold stop_server vs (s\<lparr>rn_sockets := u\<rparr>) = s\<lparr>rn_sockets := u\<rparr>\<lparr>rn_sockets := w\<rparr>"
    using Cons.IH by blast
  ultimately show ?case by auto
qed

lemma runtime_stop_idle: "\<not> services_started (runtime_stop s)"
proof -
  obtain socks where "fold stop_server (rn_servers s) (s\<lparr>rn_webui := False\<rparr>) = s\<lparr>rn_webui := False, rn_sockets := socks\<rparr>"
    using fold_stop_server [of "rn_servers s" "s\<lparr>rn_webui := False\<rparr>"] by auto
  then show ?thesis by (simp add: runtime_stop_def stop_dns_listeners_def services_started_def)
qed

lemma runtime_load_cases:
  "runtime_load B c s = (case build_state B c (rn_overrides s) (rn_state s) of
     Inl e \<Rightarrow> (Inl e, s) | Inr st \<Rightarrow> (Inr st, s\<lparr>rn_state := Some st\<rparr>))"
  by (cases "build_state B c (rn_overrides s) (rn_state s)")
    (simp_all add: runtime_load_def rebuild_def act_bind_apply act_ret_def act_upd_def)

lemma ensure_state_cases:
  "ensure_state B c s = (r, t) \<Longrightarrow>
     (t = s \<or> rn_state s = None \<and> (\<exists>st. t = s\<lparr>rn_state := Some st\<rparr>)) \<and>
     (\<forall>st. r = Inr st \<longrightarrow> rn_state t = Some st)"
  by (auto simp: ensure_state_def runtime_load_cases split: option.splits sum.splits)

lemma serves_start:
  assumes "serves s" shows "serves (snd (runtime_start B c bind web s))"
proof (cases "ensure_state B c s")
  case (Pair r t)
  note e = ensure_state_cases [OF Pair]
  have t: "serves t"
    using e assms by (auto simp: serves_def services_started_def)
  show ?thesis
  proof (cases r)
    case (Inl x)
    with Pair t show ?thesis by (simp add: runtime_start_def act_bind_apply)
  next
    case (Inr st)
    show ?thesis
    proof (cases "services_started t")
      case True
      with Inr Pair t show ?thesis by (simp add: runtime_start_def act_bind_apply)
    next
      case False
      let ?t = "t\<lparr>rn_task_group := True\<rparr>"
      obtain q u where u: "start_services bind web (rs_config st) ?t = (q, u)"
        by (cases "start_services bind web (rs_config st) ?t")
      have "snd (runtime_start B c bind web s) = u"
        using Inr Pair False u by (simp add: runtime_start_def act_bind_apply act_upd_def)
      moreover have "\<not> services_started ?t" using False by (simp add: services_started_def)
      ultimately show ?thesis
        using start_services_result [OF u] same_more [of u ?t] e Inr by (auto simp: serves_def)
    qed
  qed
qed

lemma signature_listeners:
  assumes "service_signature c = service_signature d"
  shows "listeners c = listeners d \<and> w_enabled (webui c) = w_enabled (webui d) \<and>
     w_doh_enabled (webui c) = w_doh_enabled (webui d) \<and> w_host (webui c) = w_host (webui d) \<and>
     w_port (webui c) = w_port (webui d)"
proof -
  have p: "protocol_text a = protocol_text b \<Longrightarrow> a = b" for a b by (cases a; cases b) auto
  have "inj (\<lambda>l :: listener_config. (l_name l, protocol_text (l_protocol l), l_host l, l_port l, l_enabled l))"
    by (intro injI) (auto intro!: listener_config.equality p)
  with assms show ?thesis by (auto simp: service_signature_def inj_map_eq_map)
qed

lemma runtime_reload_cases:
  "runtime_reload B c s = (case build_state B c (rn_overrides s) (rn_state s) of
     Inl e \<Rightarrow> (Inl e, s)
   | Inr new \<Rightarrow> (if services_started s \<and> (\<exists>old. rn_state s = Some old \<and>
        service_signature (rs_config old) \<noteq> service_signature (rs_config new))
      then (Inl (RuntimeError ''listener or webui address changed''), s)
      else (Inr new, s\<lparr>rn_state := Some new\<rparr>)))"
  by (cases "build_state B c (rn_overrides s) (rn_state s)")
    (auto simp: runtime_reload_def rebuild_def act_bind_apply split: option.splits)

lemma serves_reload:
  assumes "serves s" shows "serves (snd (runtime_reload B c s))"
proof (cases "build_state B c (rn_overrides s) (rn_state s)")
  case (Inr new)
  show ?thesis
  proof (cases "services_started s")
    case True
    with assms obtain st where st: "rn_state s = Some st" by (auto simp: serves_def)
    show ?thesis
      using assms True st Inr signature_listeners [of "rs_config st" "rs_config new"]
      by (auto simp: runtime_reload_cases serves_def services_started_def)
  qed (use Inr in \<open>auto simp: runtime_reload_cases serves_def services_started_def\<close>)
qed (use assms in \<open>simp add: runtime_reload_cases\<close>)



text \<open>a start that fails at a listener leaks the listeners before it. Their sockets are open, but
  the manager holds no server for them, so neither the following \<open>stop\<close> nor any later one closes
  them.\<close>

theorem failed_start_leaks_sockets:
  assumes "get_state s = Inr st" and "\<not> services_started s"
    and "listeners (rs_config st) = before @ l # rest" and "l_enabled l" and "bind l = Inl e"
    and "\<forall>x \<in> set before. l_enabled x \<longrightarrow> (\<exists>a. bind x = Inr a)"
  shows "\<exists>t. runtime_start B c bind web s = (Inl e, t) \<and> rn_servers t = [] \<and>
     rn_sockets (runtime_stop t) = rev (map l_name (filter l_enabled before)) @ rn_sockets s"
proof -
  let ?s = "s\<lparr>rn_task_group := True\<rparr>"
  let ?t = "?s\<lparr>rn_sockets := rev (map l_name (filter l_enabled before)) @ rn_sockets s\<rparr>"
  have st: "rn_state s = Some st" using assms(1) by (auto simp: get_state_def split: option.splits)
  have "start_dns_listeners bind (listeners (rs_config st)) ?s = (Inl e, ?t)"
    using start_dns_listeners_raise [where bind = bind, OF assms(5,4,6), of rest ?s] assms(3) by simp
  then have "runtime_start B c bind web s = (Inl e, ?t)"
    using st assms(2)
    by (simp add: runtime_start_def ensure_state_def act_bind_apply act_upd_def start_services_def)
  moreover have "rn_servers ?t = []" using assms(2) by (simp add: services_started_def)
  ultimately show ?thesis
    using assms(2) by (intro exI [of _ ?t]) (simp add: runtime_stop_def stop_dns_listeners_def services_started_def)
qed

text \<open>The registry API only adds names.\<close>

definition extends_registry :: "('v, 'm) modules \<Rightarrow> bool" where
  "extends_registry modules \<longleftrightarrow> (\<forall>m cls config vars r r' n x. modules m = Some cls \<longrightarrow>
     pc_setup cls config vars r = Inr r' \<longrightarrow> map_of (context_registry r) n = Some x \<longrightarrow>
     map_of (context_registry r') n = Some x)"

lemma register_shared_registers:
  "register_shared xs reg = Inr reg' \<Longrightarrow>
     (map_of (context_registry reg) n = Some x \<longrightarrow> map_of (context_registry reg') n = Some x) \<and>
     (map_of xs n = Some v \<longrightarrow> map_of (context_registry reg') n = Some (RegValue v))"
proof (induction xs arbitrary: reg x)
  case (Cons y xs)
  obtain m w where y: "y = (m, w)" by fastforce
  with Cons.prems obtain reg1 where r: "register_context m w reg = Inr reg1" "register_shared xs reg1 = Inr reg'"
    by (auto simp: andthen_Inr_iff)
  then have "context_registry reg1 = context_registry reg @ [(m, RegValue w)]" "m \<notin> fst ` set (context_registry reg)"
    by (auto simp: register_context_def register_Inr res_simps)
  moreover from this(2) have "map_of (context_registry reg) m = None" by (simp add: map_of_eq_None_iff)
  ultimately show ?case
    using Cons.IH [OF r(2), of x] Cons.IH [OF r(2), of "RegValue v"] y by (auto simp: map_add_def)
qed simp

lemma load_plugins_extends:
  assumes "extends_registry modules"
  shows "load_plugins modules pcs reg = Inr (loaded, reg') \<Longrightarrow>
     map_of (context_registry reg) n = Some x \<Longrightarrow> map_of (context_registry reg') n = Some x"
proof (induction pcs arbitrary: reg loaded)
  case (Cons pc pcs)
  show ?case
  proof (cases "p_enabled pc")
    case True
    with Cons.prems(1) obtain cls config vars reg1 rest where c:
      "create_plugin_instance modules (p_module pc) = Inr cls" "pc_setup cls config vars reg = Inr reg1"
      "load_plugins modules pcs reg1 = Inr (rest, reg')"
      by (auto simp: res_simps)
    then have "modules (p_module pc) = Some cls"
      by (auto simp: create_plugin_instance_def split: if_splits option.splits)
    with assms c(2) Cons.prems(2) have "map_of (context_registry reg1) n = Some x"
      unfolding extends_registry_def by blast
    with Cons.IH c(3) show ?thesis by blast
  qed (use Cons in simp)
qed simp

lemma get_query_log_store_Some:
  "get_query_log_store B state = Some v \<longleftrightarrow> (\<exists>st. state = Some st \<and>
     map_of (context_registry (rs_registry st)) QUERY_LOG_STORE_KEY = Some (RegValue v) \<and> be_is_store B v)"
  by (auto simp: get_query_log_store_def split: option.splits context_registration.splits if_splits)

lemma keys_dict_update: "fst ` set (dict_update d new) = fst ` set d \<union> fst ` set new"
  unfolding dict_update_def by (induction new arbitrary: d) (simp_all add: keys_dict_set split_beta insert_commute)

lemma shared_contexts_keep_store:
  assumes "build_shared_contexts B overrides state config = Inr shared"
    and "is_query_log_plugin_enabled (plugins config)" and "QUERY_LOG_STORE_KEY \<notin> fst ` set overrides"
    and "get_query_log_store B state = Some v"
  shows "map_of shared QUERY_LOG_STORE_KEY = Some v"
proof -
  have "QUERY_LOG_STORE_KEY \<notin> {''core.domainset'', ''core.ipset''}" by (simp add: QUERY_LOG_STORE_KEY_def)
  then have "QUERY_LOG_STORE_KEY \<notin> fst ` set (dict_update [(''core.domainset'', d), (''core.ipset'', i)] overrides)"
    for d i using assms(3) by (simp add: keys_dict_update)
  with assms show ?thesis by (auto simp: build_shared_contexts_def res_simps Let_def)
qed

text \<open>the query log survives a reload. When the manager has a store and the new configuration has
  the query log enabled, the state built by a successful reload has the same store, so entries and
  subscribers are those of before.\<close>

theorem reload_keeps_query_log:
  assumes "runtime_reload B c s = (Inr new, s')" and "get_query_log_store B (rn_state s) = Some v"
    and "is_query_log_plugin_enabled (plugins (rs_config new))"
    and "QUERY_LOG_STORE_KEY \<notin> fst ` set (rn_overrides s)"
    and "extends_registry (be_modules B)"
  shows "get_query_log_store B (rn_state s') = Some v"
proof -
  from assms(1) have b: "build_state B c (rn_overrides s) (rn_state s) = Inr new" and s': "rn_state s' = Some new"
    by (auto simp: runtime_reload_cases split: sum.splits if_splits)
  from b obtain shared where sh: "build_shared_contexts B (rn_overrides s) (rn_state s) (rs_config new) = Inr shared"
    and pm: "plugin_manager_build (be_modules B) (plugins (rs_config new)) shared = Inr (rs_loaded new, rs_registry new)"
    by (auto simp: build_state_def res_simps)
  have "map_of shared QUERY_LOG_STORE_KEY = Some v"
    by (rule shared_contexts_keep_store [OF sh assms(3,4,2)])
  moreover from pm obtain reg where r: "register_shared shared registry_empty = Inr reg"
    and l: "load_plugins (be_modules B) (plugins (rs_config new)) reg = Inr (rs_loaded new, rs_registry new)"
    by (auto simp: plugin_manager_build_def res_simps)
  ultimately have "map_of (context_registry (rs_registry new)) QUERY_LOG_STORE_KEY = Some (RegValue v)"
    using register_shared_registers [OF r] load_plugins_extends [OF assms(5) l] by blast
  moreover have "be_is_store B v" using assms(2) by (auto simp: get_query_log_store_Some)
  ultimately show ?thesis using s' by (simp add: get_query_log_store_Some)
qed

section \<open>A concrete manager\<close>

text \<open>A plugin that registers a store unless it is given one.\<close>

definition store_class :: "(nat, resolver_fun) plugin_class" where
  "store_class = \<lparr>pc_plugin_name = ''query_log'', pc_ui_meta = JNull, pc_config = Inr, pc_variables = Inr,
     pc_setup = (\<lambda>_ _ reg. if QUERY_LOG_STORE_KEY \<in> fst ` set (context_registry reg) then Inr reg
        else register_context QUERY_LOG_STORE_KEY 7 reg)\<rparr>"

definition sample_build :: "(nat, nat) build_env" where
  "sample_build = \<lparr>be_lib = sample_lib, be_modules = (\<lambda>m. Some store_class),
     be_resolvers = (\<lambda>config custom. Inr sample_manager), be_plugin = (\<lambda>l. plugin_base []),
     be_domain_set = (\<lambda>p. Inr 1), be_ip_set = (\<lambda>p. Inr 2), be_is_store = (\<lambda>v. v = 7),
     be_sched = in_order, be_fuel = 0, be_now = 0\<rparr>"

definition udp_listener :: "string \<Rightarrow> int \<Rightarrow> listener_config" where
  "udp_listener n p = \<lparr>l_name = n, l_protocol = UDP, l_host = ''::'', l_port = p, l_enabled = True\<rparr>"

definition two_listeners :: app_config where
  "two_listeners = Catalog.sample_config\<lparr>
     runtime := runtime_defaults\<lparr>multiprocess := multiprocess_defaults\<lparr>workers := Workers 2, queue_size := 4\<rparr>\<rparr>,
     listeners := [udp_listener ''a'' 53, udp_listener ''b'' 54],
     plugins := [\<lparr>p_name = ''log'', p_module = ''query_log_plugin'', p_enabled = True, p_config = JObj [],
       p_variables = JObj []\<rparr>]\<rparr>"

definition bound :: bind_fun where
  "bound l = Inr (''::'', nat (l_port l))"

definition only_a :: bind_fun where
  "only_a l = (if l_name l = ''a'' then Inr (''::'', 53) else Inl (RuntimeError ''in use''))"

definition two_state :: "(nat, nat) runtime_state" where
  "two_state = \<lparr>rs_config = two_listeners,
     rs_loaded = [\<lparr>lp_class = store_class, lp_config = JObj [], lp_variables = JObj [], lp_raw = hd (plugins two_listeners)\<rparr>],
     rs_registry = registry_empty\<lparr>context_registry := [(''core.domainset'', RegValue 1), (''core.ipset'', RegValue 2),
       (QUERY_LOG_STORE_KEY, RegValue 7)]\<rparr>,
     rs_resolvers = sample_manager,
     rs_pipeline = build_pipeline sample_build two_listeners sample_manager
       [\<lparr>lp_class = store_class, lp_config = JObj [], lp_variables = JObj [], lp_raw = hd (plugins two_listeners)\<rparr>]\<rparr>"

lemma build_two:
  "state = None \<or> state = Some two_state \<Longrightarrow>
     build_state sample_build (Inr two_listeners) [] state = Inr two_state"
  by (auto simp: build_state_def build_shared_contexts_def sample_build_def dict_update_def two_listeners_def
      is_query_log_plugin_enabled_def get_query_log_store_def QUERY_LOG_STORE_KEY_def plugin_manager_build_def
      registry_empty_def register_context_def register_def create_plugin_instance_def static_plugin_module_names_def
      store_class_def two_state_def Let_def)

lemma loaded_two: "runtime_load sample_build (Inr two_listeners) (runtime_init []) =
     (Inr two_state, runtime_init []\<lparr>rn_state := Some two_state\<rparr>)"
  by (simp add: runtime_load_cases build_two runtime_init_def)

definition served :: "(nat, nat) runtime_manager" where
  "served = snd (runtime_start sample_build (Inr two_listeners) bound (\<lambda>w. Inr ()) (runtime_init []))"

lemma served_eq:
  "served = \<lparr>rn_servers = [\<lparr>sv_listener = udp_listener ''a'' 53, sv_address = Some (''::'', 53)\<rparr>,
       \<lparr>sv_listener = udp_listener ''b'' 54, sv_address = Some (''::'', 54)\<rparr>],
     rn_webui = True, rn_task_group = True, rn_sockets = [''b'', ''a''],
     rn_state = Some two_state, rn_overrides = []\<rparr>"
proof -
  have "ensure_state sample_build (Inr two_listeners) (runtime_init []) =
      (Inr two_state, runtime_init []\<lparr>rn_state := Some two_state\<rparr>)"
    using loaded_two by (simp add: ensure_state_def) (simp add: runtime_init_def)
  then have "served = snd (start_services bound (\<lambda>w. Inr ()) two_listeners
      (runtime_init []\<lparr>rn_state := Some two_state, rn_task_group := True\<rparr>))"
    by (simp add: served_def runtime_start_def act_bind_apply act_upd_def services_started_def runtime_init_def
        two_state_def)
  also have "\<dots> = \<lparr>rn_servers = [\<lparr>sv_listener = udp_listener ''a'' 53, sv_address = Some (''::'', 53)\<rparr>,
       \<lparr>sv_listener = udp_listener ''b'' 54, sv_address = Some (''::'', 54)\<rparr>],
     rn_webui = True, rn_task_group = True, rn_sockets = [''b'', ''a''],
     rn_state = Some two_state, rn_overrides = []\<rparr>"
    by (simp add: start_services_def two_listeners_def udp_listener_def bound_def act_bind_apply act_ret_def
        act_upd_def act_lift_def runtime_init_def Catalog.sample_config_def)
  finally show ?thesis .
qed

lemma served_reach: "runtime_reach sample_build served"
  unfolding served_def by (intro runtime_reach.start runtime_reach.init)


text \<open>A reload of the running manager that moves a listener is refused; one that does not is done.\<close>

definition moved_listener :: app_config where
  "moved_listener = two_listeners\<lparr>listeners := [udp_listener ''a'' 5353], plugins := []\<rparr>"

lemma build_moved: "\<exists>st. build_state sample_build (Inr moved_listener) [] (Some two_state) = Inr st \<and> rs_config st = moved_listener"
  by (simp add: build_state_def build_shared_contexts_def sample_build_def dict_update_def moved_listener_def
      is_query_log_plugin_enabled_def plugin_manager_build_def register_context_def register_def
      registry_empty_def Let_def)


theorem failed_start_leaks_sockets_witness:
  "\<exists>e t. runtime_start sample_build (Inr two_listeners) only_a (\<lambda>w. Inr ())
       (runtime_init []\<lparr>rn_state := Some two_state\<rparr>) = (Inl e, t) \<and> rn_sockets (runtime_stop t) = [''a'']"
proof -
  have "listeners (rs_config two_state) = [udp_listener ''a'' 53] @ udp_listener ''b'' 54 # []"
    by (simp add: two_state_def two_listeners_def)
  moreover have "get_state (runtime_init []\<lparr>rn_state := Some two_state\<rparr>) = Inr two_state"
    "\<not> services_started (runtime_init []\<lparr>rn_state := Some two_state\<rparr>)"
    by (simp_all add: get_state_def runtime_init_def services_started_def)
  moreover have "only_a (udp_listener ''b'' 54) = Inl (RuntimeError ''in use'')" "l_enabled (udp_listener ''b'' 54)"
    "\<forall>x \<in> set [udp_listener ''a'' 53]. l_enabled x \<longrightarrow> (\<exists>a. only_a x = Inr a)"
    by (simp_all add: only_a_def udp_listener_def)
  ultimately obtain t where "runtime_start sample_build (Inr two_listeners) only_a (\<lambda>w. Inr ())
       (runtime_init []\<lparr>rn_state := Some two_state\<rparr>) = (Inl (RuntimeError ''in use''), t)"
    "rn_sockets (runtime_stop t) = rev (map l_name (filter l_enabled [udp_listener ''a'' 53])) @
       rn_sockets (runtime_init []\<lparr>rn_state := Some two_state\<rparr> :: (nat, nat) runtime_manager)"
    using failed_start_leaks_sockets by blast
  then show ?thesis by (auto simp: runtime_init_def udp_listener_def)
qed

theorem reload_keeps_query_log_witness:
  "get_query_log_store sample_build
     (rn_state (snd (runtime_reload sample_build (Inr two_listeners) served))) = Some 7"
proof -
  have store: "get_query_log_store sample_build (rn_state served) = Some 7"
    by (simp add: served_eq get_query_log_store_Some two_state_def QUERY_LOG_STORE_KEY_def sample_build_def)
  have ext: "extends_registry (be_modules sample_build)"
    by (auto simp: extends_registry_def sample_build_def store_class_def register_context_def register_Inr res_simps
        map_add_def split: if_splits option.splits)
  have "runtime_reload sample_build (Inr two_listeners) served = (Inr two_state, served\<lparr>rn_state := Some two_state\<rparr>)"
    by (simp add: runtime_reload_cases served_eq build_two)
  from reload_keeps_query_log [OF this store _ _ ext] this show ?thesis
    by (simp add: two_state_def two_listeners_def is_query_log_plugin_enabled_def served_eq)
qed

end
