(* ===== verification/Multi_Manager.thy ===== *)
theory Multi_Manager
  imports Runtime Single_Flight
begin

text \<open>
  \<open>core/multiprocess/manager.py\<close> and \<open>core/multiprocess/shared.py\<close>: the manager that answers
  queries from the front cache or from a pool of worker processes. It keeps a \<open>RuntimeManager\<close> for
  the configuration and the nested resolutions, and the listeners of its own. Pools and front caches
  are objects that are replaced by a reload while tasks still hold the old ones, so all that were
  created are kept in a list, and the current one is an index into it.
\<close>

section \<open>Shared resources\<close>

text \<open>The temporary directories and the blocks of shared memory that exist.\<close>

record shared_os =
  so_dirs :: "string list"
  so_memory :: "nat list"
  so_next :: nat

record resources =
  sr_dir :: string
  sr_memory :: nat
  sr_size :: nat

text \<open>What the operating system and the loading of the sets answer.\<close>

record shared_env =
  se_can_make :: "string \<Rightarrow> bool"
  se_parents :: "string list"
  se_domain :: "tree_root_config \<Rightarrow> unit res"
  se_payload :: "tree_root_config \<Rightarrow> bytes res"
  se_memory :: "nat \<Rightarrow> unit res"
  se_copy :: "bytes \<Rightarrow> unit res"

definition make_shared_temp_dir :: "shared_env \<Rightarrow> (shared_os, string) act" where
  "make_shared_temp_dir V = (\<lambda>os.
     case find (se_can_make V) (se_parents V) of
       None \<Rightarrow> (Inl (RuntimeError ''no directory for shared data''), os)
     | Some parent \<Rightarrow>
         let d = parent @ ''/python-smartdns-'' @ dec_str (so_next os) in
         (Inr d, os\<lparr>so_dirs := d # so_dirs os, so_next := Suc (so_next os)\<rparr>))"

definition remove_dir :: "string \<Rightarrow> shared_os \<Rightarrow> shared_os" where
  "remove_dir d os = os\<lparr>so_dirs := remove1 d (so_dirs os)\<rparr>"

definition unlink_memory :: "nat \<Rightarrow> shared_os \<Rightarrow> shared_os" where
  "unlink_memory m os = os\<lparr>so_memory := remove1 m (so_memory os)\<rparr>"

text \<open>
  \<open>SharedTreeResources.build\<close>: when the copy fails the memory is unlinked, whatever fails the
  directory is removed.
\<close>

definition fill_memory :: "shared_env \<Rightarrow> bytes \<Rightarrow> (shared_os, nat) act" where
  "fill_memory V payload =
     act_bind (act_lift (se_memory V (length payload))) (\<lambda>_. \<lambda>os.
     let m = so_next os; os1 = os\<lparr>so_memory := m # so_memory os, so_next := Suc m\<rparr> in
     act_try (act_bind (act_lift (se_copy V payload)) (\<lambda>_. act_ret m))
       (\<lambda>e. act_bind (act_upd (unlink_memory m)) (\<lambda>_. act_raise e)) os1)"

definition build_resources :: "shared_env \<Rightarrow> tree_root_config \<Rightarrow> (shared_os, resources) act" where
  "build_resources V dirs =
     act_bind (make_shared_temp_dir V) (\<lambda>d.
     act_try
       (act_bind (act_lift (se_domain V dirs)) (\<lambda>_.
        act_bind (act_lift (se_payload V dirs)) (\<lambda>payload.
        act_bind (fill_memory V payload) (\<lambda>m.
        act_ret \<lparr>sr_dir = d, sr_memory = m, sr_size = length payload\<rparr>))))
       (\<lambda>e. act_bind (act_upd (remove_dir d)) (\<lambda>_. act_raise e)))"

definition close_resources :: "resources \<Rightarrow> shared_os \<Rightarrow> shared_os" where
  "close_resources r os = remove_dir (sr_dir r) (unlink_memory (sr_memory r) os)"

section \<open>State\<close>

record ('v, 'w, 'l) multi_manager = service_state +
  mm_runtime :: "('v, 'w) runtime_manager"
  mm_pools :: "pool list"
  mm_pool :: "nat option"
  mm_fronts :: "'l front_cache list"
  mm_front :: "nat option"
  mm_resources :: "resources option"
  mm_os :: shared_os

record ('v, 'w, 'l) multi_env =
  me_build :: "('v, 'w) build_env"
  me_shared :: shared_env
  me_cpu :: "int option"
  me_methods :: "string list"
  me_bind :: bind_fun
  me_web :: "webui_config \<Rightarrow> unit res"
  me_lru :: "'l lru_lib"
  me_new_lru :: "int \<Rightarrow> 'l"
  me_now :: real

definition multi_init :: "('v, 'w, 'l) multi_manager" where
  "multi_init = \<lparr>rn_servers = [], rn_webui = False, rn_task_group = False, rn_sockets = [],
     mm_runtime = runtime_init [], mm_pools = [], mm_pool = None, mm_fronts = [], mm_front = None,
     mm_resources = None, mm_os = \<lparr>so_dirs = [], so_memory = [], so_next = 0\<rparr>\<rparr>"

definition on_os :: "(shared_os, 'a) act \<Rightarrow> (('v, 'w, 'l) multi_manager, 'a) act" where
  "on_os m = (\<lambda>s. case m (mm_os s) of (r, os) \<Rightarrow> (r, s\<lparr>mm_os := os\<rparr>))"

definition on_runtime :: "(('v, 'w) runtime_manager, 'a) act \<Rightarrow> (('v, 'w, 'l) multi_manager, 'a) act" where
  "on_runtime m = (\<lambda>s. case m (mm_runtime s) of (r, rt) \<Rightarrow> (r, s\<lparr>mm_runtime := rt\<rparr>))"

definition on_pool :: "nat \<Rightarrow> (pool, 'a) act \<Rightarrow> (('v, 'w, 'l) multi_manager, 'a) act" where
  "on_pool i m = (\<lambda>s. case m (mm_pools s ! i) of (r, p) \<Rightarrow> (r, s\<lparr>mm_pools := (mm_pools s)[i := p]\<rparr>))"

text \<open>An attribute of \<open>None\<close> raises.\<close>

definition on_front :: "('l front_cache, 'a) act \<Rightarrow> (('v, 'w, 'l) multi_manager, 'a) act" where
  "on_front m = (\<lambda>s. case mm_front s of
     None \<Rightarrow> (Inl (OtherError ''AttributeError''), s)
   | Some f \<Rightarrow> (case m (mm_fronts s ! f) of (r, x) \<Rightarrow> (r, s\<lparr>mm_fronts := (mm_fronts s)[f := x]\<rparr>)))"

text \<open>\<open>MultiprocessWorkerPool(...)\<close> and \<open>FrontCache(...)\<close>\<close>

definition fresh_pool :: "('v, 'w, 'l) multi_env \<Rightarrow> multiprocess_config \<Rightarrow> pool" where
  "fresh_pool V mp = pool_init (nat (queue_size mp)) (nat (resolved_workers (me_cpu V) mp))"

definition make_pool :: "('v, 'w, 'l) multi_env \<Rightarrow> app_config \<Rightarrow> (('v, 'w, 'l) multi_manager, nat) act" where
  "make_pool V config =
     (let mp = multiprocess (runtime config) in
      act_bind (act_lift (resolved_start_method mp (me_methods V))) (\<lambda>_. \<lambda>s.
      (Inr (length (mm_pools s)), s\<lparr>mm_pools := mm_pools s @ [fresh_pool V mp]\<rparr>)))"

definition new_front :: "('v, 'w, 'l) multi_env \<Rightarrow> app_config \<Rightarrow> ('v, 'w, 'l) multi_manager \<Rightarrow> ('v, 'w, 'l) multi_manager" where
  "new_front V config s =
     s\<lparr>mm_fronts := mm_fronts s @ [\<lparr>fc_lru = me_new_lru V (front_cache_size (multiprocess (runtime config))), fc_table = pt_empty\<rparr>],
       mm_front := Some (length (mm_fronts s))\<rparr>"

definition stop_pool :: "nat \<Rightarrow> ('v, 'w, 'l) multi_manager \<Rightarrow> ('v, 'w, 'l) multi_manager" where
  "stop_pool i s = s\<lparr>mm_pools := (mm_pools s)[i := end_stop (begin_stop (mm_pools s ! i))]\<rparr>"

definition stop_pool_opt :: "nat option \<Rightarrow> ('v, 'w, 'l) multi_manager \<Rightarrow> ('v, 'w, 'l) multi_manager" where
  "stop_pool_opt p s = (case p of None \<Rightarrow> s | Some i \<Rightarrow> stop_pool i s)"

definition close_opt :: "resources option \<Rightarrow> ('v, 'w, 'l) multi_manager \<Rightarrow> ('v, 'w, 'l) multi_manager" where
  "close_opt r s = (case r of None \<Rightarrow> s | Some x \<Rightarrow> s\<lparr>mm_os := close_resources x (mm_os s)\<rparr>)"

section \<open>\<open>start\<close>, \<open>stop\<close>, \<open>reload\<close>\<close>

definition cleanup_started_services :: "('v, 'w, 'l) multi_manager \<Rightarrow> ('v, 'w, 'l) multi_manager" where
  "cleanup_started_services s =
     (let s1 = stop_dns_listeners (s\<lparr>rn_webui := False\<rparr>);
          s2 = (stop_pool_opt (mm_pool s1) s1)\<lparr>mm_pool := None\<rparr>;
          s3 = (close_opt (mm_resources s2) s2)\<lparr>mm_resources := None\<rparr>
      in s3\<lparr>mm_front := None, rn_task_group := False\<rparr>)"

definition multi_stop :: "('v, 'w, 'l) multi_manager \<Rightarrow> ('v, 'w, 'l) multi_manager" where
  "multi_stop s =
     (let s1 = stop_dns_listeners (s\<lparr>rn_webui := False\<rparr>);
          s2 = (stop_pool_opt (mm_pool s1) s1)\<lparr>mm_pool := None\<rparr>;
          s3 = s2\<lparr>mm_runtime := runtime_stop (mm_runtime s2)\<rparr>;
          s4 = (close_opt (mm_resources s3) s3)\<lparr>mm_resources := None\<rparr>
      in s4\<lparr>mm_front := None, rn_task_group := False\<rparr>)"

definition start_body :: "('v, 'w, 'l) multi_env \<Rightarrow> app_config \<Rightarrow> (('v, 'w, 'l) multi_manager, unit) act" where
  "start_body V config =
     act_bind (make_pool V config) (\<lambda>i.
     act_bind (act_upd (\<lambda>s. s\<lparr>mm_pool := Some i\<rparr>)) (\<lambda>_.
     act_bind (on_pool i pool_start) (\<lambda>_.
     act_bind (act_upd (new_front V config)) (\<lambda>_.
     start_services (me_bind V) (me_web V) config))))"

definition multi_start :: "('v, 'w, 'l) multi_env \<Rightarrow> app_config res \<Rightarrow> (('v, 'w, 'l) multi_manager, unit) act" where
  "multi_start V config_res = (\<lambda>s.
     if services_started s then (Inr (), s)
     else act_bind (on_runtime (ensure_state (me_build V) config_res)) (\<lambda>st.
          act_bind (act_upd (\<lambda>s. s\<lparr>rn_task_group := True\<rparr>)) (\<lambda>_.
          act_bind (on_os (build_resources (me_shared V) (tree_root (rs_config st)))) (\<lambda>r.
          act_bind (act_upd (\<lambda>s. s\<lparr>mm_resources := Some r\<rparr>)) (\<lambda>_.
          act_try (start_body V (rs_config st))
            (\<lambda>e. act_bind (act_upd cleanup_started_services) (\<lambda>_. act_raise e)))))) s)"

text \<open>
  The file is read twice, for the pool and by the \<open>RuntimeManager\<close>: \<open>config_res\<close> and
  \<open>config_again\<close>.
\<close>

definition reload_body ::
  "('v, 'w, 'l) multi_env \<Rightarrow> app_config res \<Rightarrow> nat \<Rightarrow> (('v, 'w, 'l) multi_manager, ('v, 'w) runtime_state) act" where
  "reload_body V config_again i =
     act_bind (\<lambda>s. if rn_task_group s then on_pool i pool_start s
                   else (Inl (RuntimeError ''not started''), s)) (\<lambda>_.
     on_runtime (runtime_reload (me_build V) config_again))"

definition swap_services ::
  "('v, 'w, 'l) multi_env \<Rightarrow> app_config \<Rightarrow> nat \<Rightarrow> resources \<Rightarrow> ('v, 'w, 'l) multi_manager \<Rightarrow> ('v, 'w, 'l) multi_manager" where
  "swap_services V config i r s =
     (let s1 = new_front V config (s\<lparr>mm_resources := Some r, mm_pool := Some i\<rparr>)
      in close_opt (mm_resources s) (stop_pool_opt (mm_pool s) s1))"

definition multi_reload ::
  "('v, 'w, 'l) multi_env \<Rightarrow> app_config res \<Rightarrow> app_config res \<Rightarrow>
   (('v, 'w, 'l) multi_manager, ('v, 'w) runtime_state) act" where
  "multi_reload V config_res config_again =
     act_bind (\<lambda>s. (get_state (mm_runtime s), s)) (\<lambda>old.
     act_bind (act_lift config_res) (\<lambda>new_config. \<lambda>s.
     if services_started s \<and> service_signature (rs_config old) \<noteq> service_signature new_config
     then (Inl (RuntimeError ''listener or webui address changed''), s)
     else act_bind (on_os (build_resources (me_shared V) (tree_root new_config))) (\<lambda>r.
          act_bind (act_try (make_pool V new_config)
            (\<lambda>e. act_bind (act_upd (close_opt (Some r))) (\<lambda>_. act_raise e))) (\<lambda>i.
          act_bind (act_try (reload_body V config_again i)
            (\<lambda>e. act_bind (act_upd (\<lambda>s. close_opt (Some r) (stop_pool i s))) (\<lambda>_. act_raise e))) (\<lambda>new_state.
          act_bind (act_upd (swap_services V (rs_config new_state) i r)) (\<lambda>_. act_ret new_state)))) s))"

section \<open>\<open>process_query\<close>\<close>

text \<open>
  The loop up to a suspension: an answer from the cache, the wait for an event of a front cache, or
  the request becomes the owner of its key and goes to the pool.
\<close>

datatype query_step = Hit message | Wait nat nat | Own "cache_key option"

definition look_step :: "('v, 'w, 'l) multi_env \<Rightarrow> message \<Rightarrow> (('v, 'w, 'l) multi_manager, query_step) act" where
  "look_step V req =
     act_bind (on_front (front_get_response (be_lib (me_build V)) (me_lru V) (me_now V) req)) (\<lambda>cached.
     case cached of
       Some m \<Rightarrow> act_ret (Hit m)
     | None \<Rightarrow>
         act_bind (on_front (\<lambda>x. case front_acquire_pending req x of (r, x') \<Rightarrow> (Inr r, x'))) (\<lambda>(key, pending).
         case pending of
           None \<Rightarrow> act_ret (Own key)
         | Some e \<Rightarrow> act_get (\<lambda>s. Wait (the (mm_front s)) e)))"

definition begin_process :: "('v, 'w, 'l) multi_env \<Rightarrow> message \<Rightarrow> (('v, 'w, 'l) multi_manager, query_step) act" where
  "begin_process V req = (\<lambda>s.
     if mm_pool s = None \<or> mm_front s = None
     then (Inl (RuntimeError ''multiprocess runtime not started''), s)
     else look_step V req s)"

text \<open>A follower after its event: the shared response, or another round of the loop.\<close>

definition resume_follower ::
  "('v, 'w, 'l) multi_env \<Rightarrow> message \<Rightarrow> bytes option \<Rightarrow> (('v, 'w, 'l) multi_manager, query_step) act" where
  "resume_follower V req wire =
     act_bind (act_lift (shared_response (be_lib (me_build V)) wire req)) (\<lambda>shared.
     case shared of Some m \<Rightarrow> act_ret (Hit m) | None \<Rightarrow> look_step V req)"

text \<open>
  The owner with what the pool gave: the response, whether it is in the cache, and the exception
  that leaves the \<open>try\<close> statement, if any. The \<open>finally\<close> block completes the entry.
\<close>

definition servfail :: "dnslib \<Rightarrow> message \<Rightarrow> message option \<Rightarrow> message option \<times> bool \<times> py_exn option" where
  "servfail L req response = (case make_error_response L req SERVFAIL of
     Inr m \<Rightarrow> (Some m, False, None) | Inl e \<Rightarrow> (response, False, Some e))"

definition owner_result ::
  "('v, 'w, 'l) multi_env \<Rightarrow> message \<Rightarrow> message option res \<Rightarrow> ('v, 'w, 'l) multi_manager \<Rightarrow>
   (message option \<times> bool \<times> py_exn option) \<times> ('v, 'w, 'l) multi_manager" where
  "owner_result V req result s =
     (let L = be_lib (me_build V) in
      case result of
        Inl e \<Rightarrow> (if is_Exception e then servfail L req None else (None, False, Some e), s)
      | Inr response \<Rightarrow>
          (case on_front (front_put_response L (me_lru V) (me_now V) req response) s of
             (Inr written, s') \<Rightarrow> ((response, written, None), s')
           | (Inl e, s') \<Rightarrow> (if is_Exception e then servfail L req response else (response, False, Some e), s')))"

definition end_process ::
  "('v, 'w, 'l) multi_env \<Rightarrow> message \<Rightarrow> cache_key option \<Rightarrow> message option res \<Rightarrow>
   (('v, 'w, 'l) multi_manager, message option) act" where
  "end_process V req key result = (\<lambda>s.
     case owner_result V req result s of ((response, written, exn), s') \<Rightarrow>
       act_bind (on_front (front_complete_pending (be_lib (me_build V)) key response written)) (\<lambda>_.
       case exn of None \<Rightarrow> act_ret response | Some e \<Rightarrow> act_raise e) s')"

text \<open>\<open>resolve_nested_query\<close> and the methods that pass on to the \<open>RuntimeManager\<close>\<close>

definition get_state_or_none :: "('v, 'w, 'l) multi_manager \<Rightarrow> ('v, 'w) runtime_state option" where
  "get_state_or_none s = (case get_state (mm_runtime s) of Inr st \<Rightarrow> Some st | Inl _ \<Rightarrow> None)"

definition multi_query_log_max_entries :: "(string \<Rightarrow> int res) \<Rightarrow> ('v, 'w, 'l) multi_manager \<Rightarrow> int res" where
  "multi_query_log_max_entries int_of_text s =
     andthen (get_state (mm_runtime s)) (\<lambda>st. query_log_max_entries int_of_text (plugins (rs_config st)))"

definition multi_get_status :: "string \<Rightarrow> ('v, 'w, 'l) multi_manager \<Rightarrow> runtime_status res" where
  "multi_get_status path s = andthen (get_state (mm_runtime s)) (\<lambda>st.
     Inr \<lparr>st_config_path = path,
          st_default_group = default_upstream_group (runtime (rs_config st)),
          st_listeners = build_listener_status (rn_servers s) (listeners (rs_config st)),
          st_upstreams = map u_name (upstreams (rs_config st)),
          st_groups = map g_name (groups (rs_config st)),
          st_rules = map r_name (rules (rs_config st))\<rparr>)"

section \<open>What is left over\<close>

definition mm_part ::
  "('v, 'w, 'l) multi_manager \<Rightarrow> pool list \<times> nat option \<times> 'l front_cache list \<times> nat option \<times> resources option \<times> shared_os" where
  "mm_part s = (mm_pools s, mm_pool s, mm_fronts s, mm_front s, mm_resources s, mm_os s)"

lemma mm_part_simps [simp]:
  "mm_part (s\<lparr>mm_runtime := rt\<rparr>) = mm_part s" "mm_part (s\<lparr>rn_task_group := b\<rparr>) = mm_part s"
  "mm_part (s\<lparr>rn_webui := b\<rparr>) = mm_part s" "mm_part (s\<lparr>rn_servers := l\<rparr>) = mm_part s"
  "mm_part (s\<lparr>rn_sockets := socks\<rparr>) = mm_part s"
  by (simp_all add: mm_part_def)

lemma mm_part_more:
  "service_state.more t = service_state.more s \<Longrightarrow> mm_part t = mm_part s \<and> mm_runtime t = mm_runtime s"
  by (cases t; cases s) (simp add: mm_part_def)

lemma mm_part_stop_listeners [simp]: "mm_part (stop_dns_listeners s) = mm_part s"
proof -
  obtain socks where "fold stop_server (rn_servers s) s = s\<lparr>rn_sockets := socks\<rparr>"
    using fold_stop_server by blast
  then show ?thesis by (simp add: stop_dns_listeners_def)
qed

lemma services_stop_listeners: "\<not> services_started (stop_dns_listeners (s\<lparr>rn_webui := False\<rparr>))"
proof -
  obtain socks where "fold stop_server (rn_servers s) (s\<lparr>rn_webui := False\<rparr>) = s\<lparr>rn_webui := False, rn_sockets := socks\<rparr>"
    using fold_stop_server [of "rn_servers s" "s\<lparr>rn_webui := False\<rparr>"] by auto
  then show ?thesis by (simp add: stop_dns_listeners_def services_started_def)
qed

lemma start_services_more:
  "start_services bind web config s = (r, t) \<Longrightarrow> service_state.more t = service_state.more s"
proof (cases "start_dns_listeners bind (listeners config) s")
  case (Pair r1 u)
  assume "start_services bind web config s = (r, t)"
  moreover from start_dns_listeners_result [OF Pair] obtain socks where "u = s\<lparr>rn_sockets := socks\<rparr>" by blast
  ultimately show ?thesis
    using Pair by (cases r1) (auto simp: start_services_def act_simps split: if_splits sum.splits)
qed

text \<open>A pool without workers, processes and queues.\<close>

definition pool_idle :: "pool \<Rightarrow> bool" where
  "pool_idle p \<longleftrightarrow> pl_workers p = [] \<and> \<not> pl_executor p \<and> pl_queues p = []"

lemma pool_idle_stopped [simp]: "pool_idle (end_stop p)"
  by (simp add: pool_idle_def end_stop_def close_ipc_resources_def fail_pending_def upd_calls_def)

lemma pool_idle_init [simp]: "pool_idle (pool_init c n)"
  by (simp add: pool_idle_def pool_init_def)

definition kept_ok :: "('v, 'w, 'l) multi_manager \<Rightarrow> bool" where
  "kept_ok s \<longleftrightarrow>
     (\<forall>i. mm_pool s = Some i \<longrightarrow> i < length (mm_pools s)) \<and>
     (\<forall>f. mm_front s = Some f \<longrightarrow> f < length (mm_fronts s)) \<and>
     (\<forall>j < length (mm_pools s). mm_pool s \<noteq> Some j \<longrightarrow> pool_idle (mm_pools s ! j)) \<and>
     so_dirs (mm_os s) = map sr_dir (case mm_resources s of None \<Rightarrow> [] | Some r \<Rightarrow> [r]) \<and>
     so_memory (mm_os s) = map sr_memory (case mm_resources s of None \<Rightarrow> [] | Some r \<Rightarrow> [r])"

definition multi_ok :: "('v, 'w, 'l) multi_manager \<Rightarrow> bool" where
  "multi_ok s \<longleftrightarrow> kept_ok s \<and> (mm_pool s = None \<longleftrightarrow> mm_front s = None) \<and>
     (mm_pool s = None \<longleftrightarrow> mm_resources s = None) \<and> (services_started s \<longrightarrow> mm_pool s \<noteq> None)"

lemma kept_ok_cong: "mm_part t = mm_part s \<Longrightarrow> kept_ok t = kept_ok s"
  by (simp add: mm_part_def kept_ok_def)

definition not_cancelled :: "'a res \<Rightarrow> bool" where
  "not_cancelled r \<longleftrightarrow> (\<forall>e. r = Inl e \<longrightarrow> is_Exception e)"

lemma fill_memory_result:
  assumes "fill_memory V payload os = (r, os')" and "not_cancelled r"
  shows "so_dirs os' = so_dirs os \<and>
     so_memory os' = (case r of Inl _ \<Rightarrow> so_memory os | Inr m \<Rightarrow> m # so_memory os)"
  using assms
  by (auto simp: fill_memory_def act_simps act_try_def Let_def not_cancelled_def unlink_memory_def
      split: sum.splits if_splits)

lemma build_resources_result:
  assumes "build_resources V dirs os = (r, os')" and "not_cancelled r"
  shows "so_dirs os' = (case r of Inl _ \<Rightarrow> so_dirs os | Inr x \<Rightarrow> sr_dir x # so_dirs os) \<and>
     so_memory os' = (case r of Inl _ \<Rightarrow> so_memory os | Inr x \<Rightarrow> sr_memory x # so_memory os)"
proof (cases "find (se_can_make V) (se_parents V)")
  case None
  with assms show ?thesis by (auto simp: build_resources_def make_shared_temp_dir_def act_bind_apply)
next
  case (Some p)
  let ?d = "p @ ''/python-smartdns-'' @ dec_str (so_next os)"
  let ?os = "os\<lparr>so_dirs := ?d # so_dirs os, so_next := Suc (so_next os)\<rparr>"
  have d: "make_shared_temp_dir V os = (Inr ?d, ?os)" using Some by (simp add: make_shared_temp_dir_def Let_def)
  show ?thesis
  proof (cases "se_domain V dirs")
    case (Inl e)
    with assms d show ?thesis
      by (auto simp: build_resources_def act_simps act_try_def not_cancelled_def remove_dir_def split: if_splits)
  next
    case dom: (Inr u)
    show ?thesis
    proof (cases "se_payload V dirs")
      case (Inl e)
      with assms d dom show ?thesis
        by (auto simp: build_resources_def act_simps act_try_def not_cancelled_def remove_dir_def split: if_splits)
    next
      case (Inr payload)
      obtain q os2 where q: "fill_memory V payload ?os = (q, os2)" by (cases "fill_memory V payload ?os")
      have "not_cancelled q"
        using assms d dom Inr q
        by (cases q) (auto simp: build_resources_def act_simps act_try_def not_cancelled_def split: if_splits)
      from fill_memory_result [OF q this] assms d dom Inr q this show ?thesis
        by (cases q) (auto simp: build_resources_def act_simps act_try_def not_cancelled_def remove_dir_def)
    qed
  qed
qed

text \<open>Stopping the pool and closing the resources, on a state that is kept well.\<close>

definition released :: "('v, 'w, 'l) multi_manager \<Rightarrow> bool" where
  "released s \<longleftrightarrow> multi_ok s \<and> mm_pool s = None \<and> \<not> services_started s"

lemma kept_ok_drop_pool:
  assumes "kept_ok s"
  shows "kept_ok ((stop_pool_opt (mm_pool s) s)\<lparr>mm_pool := None\<rparr>) \<and>
     mm_resources (stop_pool_opt (mm_pool s) s) = mm_resources s"
proof (cases "mm_pool s")
  case None
  with assms show ?thesis by (auto simp: stop_pool_opt_def kept_ok_def)
next
  case (Some i)
  then have i: "i < length (mm_pools s)" using assms by (simp add: kept_ok_def)
  have "pool_idle ((mm_pools s)[i := end_stop (begin_stop (mm_pools s ! i))] ! j)"
    if "j < length (mm_pools s)" for j
    using that assms Some i by (cases "j = i") (auto simp: kept_ok_def)
  with assms Some show ?thesis by (simp add: kept_ok_def stop_pool_opt_def stop_pool_def)
qed

lemma kept_ok_drop_resources:
  assumes "kept_ok s"
  shows "kept_ok ((close_opt (mm_resources s) s)\<lparr>mm_resources := None\<rparr>)"
  using assms
  by (cases "mm_resources s")
    (simp_all add: kept_ok_def close_opt_def close_resources_def remove_dir_def unlink_memory_def)

lemma services_frame [simp]:
  "services_started (stop_pool_opt p s) = services_started s"
  "services_started (close_opt r s) = services_started s"
  "services_started (s\<lparr>mm_pool := p\<rparr>) = services_started s"
  "services_started (s\<lparr>mm_resources := r\<rparr>) = services_started s"
  "services_started (s\<lparr>mm_front := f\<rparr>) = services_started s"
  "services_started (s\<lparr>rn_task_group := b\<rparr>) = services_started s"
  by (simp_all add: services_started_def stop_pool_opt_def stop_pool_def close_opt_def split: option.splits)

lemma runtime_frame [simp]:
  fixes s :: "('v, 'w, 'l) multi_manager"
  shows "rn_servers (s\<lparr>mm_runtime := rt\<rparr>) = rn_servers s" "rn_webui (s\<lparr>mm_runtime := rt\<rparr>) = rn_webui s"
    "rn_task_group (s\<lparr>mm_runtime := rt\<rparr>) = rn_task_group s" "rn_sockets (s\<lparr>mm_runtime := rt\<rparr>) = rn_sockets s"
    "services_started (s\<lparr>mm_runtime := rt\<rparr>) = services_started s"
  by (cases s; simp add: services_started_def)+

lemma close_opt_pool [simp]: "mm_pool (close_opt r s) = mm_pool s"
  by (simp add: close_opt_def split: option.splits)

lemma cleanup_released:
  assumes "kept_ok s" shows "released (cleanup_started_services s)"
proof -
  let ?s1 = "stop_dns_listeners (s\<lparr>rn_webui := False\<rparr>)"
  let ?s2 = "(stop_pool_opt (mm_pool ?s1) ?s1)\<lparr>mm_pool := None\<rparr>"
  let ?s3 = "(close_opt (mm_resources ?s2) ?s2)\<lparr>mm_resources := None\<rparr>"
  have "kept_ok ?s1" using assms kept_ok_cong [of ?s1 s] by simp
  from kept_ok_drop_pool [OF this] have k2: "kept_ok ?s2" by simp
  have k3: "kept_ok ?s3" by (rule kept_ok_drop_resources [OF k2])
  have "mm_pool ?s3 = None" by simp
  moreover have "\<not> services_started ?s3" by (simp add: services_stop_listeners)
  ultimately show ?thesis
    using k3 by (auto simp: cleanup_started_services_def Let_def released_def multi_ok_def kept_ok_def)
qed

lemma stop_released:
  assumes "kept_ok s" shows "released (multi_stop s)"
proof -
  let ?s1 = "stop_dns_listeners (s\<lparr>rn_webui := False\<rparr>)"
  let ?s2 = "(stop_pool_opt (mm_pool ?s1) ?s1)\<lparr>mm_pool := None\<rparr>"
  let ?s3 = "?s2\<lparr>mm_runtime := runtime_stop (mm_runtime ?s2)\<rparr>"
  let ?s4 = "(close_opt (mm_resources ?s3) ?s3)\<lparr>mm_resources := None\<rparr>"
  have "kept_ok ?s1" using assms kept_ok_cong [of ?s1 s] by simp
  from kept_ok_drop_pool [OF this] have k2: "kept_ok ?s2" by simp
  then have "kept_ok ?s3" using kept_ok_cong [of ?s3 ?s2] by simp
  then have k4: "kept_ok ?s4" by (rule kept_ok_drop_resources)
  have "mm_pool ?s4 = None" by simp
  moreover have "\<not> services_started ?s4" by (simp add: services_stop_listeners)
  ultimately show ?thesis
    using k4 by (auto simp: multi_stop_def Let_def released_def multi_ok_def kept_ok_def)
qed

lemma make_pool_result:
  assumes "make_pool V config s = (r, t)"
  shows "case r of
      Inl _ \<Rightarrow> t = s
    | Inr i \<Rightarrow> i = length (mm_pools s) \<and>
        t = s\<lparr>mm_pools := mm_pools s @ [fresh_pool V (multiprocess (runtime config))]\<rparr>"
  using assms by (auto simp: make_pool_def Let_def act_simps split: sum.splits)

lemma pool_idle_fresh [simp]: "pool_idle (fresh_pool V mp)"
  by (simp add: fresh_pool_def del: resolved_workers.simps)

lemma kept_ok_append:
  assumes "kept_ok s" and "pool_idle p" shows "kept_ok (s\<lparr>mm_pools := mm_pools s @ [p]\<rparr>)"
  using assms by (auto simp: kept_ok_def nth_append less_Suc_eq)

lemma kept_ok_pool:
  assumes "kept_ok s" and "mm_pool s = Some i"
  shows "kept_ok (s\<lparr>mm_pools := (mm_pools s)[i := p]\<rparr>)"
  using assms by (auto simp: kept_ok_def)

lemma kept_ok_new_front: "kept_ok s \<Longrightarrow> kept_ok (new_front V config s)"
  by (auto simp: kept_ok_def new_front_def)

lemma on_runtime_result: "on_runtime m s = (r, t) \<Longrightarrow> \<exists>rt. t = s\<lparr>mm_runtime := rt\<rparr>"
  by (auto simp: on_runtime_def split: prod.splits)

lemma start_body_result:
  assumes run: "start_body V config s = (q, t)" and k: "kept_ok s"
    and free: "mm_pool s = None"
  shows "kept_ok t \<and> mm_resources t = mm_resources s \<and> (q = Inr () \<longrightarrow> mm_pool t \<noteq> None \<and> mm_front t \<noteq> None)"
proof (cases "make_pool V config s")
  case (Pair r u)
  note u = make_pool_result [OF Pair]
  show ?thesis
  proof (cases r)
    case (Inl e)
    with run Pair u k show ?thesis by (auto simp: start_body_def act_bind_apply)
  next
    case (Inr i)
    let ?p = "fresh_pool V (multiprocess (runtime config))"
    let ?v = "u\<lparr>mm_pool := Some i\<rparr>"
    from u Inr have i: "i = length (mm_pools s)" and ueq: "u = s\<lparr>mm_pools := mm_pools s @ [?p]\<rparr>" by simp_all
    have v: "kept_ok ?v" "mm_pool ?v = Some i" "mm_resources ?v = mm_resources s"
      using kept_ok_append [OF k pool_idle_fresh] free i ueq by (auto simp: kept_ok_def)
    obtain r2 p2 where ps: "pool_start (mm_pools ?v ! i) = (r2, p2)" by (cases "pool_start (mm_pools ?v ! i)")
    let ?w = "?v\<lparr>mm_pools := (mm_pools ?v)[i := p2]\<rparr>"
    have w: "on_pool i pool_start ?v = (r2, ?w)" using ps by (simp add: on_pool_def)
    have kw: "kept_ok ?w" by (rule kept_ok_pool [OF v(1,2)])
    show ?thesis
    proof (cases r2)
      case (Inl e)
      with run Pair Inr w have "q = Inl e" "t = ?w"
        by (simp_all add: start_body_def act_bind_apply act_upd_def)
      with kw v show ?thesis by simp
    next
      case r2: (Inr a)
      let ?x = "new_front V config ?w"
      from run Pair Inr w r2 have "start_services (me_bind V) (me_web V) config ?x = (q, t)"
        by (simp add: start_body_def act_bind_apply act_upd_def)
      from mm_part_more [OF start_services_more [OF this]] have "mm_part t = mm_part ?x" by simp
      moreover have "mm_pool ?x = Some i" "mm_front ?x \<noteq> None" "mm_resources ?x = mm_resources s"
        using v by (simp_all add: new_front_def)
      moreover have "kept_ok ?x" by (rule kept_ok_new_front [OF kw])
      ultimately show ?thesis using kept_ok_cong [of t ?x] by (simp add: mm_part_def)
    qed
  qed
qed

lemma multi_start_ok:
  assumes run: "multi_start V c s = (q, t)" and ok: "multi_ok s"
    and once: "services_started s \<or> mm_pool s = None" and nc: "not_cancelled q"
  shows "multi_ok t"
proof (cases "services_started s")
  case True
  with run ok show ?thesis by (simp add: multi_start_def)
next
  case idle: False
  with once have free: "mm_pool s = None" by simp
  with ok have res: "mm_resources s = None" "mm_front s = None" by (simp_all add: multi_ok_def)
  obtain r1 u where u: "on_runtime (ensure_state (me_build V) c) s = (r1, u)"
    by (cases "on_runtime (ensure_state (me_build V) c) s")
  then obtain rt where ueq: "u = s\<lparr>mm_runtime := rt\<rparr>" using on_runtime_result by blast
  have uok: "multi_ok u" using ok kept_ok_cong [of u s] ueq by (auto simp: multi_ok_def)
  show ?thesis
  proof (cases r1)
    case (Inl e)
    with run idle u uok show ?thesis by (simp add: multi_start_def act_bind_apply)
  next
    case (Inr st)
    let ?v = "u\<lparr>rn_task_group := True\<rparr>"
    have v: "kept_ok ?v" using uok kept_ok_cong [of ?v u] by (simp add: multi_ok_def)
    obtain r2 os where os: "build_resources (me_shared V) (tree_root (rs_config st)) (mm_os ?v) = (r2, os)"
      by (cases "build_resources (me_shared V) (tree_root (rs_config st)) (mm_os ?v)")
    let ?w = "?v\<lparr>mm_os := os\<rparr>"
    have w: "on_os (build_resources (me_shared V) (tree_root (rs_config st))) ?v = (r2, ?w)"
      using os by (simp add: on_os_def)
    show ?thesis
    proof (cases r2)
      case (Inl e)
      with run idle u Inr w have "q = Inl e" "t = ?w"
        by (simp_all add: multi_start_def act_bind_apply act_upd_def)
      with nc Inl build_resources_result [OF os] uok ueq free res idle show ?thesis
        by (auto simp: multi_ok_def kept_ok_def not_cancelled_def services_started_def)
    next
      case r2: (Inr x)
      let ?x = "?w\<lparr>mm_resources := Some x\<rparr>"
      have "not_cancelled r2" using r2 by (simp add: not_cancelled_def)
      from build_resources_result [OF os this] r2 v ueq res
      have kx: "kept_ok ?x" by (auto simp: kept_ok_def)
      obtain b y where y: "start_body V (rs_config st) ?x = (b, y)" by (cases "start_body V (rs_config st) ?x")
      have "mm_pool ?x = None" using free ueq by simp
      note body = start_body_result [OF y kx this]
      from run idle u Inr w r2 have body_run: "act_try (start_body V (rs_config st))
          (\<lambda>e. act_bind (act_upd cleanup_started_services) (\<lambda>_. act_raise e)) ?x = (q, t)"
        by (simp add: multi_start_def act_bind_apply act_upd_def)
      have qt: "(q, t) = (case b of
          Inl e \<Rightarrow> if is_Exception e then (Inl e, cleanup_started_services y) else (Inl e, y) | Inr a \<Rightarrow> (Inr a, y))"
        unfolding body_run [symmetric] act_try_def y by (cases b) (simp_all add: act_simps)
      show ?thesis
      proof (cases b)
        case (Inl e)
        with qt nc have "t = cleanup_started_services y" by (auto simp: not_cancelled_def split: if_splits)
        with cleanup_released [of y] body show ?thesis by (simp add: released_def)
      next
        case (Inr a)
        with qt body show ?thesis by (auto simp: multi_ok_def)
      qed
    qed
  qed
qed

text \<open>While a reload is under way, the new resources and the new pool are there beside the old ones.\<close>

definition reloading :: "resources \<Rightarrow> nat \<Rightarrow> ('v, 'w, 'l) multi_manager \<Rightarrow> bool" where
  "reloading r i s \<longleftrightarrow> i < length (mm_pools s) \<and> mm_pool s \<noteq> Some i \<and>
     (\<forall>j. mm_pool s = Some j \<longrightarrow> j < length (mm_pools s)) \<and>
     (\<forall>f. mm_front s = Some f \<longrightarrow> f < length (mm_fronts s)) \<and>
     (\<forall>j < length (mm_pools s). mm_pool s \<noteq> Some j \<longrightarrow> j \<noteq> i \<longrightarrow> pool_idle (mm_pools s ! j)) \<and>
     so_dirs (mm_os s) = sr_dir r # map sr_dir (case mm_resources s of None \<Rightarrow> [] | Some x \<Rightarrow> [x]) \<and>
     so_memory (mm_os s) = sr_memory r # map sr_memory (case mm_resources s of None \<Rightarrow> [] | Some x \<Rightarrow> [x])"

lemma reloading_cong: "mm_part t = mm_part s \<Longrightarrow> reloading r i t = reloading r i s"
  by (simp add: mm_part_def reloading_def)

lemma reloading_undo:
  assumes "reloading r i s" shows "kept_ok (close_opt (Some r) (stop_pool i s))"
proof -
  have "pool_idle ((mm_pools s)[i := end_stop (begin_stop (mm_pools s ! i))] ! j)"
    if "j < length (mm_pools s)" "mm_pool s \<noteq> Some j" for j
    using that assms by (cases "j = i") (auto simp: reloading_def)
  with assms show ?thesis
    by (simp add: kept_ok_def reloading_def close_opt_def stop_pool_def close_resources_def remove_dir_def
        unlink_memory_def)
qed

lemma reloading_swap:
  assumes "reloading r i s" shows "kept_ok (swap_services V config i r s)"
proof -
  let ?pools = "mm_pools (stop_pool_opt (mm_pool s) s)"
  have idle: "pool_idle (?pools ! j)" if "j < length (mm_pools s)" "j \<noteq> i" for j
  proof (cases "mm_pool s")
    case None
    with that assms show ?thesis by (simp add: reloading_def stop_pool_opt_def)
  next
    case (Some k)
    with that assms show ?thesis
      by (cases "j = k") (auto simp: reloading_def stop_pool_opt_def stop_pool_def)
  qed
  have len: "length ?pools = length (mm_pools s)"
    by (simp add: stop_pool_opt_def stop_pool_def split: option.splits)
  have eqs: "mm_pools (swap_services V config i r s) = ?pools"
    "mm_pool (swap_services V config i r s) = Some i" "mm_resources (swap_services V config i r s) = Some r"
    "mm_front (swap_services V config i r s) = Some (length (mm_fronts s))"
    "length (mm_fronts (swap_services V config i r s)) = Suc (length (mm_fronts s))"
    "mm_os (swap_services V config i r s) = (case mm_resources s of None \<Rightarrow> mm_os s | Some x \<Rightarrow> close_resources x (mm_os s))"
    by (simp_all add: swap_services_def new_front_def close_opt_def stop_pool_opt_def stop_pool_def Let_def
        split: option.splits)
  show ?thesis
    using assms idle len
    by (auto simp: kept_ok_def eqs reloading_def close_resources_def remove_dir_def unlink_memory_def
        split: option.splits)
qed

lemma kept_ok_reloading:
  assumes k: "kept_ok s" and r: "build_resources V dirs (mm_os s) = (Inr r, os)"
  shows "reloading r (length (mm_pools s)) (s\<lparr>mm_os := os, mm_pools := mm_pools s @ [p]\<rparr>)"
proof -
  have "not_cancelled (Inr r)" by (simp add: not_cancelled_def)
  from build_resources_result [OF r this] k show ?thesis
    by (auto simp: reloading_def kept_ok_def nth_append less_Suc_eq)
qed

lemma kept_ok_close_new:
  assumes k: "kept_ok s" and r: "build_resources V dirs (mm_os s) = (Inr r, os)"
  shows "kept_ok (close_opt (Some r) (s\<lparr>mm_os := os\<rparr>))"
proof -
  have "not_cancelled (Inr r)" by (simp add: not_cancelled_def)
  from build_resources_result [OF r this] k show ?thesis
    by (auto simp: kept_ok_def close_opt_def close_resources_def remove_dir_def unlink_memory_def)
qed

definition same_services :: "('v, 'w, 'l) multi_manager \<Rightarrow> ('v, 'w, 'l) multi_manager \<Rightarrow> bool" where
  "same_services s t \<longleftrightarrow> rn_servers t = rn_servers s \<and> rn_webui t = rn_webui s \<and>
     rn_task_group t = rn_task_group s \<and> rn_sockets t = rn_sockets s"

lemma reload_body_result:
  assumes "reload_body V c i s = (q, t)" and "reloading r i s"
  shows "reloading r i t \<and> same_services s t \<and> mm_pool t = mm_pool s \<and> mm_front t = mm_front s \<and>
     mm_resources t = mm_resources s"
proof (cases "rn_task_group s")
  case False
  with assms show ?thesis by (simp add: reload_body_def act_bind_apply same_services_def)
next
  case True
  obtain a p where ps: "pool_start (mm_pools s ! i) = (a, p)" by (cases "pool_start (mm_pools s ! i)")
  let ?u = "s\<lparr>mm_pools := (mm_pools s)[i := p]\<rparr>"
  have u: "reloading r i ?u" using assms(2) by (simp add: reloading_def)
  have "on_pool i pool_start s = (a, ?u)" using ps by (simp add: on_pool_def)
  with assms(1) True have "t = ?u \<or> (\<exists>b. on_runtime (runtime_reload (me_build V) c) ?u = (b, t))"
    by (cases a) (auto simp: reload_body_def act_bind_apply)
  then obtain rt where "t = ?u \<or> t = ?u\<lparr>mm_runtime := rt\<rparr>" using on_runtime_result by blast
  with u reloading_cong [of t ?u r i] show ?thesis by (auto simp: same_services_def)
qed

lemma swap_services_fields:
  "same_services s (swap_services V config i r s) \<and> mm_pool (swap_services V config i r s) = Some i \<and>
     mm_front (swap_services V config i r s) \<noteq> None \<and> mm_resources (swap_services V config i r s) = Some r"
  by (simp add: same_services_def swap_services_def new_front_def close_opt_def stop_pool_opt_def stop_pool_def Let_def
      split: option.splits)

lemma undo_fields:
  "same_services s (close_opt (Some r) (stop_pool i s)) \<and> mm_pool (close_opt (Some r) (stop_pool i s)) = mm_pool s \<and>
     mm_front (close_opt (Some r) (stop_pool i s)) = mm_front s \<and>
     mm_resources (close_opt (Some r) (stop_pool i s)) = mm_resources s"
  by (simp add: same_services_def close_opt_def stop_pool_def)

lemma same_services_started: "same_services s t \<Longrightarrow> services_started t = services_started s"
  by (simp add: same_services_def services_started_def)

lemma same_services_trans: "same_services s t \<Longrightarrow> same_services t u \<Longrightarrow> same_services s u"
  by (simp add: same_services_def)

lemma multi_ok_same:
  assumes "multi_ok s" and "kept_ok t" and "same_services s t" and "mm_pool t = mm_pool s"
    and "mm_front t = mm_front s" and "mm_resources t = mm_resources s"
  shows "multi_ok t"
  using assms same_services_started [OF assms(3)] by (auto simp: multi_ok_def)

text \<open>What is left by a reload, by the point it has reached.\<close>

lemma multi_reload_ok:
  assumes run: "multi_reload V c c' s = (q, t)" and ok: "multi_ok s" and nc: "not_cancelled q"
  shows "multi_ok t \<and> same_services s t"
proof (cases "\<exists>old new. get_state (mm_runtime s) = Inr old \<and> c = Inr new \<and>
    \<not> (services_started s \<and> service_signature (rs_config old) \<noteq> service_signature new)")
  case False
  with run have "t = s"
    by (cases "get_state (mm_runtime s)"; cases c) (auto simp: multi_reload_def act_bind_apply act_lift_def)
  with ok show ?thesis by (simp add: same_services_def)
next
  case True
  then obtain old new where st: "get_state (mm_runtime s) = Inr old" "c = Inr new"
    "\<not> (services_started s \<and> service_signature (rs_config old) \<noteq> service_signature new)" by blast
  have k: "kept_ok s" using ok by (simp add: multi_ok_def)
  obtain r os where os: "build_resources (me_shared V) (tree_root new) (mm_os s) = (r, os)"
    by (cases "build_resources (me_shared V) (tree_root new) (mm_os s)")
  let ?u = "s\<lparr>mm_os := os\<rparr>"
  have u: "on_os (build_resources (me_shared V) (tree_root new)) s = (r, ?u)" using os by (simp add: on_os_def)
  let ?rest = "\<lambda>r. act_bind (act_try (make_pool V new)
            (\<lambda>e. act_bind (act_upd (close_opt (Some r))) (\<lambda>_. act_raise e))) (\<lambda>i.
          act_bind (act_try (reload_body V c' i)
            (\<lambda>e. act_bind (act_upd (\<lambda>s. close_opt (Some r) (stop_pool i s))) (\<lambda>_. act_raise e))) (\<lambda>new_state.
          act_bind (act_upd (swap_services V (rs_config new_state) i r)) (\<lambda>_. act_ret new_state)))"
  have body: "act_bind (on_os (build_resources (me_shared V) (tree_root new))) ?rest s = (q, t)"
    using run st by (auto simp: multi_reload_def act_bind_apply act_lift_def)
  show ?thesis
  proof (cases r)
    case (Inl e)
    with body u have "t = ?u" "q = Inl e" by (auto simp: act_bind_apply)
    with nc Inl build_resources_result [OF os] k have "kept_ok t" "same_services s t"
      by (auto simp: kept_ok_def not_cancelled_def same_services_def)
    with \<open>t = ?u\<close> show ?thesis using multi_ok_same [OF ok] by simp
  next
    case (Inr x)
    note os = os [unfolded Inr] and rest = body [unfolded act_bind_apply u Inr, simplified]
    obtain m v where m: "make_pool V new ?u = (m, v)" by (cases "make_pool V new ?u")
    note v = make_pool_result [OF m]
    show ?thesis
    proof (cases m)
      case (Inl e)
      have "t = close_opt (Some x) ?u \<or> \<not> is_Exception e \<and> q = Inl e"
        using rest m v Inl by (auto simp: act_bind_apply act_try_def act_simps split: if_splits)
      moreover have "is_Exception e"
        using rest m v Inl nc by (auto simp: act_bind_apply act_try_def act_simps not_cancelled_def split: if_splits)
      ultimately have t: "t = close_opt (Some x) ?u" by simp
      have "same_services s t" "mm_pool t = mm_pool s" "mm_front t = mm_front s" "mm_resources t = mm_resources s"
        unfolding t by (simp_all add: same_services_def close_opt_def)
      with multi_ok_same [OF ok] kept_ok_close_new [OF k os] t show ?thesis by simp
    next
      case (Inr i)
      with v have i: "i = length (mm_pools s)"
        "v = s\<lparr>mm_os := os, mm_pools := mm_pools s @ [fresh_pool V (multiprocess (runtime new))]\<rparr>"
        by simp_all
      have lv: "reloading x i v" using kept_ok_reloading [OF k os] i by simp
      obtain b w where b: "reload_body V c' i v = (b, w)" by (cases "reload_body V c' i v")
      note w = reload_body_result [OF b lv]
      have sw: "same_services s w" "mm_pool w = mm_pool s" "mm_front w = mm_front s" "mm_resources w = mm_resources s"
        using w i by (auto simp: same_services_def)
      show ?thesis
      proof (cases b)
        case b_exn: (Inl e)
        have "t = close_opt (Some x) (stop_pool i w) \<or> \<not> is_Exception e \<and> q = Inl e"
          using rest m Inr b b_exn by (auto simp: act_bind_apply act_try_def act_simps split: if_splits)
        moreover have "is_Exception e"
          using rest m Inr b b_exn nc
          by (auto simp: act_bind_apply act_try_def act_simps not_cancelled_def split: if_splits)
        ultimately have t: "t = close_opt (Some x) (stop_pool i w)" by simp
        note f = undo_fields [of w x i]
        have "same_services s t" using sw(1) f t same_services_trans by blast
        moreover have "kept_ok t" using reloading_undo w t by blast
        ultimately show ?thesis using multi_ok_same [OF ok] sw f t by simp
      next
        case b_ok: (Inr st)
        have t: "t = swap_services V (rs_config st) i x w"
          using rest m Inr b b_ok by (simp add: act_bind_apply act_try_def act_simps)
        note f = swap_services_fields [of w V "rs_config st" i x]
        have "kept_ok t" using reloading_swap w t by blast
        moreover have "same_services s t" using sw(1) f t same_services_trans by blast
        ultimately show ?thesis using f t by (simp add: multi_ok_def)
      qed
    qed
  qed
qed

section \<open>Runs of the manager\<close>

text \<open>
  Any sequence of starts, stops, reloads and queries, with the pools at work in between. A stopped
  pool gets no workers again (a pool that is stopped while it is rebuilt does, see
  \<open>restart_revives_stopped_pool\<close>). Nobody cancels a start or a reload, and a manager whose
  configuration has no service at all is started once.
\<close>

inductive multi_step :: "('v, 'w, 'l) multi_env \<Rightarrow> ('v, 'w, 'l) multi_manager \<Rightarrow> ('v, 'w, 'l) multi_manager \<Rightarrow> bool" for V where
  start: "multi_start V c s = (q, t) \<Longrightarrow> not_cancelled q \<Longrightarrow> services_started s \<or> mm_pool s = None \<Longrightarrow>
     multi_step V s t"
| stop: "multi_step V s (multi_stop s)"
| reload: "multi_reload V c c' s = (q, t) \<Longrightarrow> not_cancelled q \<Longrightarrow> multi_step V s t"
| query: "multi_step V s (snd (begin_process V req s))"
| follower: "multi_step V s (snd (resume_follower V req wire s))"
| owner: "multi_step V s (snd (end_process V req key result s))"
| pool_works: "i < length (mm_pools s) \<Longrightarrow> mm_pool s = Some i \<or> pool_idle p \<Longrightarrow>
     multi_step V s (s\<lparr>mm_pools := (mm_pools s)[i := p]\<rparr>)"

inductive multi_steps :: "('v, 'w, 'l) multi_env \<Rightarrow> ('v, 'w, 'l) multi_manager \<Rightarrow> ('v, 'w, 'l) multi_manager \<Rightarrow> bool" for V s where
  here: "multi_steps V s s"
| step: "multi_steps V s t \<Longrightarrow> multi_step V t u \<Longrightarrow> multi_steps V s u"

text \<open>A query changes front caches only, and only their contents.\<close>

definition fronts_only :: "('v, 'w, 'l) multi_manager \<Rightarrow> ('v, 'w, 'l) multi_manager \<Rightarrow> bool" where
  "fronts_only s t \<longleftrightarrow> (\<exists>fs. length fs = length (mm_fronts s) \<and> t = s\<lparr>mm_fronts := fs\<rparr> \<and>
     (\<forall>f < length fs. (mm_front s \<noteq> Some f \<longrightarrow> fs ! f = mm_fronts s ! f) \<and>
        (table_ok (fc_table (mm_fronts s ! f)) \<longrightarrow> table_ok (fc_table (fs ! f)))))"

lemma fronts_only_refl: "fronts_only s s"
  by (auto simp: fronts_only_def intro!: exI [of _ "mm_fronts s"])

lemma fronts_only_trans:
  assumes "fronts_only s t" and "fronts_only t u" shows "fronts_only s u"
proof -
  obtain fs where fs: "length fs = length (mm_fronts s)" "t = s\<lparr>mm_fronts := fs\<rparr>"
    "\<forall>f < length fs. (mm_front s \<noteq> Some f \<longrightarrow> fs ! f = mm_fronts s ! f) \<and>
        (table_ok (fc_table (mm_fronts s ! f)) \<longrightarrow> table_ok (fc_table (fs ! f)))"
    using assms(1) by (auto simp: fronts_only_def)
  moreover obtain gs where "length gs = length fs" "u = t\<lparr>mm_fronts := gs\<rparr>"
    "\<forall>f < length gs. (mm_front s \<noteq> Some f \<longrightarrow> gs ! f = fs ! f) \<and>
        (table_ok (fc_table (fs ! f)) \<longrightarrow> table_ok (fc_table (gs ! f)))"
    using assms(2) fs(2) by (auto simp: fronts_only_def)
  ultimately show ?thesis by (auto simp: fronts_only_def intro!: exI [of _ gs])
qed

lemma keeps_fronts_only: "reflp fronts_only" "transp fronts_only"
  by (rule reflpI, rule fronts_only_refl) (rule transpI, erule fronts_only_trans)

abbreviation keeps_table :: "('l front_cache, 'a) act \<Rightarrow> bool" where
  "keeps_table \<equiv> keeps (\<lambda>x y. table_ok (fc_table x) \<longrightarrow> table_ok (fc_table y))"

lemma nth_list_update_iff: "xs[i := x] ! j = (if i = j \<and> i < length xs then x else xs ! j)"
  by (cases "i < length xs") (auto simp: nth_list_update list_update_beyond)

lemma on_front_only:
  assumes "keeps_table m" shows "keeps fronts_only (on_front m)"
proof (rule keepsI)
  fix s
  show "fronts_only s (snd (on_front m s))"
  proof (cases "mm_front s")
    case (Some f)
    obtain r x where m: "m (mm_fronts s ! f) = (r, x)" by (cases "m (mm_fronts s ! f)")
    then have "table_ok (fc_table (mm_fronts s ! f)) \<longrightarrow> table_ok (fc_table x)" using assms keepsD by fastforce
    with m Some show ?thesis
      by (auto simp: on_front_def fronts_only_def nth_list_update_iff intro!: exI [of _ "(mm_fronts s)[f := x]"])
  qed (simp add: on_front_def fronts_only_refl)
qed

lemma keeps_table_calls:
  fixes lru :: "'l lru_lib"
  shows "keeps_table (front_get_response L lru now req)" "keeps_table (front_put_response L lru now req m)"
    "keeps_table (\<lambda>x :: 'l front_cache. case front_acquire_pending req x of (r, x') \<Rightarrow> (Inr r, x'))"
    "keeps_table (front_complete_pending L key m written :: ('l front_cache, unit) act)"
proof -
  show "keeps_table (front_get_response L lru now req)" "keeps_table (front_put_response L lru now req m)"
    by (auto intro!: keepsI simp: front_get_response_def front_put_response_def split: option.splits prod.splits sum.splits)
  show "keeps_table (\<lambda>x :: 'l front_cache. case front_acquire_pending req x of (r, x') \<Rightarrow> (Inr r, x'))"
  proof (intro keepsI impI)
    fix x :: "'l front_cache"
    assume ok: "table_ok (fc_table x)"
    show "table_ok (fc_table (snd (case front_acquire_pending req x of (r, x') \<Rightarrow> (Inr r, x'))))"
    proof (cases "front_key req")
      case (Some k)
      show ?thesis
      proof (cases "pt_pending (fc_table x) k")
        case None
        with acquire_free_table [OF ok None] Some show ?thesis
          by (cases "acquire_entry k (fc_table x)") (auto simp: front_acquire_pending_def)
      qed (use Some ok in \<open>simp add: front_acquire_pending_def acquire_entry_def\<close>)
    qed (use ok in \<open>simp add: front_acquire_pending_def\<close>)
  qed
  show "keeps_table (front_complete_pending L key m written :: ('l front_cache, unit) act)"
  proof (intro keepsI impI)
    fix x :: "'l front_cache"
    assume ok: "table_ok (fc_table x)"
    show "table_ok (fc_table (snd (front_complete_pending L key m written x)))"
    proof (cases key)
      case (Some k)
      have pop: "table_ok (snd (pop_entry k (fc_table x)))"
        using ok by (auto simp: table_ok_def pop_entry_def split: if_splits)
      show ?thesis
      proof (cases "pt_pending (fc_table x) k")
        case None
        with pop Some show ?thesis by (simp add: front_complete_pending_def pop_entry_def)
      next
        case e: (Some e)
        have "table_ok (set_event e w (snd (pop_entry k (fc_table x))))" for w
          using finish_table [OF ok e refl] by blast
        with pop Some e show ?thesis
          by (auto simp: front_complete_pending_def pop_entry_def split: sum.splits)
      qed
    qed (use ok in \<open>simp add: front_complete_pending_def\<close>)
  qed
qed

lemmas front_calls_only = on_front_only [OF keeps_table_calls(1)] on_front_only [OF keeps_table_calls(2)]
  on_front_only [OF keeps_table_calls(3)] on_front_only [OF keeps_table_calls(4)]

lemma look_step_only: "keeps fronts_only (look_step V req)"
  unfolding look_step_def
  by (intro keeps_bind keeps_fronts_only front_calls_only)
    (auto split: option.splits prod.splits
      intro!: keeps_bind keeps_fronts_only front_calls_only keeps_basic)

lemma begin_process_only: "fronts_only s (snd (begin_process V req s))"
  using look_step_only [of V req] by (auto simp: begin_process_def keeps_def fronts_only_refl)

lemma resume_follower_only: "fronts_only s (snd (resume_follower V req wire s))"
proof -
  have "keeps fronts_only (resume_follower V req wire)"
    unfolding resume_follower_def
    by (intro keeps_bind keeps_fronts_only keeps_basic)
      (auto split: option.splits intro!: keeps_basic keeps_fronts_only look_step_only)
  then show ?thesis by (simp add: keeps_def)
qed

lemma owner_result_only: "owner_result V req result s = (x, t) \<Longrightarrow> fronts_only s t"
  by (auto simp: owner_result_def Let_def fronts_only_refl split: sum.splits prod.splits
      dest: keepsD [OF front_calls_only(2)])

lemma end_process_only: "fronts_only s (snd (end_process V req key result s))"
proof -
  obtain response written exn t where o': "owner_result V req result s = ((response, written, exn), t)"
    by (cases "owner_result V req result s") auto
  have "keeps fronts_only (act_bind (on_front (front_complete_pending (be_lib (me_build V)) key response written))
      (\<lambda>_. case exn of None \<Rightarrow> act_ret response | Some e \<Rightarrow> act_raise e))"
    by (intro keeps_bind keeps_fronts_only front_calls_only)
      (auto split: option.splits intro!: keeps_basic keeps_fronts_only)
  with owner_result_only [OF o'] o' fronts_only_trans show ?thesis
    by (fastforce simp: end_process_def keeps_def)
qed

lemma multi_ok_fronts: "fronts_only s t \<Longrightarrow> multi_ok s \<Longrightarrow> multi_ok t"
  by (auto simp: fronts_only_def multi_ok_def kept_ok_def services_started_def)

lemma multi_step_ok: "multi_step V s t \<Longrightarrow> multi_ok s \<Longrightarrow> multi_ok t"
proof (induction rule: multi_step.induct)
  case (start c s q t)
  then show ?case using multi_start_ok by blast
next
  case (stop s)
  then have "kept_ok s" by (simp add: multi_ok_def)
  from stop_released [OF this] show ?case by (simp add: released_def)
next
  case (reload c c' s q t)
  then show ?case using multi_reload_ok by blast
next
  case (query s req)
  then show ?case using multi_ok_fronts [OF begin_process_only] by blast
next
  case (follower s req wire)
  then show ?case using multi_ok_fronts [OF resume_follower_only] by blast
next
  case (owner s req key result)
  then show ?case using multi_ok_fronts [OF end_process_only] by blast
next
  case (pool_works i s p)
  have "pool_idle ((mm_pools s)[i := p] ! j)" if "j < length (mm_pools s)" "mm_pool s \<noteq> Some j" for j
    using that pool_works by (cases "j = i") (auto simp: multi_ok_def kept_ok_def)
  then show ?case using pool_works by (auto simp: multi_ok_def kept_ok_def services_started_def)
qed

lemma multi_init_ok: "multi_ok multi_init"
  by (simp add: multi_ok_def kept_ok_def multi_init_def services_started_def)

lemma multi_steps_ok: "multi_steps V s t \<Longrightarrow> multi_ok s \<Longrightarrow> multi_ok t"
  by (induction rule: multi_steps.induct) (auto intro: multi_step_ok)

section \<open>Properties\<close>


text \<open>A front cache that is not the current one is never touched again.\<close>

definition retired :: "nat \<Rightarrow> ('v, 'w, 'l) multi_manager \<Rightarrow> bool" where
  "retired f s \<longleftrightarrow> f < length (mm_fronts s) \<and> mm_front s \<noteq> Some f"

lemma retired_fronts:
  assumes "fronts_only s t" and "retired f s"
  shows "retired f t \<and> mm_fronts t ! f = mm_fronts s ! f"
  using assms by (auto simp: fronts_only_def retired_def)

definition grows_fronts :: "('v, 'w, 'l) multi_manager \<Rightarrow> ('v, 'w, 'l) multi_manager \<Rightarrow> bool" where
  "grows_fronts s t \<longleftrightarrow> (\<exists>new. mm_fronts t = mm_fronts s @ new \<and> (\<forall>x \<in> set new. table_ok (fc_table x))) \<and>
     (mm_front t = None \<or> mm_front t = mm_front s \<or> (\<exists>g. mm_front t = Some g \<and> length (mm_fronts s) \<le> g))"

lemma grows_fronts_refl: "grows_fronts s s"
  by (simp add: grows_fronts_def)

lemma grows_fronts_trans: "grows_fronts s t \<Longrightarrow> grows_fronts t u \<Longrightarrow> grows_fronts s u"
  unfolding grows_fronts_def by (fastforce intro: order_trans)

lemma keeps_grows: "reflp grows_fronts" "transp grows_fronts"
  by (rule reflpI, rule grows_fronts_refl) (rule transpI, erule grows_fronts_trans)

lemma grows_fronts_same: "mm_fronts t = mm_fronts s \<Longrightarrow> mm_front t = mm_front s \<or> mm_front t = None \<Longrightarrow> grows_fronts s t"
  by (auto simp: grows_fronts_def)

lemma grows_new_front: "grows_fronts s (new_front V c s)"
  by (simp add: grows_fronts_def new_front_def table_ok_empty)

lemma stop_listeners_fronts [simp]:
  fixes s :: "('v, 'w, 'l) multi_manager"
  shows "mm_fronts (stop_dns_listeners s) = mm_fronts s" "mm_front (stop_dns_listeners s) = mm_front s"
  using mm_part_stop_listeners [of s] by (simp_all add: mm_part_def del: mm_part_stop_listeners)

lemma pool_close_fronts [simp]:
  "mm_fronts (stop_pool_opt p s) = mm_fronts s" "mm_front (stop_pool_opt p s) = mm_front s"
  "mm_fronts (close_opt r s) = mm_fronts s" "mm_front (close_opt r s) = mm_front s"
  "mm_fronts (stop_pool i s) = mm_fronts s" "mm_front (stop_pool i s) = mm_front s"
  by (simp_all add: stop_pool_opt_def close_opt_def stop_pool_def split: option.splits)

lemma grows_basic:
  fixes V :: "('a, 'b, 'c) multi_env"
  shows "keeps grows_fronts (on_os m)" "keeps grows_fronts (on_runtime n)" "keeps grows_fronts (on_pool i p)"
    "keeps grows_fronts (make_pool V config)"
    "keeps grows_fronts (start_services bind web config :: (('a, 'b, 'c) multi_manager, unit) act)"
proof -
  show "keeps grows_fronts (on_os m)" "keeps grows_fronts (on_runtime n)" "keeps grows_fronts (on_pool i p)"
    by (auto intro!: keepsI grows_fronts_same simp: on_os_def on_runtime_def on_pool_def split: prod.splits)
  show "keeps grows_fronts (make_pool V config)"
    by (auto intro!: keepsI grows_fronts_same simp: make_pool_def Let_def act_simps split: sum.splits)
  show "keeps grows_fronts (start_services bind web config :: (('a, 'b, 'c) multi_manager, unit) act)"
  proof (rule keepsI)
    fix s :: "('a, 'b, 'c) multi_manager"
    obtain r t where t: "start_services bind web config s = (r, t)" by (cases "start_services bind web config s")
    from mm_part_more [OF start_services_more [OF t]] have "grows_fronts s t"
      by (intro grows_fronts_same) (simp_all add: mm_part_def)
    with t show "grows_fronts s (snd (start_services bind web config s))" by simp
  qed
qed

lemma grows_upd: "(\<And>s. grows_fronts s (f s)) \<Longrightarrow> keeps grows_fronts (act_upd f)"
  by (simp add: keeps_def act_upd_def)

lemma grows_cleanup: "grows_fronts s (cleanup_started_services s)"
  by (intro grows_fronts_same) (simp_all add: cleanup_started_services_def Let_def)

lemma grows_stop: "grows_fronts s (multi_stop s)"
  by (intro grows_fronts_same) (simp_all add: multi_stop_def Let_def)

lemma grows_swap: "grows_fronts s (swap_services V config i r s)"
  by (simp add: grows_fronts_def swap_services_def Let_def new_front_def table_ok_empty)

lemmas grows_rules = keeps_bind keeps_try keeps_grows keeps_basic grows_basic grows_upd

lemma grows_start: "grows_fronts s (snd (multi_start V c s))"
proof (cases "services_started s")
  case False
  have "keeps grows_fronts (start_body V config)" for config
    unfolding start_body_def by (intro grows_rules grows_new_front) (auto intro: grows_fronts_same)
  then have "keeps grows_fronts (act_bind (on_runtime (ensure_state (me_build V) c)) (\<lambda>st.
          act_bind (act_upd (\<lambda>s. s\<lparr>rn_task_group := True\<rparr>)) (\<lambda>_.
          act_bind (on_os (build_resources (me_shared V) (tree_root (rs_config st)))) (\<lambda>r.
          act_bind (act_upd (\<lambda>s. s\<lparr>mm_resources := Some r\<rparr>)) (\<lambda>_.
          act_try (start_body V (rs_config st))
            (\<lambda>e. act_bind (act_upd cleanup_started_services) (\<lambda>_. act_raise e)))))))"
    by (intro grows_rules grows_cleanup) (auto intro: grows_fronts_same)
  with False show ?thesis by (simp add: multi_start_def keeps_def)
qed (simp add: multi_start_def grows_fronts_refl)


lemma grows_reload_body: "keeps grows_fronts (reload_body V c i)"
  unfolding reload_body_def
  by (intro grows_rules keepsI) (use grows_basic(3) in \<open>auto simp: keeps_def grows_fronts_refl\<close>)

lemma grows_reload: "grows_fronts s (snd (multi_reload V c c' s))"
proof -
  note body = grows_reload_body [of V c']
  have rest: "keeps grows_fronts (act_bind (on_os (build_resources (me_shared V) (tree_root new_config))) (\<lambda>r.
          act_bind (act_try (make_pool V new_config)
            (\<lambda>e. act_bind (act_upd (close_opt (Some r))) (\<lambda>_. act_raise e))) (\<lambda>i.
          act_bind (act_try (reload_body V c' i)
            (\<lambda>e. act_bind (act_upd (\<lambda>s. close_opt (Some r) (stop_pool i s))) (\<lambda>_. act_raise e))) (\<lambda>new_state.
          act_bind (act_upd (swap_services V (rs_config new_state) i r)) (\<lambda>_. act_ret new_state)))))" for new_config
    by (intro grows_rules grows_swap body) (auto intro: grows_fronts_same)
  show ?thesis
    using rest
    by (cases "get_state (mm_runtime s)"; cases c)
      (auto simp: multi_reload_def act_bind_apply act_lift_def keeps_def grows_fronts_refl)
qed

lemma retired_grows:
  assumes "grows_fronts s t" and "retired f s"
  shows "retired f t \<and> mm_fronts t ! f = mm_fronts s ! f"
  using assms by (auto simp: grows_fronts_def retired_def nth_append)

lemma retired_step:
  assumes "multi_step V s t" and "retired f s"
  shows "retired f t \<and> mm_fronts t ! f = mm_fronts s ! f"
  using assms
proof (induction rule: multi_step.induct)
  case (start c s q t)
  then show ?case using retired_grows [OF grows_start] by (metis snd_conv)
next
  case (stop s)
  then show ?case using retired_grows [OF grows_stop] by blast
next
  case (reload c c' s q t)
  then show ?case using retired_grows [OF grows_reload] by (metis snd_conv)
next
  case (query s req)
  then show ?case using retired_fronts [OF begin_process_only] by blast
next
  case (follower s req wire)
  then show ?case using retired_fronts [OF resume_follower_only] by blast
next
  case (owner s req key result)
  then show ?case using retired_fronts [OF end_process_only] by blast
qed (simp add: retired_def)

lemma retired_steps:
  assumes "multi_steps V s t" and "retired f s"
  shows "retired f t \<and> mm_fronts t ! f = mm_fronts s ! f"
  using assms by (induction rule: multi_steps.induct) (use retired_step in fastforce)+

text \<open>The tables of all front caches are well formed.\<close>

definition fronts_ok :: "('v, 'w, 'l) multi_manager \<Rightarrow> bool" where
  "fronts_ok s \<longleftrightarrow> (\<forall>f < length (mm_fronts s). table_ok (fc_table (mm_fronts s ! f)))"

lemma fronts_ok_only: "fronts_only s t \<Longrightarrow> fronts_ok s \<Longrightarrow> fronts_ok t"
  by (auto simp: fronts_only_def fronts_ok_def)

lemma fronts_ok_grows: "grows_fronts s t \<Longrightarrow> fronts_ok s \<Longrightarrow> fronts_ok t"
  by (auto simp: grows_fronts_def fronts_ok_def nth_append)

lemma fronts_ok_step: "multi_step V s t \<Longrightarrow> fronts_ok s \<Longrightarrow> fronts_ok t"
proof (induction rule: multi_step.induct)
  case (start c s q t)
  then show ?case using fronts_ok_grows [OF grows_start] by (metis snd_conv)
next
  case (stop s)
  then show ?case using fronts_ok_grows [OF grows_stop] by blast
next
  case (reload c c' s q t)
  then show ?case using fronts_ok_grows [OF grows_reload] by (metis snd_conv)
next
  case (query s req)
  then show ?case using fronts_ok_only [OF begin_process_only] by blast
next
  case (follower s req wire)
  then show ?case using fronts_ok_only [OF resume_follower_only] by blast
next
  case (owner s req key result)
  then show ?case using fronts_ok_only [OF end_process_only] by blast
qed (simp add: fronts_ok_def)

lemma multi_steps_fronts: "multi_steps V multi_init s \<Longrightarrow> fronts_ok s"
proof (induction rule: multi_steps.induct)
  case here
  show ?case by (simp add: fronts_ok_def multi_init_def)
qed (rule fronts_ok_step)

lemma act_try_raise_Inr:
  "act_try m (\<lambda>e. act_bind (act_upd (g e)) (\<lambda>_. act_raise e)) s = (Inr x, t) \<longleftrightarrow> m s = (Inr x, t)"
  by (cases "m s") (auto simp: act_try_def act_simps split: sum.splits)

lemma act_upd_Inr: "act_upd f s = (Inr x, t) \<longleftrightarrow> t = f s"
  by (auto simp: act_upd_def)

lemma reload_retires:
  assumes run: "multi_reload V c c' s = (Inr st, t)" and f: "mm_front s = Some f" and ok: "multi_ok s"
  shows "retired f t \<and> mm_fronts t ! f = mm_fronts s ! f"
proof -
  have "\<exists>config i r w. t = swap_services V config i r w \<and> grows_fronts s w"
  proof -
    from run obtain old new where g: "get_state (mm_runtime s) = Inr old" "c = Inr new"
      by (auto simp: multi_reload_def act_bind_apply act_lift_def split: sum.splits)
    with run obtain r u i v w where
      "on_os (build_resources (me_shared V) (tree_root new)) s = (Inr r, u)"
      "make_pool V new u = (Inr i, v)" "reload_body V c' i v = (Inr st, w)"
      "t = swap_services V (rs_config st) i r w"
      by (auto simp: multi_reload_def act_bind_Inr act_lift_def act_try_raise_Inr act_upd_Inr act_ret_def
          split: if_splits)
    moreover from this have "grows_fronts s u" "grows_fronts u v" "grows_fronts v w"
      using keepsD [OF grows_basic(1)] keepsD [OF grows_basic(4)] keepsD [OF grows_reload_body] by blast+
    ultimately show ?thesis using grows_fronts_trans by blast
  qed
  then obtain config i r w where t: "t = swap_services V config i r w" and w: "grows_fronts s w" by blast
  have "f < length (mm_fronts s)" using ok f by (simp add: multi_ok_def kept_ok_def)
  moreover have "length (mm_fronts s) \<le> length (mm_fronts w)" using w by (auto simp: grows_fronts_def)
  moreover have "mm_front t = Some (length (mm_fronts w))"
    unfolding t by (simp add: swap_services_def new_front_def Let_def)
  ultimately have "mm_front t \<noteq> Some f" by simp
  moreover have "grows_fronts s t" using grows_fronts_trans [OF w grows_swap] t by simp
  ultimately show ?thesis using \<open>f < length (mm_fronts s)\<close> by (auto simp: retired_def grows_fronts_def nth_append)
qed

text \<open>C15: A reload strands the requests that wait in the front cache. An entry that is pending when the
  reload succeeds keeps its event open for ever: the owner completes its key in the new front cache,
  and whatever else happens to the manager, nothing sets the event of the old one.\<close>

theorem reload_strands_followers:
  assumes "multi_steps V multi_init s" and "mm_front s = Some f"
    and "pt_pending (fc_table (mm_fronts s ! f)) key = Some e"
    and "multi_reload V c c' s = (Inr st, t)" and "multi_steps V t u"
  shows "event_outcome (fc_table (mm_fronts u ! f)) e = None"
proof -
  have "multi_ok s" using assms(1) multi_init_ok by (rule multi_steps_ok)
  from reload_retires [OF assms(4,2) this] have "retired f t" "mm_fronts t ! f = mm_fronts s ! f" by simp_all
  with retired_steps [OF assms(5)] have "mm_fronts u ! f = mm_fronts s ! f" by simp
  moreover have "table_ok (fc_table (mm_fronts s ! f))"
    using multi_steps_fronts [OF assms(1)] \<open>multi_ok s\<close> assms(2)
    by (simp add: fronts_ok_def multi_ok_def kept_ok_def)
  ultimately show ?thesis using table_okD(4) [OF _ assms(3)] by simp
qed


section \<open>A concrete run\<close>

definition sample_multi :: "(nat, nat, unit) multi_env" where
  "sample_multi = \<lparr>me_build = sample_build,
     me_shared = \<lparr>se_can_make = (\<lambda>p. True), se_parents = [''/tmp''], se_domain = (\<lambda>r. Inr ()),
       se_payload = (\<lambda>r. Inr [7]), se_memory = (\<lambda>n. Inr ()), se_copy = (\<lambda>p. Inr ())\<rparr>,
     me_cpu = None, me_methods = [''spawn''], me_bind = bound, me_web = (\<lambda>w. Inr ()),
     me_lru = \<lparr>lru_get = (\<lambda>k l. (None, l)), lru_put = (\<lambda>k a l. l)\<rparr>, me_new_lru = (\<lambda>n. ()), me_now = 0\<rparr>"

definition multi_up :: "(nat, nat, unit) multi_manager" where
  "multi_up = snd (multi_start sample_multi (Inr two_listeners) multi_init)"

definition up_resources :: resources where
  "up_resources = \<lparr>sr_dir = ''/tmp/python-smartdns-'' @ dec_str 0, sr_memory = 1, sr_size = 1\<rparr>"

lemma build_up:
  "build_resources (me_shared sample_multi) dirs \<lparr>so_dirs = [], so_memory = [], so_next = 0\<rparr> =
     (Inr up_resources, \<lparr>so_dirs = [''/tmp/python-smartdns-'' @ dec_str 0], so_memory = [1], so_next = 2\<rparr>)"
  by (simp add: build_resources_def make_shared_temp_dir_def fill_memory_def sample_multi_def act_simps
      act_try_def Let_def up_resources_def)

lemma pool_of_two: "fresh_pool sample_multi (multiprocess (runtime two_listeners)) = pool_init 4 2"
  by (simp add: fresh_pool_def two_listeners_def)

lemma make_pool_two: "make_pool sample_multi two_listeners s =
    (Inr (length (mm_pools s)), s\<lparr>mm_pools := mm_pools s @ [pool_init 4 2]\<rparr>)"
  using pool_of_two
  by (simp add: make_pool_def Let_def act_simps resolved_start_method_def two_listeners_def multiprocess_defaults_def
      runtime_defaults_def sample_multi_def)

lemma multi_up_eq:
  "multi_start sample_multi (Inr two_listeners) multi_init = (Inr (), multi_up) \<and>
   multi_up = \<lparr>rn_servers = rn_servers served, rn_webui = True, rn_task_group = True, rn_sockets = [''b'', ''a''],
     mm_runtime = runtime_init []\<lparr>rn_state := Some two_state\<rparr>, mm_pools = [sample_pool], mm_pool = Some 0,
     mm_fronts = [\<lparr>fc_lru = (), fc_table = pt_empty\<rparr>], mm_front = Some 0, mm_resources = Some up_resources,
     mm_os = \<lparr>so_dirs = [''/tmp/python-smartdns-'' @ dec_str 0], so_memory = [1], so_next = 2\<rparr>\<rparr>"
proof -
  have "ensure_state sample_build (Inr two_listeners) (runtime_init []) =
      (Inr two_state, runtime_init []\<lparr>rn_state := Some two_state\<rparr>)"
    using loaded_two by (simp add: ensure_state_def) (simp add: runtime_init_def)
  then have e: "on_runtime (ensure_state (me_build sample_multi) (Inr two_listeners)) multi_init =
      (Inr two_state, (multi_init :: (nat, nat, unit) multi_manager)\<lparr>mm_runtime := runtime_init []\<lparr>rn_state := Some two_state\<rparr>\<rparr>)"
    by (simp add: on_runtime_def multi_init_def sample_multi_def)
  note m = make_pool_two
  have "multi_start sample_multi (Inr two_listeners) multi_init =
    (Inr (), \<lparr>rn_servers = rn_servers served, rn_webui = True, rn_task_group = True, rn_sockets = [''b'', ''a''],
     mm_runtime = runtime_init []\<lparr>rn_state := Some two_state\<rparr>, mm_pools = [sample_pool], mm_pool = Some 0,
     mm_fronts = [\<lparr>fc_lru = (), fc_table = pt_empty\<rparr>], mm_front = Some 0, mm_resources = Some up_resources,
     mm_os = \<lparr>so_dirs = [''/tmp/python-smartdns-'' @ dec_str 0], so_memory = [1], so_next = 2\<rparr>\<rparr>)"
  proof -
    let ?s = "multi_init\<lparr>mm_runtime := runtime_init []\<lparr>rn_state := Some two_state\<rparr>, rn_task_group := True,
      mm_os := \<lparr>so_dirs = [''/tmp/python-smartdns-'' @ dec_str 0], so_memory = [1], so_next = 2\<rparr>,
      mm_resources := Some up_resources\<rparr> :: (nat, nat, unit) multi_manager"
    have idle: "\<not> services_started (multi_init :: (nat, nat, unit) multi_manager)"
      by (simp add: services_started_def multi_init_def)
    have c: "rs_config two_state = two_listeners" by (simp add: two_state_def)
    have os: "mm_os (multi_init :: (nat, nat, unit) multi_manager) = \<lparr>so_dirs = [], so_memory = [], so_next = 0\<rparr>"
      "mm_pools (multi_init :: (nat, nat, unit) multi_manager) = []" "mm_fronts (multi_init :: (nat, nat, unit) multi_manager) = []"
      by (simp_all add: multi_init_def)
    have body: "start_body sample_multi two_listeners ?s = start_services bound (\<lambda>w. Inr ()) two_listeners
        (?s\<lparr>mm_pool := Some 0, mm_pools := [sample_pool], mm_fronts := [\<lparr>fc_lru = (), fc_table = pt_empty\<rparr>],
          mm_front := Some 0\<rparr>)" (is "_ = start_services _ _ _ ?t")
      by (simp add: start_body_def act_bind_apply act_upd_def m os on_pool_def sample_pool_starts new_front_def)
        (simp add: sample_multi_def)
    have "start_services bound (\<lambda>w. Inr ()) two_listeners ?t =
        (Inr (), ?t\<lparr>rn_servers := rn_servers served, rn_webui := True, rn_sockets := [''b'', ''a'']\<rparr>)"
      by (simp add: start_services_def two_listeners_def udp_listener_def bound_def act_bind_apply act_ret_def
        act_upd_def act_lift_def Catalog.sample_config_def served_eq multi_init_def)
    with body idle e have "multi_start sample_multi (Inr two_listeners) multi_init =
        (Inr (), ?t\<lparr>rn_servers := rn_servers served, rn_webui := True, rn_sockets := [''b'', ''a'']\<rparr>)"
      by (simp add: multi_start_def act_bind_apply act_upd_def c on_os_def os build_up act_try_def)
    then show ?thesis by (simp only:) (simp add: multi_init_def)
  qed
  then show ?thesis by (simp add: multi_up_def)
qed

lemmas multi_up_run = multi_up_eq [THEN conjunct1] and multi_up_record = multi_up_eq [THEN conjunct2]

lemma multi_up_steps: "multi_steps sample_multi multi_init multi_up"
  by (rule multi_steps.step [OF multi_steps.here multi_step.start [OF multi_up_run]])
    (simp_all add: not_cancelled_def multi_init_def)


text \<open>A first request for a name becomes an owner, then the configuration is loaded again.\<close>

definition multi_busy :: "(nat, nat, unit) multi_manager" where
  "multi_busy = snd (begin_process sample_multi (hit_message 3 0) multi_up)"

lemma multi_busy_steps: "multi_steps sample_multi multi_init multi_busy"
  unfolding multi_busy_def by (rule multi_steps.step [OF multi_up_steps multi_step.query])

lemma multi_busy_eq: "multi_busy = multi_up\<lparr>mm_fronts := [\<lparr>fc_lru = (),
     fc_table = \<lparr>pt_pending = [sample_key \<mapsto> 0], pt_events = [None]\<rparr>\<rparr>]\<rparr>"
proof -
  have k: "front_key (hit_message 3 0) = Some sample_key"
    by (simp add: front_key_def hit_message_def hit_question_def make_key_def sample_key_def py_lower_def lower_char_def)
  show ?thesis
    by (simp add: multi_busy_def begin_process_def look_step_def on_front_def front_get_response_def k sample_multi_def
        act_simps front_acquire_pending_def acquire_entry_def pt_empty_def multi_up_record)
qed

lemma multi_busy_reload:
  "\<exists>st t. multi_reload sample_multi (Inr two_listeners) (Inr two_listeners) multi_busy = (Inr st, t)"
proof -
  have st: "get_state (mm_runtime multi_busy) = Inr two_state" "rs_config two_state = two_listeners"
    by (simp_all add: multi_busy_eq multi_up_record get_state_def two_state_def)
  obtain r os where r: "build_resources (me_shared sample_multi) (tree_root two_listeners) (mm_os multi_busy) = (Inr r, os)"
    by (simp add: build_resources_def make_shared_temp_dir_def fill_memory_def sample_multi_def act_simps act_try_def Let_def)
  have "runtime_reload sample_build (Inr two_listeners) (mm_runtime multi_busy) =
      (Inr two_state, mm_runtime multi_busy\<lparr>rn_state := Some two_state\<rparr>)"
    by (simp add: runtime_reload_cases multi_busy_eq multi_up_record build_two runtime_init_def services_started_def)
  then have "reload_body sample_multi (Inr two_listeners) 1 (multi_busy\<lparr>mm_os := os, mm_pools := [sample_pool, pool_init 4 2]\<rparr>) =
      (Inr two_state, multi_busy\<lparr>mm_os := os, mm_pools := [sample_pool, sample_pool],
         mm_runtime := mm_runtime multi_busy\<lparr>rn_state := Some two_state\<rparr>\<rparr>)"
    by (simp add: reload_body_def act_bind_apply on_pool_def sample_pool_starts on_runtime_def)
      (simp add: multi_busy_eq multi_up_record sample_multi_def)
  moreover have "mm_pools multi_busy = [sample_pool]" by (simp add: multi_busy_eq multi_up_record)
  ultimately show ?thesis
    using st r
    by (simp add: multi_reload_def act_bind_apply act_lift_def on_os_def make_pool_two act_try_def act_upd_def act_ret_def)
qed

theorem reload_strands_followers_witness:
  "\<exists>st t. multi_reload sample_multi (Inr two_listeners) (Inr two_listeners) multi_busy = (Inr st, t) \<and>
     event_outcome (fc_table (mm_fronts (snd (end_process sample_multi (hit_message 3 0) (Some sample_key)
       (Inr None) t)) ! 0)) 0 = None"
proof -
  obtain st t where t: "multi_reload sample_multi (Inr two_listeners) (Inr two_listeners) multi_busy = (Inr st, t)"
    using multi_busy_reload by blast
  have "multi_steps sample_multi t (snd (end_process sample_multi (hit_message 3 0) (Some sample_key) (Inr None) t))"
    by (rule multi_steps.step [OF multi_steps.here multi_step.owner])
  from reload_strands_followers [OF multi_busy_steps _ _ t this, of 0 sample_key 0] t
  show ?thesis by (simp add: multi_busy_eq multi_up_record)
qed


end
