(* ===== verification/Speedtest.thy ===== *)
theory Speedtest
  imports Block_Plugin "HOL-Library.Product_Lexorder"
begin

text \<open>
  \<open>plugins/speedtest_plugin\<close>: the addresses of A and AAAA answers are probed, and the response keeps
  the fastest. Times are real numbers or infinite (\<open>float("inf")\<close>, an address that is not probed);
  the difference of two infinite times is not a number, and no comparison with it holds.
\<close>

section \<open>Times\<close>

datatype rtt = Ms real | InfMs

instantiation rtt :: linorder
begin

fun less_eq_rtt :: "rtt \<Rightarrow> rtt \<Rightarrow> bool" where
  "less_eq_rtt (Ms a) (Ms b) = (a \<le> b)"
| "less_eq_rtt (Ms a) InfMs = True"
| "less_eq_rtt InfMs (Ms b) = False"
| "less_eq_rtt InfMs InfMs = True"

definition less_rtt :: "rtt \<Rightarrow> rtt \<Rightarrow> bool" where
  "less_rtt x y \<longleftrightarrow> x \<le> y \<and> \<not> y \<le> x"

instance
proof
  fix x y z :: rtt
  show "(x < y) = (x \<le> y \<and> \<not> y \<le> x)" by (rule less_rtt_def)
  show "x \<le> x" by (cases x) auto
  show "x \<le> y \<Longrightarrow> y \<le> z \<Longrightarrow> x \<le> z" by (cases x; cases y; cases z) auto
  show "x \<le> y \<Longrightarrow> y \<le> x \<Longrightarrow> x = y" by (cases x; cases y) auto
  show "x \<le> y \<or> y \<le> x" by (cases x; cases y) auto
qed

end

text \<open>\<open>b - best <= tolerance\<close> and \<open>b - previous > threshold\<close>\<close>

fun rtt_within :: "real \<Rightarrow> rtt \<Rightarrow> rtt \<Rightarrow> bool" where
  "rtt_within tolerance (Ms b) (Ms best) = (b - best \<le> tolerance)"
| "rtt_within tolerance (Ms b) InfMs = True"
| "rtt_within tolerance InfMs _ = False"

fun rtt_gap_over :: "real \<Rightarrow> rtt \<Rightarrow> rtt \<Rightarrow> bool" where
  "rtt_gap_over threshold (Ms b) (Ms previous) = (b - previous > threshold)"
| "rtt_gap_over threshold InfMs (Ms previous) = True"
| "rtt_gap_over threshold _ InfMs = False"

section \<open>\<open>models.py\<close>\<close>

record ip_rtt =
  ir_ip :: string
  ir_ping :: "rtt option"
  ir_tcp80 :: "rtt option"
  ir_tcp443 :: "rtt option"
  ir_best :: "rtt option"

record speedtest_context =
  st_results :: "ip_rtt list"
  st_seen :: "string set"

definition reserve_ips :: "string list \<Rightarrow> speedtest_context \<Rightarrow> string list \<times> speedtest_context" where
  "reserve_ips ips s =
     (let ordered_ips = dedup {} ips; new_ip_set = set ordered_ips - st_seen s in
      (filter (\<lambda>ip. ip \<in> new_ip_set) ordered_ips, s\<lparr>st_seen := st_seen s \<union> new_ip_set\<rparr>))"

definition add_results :: "ip_rtt list \<Rightarrow> speedtest_context \<Rightarrow> speedtest_context" where
  "add_results rs s = s\<lparr>st_results := st_results s @ rs\<rparr>"

section \<open>\<open>service.py\<close>\<close>

datatype probe = Ping | Tcp80 | Tcp443

definition probe_result :: "string \<Rightarrow> probe \<Rightarrow> rtt \<Rightarrow> ip_rtt" where
  "probe_result ip k r = \<lparr>ir_ip = ip, ir_ping = (if k = Ping then Some r else None),
     ir_tcp80 = (if k = Tcp80 then Some r else None), ir_tcp443 = (if k = Tcp443 then Some r else None),
     ir_best = Some r\<rparr>"

text \<open>
  \<open>_measure_ip_uncached\<close> on the probes in the order they are done: the first that has a time counts,
  the rest are cancelled.
\<close>

fun measure_ip_uncached :: "string \<Rightarrow> (probe \<times> rtt option) list \<Rightarrow> ip_rtt" where
  "measure_ip_uncached ip [] = \<lparr>ir_ip = ip, ir_ping = None, ir_tcp80 = None, ir_tcp443 = None, ir_best = None\<rparr>"
| "measure_ip_uncached ip ((k, r) # rest) =
     (case r of Some t \<Rightarrow> probe_result ip k t | None \<Rightarrow> measure_ip_uncached ip rest)"

text \<open>What \<open>async_ping\<close> gives: whether the host is alive, the times, and their average.\<close>

record ping_host =
  ph_alive :: bool
  ph_rtts :: "real list"
  ph_avg :: "real option"

definition probe_icmp :: "ping_host res \<Rightarrow> real \<Rightarrow> rtt option res" where
  "probe_icmp host elapsed_ms = (case host of
     Inl e \<Rightarrow> if is_Exception e then Inr None else Inl e
   | Inr h \<Rightarrow> Inr (if \<not> ph_alive h \<or> ph_rtts h = [] then None
        else Some (Ms (case ph_avg h of Some a \<Rightarrow> a | None \<Rightarrow> elapsed_ms))))"

datatype socket_family = AF_INET | AF_INET6

definition build_socket_target :: "bool \<Rightarrow> string \<Rightarrow> nat \<Rightarrow> (socket_family \<times> string \<times> nat) res" where
  "build_socket_target has_ipv6 ip port =
     andthen (ip_address ip) (\<lambda>parsed.
     if ip_version parsed = 4 then Inr (AF_INET, ip, port)
     else if \<not> has_ipv6 then Inl (ValueError ''no IPv6'')
     else Inr (AF_INET6, ip, port))"

text \<open>The connection: made, refused, or ended by an exception.\<close>

datatype connect_outcome = Connected | Refused | Broken py_exn

fun is_value_error :: "py_exn \<Rightarrow> bool" where
  "is_value_error (ValueError _) = True"
| "is_value_error _ = False"

definition probe_tcp :: "bool \<Rightarrow> string \<Rightarrow> nat \<Rightarrow> connect_outcome \<Rightarrow> real \<Rightarrow> rtt option res" where
  "probe_tcp has_ipv6 ip port outcome elapsed_ms =
     (case build_socket_target has_ipv6 ip port of
        Inl e \<Rightarrow> if is_value_error e then Inr None else Inl e
      | Inr target \<Rightarrow> (case outcome of
            Connected \<Rightarrow> Inr (Some (Ms elapsed_ms))
          | Refused \<Rightarrow> Inr (Some (Ms elapsed_ms))
          | Broken e \<Rightarrow> if is_Exception e then Inr None else Inl e))"

section \<open>Configuration\<close>

record fallback_rule =
  fr_match_tags :: "string list"
  fr_exclude_tags :: "string list"
  fr_ipv4 :: "string list"
  fr_ipv6 :: "string list"

text \<open>The validators of \<open>SpeedTestFallbackRuleConfig\<close> on the fields as they are given.\<close>

record raw_fallback_rule =
  rf_match_tags :: "string list option option"
  rf_exclude_tags :: "string list option option"
  rf_ipv4 :: "string list option option"
  rf_ipv6 :: "string list option option"

definition make_fallback_rule :: "raw_fallback_rule \<Rightarrow> fallback_rule res" where
  "make_fallback_rule raw =
     (let match_tags = normalize_tag_list (given (rf_match_tags raw)) in
      andthen (raise_if (rf_match_tags raw \<noteq> None \<and> match_tags = []) (ValueError ''match_tags'')) (\<lambda>_.
      andthen (normalize_addresses (given (rf_ipv4 raw)) 4) (\<lambda>ipv4.
      andthen (normalize_addresses (given (rf_ipv6 raw)) 6) (\<lambda>ipv6.
      andthen (raise_if (ipv4 = [] \<and> ipv6 = []) (ValueError ''no address'')) (\<lambda>_.
      Inr \<lparr>fr_match_tags = match_tags, fr_exclude_tags = normalize_tag_list (given (rf_exclude_tags raw)),
           fr_ipv4 = ipv4, fr_ipv6 = ipv6\<rparr>)))))"

record speedtest_config =
  sc_limit :: nat
  sc_ttl :: nat
  sc_tolerance :: real
  sc_gap :: real
  sc_skip_tags :: "string list"
  sc_no_speedtest_tags :: "string list"
  sc_fallback :: "fallback_rule list"

definition speedtest_config_ok :: "speedtest_config \<Rightarrow> bool" where
  "speedtest_config_ok cfg \<longleftrightarrow> 1 \<le> sc_limit cfg \<and> 1 \<le> sc_ttl cfg \<and> 0 \<le> sc_tolerance cfg \<and> 0 \<le> sc_gap cfg"

section \<open>\<open>plugin.py\<close>\<close>

subsection \<open>Addresses\<close>

fun unique_addresses :: "string set \<Rightarrow> rdata list \<Rightarrow> string list" where
  "unique_addresses seen [] = []"
| "unique_addresses seen (record # rest) = (case rd_address record of
     None \<Rightarrow> unique_addresses seen rest
   | Some address \<Rightarrow> if address \<in> seen then unique_addresses seen rest
       else address # unique_addresses (insert address seen) rest)"

definition extract_unique_ips :: "answer \<Rightarrow> string list" where
  "extract_unique_ips a =
     (if a_type a \<notin> set address_types then []
      else case a_rrset a of None \<Rightarrow> [] | Some rr \<Rightarrow> unique_addresses {} (rr_items rr))"

definition make_inf_results :: "string list \<Rightarrow> ip_rtt list" where
  "make_inf_results ips = map (\<lambda>ip. \<lparr>ir_ip = ip, ir_ping = None, ir_tcp80 = None, ir_tcp443 = None,
     ir_best = Some InfMs\<rparr>) ips"

text \<open>\<open>_measure_new_ips\<close>; a measurement that raises gives no result.\<close>

definition measured_ok :: "(string \<Rightarrow> ip_rtt res) \<Rightarrow> string list \<Rightarrow> ip_rtt list" where
  "measured_ok probe_ip ips = concat (map (\<lambda>ip. case probe_ip ip of Inr r \<Rightarrow> [r] | Inl _ \<Rightarrow> []) ips)"

definition measure_new_ips ::
  "(string \<Rightarrow> ip_rtt res) option \<Rightarrow> string list \<Rightarrow> speedtest_context \<Rightarrow> speedtest_context" where
  "measure_new_ips service ips s = (case service of None \<Rightarrow> s
     | Some probe_ip \<Rightarrow>
         if ips = [] then s
         else case reserve_ips ips s of (candidate_ips, s1) \<Rightarrow>
           if candidate_ips = [] then s1 else add_results (measured_ok probe_ip candidate_ips) s1)"

subsection \<open>Hooks\<close>

definition speedtest_on_upstream_response ::
  "speedtest_config \<Rightarrow> (string \<Rightarrow> ip_rtt res) option \<Rightarrow> ('w, speedtest_context) part \<Rightarrow> nat \<Rightarrow> ('w, unit) ctx_act" where
  "speedtest_on_upstream_response cfg service pt r = with_question (\<lambda>q c.
     if q_type q \<notin> set address_types then (Inr (), c)
     else case (service, res_answer (result_at r c)) of
       (Some probe_ip, Some a) \<Rightarrow>
         if has_any_tag (tags c) (sc_skip_tags cfg) then (Inr (), c)
         else let response_ips = extract_unique_ips (answer_at a c) in
           if has_any_tag (res_tags (result_at r c)) (sc_no_speedtest_tags cfg)
           then on_part pt (act_upd (\<lambda>s. if response_ips = [] then s
                  else add_results (make_inf_results response_ips) (snd (reserve_ips response_ips s)))) c
           else on_part pt (act_upd (measure_new_ips service response_ips)) c
     | _ \<Rightarrow> (Inr (), c))"

text \<open>
  \<open>_collect_candidate_ips\<close>: the addresses of the answer, then those of the collected results by
  duration and name; with the results marked infinite.
\<close>

fun add_answer_ips :: "bool \<Rightarrow> string list \<Rightarrow> string list \<times> ip_rtt list \<Rightarrow> string list \<times> ip_rtt list" where
  "add_answer_ips mark_inf [] acc = acc"
| "add_answer_ips mark_inf (ip # rest) (candidates, infs) =
     (if ip \<in> set candidates then add_answer_ips mark_inf rest (candidates, infs)
      else add_answer_ips mark_inf rest
        (candidates @ [ip], if mark_inf then infs @ make_inf_results [ip] else infs))"

definition answer_ips_of :: "'w ctx \<Rightarrow> upstream_result \<Rightarrow> string list" where
  "answer_ips_of c r = (case res_answer r of None \<Rightarrow> [] | Some a \<Rightarrow> extract_unique_ips (answer_at a c))"

definition collect_candidate_ips :: "speedtest_config \<Rightarrow> 'w ctx \<Rightarrow> answer \<Rightarrow> string list \<times> ip_rtt list" where
  "collect_candidate_ips cfg c a =
     (let own = add_answer_ips False (extract_unique_ips a) ([], []) in
      if upstream_results c = [] then own
      else fold (\<lambda>r. add_answer_ips (has_any_tag (res_tags r) (sc_no_speedtest_tags cfg)) (answer_ips_of c r))
             (sort_key (\<lambda>r. (duration_ms r, upstream_name r))
                (map (\<lambda>i. result_at i c) (collected_results (result_at (last (upstream_results c)) c)))) own)"

text \<open>The results of the candidates, the last of each address, in the order of the dictionary.\<close>

definition measured_results :: "ip_rtt list \<Rightarrow> string list \<Rightarrow> (string \<times> ip_rtt) list" where
  "measured_results rs candidates = fold (\<lambda>item d.
     if ir_best item \<noteq> None \<and> ir_ip item \<in> set candidates then dict_set (ir_ip item) item d else d) rs []"

definition position :: "'a \<Rightarrow> 'a list \<Rightarrow> nat" where
  "position x xs = length (takeWhile (\<lambda>y. y \<noteq> x) xs)"

definition best_or_inf :: "ip_rtt \<Rightarrow> rtt" where
  "best_or_inf item = (case ir_best item of None \<Rightarrow> InfMs | Some b \<Rightarrow> b)"

fun tolerance_loop :: "real \<Rightarrow> rtt option \<Rightarrow> ip_rtt list \<Rightarrow> ip_rtt list" where
  "tolerance_loop tolerance best [] = []"
| "tolerance_loop tolerance best (item # rest) = (case ir_best item of
     None \<Rightarrow> tolerance_loop tolerance best rest
   | Some b \<Rightarrow> let best_ms = (case best of None \<Rightarrow> b | Some x \<Rightarrow> x) in
       if rtt_within tolerance b best_ms then item # tolerance_loop tolerance (Some best_ms) rest else [])"

fun gap_over :: "real \<Rightarrow> ip_rtt \<Rightarrow> ip_rtt \<Rightarrow> bool" where
  "gap_over threshold item previous = (case (ir_best item, ir_best previous) of
     (Some b, Some p) \<Rightarrow> rtt_gap_over threshold b p | _ \<Rightarrow> False)"

fun gap_loop :: "real \<Rightarrow> ip_rtt option \<Rightarrow> ip_rtt list \<Rightarrow> ip_rtt list" where
  "gap_loop threshold previous [] = []"
| "gap_loop threshold previous (item # rest) =
     (case previous of
        Some p \<Rightarrow> if gap_over threshold item p then [] else item # gap_loop threshold (Some item) rest
      | None \<Rightarrow> item # gap_loop threshold (Some item) rest)"

definition select_ips :: "speedtest_config \<Rightarrow> string list \<Rightarrow> ip_rtt list \<Rightarrow> string list" where
  "select_ips cfg candidates measured =
     (let sorted_items = sort_key (\<lambda>item. (best_or_inf item, position (ir_ip item) candidates)) measured;
          filtered = tolerance_loop (sc_tolerance cfg) None sorted_items;
          filtered_items = (if filtered = [] then sorted_items else filtered);
          truncated_items = gap_loop (sc_gap cfg) None filtered_items
      in take (sc_limit cfg) (map ir_ip truncated_items))"

fun select_fallback_ips :: "fallback_rule list \<Rightarrow> string set \<Rightarrow> nat \<Rightarrow> string list" where
  "select_fallback_ips [] ts rdtype = []"
| "select_fallback_ips (rule # rest) ts rdtype =
     (if has_any_tag ts (fr_exclude_tags rule) then select_fallback_ips rest ts rdtype
      else if \<not> has_any_tag ts (fr_match_tags rule) then select_fallback_ips rest ts rdtype
      else let ips = (if rdtype = RT_A then fr_ipv4 rule else fr_ipv6 rule) in
        if ips \<noteq> [] then ips else select_fallback_ips rest ts rdtype)"

definition replace_answer_ips :: "dnslib \<Rightarrow> real \<Rightarrow> speedtest_config \<Rightarrow> string list \<Rightarrow> (answer, unit) act" where
  "replace_answer_ips L now cfg ips = (\<lambda>a.
     let (name, ttl) = (case a_rrset a of None \<Rightarrow> (a_canonical a, sc_ttl cfg)
            | Some rr \<Rightarrow> (rr_name rr, max (rr_ttl rr) (sc_ttl cfg))) in
     case rrset_from_texts L name ttl (a_class a) (a_type a) ips of
       Inl e \<Rightarrow> (Inl e, a)
     | Inr rr \<Rightarrow>
         (case sync_answer_rrset_to_response (a\<lparr>a_rrset := Some rr\<rparr>) of
            Inl e \<Rightarrow> (Inl e, a\<lparr>a_rrset := Some rr\<rparr>)
          | Inr a' \<Rightarrow> (Inr (), a'\<lparr>a_expiration := now + real ttl\<rparr>)))"

definition apply_measured ::
  "dnslib \<Rightarrow> real \<Rightarrow> speedtest_config \<Rightarrow> ('w, speedtest_context) part \<Rightarrow> nat \<Rightarrow> string list \<Rightarrow> string list \<Rightarrow> ('w, unit) ctx_act" where
  "apply_measured L now cfg pt i current_ips candidate_ips = (\<lambda>c.
     let measured = map snd (measured_results (st_results (part_get pt (world c))) candidate_ips) in
     if measured \<noteq> [] then
       let sorted_ips = select_ips cfg candidate_ips measured in
       if sorted_ips \<noteq> current_ips then on_answer i (replace_answer_ips L now cfg sorted_ips) c else (Inr (), c)
     else
       let fallback_ips = select_fallback_ips (sc_fallback cfg) (tags c) (a_type (answer_at i c)) in
       if fallback_ips \<noteq> [] then on_answer i (replace_answer_ips L now cfg fallback_ips) c else (Inr (), c))"

definition speedtest_on_response ::
  "dnslib \<Rightarrow> real \<Rightarrow> speedtest_config \<Rightarrow> (string \<Rightarrow> ip_rtt res) option \<Rightarrow> ('w, speedtest_context) part \<Rightarrow> ('w, unit) ctx_act" where
  "speedtest_on_response L now cfg service pt = with_question (\<lambda>q c.
     if q_type q \<notin> set address_types then (Inr (), c)
     else if has_any_tag (tags c) (sc_skip_tags cfg) then (Inr (), c)
     else case final_answer c of None \<Rightarrow> (Inr (), c)
     | Some i \<Rightarrow>
         let a = answer_at i c in
         if a_type a \<in> set address_types \<and> msg_rcode (a_response a) = NOERROR then
           (case collect_candidate_ips cfg c a of (candidate_ips, infs) \<Rightarrow>
              act_bind (on_part pt (act_upd (\<lambda>s.
                 let s1 = (if infs = [] then s else add_results infs s) in
                 if candidate_ips = [] then s1 else measure_new_ips service candidate_ips s1)))
              (\<lambda>_. apply_measured L now cfg pt i (extract_unique_ips a) candidate_ips) c)
         else (Inr (), c))"

text \<open>\<open>setup\<close>: the service and the factory of the contexts are registered.\<close>

definition speedtest_setup ::
  "'v \<Rightarrow> (unit \<Rightarrow> 'v) \<Rightarrow> ('v, 'm) plugin_registry \<Rightarrow> ('v, 'm) plugin_registry res" where
  "speedtest_setup service mk_context reg =
     andthen (register_context ''speedtest.service'' service reg)
       (register_context_factory ''speedtest.context'' mk_context)"

definition speedtest_plugin ::
  "dnslib \<Rightarrow> real \<Rightarrow> speedtest_config \<Rightarrow> (string \<Rightarrow> ip_rtt res) option \<Rightarrow> ('w, speedtest_context) part \<Rightarrow> 'w plugin" where
  "speedtest_plugin L now cfg service pt = (plugin_base ''speedtest-plugin'')\<lparr>
     upstream_response_order := 200, response_order := 600,
     on_upstream_response := speedtest_on_upstream_response cfg service pt,
     on_response := speedtest_on_response L now cfg service pt\<rparr>"

section \<open>Selection\<close>

lemma make_fallback_rule_ok:
  assumes "make_fallback_rule raw = Inr rule"
  shows "(fr_ipv4 rule \<noteq> [] \<or> fr_ipv6 rule \<noteq> []) \<and> distinct (fr_ipv4 rule) \<and> distinct (fr_ipv6 rule)"
  using assms normalize_addresses_loop_ok
  by (fastforce simp: make_fallback_rule_def Let_def res_simps normalize_addresses_def split: option.splits)

text \<open>Reservations: an address is given to one measurement only.\<close>

lemma reserve_ips_new:
  assumes "reserve_ips ips s = (out, s')"
  shows "distinct out \<and> set out = set ips - st_seen s \<and> st_seen s' = st_seen s \<union> set ips \<and> st_results s' = st_results s"
  using assms by (auto simp: reserve_ips_def Let_def distinct_dedup)

fun reserve_all :: "string list list \<Rightarrow> speedtest_context \<Rightarrow> string list list \<times> speedtest_context" where
  "reserve_all [] s = ([], s)"
| "reserve_all (ips # rest) s = (case reserve_ips ips s of (out, s1) \<Rightarrow>
     case reserve_all rest s1 of (outs, s2) \<Rightarrow> (out # outs, s2))"

lemma reserve_all_new:
  "reserve_all batches s = (outs, s') \<Longrightarrow>
     distinct (concat outs) \<and> set (concat outs) = \<Union> (set ` set batches) - st_seen s"
proof (induction batches arbitrary: s outs s')
  case (Cons ips rest)
  obtain out s1 where o1: "reserve_ips ips s = (out, s1)" by (cases "reserve_ips ips s")
  obtain outs2 s2 where o2: "reserve_all rest s1 = (outs2, s2)" by (cases "reserve_all rest s1")
  with Cons.prems o1 have outs: "outs = out # outs2" by simp
  note a = reserve_ips_new [OF o1] and b = Cons.IH [OF o2]
  then show ?case using outs by auto
qed simp

text \<open>The dictionary of the measured addresses.\<close>

lemma measured_results_spec:
  "distinct (map fst (measured_results rs cands)) \<and>
   (\<forall>(ip, item) \<in> set (measured_results rs cands). ir_ip item = ip \<and> ip \<in> set cands \<and> ir_best item \<noteq> None) \<and>
   fst ` set (measured_results rs cands) = {ir_ip r | r. r \<in> set rs \<and> ir_best r \<noteq> None \<and> ir_ip r \<in> set cands}"
proof -
  define step where "step = (\<lambda>(item :: ip_rtt) d. if ir_best item \<noteq> None \<and> ir_ip item \<in> set cands
     then dict_set (ir_ip item) item d else d)"
  have set_dict: "set (dict_set k v d) \<subseteq> insert (k, v) (set d)" for k and v :: ip_rtt and d
    by (induction k v d rule: dict_set.induct) auto
  have "distinct (map fst (fold step rs d)) \<and>
     (\<forall>(ip, item) \<in> set (fold step rs d). ir_ip item = ip \<and> ip \<in> set cands \<and> ir_best item \<noteq> None) \<and>
     fst ` set (fold step rs d) = fst ` set d \<union> {ir_ip r | r. r \<in> set rs \<and> ir_best r \<noteq> None \<and> ir_ip r \<in> set cands}"
    if "distinct (map fst d)" "\<forall>(ip, item) \<in> set d. ir_ip item = ip \<and> ip \<in> set cands \<and> ir_best item \<noteq> None" for d
    using that
  proof (induction rs arbitrary: d)
    case (Cons r rs)
    have "distinct (map fst (step r d))" using Cons.prems(1) by (simp add: step_def distinct_dict_set)
    moreover have "\<forall>(ip, item) \<in> set (step r d). ir_ip item = ip \<and> ip \<in> set cands \<and> ir_best item \<noteq> None"
    proof (cases "ir_best r \<noteq> None \<and> ir_ip r \<in> set cands")
      case True
      then have "set (step r d) \<subseteq> insert (ir_ip r, r) (set d)" using set_dict by (simp add: step_def)
      moreover have "\<forall>(ip, item) \<in> insert (ir_ip r, r) (set d). ir_ip item = ip \<and> ip \<in> set cands \<and> ir_best item \<noteq> None"
        using Cons.prems(2) True by simp
      ultimately show ?thesis by blast
    qed (use Cons.prems(2) in \<open>auto simp: step_def\<close>)
    moreover have "fst ` set (step r d) = fst ` set d \<union>
        (if ir_best r \<noteq> None \<and> ir_ip r \<in> set cands then {ir_ip r} else {})"
      by (simp add: step_def keys_dict_set)
    ultimately show ?case using Cons.IH [of "step r d"] by (auto split: if_splits)
  qed simp
  from this [of "[]"] show ?thesis by (simp add: measured_results_def step_def)
qed

lemma tolerance_loop_best:
  assumes "\<forall>x \<in> set items. ir_best x \<noteq> None"
  shows "prefix (tolerance_loop t best items) items \<and>
     (\<forall>x \<in> set (tolerance_loop t (Some b) items). rtt_within t (best_or_inf x) b)"
  using assms
proof (induction items arbitrary: best)
  case (Cons x items)
  then obtain r where "ir_best x = Some r" by auto
  with Cons show ?case by (auto simp: Let_def best_or_inf_def)
qed simp

lemma gap_loop_prefix: "prefix (gap_loop g p items) items"
  by (induction g p items rule: gap_loop.induct) (auto split: option.splits)

lemma gap_loop_consecutive:
  "\<forall>x \<in> set items. ir_best x \<noteq> None \<Longrightarrow> successively (\<lambda>x y. \<not> gap_over g y x) (gap_loop g p items) \<and>
     (\<forall>q y ys. p = Some q \<longrightarrow> gap_loop g p items = y # ys \<longrightarrow> \<not> gap_over g y q)"
proof (induction g p items rule: gap_loop.induct)
  case (2 g p item rest)
  have "successively (\<lambda>x y. \<not> gap_over g y x) (item # gap_loop g (Some item) rest)"
    if "successively (\<lambda>x y. \<not> gap_over g y x) (gap_loop g (Some item) rest) \<and>
      (\<forall>q y ys. Some item = Some q \<longrightarrow> gap_loop g (Some item) rest = y # ys \<longrightarrow> \<not> gap_over g y q)"
    using that by (cases "gap_loop g (Some item) rest") auto
  with 2 show ?case by (auto split: option.splits simp del: gap_over.simps)
qed simp

lemma successively_prefix: "prefix xs ys \<Longrightarrow> successively P ys \<Longrightarrow> successively P xs"
  by (auto simp: prefix_def successively_append_iff)

lemma select_ips_prefix:
  assumes "\<forall>x \<in> set measured. ir_best x \<noteq> None" and "measured \<noteq> []" and ok: "speedtest_config_ok cfg"
    and ordered_def: "ordered = sort_key (\<lambda>item. (best_or_inf item, position (ir_ip item) candidates)) measured"
  shows "\<exists>items. prefix items ordered \<and> items \<noteq> [] \<and> length items \<le> sc_limit cfg \<and>
     select_ips cfg candidates measured = map ir_ip items \<and>
     (best_or_inf (hd ordered) \<noteq> InfMs \<longrightarrow>
        (\<forall>x \<in> set items. rtt_within (sc_tolerance cfg) (best_or_inf x) (best_or_inf (hd ordered)))) \<and>
     successively (\<lambda>x y. \<not> gap_over (sc_gap cfg) y x) items"
proof -
  have best: "\<forall>x \<in> set ordered. ir_best x \<noteq> None" using assms(1) by (simp add: ordered_def)
  have "ordered \<noteq> []" unfolding ordered_def using assms(2) by (metis set_empty2 set_sort)
  then obtain m rest where s: "ordered = m # rest" by (cases ordered) auto
  then obtain b where b: "ir_best m = Some b" using best by auto
  let ?filtered = "tolerance_loop (sc_tolerance cfg) None ordered"
  let ?items = "if ?filtered = [] then ordered else ?filtered"
  have tol: "0 \<le> sc_tolerance cfg" using ok by (simp add: speedtest_config_ok_def)
  have f: "?filtered = (if rtt_within (sc_tolerance cfg) b b
      then m # tolerance_loop (sc_tolerance cfg) (Some b) rest else [])"
    using s b by (simp add: Let_def)
  have "prefix ?filtered ordered" using tolerance_loop_best [OF best] by blast
  then have p: "prefix ?items ordered" and ne: "?items \<noteq> []" using s by auto
  have within: "rtt_within (sc_tolerance cfg) (best_or_inf x) b" if "x \<in> set ?items" "b \<noteq> InfMs" for x
  proof (cases b)
    case (Ms r)
    then have w: "rtt_within (sc_tolerance cfg) b b" using tol by simp
    have "\<forall>y \<in> set rest. ir_best y \<noteq> None" using best s by simp
    with tolerance_loop_best have "\<forall>y \<in> set (tolerance_loop (sc_tolerance cfg) (Some b) rest).
        rtt_within (sc_tolerance cfg) (best_or_inf y) b" by blast
    with that(1) f w b show ?thesis by (auto simp: best_or_inf_def)
  qed (use that in simp)
  let ?g = "gap_loop (sc_gap cfg) None ?items"
  have gp: "prefix ?g ?items" by (rule gap_loop_prefix)
  have gne: "?g \<noteq> []" using ne by (cases ?items) auto
  have bi: "\<forall>x \<in> set ?items. ir_best x \<noteq> None" using best p set_mono_prefix by blast
  let ?t = "take (sc_limit cfg) ?g"
  have tp: "prefix ?t ?g" by (rule take_is_prefix)
  have "?t \<noteq> []" using gne ok by (simp add: speedtest_config_ok_def)
  moreover have "prefix ?t ordered" using tp gp p by (meson prefix_order.order_trans)
  moreover have "successively (\<lambda>x y. \<not> gap_over (sc_gap cfg) y x) ?t"
  proof -
    have "successively (\<lambda>x y. \<not> gap_over (sc_gap cfg) y x) ?g" using gap_loop_consecutive [OF bi] by blast
    with tp show ?thesis by (rule successively_prefix)
  qed
  moreover have "\<forall>x \<in> set ?t. b \<noteq> InfMs \<longrightarrow> rtt_within (sc_tolerance cfg) (best_or_inf x) b"
    using within tp gp set_mono_prefix by blast
  moreover have "select_ips cfg candidates measured = map ir_ip ?t"
    by (simp add: select_ips_def Let_def ordered_def take_map)
  moreover have "best_or_inf (hd ordered) = b" using s b by (simp add: best_or_inf_def)
  ultimately show ?thesis by (intro exI [of _ ?t]) auto
qed

lemma prefix_of_sorted:
  assumes "prefix items (sort_key f xs)" and "x \<in> set items" and "y \<in> set xs" and "y \<notin> set items"
  shows "f x \<le> f y"
proof -
  obtain rest where s: "sort_key f xs = items @ rest" using assms(1) by (auto simp: prefix_def)
  have "y \<in> set rest" using assms(3,4) s by (metis Un_iff set_append set_sort)
  moreover have "sorted (map f (items @ rest))" unfolding s [symmetric] by (rule sorted_sort_key)
  ultimately show ?thesis using assms(2) by (auto simp: sorted_append)
qed

lemma hd_of_sorted:
  assumes "x \<in> set xs" shows "f (hd (sort_key f xs)) \<le> f x"
proof (cases "sort_key f xs")
  case Nil
  then have "set xs = {}" by (metis set_empty2 set_sort)
  with assms show ?thesis by simp
next
  case (Cons m rest)
  have "x \<in> set (m # rest)" using assms Cons by (metis set_sort)
  moreover have "sorted (map f (m # rest))" unfolding Cons [symmetric] by (rule sorted_sort_key)
  ultimately show ?thesis using Cons by auto
qed

lemma unique_addresses_distinct:
  "distinct ips \<Longrightarrow> set ips \<inter> seen = {} \<Longrightarrow> unique_addresses seen (map AddressData ips) = ips"
  by (induction ips arbitrary: seen) auto

lemma replace_answer_ips_extract:
  assumes "replace_answer_ips L now cfg ips a = (Inr (), a')" and "address_texts_ok L"
    and "a_type a \<in> set address_types" and "a_class a = IN" and "distinct ips"
  shows "extract_unique_ips a' = ips"
proof -
  obtain name ttl rr b where rr: "rrset_from_texts L name ttl IN (a_type a) ips = Inr rr"
    and b: "sync_answer_rrset_to_response (a\<lparr>a_rrset := Some rr\<rparr>) = Inr b" and a': "a' = b\<lparr>a_expiration := now + real ttl\<rparr>"
    using assms(1,4) by (auto simp: replace_answer_ips_def Let_def split: prod.splits sum.splits option.splits)
  have "rr = \<lparr>rr_name = name, rr_ttl = ttl, rr_class = IN, rr_type = a_type a, rr_items = map AddressData ips\<rparr>"
    using assms(2,3) rr by (auto simp: address_texts_ok_def address_types_def)
  moreover have "a_type b = a_type a" "a_rrset b = Some rr"
    using b by (auto simp: sync_answer_rrset_to_response_def Let_def split: if_splits)
  ultimately show ?thesis
    using a' assms(3,5) by (simp add: extract_unique_ips_def unique_addresses_distinct)
qed

lemma rtt_within_mono: "rtt_within t x y \<Longrightarrow> y \<le> z \<Longrightarrow> rtt_within t x z"
  by (cases x; cases y; cases z) auto

text \<open>What is selected: some of the fastest, all within the tolerance of every measured address.\<close>

lemma select_ips_fastest:
  assumes "measured = map snd (measured_results rs candidates)" and "measured \<noteq> []" and "speedtest_config_ok cfg"
  shows "\<exists>items. select_ips cfg candidates measured = map ir_ip items \<and> items \<noteq> [] \<and>
     length items \<le> sc_limit cfg \<and> distinct (map ir_ip items) \<and> set items \<subseteq> set measured \<and>
     (\<forall>x \<in> set items. \<forall>y \<in> set measured. y \<notin> set items \<longrightarrow> best_or_inf x \<le> best_or_inf y) \<and>
     (\<forall>x \<in> set items. \<forall>y \<in> set measured. best_or_inf y \<noteq> InfMs \<longrightarrow>
        rtt_within (sc_tolerance cfg) (best_or_inf x) (best_or_inf y))"
proof -
  let ?key = "\<lambda>item. (best_or_inf item, position (ir_ip item) candidates)"
  let ?ordered = "sort_key ?key measured"
  note spec = measured_results_spec [of rs candidates]
  have best: "\<forall>x \<in> set measured. ir_best x \<noteq> None" using spec assms(1) by fastforce
  have "map ir_ip measured = map fst (measured_results rs candidates)" using spec assms(1) by force
  then have "distinct (map ir_ip measured)" using spec by simp
  then have d: "distinct (map ir_ip ?ordered)"
    by (simp add: distinct_map)
  obtain items where p: "prefix items ?ordered" and items: "items \<noteq> []" "length items \<le> sc_limit cfg"
      "select_ips cfg candidates measured = map ir_ip items"
    and within: "best_or_inf (hd ?ordered) \<noteq> InfMs \<longrightarrow>
      (\<forall>x \<in> set items. rtt_within (sc_tolerance cfg) (best_or_inf x) (best_or_inf (hd ?ordered)))"
    using select_ips_prefix [OF best assms(2,3) refl, of candidates]
    by (elim exE conjE) (rule that; assumption)
  have "distinct (map ir_ip items)" using d p by (auto simp: prefix_def)
  moreover have "set items \<subseteq> set measured" using set_mono_prefix [OF p] by simp
  moreover have "best_or_inf x \<le> best_or_inf y" if "x \<in> set items" "y \<in> set measured" "y \<notin> set items" for x y
    using prefix_of_sorted [OF p that] by (auto simp: less_eq_prod_def)
  moreover have "rtt_within (sc_tolerance cfg) (best_or_inf x) (best_or_inf y)"
    if "x \<in> set items" "y \<in> set measured" "best_or_inf y \<noteq> InfMs" for x y
  proof -
    have le: "best_or_inf (hd ?ordered) \<le> best_or_inf y"
      using hd_of_sorted [OF that(2), of ?key] by (auto simp: less_eq_prod_def)
    with that(3) have "best_or_inf (hd ?ordered) \<noteq> InfMs" by (cases "best_or_inf y") auto
    with within that(1) le show ?thesis by (blast intro: rtt_within_mono)
  qed
  ultimately show ?thesis using items by blast
qed

text \<open>C29: Of the addresses with a measurement, a NOERROR address response keeps a nonempty list of at most
  the configured number: none of them is slower than an address that is left out, and each is
  within the tolerance of the fastest one. Distinct addresses, and only measured ones.\<close>

theorem speedtest_keeps_fastest:
  assumes "address_texts_ok L" and "speedtest_config_ok cfg"
    and run: "speedtest_on_response L now cfg service pt c = (Inr (), c')"
    and "question_of c = Inr q" and "q_type q \<in> set address_types"
    and "\<not> has_any_tag (tags c) (sc_skip_tags cfg)"
    and "final_answer c = Some i" and i: "i < length (answers (store_of c))"
    and a: "a_type (answer_at i c) \<in> set address_types" "a_class (answer_at i c) = IN"
      "msg_rcode (a_response (answer_at i c)) = NOERROR"
    and cands: "collect_candidate_ips cfg c (answer_at i c) = (candidates, infs)"
    and m: "measured = map snd (measured_results (st_results (part_get pt (world c'))) candidates)" "measured \<noteq> []"
  shows "\<exists>items. extract_unique_ips (answer_at i c') = map ir_ip items \<and> items \<noteq> [] \<and>
     length items \<le> sc_limit cfg \<and> distinct (map ir_ip items) \<and> set items \<subseteq> set measured \<and>
     (\<forall>x \<in> set items. \<forall>y \<in> set measured. y \<notin> set items \<longrightarrow> best_or_inf x \<le> best_or_inf y) \<and>
     (\<forall>x \<in> set items. \<forall>y \<in> set measured. best_or_inf y \<noteq> InfMs \<longrightarrow>
        rtt_within (sc_tolerance cfg) (best_or_inf x) (best_or_inf y))"
proof -
  obtain s where app: "apply_measured L now cfg pt i (extract_unique_ips (answer_at i c)) candidates
      (c\<lparr>world := part_put pt s (world c)\<rparr>) = (Inr (), c')"
    using run assms(4-7) a cands
    by (auto simp: speedtest_on_response_def with_question_def Let_def act_bind_Inr on_part_def act_run)
  have w: "world c' = part_put pt s (world c)"
    using app by (auto simp: apply_measured_def Let_def on_answer_def split: if_splits prod.splits)
  let ?sel = "select_ips cfg candidates measured"
  have "measured = map snd (measured_results (st_results (part_get pt (part_put pt s (world c)))) candidates)"
    using m(1) w by simp
  then have upd: "(if ?sel \<noteq> extract_unique_ips (answer_at i c)
      then on_answer i (replace_answer_ips L now cfg ?sel) (c\<lparr>world := part_put pt s (world c)\<rparr>)
      else (Inr (), c\<lparr>world := part_put pt s (world c)\<rparr>)) = (Inr (), c')"
    using app m(2) by (auto simp: apply_measured_def Let_def split: if_splits)
  note sel = select_ips_fastest [OF m assms(2)]
  have "extract_unique_ips (answer_at i c') = ?sel"
  proof (cases "?sel = extract_unique_ips (answer_at i c)")
    case False
    with upd obtain a' where "replace_answer_ips L now cfg ?sel (answer_at i c) = (Inr (), a')"
      and "answer_at i c' = a'"
      using i by (auto simp: on_answer_def split: prod.splits)
    moreover have "distinct ?sel" using sel by auto
    ultimately show ?thesis using replace_answer_ips_extract [OF _ assms(1) a(1,2)] by simp
  qed (use upd in auto)
  with sel show ?thesis by simp
qed

text \<open>However many upstream answers of one request bring an address, it is measured once: the
  batches that are reserved are disjoint, without repetition, and together all the new addresses.\<close>

theorem speedtest_measures_once:
  assumes "reserve_all batches s = (outs, s')"
  shows "distinct (concat outs) \<and> set (concat outs) = \<Union> (set ` set batches) - st_seen s"
  using assms by (rule reserve_all_new)

section \<open>A concrete run\<close>

definition sample_speed_answer :: answer where
  "sample_speed_answer = \<lparr>a_qname = ''example.cn.'', a_type = RT_A, a_class = IN,
     a_response = sample_message 5 32768 0,
     a_rrset = Some \<lparr>rr_name = ''example.cn.'', rr_ttl = 60, rr_class = IN, rr_type = RT_A,
        rr_items = [AddressData ''9.9.9.9'', AddressData ''1.1.1.1'']\<rparr>,
     a_canonical = ''example.cn.'', a_expiration = 0, a_chain = [], a_nameserver = None, a_port = None\<rparr>"

definition sample_speed_context :: "speedtest_context ctx" where
  "sample_speed_context = (fresh_context sample_request ''c'' ''udp'' \<lparr>st_results = [], st_seen = {}\<rparr>)\<lparr>
     store_of := \<lparr>answers = [sample_speed_answer], results = []\<rparr>, final_answer := Some 0\<rparr>"

definition whole_part :: "('s, 's) part" where
  "whole_part = \<lparr>part_get = (\<lambda>w. w), part_put = (\<lambda>s w. s)\<rparr>"

definition sample_speed_config :: speedtest_config where
  "sample_speed_config = \<lparr>sc_limit = 2, sc_ttl = 60, sc_tolerance = 50, sc_gap = 20, sc_skip_tags = [],
     sc_no_speedtest_tags = [], sc_fallback = []\<rparr>"

definition sample_speed_service :: "string \<Rightarrow> ip_rtt res" where
  "sample_speed_service ip = Inr (probe_result ip Ping (Ms (if ip = ''9.9.9.9'' then 200 else 10)))"

lemma replace_answer_ips_returns:
  assumes "a_type a \<in> set address_types" and "a_class a = IN"
  shows "\<exists>a'. replace_answer_ips text_lib now cfg ips a = (Inr (), a')"
  using assms by (auto simp: replace_answer_ips_def text_lib_def Let_def sync_answer_rrset_to_response_def
      split: prod.splits option.splits)

theorem speedtest_keeps_fastest_witness:
  "extract_unique_ips (answer_at 0 (snd (speedtest_on_response text_lib 0 sample_speed_config
     (Some sample_speed_service) whole_part sample_speed_context))) = [''1.1.1.1'']"
proof -
  let ?c = sample_speed_context and ?cfg = sample_speed_config
  let ?ips = "[''9.9.9.9'', ''1.1.1.1'']"
  let ?rs = "[probe_result ''9.9.9.9'' Ping (Ms 200), probe_result ''1.1.1.1'' Ping (Ms 10)]"
  let ?s = "\<lparr>st_results = ?rs, st_seen = set ?ips\<rparr>"
  have cfg: "speedtest_config_ok ?cfg" by (simp add: speedtest_config_ok_def sample_speed_config_def)
  have q: "question_of ?c = Inr sample_question" "q_type sample_question \<in> set address_types"
    by (simp_all add: question_of_def sample_speed_context_def fresh_context_def build_context_def
        sample_request_def sample_message_def sample_question_def address_types_def)
  have f: "final_answer ?c = Some 0" "0 < length (answers (store_of ?c))" "answer_at 0 ?c = sample_speed_answer"
    "\<not> has_any_tag (tags ?c) (sc_skip_tags ?cfg)" "upstream_results ?c = []"
    "world ?c = \<lparr>st_results = [], st_seen = {}\<rparr>"
    by (simp_all add: sample_speed_context_def fresh_context_def build_context_def has_any_tag_def
        sample_speed_config_def)
  have a: "a_type sample_speed_answer \<in> set address_types" "a_class sample_speed_answer = IN"
    "msg_rcode (a_response sample_speed_answer) = NOERROR"
    by (simp_all add: sample_speed_answer_def address_types_def sample_message_def)
  have e: "extract_unique_ips sample_speed_answer = ?ips"
    using a(1) by (simp add: extract_unique_ips_def sample_speed_answer_def)
  have cands: "collect_candidate_ips ?cfg ?c (answer_at 0 ?c) = (?ips, [])"
    by (simp add: collect_candidate_ips_def f e)
  have m: "measure_new_ips (Some sample_speed_service) ?ips \<lparr>st_results = [], st_seen = {}\<rparr> = ?s"
    by (simp add: measure_new_ips_def reserve_ips_def Let_def add_results_def measured_ok_def
        sample_speed_service_def)
  have d: "map snd (measured_results ?rs ?ips) = ?rs"
    by (simp add: measured_results_def probe_result_def)
  let ?c1 = "?c\<lparr>world := ?s\<rparr>"
  have "\<exists>c'. apply_measured text_lib 0 ?cfg whole_part 0 ?ips ?ips ?c1 = (Inr (), c') \<and> world c' = ?s"
    using replace_answer_ips_returns [of "answer_at 0 ?c1" 0 ?cfg "select_ips ?cfg ?ips ?rs"] a f(3) d
    by (auto simp: apply_measured_def Let_def whole_part_def on_answer_def)
  moreover have "speedtest_on_response text_lib 0 ?cfg (Some sample_speed_service) whole_part ?c =
      apply_measured text_lib 0 ?cfg whole_part 0 ?ips ?ips ?c1"
    using a q(2) by (simp add: speedtest_on_response_def with_question_def q(1) f cands [unfolded f(3)] e
        act_bind_apply on_part_def act_run whole_part_def m del: set_simps)
  ultimately obtain c' where run: "speedtest_on_response text_lib 0 ?cfg (Some sample_speed_service)
      whole_part ?c = (Inr (), c')" and w: "world c' = ?s"
    by auto
  have "?rs = map snd (measured_results (st_results (part_get whole_part (world c'))) ?ips)"
    using d w by (simp add: whole_part_def)
  from speedtest_keeps_fastest [OF text_lib_ok cfg run q f(4,1,2) a [folded f(3)] cands this]
  obtain items where items: "extract_unique_ips (answer_at 0 c') = map ir_ip items" "items \<noteq> []"
      "distinct (map ir_ip items)" "set items \<subseteq> set ?rs"
    and within: "\<forall>x \<in> set items. \<forall>y \<in> set ?rs. best_or_inf y \<noteq> InfMs \<longrightarrow>
      rtt_within (sc_tolerance ?cfg) (best_or_inf x) (best_or_inf y)"
    by auto
  have only: "x = probe_result ''1.1.1.1'' Ping (Ms 10)" if "x \<in> set items" for x
    using that items(4) within by (force simp: probe_result_def best_or_inf_def sample_speed_config_def)
  have "ir_ip x = ''1.1.1.1''" if "x \<in> set items" for x using only [OF that] by (simp add: probe_result_def)
  then have "\<forall>x \<in> set items. ir_ip x = ''1.1.1.1''" by blast
  with items(2,3) have "map ir_ip items = [''1.1.1.1'']"
    by (cases items; cases "tl items") auto
  with items(1) run show ?thesis by simp
qed

theorem speedtest_measures_once_witness:
  "set (concat (fst (reserve_all [[''a'', ''b''], [''b'', ''c'']] \<lparr>st_results = [], st_seen = {''a''}\<rparr>))) =
     {''b'', ''c''}"
proof -
  obtain outs s' where r: "reserve_all [[''a'', ''b''], [''b'', ''c'']] \<lparr>st_results = [], st_seen = {''a''}\<rparr> = (outs, s')"
    by (cases "reserve_all [[''a'', ''b''], [''b'', ''c'']] \<lparr>st_results = [], st_seen = {''a''}\<rparr>")
  from speedtest_measures_once [OF r] r show ?thesis by auto
qed

end
