(* ===== verification/Redirect_Plugin.thy ===== *)
theory Redirect_Plugin
  imports Plugin_Kit
begin

text \<open>
  \<open>plugins/redirect_plugin\<close>: a question for a mapped name is answered by a CNAME to the target and
  the answer of a nested query for the target.
\<close>

section \<open>Configuration\<close>

text \<open>\<open>normalize_redirects\<close>, \<open>None\<close> for null.\<close>

fun normalize_redirect_items ::
  "(string \<times> string) list \<Rightarrow> (string \<times> string) list \<Rightarrow> (string \<times> string) list res" where
  "normalize_redirect_items [] normalized = Inr normalized"
| "normalize_redirect_items ((source, target) # rest) normalized =
     andthen (normalize_domain source) (\<lambda>normalized_source.
     andthen (normalize_domain target) (\<lambda>normalized_target.
     if normalized_source = normalized_target then Inl (ValueError ''source and target are the same'')
     else normalize_redirect_items rest (dict_set normalized_source normalized_target normalized)))"

definition normalize_redirects :: "(string \<times> string) list option \<Rightarrow> (string \<times> string) list res" where
  "normalize_redirects v = (case v of None \<Rightarrow> Inr [] | Some items \<Rightarrow> normalize_redirect_items items [])"

section \<open>The plugin\<close>

text \<open>The flags of a message carry its operation code too.\<close>

definition build_redirect_response :: "dnslib \<Rightarrow> message \<Rightarrow> string \<Rightarrow> answer \<Rightarrow> rrset \<Rightarrow> message res" where
  "build_redirect_response L req target redirected redirected_rrset =
     (let source_response = a_response redirected in
      andthen (make_response L req) (\<lambda>response.
      case msg_question req of [] \<Rightarrow> Inl IndexError
      | q # _ \<Rightarrow>
        andthen (rrset_from_texts L (q_name q) (max (rr_ttl redirected_rrset) 1) IN RT_CNAME [target @ ''.''])
          (\<lambda>cname.
        Inr (response\<lparr>msg_flags := msg_flags source_response, msg_opcode := msg_opcode source_response,
          msg_rcode := msg_rcode source_response,
          msg_answer := (msg_answer response @ [cname]) @ msg_answer source_response,
          msg_authority := msg_authority response @ msg_authority source_response,
          msg_additional := msg_additional response @ msg_additional source_response\<rparr>))))"

definition call_resolve :: "'w resolver option \<Rightarrow> 'w resolver" where
  "call_resolve resolve qname qtype = (case resolve of
     None \<Rightarrow> act_raise (NestedResolveError ''context.resolve is not set up'') | Some f \<Rightarrow> f qname qtype)"

text \<open>\<open>NXDOMAIN\<close> and every other exception of the nested query end the hook.\<close>

definition redirect_on_request ::
  "dnslib \<Rightarrow> real \<Rightarrow> (string \<times> string) list \<Rightarrow> 'w resolver option \<Rightarrow> ('w, unit) ctx_act" where
  "redirect_on_request L now redirects resolve = (\<lambda>c.
     if final_answer c \<noteq> None \<or> final_response c \<noteq> None then (Inr (), c)
     else with_question (\<lambda>q.
       act_bind (act_lift (normalize_domain (q_name q))) (\<lambda>source_domain.
       case map_of redirects source_domain of None \<Rightarrow> act_ret ()
       | Some target \<Rightarrow>
         act_bind (act_try
             (act_bind (call_resolve resolve target (py_upper (rdtype_to_text L (q_type q)))) (\<lambda>j. act_ret (Some j)))
             (\<lambda>_. act_ret None)) (\<lambda>outcome.
         case outcome of None \<Rightarrow> act_ret ()
         | Some j \<Rightarrow>
           act_bind (act_get (answer_at j)) (\<lambda>redirected.
           case a_rrset redirected of None \<Rightarrow> act_ret ()
           | Some rr \<Rightarrow>
             act_bind (act_get request) (\<lambda>req.
             act_bind (act_lift (build_redirect_response L req target redirected rr)) (\<lambda>response.
             act_bind (act_lift (build_answer_from_response L now req response)) (\<lambda>ans.
             act_upd (\<lambda>c. c\<lparr>store_of := snd (alloc_answer ans (store_of c)),
                             final_answer := Some (fst (alloc_answer ans (store_of c))),
                             metadata := (metadata c)(''redirect_target'' \<mapsto> target)\<rparr>)))))))) c)"

definition redirect_plugin ::
  "dnslib \<Rightarrow> real \<Rightarrow> (string \<times> string) list \<Rightarrow> 'w resolver option \<Rightarrow> 'w plugin" where
  "redirect_plugin L now redirects resolve = (plugin_base ''redirect-plugin'')\<lparr>
     request_order := 50, on_request := redirect_on_request L now redirects resolve\<rparr>"

section \<open>What a redirect does\<close>

text \<open>A nested query changes the store and the world, and nothing else of the context.\<close>

definition resolver_ok :: "'w resolver \<Rightarrow> bool" where
  "resolver_ok f \<longleftrightarrow> (\<forall>qn qt c. \<exists>st w. snd (f qn qt c) = c\<lparr>store_of := st, world := w\<rparr>)"

lemma same_context: "\<exists>st w. c = c\<lparr>store_of := st, world := w\<rparr>" for c :: "'w ctx"
  by (intro exI [of _ "store_of c"] exI [of _ "world c"]) simp

lemma context_resolve_ok: "resolver_ok (context_resolve E)"
  unfolding resolver_ok_def
proof (intro allI)
  fix qn qt :: string and c :: "'a ctx"
  show "\<exists>st w. snd (context_resolve E qn qt c) = c\<lparr>store_of := st, world := w\<rparr>"
    by (auto simp: context_resolve_def resolve_nested_def same_context split: sum.splits prod.splits)
qed

lemma build_answer_response:
  assumes "build_answer_from_response L now req response = Inr a" and "\<And>n t k m. answer_ok L n t k m"
  shows "clone_response_for_request L response req = Inr (a_response a)"
proof -
  obtain m n t k x where m: "clone_response_for_request L response req = Inr m"
    and x: "mk_answer L n t k m None None = Inr x"
    and eq: "a = (case (a_rrset x, msg_answer m) of (None, rrset # _) \<Rightarrow>
        x\<lparr>a_rrset := Some rrset, a_canonical := rr_name rrset, a_expiration := now + real (rr_ttl rrset)\<rparr>
      | _ \<Rightarrow> x)"
    using assms(1) by (cases "msg_question req") (auto simp: build_answer_from_response_def andthen_Inr_iff)
  have a: "a_response a = a_response x" unfolding eq by (auto split: option.split list.split)
  have "a_response x = m" using x assms(2) [of n t k m] by (auto simp: answer_ok_def)
  with m a show ?thesis by simp
qed

lemma normalize_redirect_items_ok:
  "normalize_redirect_items items d = Inr d' \<Longrightarrow> distinct (map fst d) \<Longrightarrow> \<forall>(s, t) \<in> set d. s \<noteq> t \<Longrightarrow>
     distinct (map fst d') \<and> (\<forall>(s, t) \<in> set d'. s \<noteq> t)"
proof (induction items d rule: normalize_redirect_items.induct)
  case (2 source target rest d)
  have in_set: "set (dict_set s t d) \<subseteq> insert (s, t) (set d)" for s t :: string
    by (induction s t d rule: dict_set.induct) auto
  from 2(2) obtain s t where s: "normalize_domain source = Inr s" and t: "normalize_domain target = Inr t"
    and ne: "s \<noteq> t" and rest: "normalize_redirect_items rest (dict_set s t d) = Inr d'"
    by (auto simp: andthen_Inr_iff split: if_splits)
  have "\<forall>(s, t) \<in> set (dict_set s t d). s \<noteq> t" using in_set [of s t] 2(4) ne by blast
  with 2(1) [OF s t ne rest] 2(3) show ?case by (simp add: distinct_dict_set)
qed simp



text \<open>The names of a redirect are distinct, and no name is redirected to itself.\<close>

theorem normalize_redirects_ok:
  assumes "normalize_redirects v = Inr d"
  shows "distinct (map fst d) \<and> (\<forall>(s, t) \<in> set d. s \<noteq> t)"
  using assms normalize_redirect_items_ok [of _ "[]" d]
  by (auto simp: normalize_redirects_def split: option.splits)

text \<open>
  A question for the root makes the hook raise, whether or not any redirect is configured: the
  text of the root is empty without its dot, which \<open>normalize_domain\<close> refuses.
\<close>

theorem redirect_raises_for_root:
  assumes "final_answer c = None" and "final_response c = None"
    and "msg_question (request c) = q # qs" and "q_name q = ''.''"
  shows "\<exists>e. redirect_on_request L now [] resolve c = (Inl (ValueError e), c)"
proof -
  have "\<exists>e. normalize_domain ''.'' = Inl (ValueError e)"
    by (simp add: normalize_domain_def Let_def) code_simp
  with assms show ?thesis
    by (auto simp: redirect_on_request_def with_question_def question_of_def act_run)
qed

section \<open>A concrete run\<close>

definition cname_lib :: dnslib where
  "cname_lib = sample_lib\<lparr>rrset_from_texts := (\<lambda>n ttl cls t xs. Inr \<lparr>rr_name = n, rr_ttl = ttl,
     rr_class = cls, rr_type = t, rr_items = map CnameData xs\<rparr>)\<rparr>"

definition sample_target_answer :: answer where
  "sample_target_answer = \<lparr>a_qname = ''target.cn.'', a_type = RT_A, a_class = IN,
     a_response = sample_message 9 32768 0,
     a_rrset = Some \<lparr>rr_name = ''target.cn.'', rr_ttl = 60, rr_class = IN, rr_type = RT_A,
        rr_items = [AddressData ''10.1.2.3'']\<rparr>,
     a_canonical = ''target.cn.'', a_expiration = 0, a_chain = [], a_nameserver = None, a_port = None\<rparr>"

definition sample_redirect_context :: "nat ctx" where
  "sample_redirect_context = (fresh_context sample_request ''c'' ''udp'' 0)\<lparr>
     store_of := \<lparr>answers = [sample_target_answer], results = []\<rparr>\<rparr>"

definition found_resolver :: "nat resolver" where
  "found_resolver qname qtype = act_ret 0"

lemma sample_redirect_run:
  "\<exists>c'. redirect_on_request cname_lib 0 [(''example.cn'', ''target.cn'')] (Some found_resolver)
     sample_redirect_context = (Inr (), c') \<and> final_answer c' = Some 1"
proof -
  let ?c = sample_redirect_context
  have q: "question_of ?c = Inr sample_question" "final_answer ?c = None" "final_response ?c = None"
    by (simp_all add: question_of_def sample_redirect_context_def fresh_context_def build_context_def
        sample_request_def sample_message_def)
  have n: "normalize_domain (q_name sample_question) = Inr ''example.cn''"
    by (simp add: sample_question_def) code_simp
  have a: "answer_at 0 ?c = sample_target_answer" by (simp add: sample_redirect_context_def)
  obtain rr where rr: "a_rrset sample_target_answer = Some rr" by (simp add: sample_target_answer_def)
  obtain m where b: "build_redirect_response cname_lib (request ?c) ''target.cn'' sample_target_answer rr = Inr m" and m: "msg_id m = 5" "msg_flags m = 32768" "msg_rcode m = 0"
    by (auto simp: build_redirect_response_def cname_lib_def sample_lib_def sample_redirect_context_def
        fresh_context_def build_context_def sample_request_def sample_message_def sample_target_answer_def Let_def)
  have "\<exists>x. build_answer_from_response cname_lib 0 (request ?c) m = Inr x"
    by (simp add: build_answer_from_response_def clone_response_for_request_def cname_lib_def sample_lib_def m
        sample_redirect_context_def fresh_context_def build_context_def sample_request_def sample_message_def)
  then obtain x where "build_answer_from_response cname_lib 0 (request ?c) m = Inr x" by blast
  with b have "snd (redirect_on_request cname_lib 0 [(''example.cn'', ''target.cn'')] (Some found_resolver) ?c) =
      ?c\<lparr>store_of := snd (alloc_answer x (store_of ?c)), final_answer := Some (fst (alloc_answer x (store_of ?c))),
        metadata := (metadata ?c)(''redirect_target'' \<mapsto> ''target.cn'')\<rparr> \<and>
    fst (redirect_on_request cname_lib 0 [(''example.cn'', ''target.cn'')] (Some found_resolver) ?c) = Inr ()"
    using n a q rr by (simp add: redirect_on_request_def with_question_def act_run act_bind_apply act_try_def
        call_resolve_def found_resolver_def act_defs)
  moreover have "fst (alloc_answer x (store_of ?c)) = 1"
    by (simp add: alloc_answer_def sample_redirect_context_def)
  ultimately have "final_answer (snd (redirect_on_request cname_lib 0 [(''example.cn'', ''target.cn'')]
      (Some found_resolver) ?c)) = Some 1" "fst (redirect_on_request cname_lib 0
      [(''example.cn'', ''target.cn'')] (Some found_resolver) ?c) = Inr ()"
    by auto
  then show ?thesis by (metis prod.collapse)
qed


theorem normalize_redirects_ok_witness: "\<forall>(s, t) \<in> set [(''a.cn'', ''b.cn'')]. s \<noteq> t"
proof -
  have "normalize_redirects (Some [(''A.cn.'', ''b.cn'')]) = Inr [(''a.cn'', ''b.cn'')]" by code_simp
  from normalize_redirects_ok [OF this] show ?thesis by simp
qed

theorem redirect_raises_for_root_witness:
  "\<exists>e. fst (redirect_on_request sample_lib 0 [] None
     (fresh_context (sample_request\<lparr>msg_question := [sample_question\<lparr>q_name := ''.''\<rparr>]\<rparr>) ''c'' ''udp'' (0 :: nat))) =
     Inl (ValueError e)"
proof -
  let ?c = "fresh_context (sample_request\<lparr>msg_question := [sample_question\<lparr>q_name := ''.''\<rparr>]\<rparr>) ''c'' ''udp'' (0 :: nat)"
  have c: "final_answer ?c = None" "final_response ?c = None"
    "msg_question (request ?c) = [sample_question\<lparr>q_name := ''.''\<rparr>]"
    by (simp_all add: fresh_context_def build_context_def)
  from redirect_raises_for_root [OF c, of sample_lib 0 None] show ?thesis by auto
qed

end
