(* ===== verification/Sample_Plugin.thy ===== *)
theory Sample_Plugin
  imports Plugin_Kit
begin

text \<open>
  \<open>plugins/sample_plugin\<close>: the example plugin. A question for the A record of one of its names is
  answered by a configured address, through an answer builder of the registry.
\<close>

record sample_config =
  sp_domains :: "string list"
  sp_answer_name :: string

record sample_variables =
  sp_address :: string
  sp_ttl :: nat

text \<open>\<open>normalize_domains\<close>, \<open>None\<close> for null.\<close>

definition normalize_sample_domains :: "string list option \<Rightarrow> string list res" where
  "normalize_sample_domains v = (case v of None \<Rightarrow> Inr [] | Some items \<Rightarrow> map_res normalize_domain items)"

definition build_static_answer :: "dnslib \<Rightarrow> message \<Rightarrow> message res" where
  "build_static_answer L req = make_response L req"

definition sample_setup ::
  "dnslib \<Rightarrow> 'v \<Rightarrow> 'm \<Rightarrow> sample_config \<Rightarrow> ('v, 'm) plugin_registry \<Rightarrow> ('v, 'm) plugin_registry res" where
  "sample_setup L loaded meta cfg reg =
     andthen (register_context ''sample.loaded'' loaded reg) (\<lambda>reg.
     andthen (register_resolver ''sample.meta'' meta reg)
       (register_answer (sp_answer_name cfg) (build_static_answer L)))"

definition sample_on_request ::
  "dnslib \<Rightarrow> real \<Rightarrow> sample_config \<Rightarrow> sample_variables \<Rightarrow> (string \<times> (message \<Rightarrow> message res)) list \<Rightarrow>
   ('w, unit) ctx_act" where
  "sample_on_request L now cfg vars builders = with_question (\<lambda>q.
     if q_type q \<noteq> RT_A then act_ret ()
     else if py_lower (rstrip_dot (q_name q)) \<notin> set (sp_domains cfg) then act_ret ()
     else case map_of builders (sp_answer_name cfg) of
       None \<Rightarrow> act_raise (KeyError (sp_answer_name cfg))
     | Some builder \<Rightarrow>
         act_bind (act_get request) (\<lambda>req.
         act_bind (act_lift (andthen (builder req) (build_answer_from_response L now req))) (\<lambda>ans.
         act_bind (act_lift (rrset_from_texts L (q_name q) (sp_ttl vars) IN RT_A [sp_address vars])) (\<lambda>rr.
         act_bind (act_lift (case sync_answer_response L (ans\<lparr>a_rrset := Some rr\<rparr>) of
             (Inl e, _) \<Rightarrow> Inl e | (Inr _, ans') \<Rightarrow> Inr ans')) (\<lambda>ans'.
         act_upd (\<lambda>c. c\<lparr>store_of := snd (alloc_answer ans' (store_of c)),
                         final_answer := Some (fst (alloc_answer ans' (store_of c)))\<rparr>))))))"

definition sample_plugin ::
  "dnslib \<Rightarrow> real \<Rightarrow> sample_config \<Rightarrow> sample_variables \<Rightarrow> (string \<times> (message \<Rightarrow> message res)) list \<Rightarrow> 'w plugin" where
  "sample_plugin L now cfg vars builders = (plugin_base ''sample-plugin'')\<lparr>
     on_request := sample_on_request L now cfg vars builders\<rparr>"

text \<open>After \<open>setup\<close> the builder the hook looks up is there.\<close>

lemma sample_setup_builder:
  assumes "sample_setup L loaded meta cfg reg = Inr reg'"
  shows "map_of (answer_registry reg') (sp_answer_name cfg) = Some (build_static_answer L)"
proof -
  have reg: "answer_registry reg' = answer_registry reg @ [(sp_answer_name cfg, build_static_answer L)]"
    and new: "sp_answer_name cfg \<notin> fst ` set (answer_registry reg)"
    using assms by (auto simp: sample_setup_def register_context_def register_resolver_def
        register_answer_def register_def andthen_Inr_iff split: if_splits)
  from new have "map_of (answer_registry reg) (sp_answer_name cfg) = None" by (simp add: map_of_eq_None_iff)
  with reg show ?thesis by (simp add: map_add_def)
qed

lemma sample_other_questions:
  assumes "question_of c = Inr q"
    and "q_type q \<noteq> RT_A \<or> py_lower (rstrip_dot (q_name q)) \<notin> set (sp_domains cfg)"
  shows "sample_on_request L now cfg vars builders c = (Inr (), c)"
  using assms by (auto simp: sample_on_request_def with_question_def act_run)

text \<open>
  With the registry its own setup leaves, the hook never fails for want of the builder: a question for
  one of its names is answered, or the codec raises.
\<close>

lemma sample_answers:
  assumes "sample_setup L loaded meta cfg reg = Inr reg'" and "question_of c = Inr q"
    and "sample_on_request L now cfg vars (answer_registry reg') c = (Inr (), c')"
    and "q_type q = RT_A" and "py_lower (rstrip_dot (q_name q)) \<in> set (sp_domains cfg)"
  shows "\<exists>i. final_answer c' = Some i \<and> i < length (answers (store_of c'))"
  using assms(2-5) sample_setup_builder [OF assms(1)]
  by (auto simp: sample_on_request_def with_question_def act_run act_bind_Inr alloc_answer_def
      act_defs)

end
