(* ===== verification/Aiodns.thy ===== *)
theory Aiodns
  imports Doh_Client
begin

text \<open>
  \<open>resolver/nameservers/aiodns.py\<close>: the nameserver that asks through c-ares. The result of c-ares is
  turned into a message of dnspython, its errors into response codes. The resolvers of c-ares are shared
  by key, as the sessions of the DoH clients are.
\<close>

section \<open>Shared resolvers\<close>

record resolver_key =
  rk_loop :: nat
  rk_servers :: "string list"
  rk_port :: nat
  rk_timeout :: real
  rk_tcp :: bool

definition aiodns_get_resolver ::
  "nat \<Rightarrow> string list \<Rightarrow> nat \<Rightarrow> real \<Rightarrow> bool \<Rightarrow> ((resolver_key \<times> nat) list sessions, nat) act" where
  "aiodns_get_resolver loop servers port timeout tcp =
     keyed_get_shared \<lparr>rk_loop = loop, rk_servers = servers, rk_port = port, rk_timeout = timeout, rk_tcp = tcp\<rparr>"

definition aiodns_close ::
  "(resolver_key \<times> nat) list sessions \<Rightarrow> nat list \<times> (resolver_key \<times> nat) list sessions" where
  "aiodns_close s = keyed_close s"

interpretation aiodns: shared_sessions keyed_get_shared aiodns_close "\<lambda>s. map_of (ss_open s)"
  unfolding aiodns_close_def by (rule keyed.shared_sessions_axioms)

text \<open>
  \<open>AiodnsDNSResolver.query_dns\<close>: the call it makes, of the class it extends or of the channel. \<open>classes\<close>
  is \<open>aiodns.query_class_map\<close>.
\<close>

datatype channel_call =
    SuperQuery string string "string option"
  | HttpsQuery string "nat option"

definition query_dns :: "(string \<rightharpoonup> nat) \<Rightarrow> string \<Rightarrow> string \<Rightarrow> string option \<Rightarrow> channel_call res" where
  "query_dns classes host qtype qclass =
     (if qtype \<noteq> ''HTTPS'' then Inr (SuperQuery host qtype qclass)
      else case qclass of None \<Rightarrow> Inr (HttpsQuery host None)
      | Some c \<Rightarrow> (case classes c of None \<Rightarrow> Inl (ValueError ''invalid query class'')
                  | Some n \<Rightarrow> Inr (HttpsQuery host (Some n))))"

section \<open>Records\<close>

text \<open>The record data of pycares, and the calls of the constructors of dnspython.\<close>

datatype pycares_data =
    ARecordData string
  | AAAARecordData string
  | MXRecordData nat string
  | TXTRecordData bytes
  | CAARecordData nat string bytes
  | CNAMERecordData string
  | NAPTRRecordData nat nat string string string string
  | NSRecordData string
  | PTRRecordData string
  | SOARecordData string string nat nat nat nat nat
  | SRVRecordData nat nat nat string
  | TLSARecordData nat nat nat bytes
  | HTTPSRecordData nat string "(nat \<times> bytes) list"
  | URIRecordData nat nat string
  | UnknownRecordData string

datatype 'p rdata_call =
    NewA string
  | NewAAAA string
  | NewMX nat string
  | NewTXT "bytes list"
  | NewCAA nat string bytes
  | NewCNAME string
  | NewNAPTR nat nat string string string string
  | NewNS string
  | NewPTR string
  | NewSOA string string nat nat nat nat nat
  | NewSRV nat nat nat string
  | NewTLSA nat nat nat bytes
  | NewHTTPS nat string "(param_key \<times> 'p) list"
  | NewURI nat nat string

text \<open>
  What is called of dnspython: the constructors, \<open>from_text\<close> of a name, the \<open>make\<close> of classes, types
  and parameter keys, the parser of a service parameter, \<open>find_rrset\<close> with \<open>create=True\<close> (the index of the
  set in the section it leaves) and \<open>RRset.add\<close>.
\<close>

record 'p rrset_lib =
  rl_construct :: "nat \<Rightarrow> nat \<Rightarrow> 'p rdata_call \<Rightarrow> rdata res"
  rl_name :: "string \<Rightarrow> dname res"
  rl_class :: "nat \<Rightarrow> nat res"
  rl_type :: "nat \<Rightarrow> nat res"
  rl_key :: "nat \<Rightarrow> param_key res"
  rl_param :: "param_key \<Rightarrow> bytes \<Rightarrow> 'p res"
  rl_find :: "rrset list \<Rightarrow> dname \<Rightarrow> nat \<Rightarrow> nat \<Rightarrow> bool \<Rightarrow> nat \<times> rrset list"
  rl_add :: "rrset \<Rightarrow> rdata \<Rightarrow> nat \<Rightarrow> rrset res"

fun https_params :: "'p rrset_lib \<Rightarrow> (nat \<times> bytes) list \<Rightarrow> (param_key \<times> 'p) list \<Rightarrow> (param_key \<times> 'p) list res" where
  "https_params R [] params = Inr params"
| "https_params R ((raw_key, raw_value) # rest) params =
     andthen (rl_key R raw_key) (\<lambda>key.
     andthen (rl_param R key raw_value) (\<lambda>v. https_params R rest (dict_set key v params)))"

fun record_data_to_rdata :: "'p rrset_lib \<Rightarrow> pycares_data \<Rightarrow> 'p rdata_call res" where
  "record_data_to_rdata R (ARecordData a) = Inr (NewA a)"
| "record_data_to_rdata R (AAAARecordData a) = Inr (NewAAAA a)"
| "record_data_to_rdata R (MXRecordData priority exchange) = Inr (NewMX priority exchange)"
| "record_data_to_rdata R (TXTRecordData d) = Inr (NewTXT [d])"
| "record_data_to_rdata R (CAARecordData critical tag v) = Inr (NewCAA critical tag v)"
| "record_data_to_rdata R (CNAMERecordData cname) = Inr (NewCNAME cname)"
| "record_data_to_rdata R (NAPTRRecordData order preference flags service regexp replacement) =
     Inr (NewNAPTR order preference flags service regexp replacement)"
| "record_data_to_rdata R (NSRecordData nsdname) = Inr (NewNS nsdname)"
| "record_data_to_rdata R (PTRRecordData d) = Inr (NewPTR d)"
| "record_data_to_rdata R (SOARecordData mname rname serial refresh retry expire minimum) =
     Inr (NewSOA mname rname serial refresh retry expire minimum)"
| "record_data_to_rdata R (SRVRecordData priority weight port target) = Inr (NewSRV priority weight port target)"
| "record_data_to_rdata R (TLSARecordData usage selector matching d) = Inr (NewTLSA usage selector matching d)"
| "record_data_to_rdata R (HTTPSRecordData priority target raw) =
     andthen (https_params R raw []) (\<lambda>params. Inr (NewHTTPS priority (if target = [] then ''.'' else target) params))"
| "record_data_to_rdata R (URIRecordData priority weight target) = Inr (NewURI priority weight target)"
| "record_data_to_rdata R (UnknownRecordData n) = Inl (ValueError n)"

record cares_record =
  cr_name :: string
  cr_type :: nat
  cr_class :: nat
  cr_ttl :: nat
  cr_data :: pycares_data

record cares_result =
  cs_answer :: "cares_record list"
  cs_authority :: "cares_record list"
  cs_additional :: "cares_record list"

text \<open>One record: where it goes, and what.\<close>

definition read_record :: "'p rrset_lib \<Rightarrow> cares_record \<Rightarrow> (dname \<times> nat \<times> nat \<times> rdata) res" where
  "read_record R r =
     andthen (rl_class R (cr_class r)) (\<lambda>rdclass.
     andthen (rl_type R (cr_type r)) (\<lambda>rdtype.
     andthen (rl_name R (cr_name r)) (\<lambda>name.
     andthen (andthen (record_data_to_rdata R (cr_data r)) (rl_construct R rdclass rdtype)) (\<lambda>rdata.
     Inr (name, rdclass, rdtype, rdata)))))"

fun append_records :: "'p rrset_lib \<Rightarrow> bool \<Rightarrow> rrset list \<Rightarrow> cares_record list \<Rightarrow> rrset list res" where
  "append_records R one_rr sec [] = Inr sec"
| "append_records R one_rr sec (r # rest) =
     andthen (read_record R r) (\<lambda>(name, rdclass, rdtype, rdata).
     case rl_find R sec name rdclass rdtype one_rr of (i, sec1) \<Rightarrow>
       andthen (rl_add R (sec1 ! i) rdata (cr_ttl r)) (\<lambda>rr.
       append_records R one_rr (sec1[i := rr]) rest))"

definition build_aiodns_response ::
  "dnslib \<Rightarrow> 'p rrset_lib \<Rightarrow> message \<Rightarrow> cares_result \<Rightarrow> bool \<Rightarrow> message res" where
  "build_aiodns_response L R req result one_rr =
     andthen (make_response L req) (\<lambda>response.
     andthen (append_records R one_rr (msg_answer response) (cs_answer result)) (\<lambda>an.
     andthen (append_records R one_rr (msg_authority response) (cs_authority result)) (\<lambda>au.
     andthen (append_records R one_rr (msg_additional response) (cs_additional result)) (\<lambda>ad.
     Inr (response\<lparr>msg_answer := an, msg_authority := au, msg_additional := ad\<rparr>)))))"

section \<open>Errors and the query\<close>

datatype ares_code =
  ARES_ENOTFOUND | ARES_ENODATA | ARES_ESERVFAIL | ARES_EREFUSED | ARES_ENOTIMP | ARES_EFORMERR | ARES_OTHER nat

fun error_rcodes :: "ares_code \<Rightarrow> nat option" where
  "error_rcodes ARES_ENOTFOUND = Some RC_NXDOMAIN"
| "error_rcodes ARES_ENODATA = Some NOERROR"
| "error_rcodes ARES_ESERVFAIL = Some SERVFAIL"
| "error_rcodes ARES_EREFUSED = Some RC_REFUSED"
| "error_rcodes ARES_ENOTIMP = Some RC_NOTIMP"
| "error_rcodes ARES_EFORMERR = Some FORMERR"
| "error_rcodes (ARES_OTHER n) = None"

text \<open>A \<open>DNSError\<close> has arguments, of which the first is the code.\<close>

datatype cares_outcome = CaresResult cares_result | CaresError "ares_code list" | CaresRaises py_exn

definition error_response :: "dnslib \<Rightarrow> message \<Rightarrow> ares_code list \<Rightarrow> message option res" where
  "error_response L req args = (case args of [] \<Rightarrow> Inr None
   | code # _ \<Rightarrow> (case error_rcodes code of None \<Rightarrow> Inr None
       | Some rcode \<Rightarrow> andthen (make_response L req) (\<lambda>response. Inr (Some (response\<lparr>msg_rcode := rcode\<rparr>)))))"

record aiodns_nameserver =
  an_servers :: "string list"
  an_port :: nat
  an_tcp :: bool
  an_timeout :: real

definition aiodns_str :: "aiodns_nameserver \<Rightarrow> string" where
  "aiodns_str ns = ''aiodns://'' @ py_join '','' (an_servers ns) @ '':'' @ dec_str (an_port ns)"

text \<open>
  \<open>async_query\<close>: \<open>ask\<close> is the query of the shared resolver with that number, \<open>class_text\<close> the text of a
  record class.
\<close>

definition aiodns_async_query ::
  "dnslib \<Rightarrow> 'p rrset_lib \<Rightarrow> (nat \<Rightarrow> string) \<Rightarrow> nat \<Rightarrow> (nat \<Rightarrow> string \<Rightarrow> string \<Rightarrow> string \<Rightarrow> cares_outcome) \<Rightarrow>
   aiodns_nameserver \<Rightarrow> message \<Rightarrow> bool \<Rightarrow> bool \<Rightarrow> ((resolver_key \<times> nat) list sessions, message) act" where
  "aiodns_async_query L R class_text loop ask ns req max_size one_rr =
     (case msg_question req of [] \<Rightarrow> act_raise IndexError
      | question # _ \<Rightarrow>
         let stripped = rstrip_dot (q_name question);
             host = (if stripped = [] then ''.'' else stripped);
             qtype = rdtype_to_text L (q_type question);
             qclass = class_text (q_class question) in
         act_bind (aiodns_get_resolver loop (an_servers ns) (an_port ns) (an_timeout ns) (an_tcp ns \<or> max_size))
           (\<lambda>resolver. act_lift (case ask resolver host qtype qclass of
               CaresResult result \<Rightarrow> build_aiodns_response L R req result one_rr
             | CaresRaises e \<Rightarrow> Inl e
             | CaresError args \<Rightarrow> andthen (error_response L req args) (\<lambda>response.
                 case response of None \<Rightarrow> Inl (OtherError ''DNSError'') | Some m \<Rightarrow> Inr m))))"

section \<open>The response has every record\<close>

text \<open>
  What the two operations on a section are relied on to do: \<open>find_rrset\<close> gives the first set of the name,
  class and type, or appends an empty one, always with \<open>force_unique\<close>; \<open>add\<close> leaves the set with one more
  record.
\<close>

definition rrset_lib_ok :: "'p rrset_lib \<Rightarrow> bool" where
  "rrset_lib_ok R \<longleftrightarrow>
     (\<forall>sec n c t u i sec1. rl_find R sec n c t u = (i, sec1) \<longrightarrow>
        (\<not> u \<and> sec1 = sec \<and> i < length sec \<and> name_eq (rr_name (sec ! i)) n \<and> rr_class (sec ! i) = c \<and> rr_type (sec ! i) = t) \<or>
        ((u \<or> (\<forall>rr \<in> set sec. \<not> (name_eq (rr_name rr) n \<and> rr_class rr = c \<and> rr_type rr = t))) \<and> i = length sec \<and>
         sec1 = sec @ [\<lparr>rr_name = n, rr_ttl = 0, rr_class = c, rr_type = t, rr_items = []\<rparr>])) \<and>
     (\<forall>rr d ttl rr'. rl_add R rr d ttl = Inr rr' \<longrightarrow>
        rr_name rr' = rr_name rr \<and> rr_class rr' = rr_class rr \<and> rr_type rr' = rr_type rr \<and>
        set (rr_items rr') = insert d (set (rr_items rr)))"

text \<open>The records of a section; names are compared without regard to case.\<close>

definition section_records :: "rrset list \<Rightarrow> (dname \<times> nat \<times> nat \<times> rdata) set" where
  "section_records sec = {(py_lower (rr_name rr), rr_class rr, rr_type rr, d) | rr d. rr \<in> set sec \<and> d \<in> set (rr_items rr)}"

lemma section_records_append:
  "section_records (xs @ ys) = section_records xs \<union> section_records ys"
  by (auto simp: section_records_def)

lemma section_records_update:
  assumes "i < length sec" and "rr_name rr = rr_name (sec ! i)" "rr_class rr = rr_class (sec ! i)"
    "rr_type rr = rr_type (sec ! i)" "set (rr_items rr) = insert d (set (rr_items (sec ! i)))"
  shows "section_records (sec[i := rr]) = insert (py_lower (rr_name rr), rr_class rr, rr_type rr, d) (section_records sec)"
proof -
  have s: "sec = take i sec @ sec ! i # drop (Suc i) sec" using assms(1) by (rule id_take_nth_drop)
  have u: "sec[i := rr] = take i sec @ rr # drop (Suc i) sec" using assms(1) by (rule upd_conv_take_nth_drop)
  have one: "section_records (xs @ r # ys) = section_records xs \<union> section_records [r] \<union> section_records ys" for xs ys and r :: rrset
    using section_records_append [of xs "r # ys"] section_records_append [of "[r]" ys] by auto
  have "section_records [rr] = insert (py_lower (rr_name rr), rr_class rr, rr_type rr, d) (section_records [sec ! i])"
    using assms(2-5) by (auto simp: section_records_def)
  then show ?thesis unfolding u one by (subst s) (simp only: one, auto)
qed

definition cares_records :: "'p rrset_lib \<Rightarrow> cares_record list \<Rightarrow> (dname \<times> nat \<times> nat \<times> rdata) set" where
  "cares_records R rs = {(py_lower n, x) | n x. \<exists>r \<in> set rs. read_record R r = Inr (n, x)}"

lemma cares_records_Nil: "cares_records R [] = {}"
  by (simp add: cares_records_def)

lemma cares_records_Cons:
  "read_record R r = Inr (n, x) \<Longrightarrow> cares_records R (r # rs) = insert (py_lower n, x) (cares_records R rs)"
  unfolding cares_records_def by (simp add: set_eq_iff) blast

lemma append_records_all:
  assumes "rrset_lib_ok R"
  shows "append_records R one_rr sec rs = Inr sec' \<Longrightarrow>
     section_records sec' = section_records sec \<union> cares_records R rs \<and>
     (\<forall>r \<in> set rs. \<exists>x. read_record R r = Inr x)"
proof (induction rs arbitrary: sec)
  case (Cons r rs)
  then obtain n c t d where x: "read_record R r = Inr (n, c, t, d)" by (auto simp: andthen_Inr_iff)
  obtain i sec1 where f: "rl_find R sec n c t one_rr = (i, sec1)" by fastforce
  then obtain rr where a: "rl_add R (sec1 ! i) d (cr_ttl r) = Inr rr"
    and rest: "append_records R one_rr (sec1[i := rr]) rs = Inr sec'"
    using Cons.prems x by (auto simp: andthen_Inr_iff)
  have rr: "rr_name rr = rr_name (sec1 ! i)" "rr_class rr = rr_class (sec1 ! i)" "rr_type rr = rr_type (sec1 ! i)"
    "set (rr_items rr) = insert d (set (rr_items (sec1 ! i)))"
    using assms a unfolding rrset_lib_ok_def by blast+
  have sec1: "i < length sec1 \<and> section_records sec1 = section_records sec \<and>
      py_lower (rr_name (sec1 ! i)) = py_lower n \<and> rr_class (sec1 ! i) = c \<and> rr_type (sec1 ! i) = t"
  proof -
    consider "sec1 = sec" "i < length sec" "name_eq (rr_name (sec ! i)) n" "rr_class (sec ! i) = c" "rr_type (sec ! i) = t"
      | "i = length sec" "sec1 = sec @ [\<lparr>rr_name = n, rr_ttl = 0, rr_class = c, rr_type = t, rr_items = []\<rparr>]"
      using assms f unfolding rrset_lib_ok_def by blast
    then show ?thesis by cases (auto simp: section_records_append section_records_def name_eq_def)
  qed
  with section_records_update [OF _ rr] rr have
    "section_records (sec1[i := rr]) = insert (py_lower n, c, t, d) (section_records sec)" by simp
  with Cons.IH [OF rest] x show ?case by (auto simp: cares_records_Cons [OF x])
qed (simp add: cares_records_Nil)


text \<open>
  An error of c-ares with a known code is a response with the code of DNS for it and the question of
  the request; every other error, and every other exception, leaves the query as an exception. In both
  cases the resolver that was used stays shared for the next query with the same servers.
\<close>

theorem aiodns_error_outcome:
  assumes "aiodns_async_query L R class_text loop ask ns req max_size one_rr s = (r, s')"
    and "msg_question req = q # qs" and "make_response L req = Inr m0"
    and "\<And>resolver host qt qc. ask resolver host qt qc = CaresError args"
  shows "(case args of [] \<Rightarrow> r = Inl (OtherError ''DNSError'')
     | code # _ \<Rightarrow> (case error_rcodes code of None \<Rightarrow> r = Inl (OtherError ''DNSError'')
         | Some rcode \<Rightarrow> r = Inr (m0\<lparr>msg_rcode := rcode\<rparr>))) \<and>
    (\<exists>k. map_of (ss_open s') \<lparr>rk_loop = loop, rk_servers = an_servers ns, rk_port = an_port ns,
       rk_timeout = an_timeout ns, rk_tcp = an_tcp ns \<or> max_size\<rparr> = Some k)"
proof -
  let ?key = "\<lparr>rk_loop = loop, rk_servers = an_servers ns, rk_port = an_port ns,
       rk_timeout = an_timeout ns, rk_tcp = an_tcp ns \<or> max_size\<rparr>"
  obtain k s1 where g: "keyed_get_shared ?key s = (Inr k, s1)" "map_of (ss_open s1) ?key = Some k"
    using keyed.get_total [of ?key s] by blast
  with assms have "s' = s1" and "r = andthen (error_response L req args) (\<lambda>response.
      case response of None \<Rightarrow> Inl (OtherError ''DNSError'') | Some m \<Rightarrow> Inr m)"
    by (auto simp: aiodns_async_query_def aiodns_get_resolver_def act_bind_apply act_defs Let_def)
  with g(2) assms(3) show ?thesis
    by (auto simp: error_response_def split: list.splits option.splits)
qed

section \<open>Concrete runs\<close>

definition list_rrset_lib :: "unit rrset_lib" where
  "list_rrset_lib = \<lparr>rl_construct = (\<lambda>c t k. case k of NewA a \<Rightarrow> Inr (AddressData a) | _ \<Rightarrow> Inr (OtherData [])),
     rl_name = Inr, rl_class = Inr, rl_type = Inr, rl_key = (\<lambda>n. Inr (OTHER_KEY n)), rl_param = (\<lambda>k bs. Inr ()),
     rl_find = (\<lambda>sec n c t u. (length sec, sec @ [\<lparr>rr_name = n, rr_ttl = 0, rr_class = c, rr_type = t, rr_items = []\<rparr>])),
     rl_add = (\<lambda>rr d ttl. Inr (rr\<lparr>rr_ttl := ttl, rr_items := rr_items rr @ [d]\<rparr>))\<rparr>"

definition merging_rrset_lib :: "unit rrset_lib" where
  "merging_rrset_lib = list_rrset_lib\<lparr>rl_find := (\<lambda>sec n c t u.
     case filter (\<lambda>i. name_eq (rr_name (sec ! i)) n \<and> rr_class (sec ! i) = c \<and> rr_type (sec ! i) = t) [0..<length sec] of
       i # _ \<Rightarrow> if u then rl_find list_rrset_lib sec n c t u else (i, sec)
     | [] \<Rightarrow> rl_find list_rrset_lib sec n c t u)\<rparr>"

lemma merging_rrset_lib_ok: "rrset_lib_ok merging_rrset_lib"
  unfolding rrset_lib_ok_def
proof (intro conjI allI impI)
  fix sec n c t u i sec1
  assume f: "rl_find merging_rrset_lib sec n c t u = (i, sec1)"
  let ?is = "filter (\<lambda>i. name_eq (rr_name (sec ! i)) n \<and> rr_class (sec ! i) = c \<and> rr_type (sec ! i) = t) [0..<length sec]"
  show "(\<not> u \<and> sec1 = sec \<and> i < length sec \<and> name_eq (rr_name (sec ! i)) n \<and> rr_class (sec ! i) = c \<and> rr_type (sec ! i) = t) \<or>
      ((u \<or> (\<forall>rr \<in> set sec. \<not> (name_eq (rr_name rr) n \<and> rr_class rr = c \<and> rr_type rr = t))) \<and> i = length sec \<and>
       sec1 = sec @ [\<lparr>rr_name = n, rr_ttl = 0, rr_class = c, rr_type = t, rr_items = []\<rparr>])"
  proof (cases ?is)
    case Nil
    then have "\<forall>i < length sec. \<not> (name_eq (rr_name (sec ! i)) n \<and> rr_class (sec ! i) = c \<and> rr_type (sec ! i) = t)"
      by (auto simp: filter_empty_conv)
    then have "\<forall>rr \<in> set sec. \<not> (name_eq (rr_name rr) n \<and> rr_class rr = c \<and> rr_type rr = t)"
      by (metis in_set_conv_nth)
    with f Nil show ?thesis by (auto simp: merging_rrset_lib_def list_rrset_lib_def)
  next
    case (Cons j js)
    then have "j \<in> set ?is" by simp
    then have "j < length sec \<and> name_eq (rr_name (sec ! j)) n \<and> rr_class (sec ! j) = c \<and> rr_type (sec ! j) = t"
      by simp
    with f Cons show ?thesis by (auto simp: merging_rrset_lib_def list_rrset_lib_def split: if_splits)
  qed
qed (auto simp: merging_rrset_lib_def list_rrset_lib_def)

definition sample_cares :: cares_result where
  "sample_cares = \<lparr>cs_answer = [\<lparr>cr_name = ''a.cn.'', cr_type = RT_A, cr_class = IN, cr_ttl = 60, cr_data = ARecordData ''1.1.1.1''\<rparr>,
     \<lparr>cr_name = ''A.cn.'', cr_type = RT_A, cr_class = IN, cr_ttl = 60, cr_data = ARecordData ''2.2.2.2''\<rparr>],
     cs_authority = [], cs_additional = []\<rparr>"


theorem aiodns_error_outcome_witness:
  "\<exists>m. fst (aiodns_async_query sample_lib list_rrset_lib (\<lambda>_. ''IN'') 0 (\<lambda>_ _ _ _. CaresError [ARES_ENOTFOUND])
     \<lparr>an_servers = [''1.1.1.1''], an_port = 53, an_tcp = False, an_timeout = 1\<rparr> sample_request False False
     \<lparr>ss_open = [], ss_next = 0\<rparr>) = Inr m \<and> msg_rcode m = RC_NXDOMAIN"
proof -
  let ?run = "aiodns_async_query sample_lib list_rrset_lib (\<lambda>_. ''IN'') 0 (\<lambda>_ _ _ _. CaresError [ARES_ENOTFOUND])
     \<lparr>an_servers = [''1.1.1.1''], an_port = 53, an_tcp = False, an_timeout = 1\<rparr> sample_request False False
     \<lparr>ss_open = [], ss_next = 0\<rparr>"
  obtain r s' where run: "?run = (r, s')" by fastforce
  have mk: "make_response sample_lib sample_request = Inr (sample_message 5 32768 0)"
    and q: "msg_question sample_request = [sample_question]"
    by (simp_all add: sample_lib_def sample_request_def sample_message_def)
  from aiodns_error_outcome [OF run q mk refl] run show ?thesis by (simp add: sample_message_def)
qed

end
