(* ===== verification/Tricky_Sockets.thy ===== *)
theory Tricky_Sockets
  imports Doh_Client
begin

text \<open>
  \<open>resolver/nameservers/_trick_tcp.py\<close>, \<open>_trick_udp.py\<close> and \<open>do53_custom.py\<close>: the sockets of the custom
  Do53 nameserver and its query.

  The sockets of the operating system are a list, a socket object holds an index into it. A socket
  has the bytes its peer reads in order, the urgent bytes it was sent, and whether it is open. What the
  system does at each call (how many bytes a \<open>send\<close> takes, which datagram comes next, an exception, the
  end of the time of \<open>fail_after\<close>) is an event; the lists of events are arguments, and an operation that
  has used up its events still waits, which is \<open>Hang\<close>.
\<close>

section \<open>Sockets of the system\<close>

record os_socket =
  os_stream :: bytes
  os_urgent :: bytes
  os_open :: bool

type_synonym os_net = "os_socket list"

definition fresh_socket :: os_socket where
  "fresh_socket = \<lparr>os_stream = [], os_urgent = [], os_open = True\<rparr>"

definition upd_socket :: "nat \<Rightarrow> (os_socket \<Rightarrow> os_socket) \<Rightarrow> os_net \<Rightarrow> os_net" where
  "upd_socket h f net = net[h := f (net ! h)]"

definition close_socket :: "nat \<Rightarrow> os_net \<Rightarrow> os_net" where
  "close_socket h = upd_socket h (\<lambda>k. k\<lparr>os_open := False\<rparr>)"

abbreviation OSError :: "string \<Rightarrow> py_exn" where
  "OSError m \<equiv> OtherError (''OSError: '' @ m)"

section \<open>Addresses of a connection\<close>

datatype sock_family = FAMILY_INET | FAMILY_INET6

text \<open>The family and the socket address of an entry of \<open>getaddrinfo\<close>, with the name it is for.\<close>

record addr_info =
  ai_family :: sock_family
  ai_host :: string
  ai_address :: string
  ai_port :: nat

definition addr_info_from_address :: "string \<Rightarrow> nat \<Rightarrow> string \<Rightarrow> addr_info res" where
  "addr_info_from_address host port address =
     andthen (ip_address address) (\<lambda>ip.
     Inr \<lparr>ai_family = (if ip_version ip = 6 then FAMILY_INET6 else FAMILY_INET), ai_host = host,
          ai_address = compressed ip, ai_port = port\<rparr>)"

fun addr_infos_of :: "string \<Rightarrow> nat \<Rightarrow> string list \<Rightarrow> addr_info list res" where
  "addr_infos_of host port [] = Inr []"
| "addr_infos_of host port (address # rest) =
     andthen (addr_info_from_address host port address) (\<lambda>i.
     andthen (addr_infos_of host port rest) (\<lambda>is. Inr (i # is)))"

text \<open>\<open>getaddrinfo\<close> is the lookup of the library.\<close>

definition resolve_addr_infos ::
  "(string \<Rightarrow> nat \<Rightarrow> addr_info list res) \<Rightarrow> string \<Rightarrow> nat \<Rightarrow> frozen_hosts \<Rightarrow> addr_info list res" where
  "resolve_addr_infos getaddrinfo host port hs =
     (case map_of (rev hs) (normalize_host host) of
        Some addresses \<Rightarrow> addr_infos_of host port addresses
      | None \<Rightarrow> getaddrinfo host port)"

definition local_addr_infos :: "string option \<Rightarrow> nat \<Rightarrow> addr_info list option res" where
  "local_addr_infos source source_port =
     (let has_source = source \<noteq> None \<and> source \<noteq> Some [] in
      if \<not> has_source \<and> source_port = 0 then Inr None
      else if has_source
      then andthen (addr_info_from_address [] source_port (the source)) (\<lambda>i. Inr (Some [i]))
      else Inr (Some [\<lparr>ai_family = FAMILY_INET, ai_host = [], ai_address = ''0.0.0.0'', ai_port = source_port\<rparr>,
                      \<lparr>ai_family = FAMILY_INET6, ai_host = [], ai_address = ''::'', ai_port = source_port\<rparr>]))"

section \<open>The stream socket\<close>

record tricky_stream =
  ts_hosts :: frozen_hosts
  ts_source :: "string option"
  ts_source_port :: nat
  ts_tricks :: bool
  ts_closed :: bool
  ts_socket :: "nat option"

definition new_stream :: "frozen_hosts \<Rightarrow> string option \<Rightarrow> nat \<Rightarrow> bool \<Rightarrow> tricky_stream" where
  "new_stream hs source source_port use_tricks = \<lparr>ts_hosts = hs, ts_source = source,
     ts_source_port = source_port, ts_tricks = use_tricks, ts_closed = False, ts_socket = None\<rparr>"

type_synonym 'a stream_act = "(tricky_stream \<times> os_net, 'a) act"

text \<open>
  \<open>connect\<close>. \<open>start\<close> is \<open>aiohappyeyeballs.start_connection\<close> under \<open>fail_after\<close>: it gives a connected
  socket or raises, and leaves no other socket open.
\<close>

definition stream_connect ::
  "(string \<Rightarrow> nat \<Rightarrow> addr_info list res) \<Rightarrow> (addr_info list \<Rightarrow> addr_info list option \<Rightarrow> unit res) \<Rightarrow>
   string \<times> nat \<Rightarrow> unit stream_act" where
  "stream_connect getaddrinfo start address = (\<lambda>(t, net).
     case andthen (resolve_addr_infos getaddrinfo (fst address) (snd address) (ts_hosts t)) (\<lambda>infos.
          andthen (local_addr_infos (ts_source t) (ts_source_port t)) (\<lambda>locals.
          start infos locals)) of
       Inl e \<Rightarrow> (Inl e, (t, net))
     | Inr _ \<Rightarrow> (Inr (), (t\<lparr>ts_socket := Some (length net)\<rparr>, net @ [fresh_socket])))"

definition require_socket :: "tricky_stream \<Rightarrow> nat res" where
  "require_socket t = (case ts_socket t of None \<Rightarrow> Inl (OSError ''TCP socket is not connected'') | Some h \<Rightarrow> Inr h)"

datatype send_event = Takes nat | SendFails py_exn

text \<open>The loop of \<open>_send\<close>: a \<open>send\<close> takes no more than it is offered.\<close>

fun send_loop :: "nat \<Rightarrow> bytes \<Rightarrow> nat \<Rightarrow> send_event list \<Rightarrow> os_net \<Rightarrow> unit res \<times> os_net" where
  "send_loop h what total_sent [] net = (if total_sent < length what then Inl Hang else Inr (), net)"
| "send_loop h what total_sent (ev # events) net =
     (if \<not> total_sent < length what then (Inr (), net)
      else case ev of
        SendFails e \<Rightarrow> (Inl e, net)
      | Takes n \<Rightarrow>
          (let chunk = take n (drop total_sent what) in
           if length chunk = 0 then (Inl (OSError ''Socket connection broken''), net)
           else send_loop h what (total_sent + length chunk) events
                  (upd_socket h (\<lambda>k. k\<lparr>os_stream := os_stream k @ chunk\<rparr>) net)))"

text \<open>
  The urgent send: the last byte of what is sent with \<open>MSG_OOB\<close> is not part of the stream. \<open>oob\<close> is the
  exception of this call, if it raises.
\<close>

definition stream_sendall :: "py_exn option \<Rightarrow> send_event list \<Rightarrow> bytes \<Rightarrow> unit stream_act" where
  "stream_sendall oob events what = (\<lambda>(t, net).
     case require_socket t of Inl e \<Rightarrow> (Inl e, (t, net))
     | Inr h \<Rightarrow>
         if ts_tricks t \<and> length what > 32 then
           (case oob of Some e \<Rightarrow> (Inl e, (t, net))
            | None \<Rightarrow>
                (let data = take 16 what @ [0];
                     net1 = upd_socket h (\<lambda>k. k\<lparr>os_stream := os_stream k @ butlast data,
                                               os_urgent := os_urgent k @ [last data]\<rparr>) net in
                 case send_loop h (drop 16 what) 0 events net1 of (r, net2) \<Rightarrow> (r, (t, net2))))
         else (case send_loop h what 0 events net of (r, net2) \<Rightarrow> (r, (t, net2))))"

definition stream_recv :: "bytes res \<Rightarrow> nat \<Rightarrow> bytes stream_act" where
  "stream_recv incoming n = (\<lambda>(t, net). case require_socket t of Inl e \<Rightarrow> (Inl e, (t, net))
     | Inr h \<Rightarrow> (andthen incoming (\<lambda>bs. Inr (take n bs)), (t, net)))"

definition stream_close :: "unit stream_act" where
  "stream_close = (\<lambda>(t, net).
     if ts_closed t then (Inr (), (t, net))
     else (Inr (), (t\<lparr>ts_closed := True, ts_socket := None\<rparr>,
                    case ts_socket t of None \<Rightarrow> net | Some h \<Rightarrow> close_socket h net)))"

text \<open>\<open>peer\<close> is the answer of the system.\<close>

definition is_os_error :: "py_exn \<Rightarrow> bool" where
  "is_os_error e = (case e of OtherError m \<Rightarrow> prefix ''OSError: '' m | TimeoutError _ \<Rightarrow> True | _ \<Rightarrow> False)"

definition stream_getpeername :: "(string \<times> nat) res \<Rightarrow> (string \<times> nat) option stream_act" where
  "stream_getpeername peer = (\<lambda>(t, net). case ts_socket t of None \<Rightarrow> (Inr None, (t, net))
     | Some h \<Rightarrow> (case peer of Inr a \<Rightarrow> Inr (Some a)
                 | Inl e \<Rightarrow> if is_os_error e then Inr None else Inl e, (t, net)))"

definition stream_getsockname :: "(string \<times> nat) res \<Rightarrow> (string \<times> nat) stream_act" where
  "stream_getsockname name = (\<lambda>(t, net). (andthen (require_socket t) (\<lambda>_. name), (t, net)))"

section \<open>The datagram socket\<close>

record tricky_datagram =
  td_socket :: nat
  td_closed :: bool

type_synonym 'a datagram_act = "(tricky_datagram \<times> os_net, 'a) act"

definition new_datagram :: "os_net \<Rightarrow> tricky_datagram \<times> os_net" where
  "new_datagram net = (\<lparr>td_socket = length net, td_closed = False\<rparr>, net @ [fresh_socket])"

datatype datagram_event = Arrives bytes "string \<times> nat" | RecvFails py_exn

definition accepted_datagram :: "bytes \<Rightarrow> bool" where
  "accepted_datagram data \<longleftrightarrow> length data > 32 \<and> take 2 (drop 10 data) = [0, 1]"

text \<open>
  \<open>_recv\<close>: five datagrams at most. \<open>fat\<close> is what the attribute \<open>anyio.FailAfterTimeout\<close> stands for: \<open>None\<close>
  when the library has no such name, and then looking it up raises.
\<close>

definition attribute_error :: py_exn where
  "attribute_error = OtherError ''AttributeError: FailAfterTimeout''"

fun recv_loop ::
  "py_exn option \<Rightarrow> nat \<Rightarrow> datagram_event list \<Rightarrow> (bytes \<times> string \<times> nat) res" where
  "recv_loop fat 0 events = (case fat of Some e \<Rightarrow> Inl e | None \<Rightarrow> Inl attribute_error)"
| "recv_loop fat (Suc n) [] = Inl Hang"
| "recv_loop fat (Suc n) (Arrives data addr # events) =
     (if accepted_datagram data then Inr (data, addr) else recv_loop fat n events)"
| "recv_loop fat (Suc n) (RecvFails e # events) = Inl e"

fun timed_out :: "py_exn \<Rightarrow> bool" where
  "timed_out (TimeoutError _) = True"
| "timed_out _ = False"

text \<open>The classes of an \<open>except\<close> clause are looked up when an exception reaches it.\<close>

definition datagram_recvfrom ::
  "py_exn option \<Rightarrow> datagram_event list \<Rightarrow> (bytes \<times> string \<times> nat) res" where
  "datagram_recvfrom fat events = (case recv_loop fat 5 events of
     Inr d \<Rightarrow> Inr d
   | Inl e \<Rightarrow> if e = Hang then Inl Hang
       else (case fat of None \<Rightarrow> Inl attribute_error
         | Some f \<Rightarrow> if e = f \<or> timed_out e then Inl (TimeoutError ''UDP recvfrom timeout'') else Inl e))"

definition datagram_close :: "unit datagram_act" where
  "datagram_close = (\<lambda>(d, net).
     if td_closed d then (Inr (), (d, net))
     else (Inr (), (d\<lparr>td_closed := True\<rparr>, close_socket (td_socket d) net)))"

section \<open>\<open>do53_custom.py\<close>\<close>

definition source_tuple :: "sock_family \<Rightarrow> string option \<Rightarrow> nat \<Rightarrow> (string \<times> nat) option" where
  "source_tuple af source source_port =
     (if (source = None \<or> source = Some []) \<and> source_port = 0 then None
      else Some (case source of Some s \<Rightarrow> s
           | None \<Rightarrow> (case af of FAMILY_INET \<Rightarrow> ''0.0.0.0'' | FAMILY_INET6 \<Rightarrow> ''::''), source_port))"

record do53_custom =
  dc_address :: string
  dc_port :: nat
  dc_tricks :: bool
  dc_hosts :: frozen_hosts

definition make_do53_custom :: "string \<Rightarrow> nat \<Rightarrow> bool \<Rightarrow> (string \<times> string list) list option \<Rightarrow> do53_custom" where
  "make_do53_custom address port use_tricks hs =
     \<lparr>dc_address = address, dc_port = port, dc_tricks = use_tricks, dc_hosts = freeze_hosts hs\<rparr>"

text \<open>
  What the query calls: the name lookup, the connection, \<open>dns.asyncquery.tcp\<close> and \<open>udp\<close> on the socket
  they are given, the query of the class it extends, \<open>dns.inet.af_for_address\<close>, and the outcomes of
  making and of binding a datagram socket.
\<close>

record do53_env =
  de_getaddrinfo :: "string \<Rightarrow> nat \<Rightarrow> addr_info list res"
  de_start :: "addr_info list \<Rightarrow> addr_info list option \<Rightarrow> unit res"
  de_tcp :: "message \<Rightarrow> message stream_act"
  de_udp :: "message \<Rightarrow> message datagram_act"
  de_plain :: "message \<Rightarrow> bool \<Rightarrow> message res"
  de_family :: "string \<Rightarrow> sock_family res"
  de_socket :: "sock_family \<Rightarrow> unit res"
  de_bind :: "string \<times> nat \<Rightarrow> unit res"

definition do53_tcp_query :: "do53_env \<Rightarrow> do53_custom \<Rightarrow> string option \<Rightarrow> nat \<Rightarrow> message \<Rightarrow> (os_net, message) act" where
  "do53_tcp_query E ns source source_port req = (\<lambda>net.
     case act_finally
         (act_bind (stream_connect (de_getaddrinfo E) (de_start E) (dc_address ns, dc_port ns)) (\<lambda>_. de_tcp E req))
         stream_close (new_stream (dc_hosts ns) source source_port (dc_tricks ns), net) of
       (r, (t, net')) \<Rightarrow> (r, net'))"

definition do53_udp_query :: "do53_env \<Rightarrow> do53_custom \<Rightarrow> string option \<Rightarrow> nat \<Rightarrow> message \<Rightarrow> (os_net, message) act" where
  "do53_udp_query E ns source source_port req = (\<lambda>net.
     case de_family E (dc_address ns) of Inl e \<Rightarrow> (Inl e, net)
     | Inr af \<Rightarrow>
       (case de_socket E af of Inl e \<Rightarrow> (Inl e, net)
        | Inr _ \<Rightarrow>
          (case act_finally
              (act_bind (act_lift (case source_tuple af source source_port of
                   None \<Rightarrow> Inr () | Some address \<Rightarrow> de_bind E address))
                 (\<lambda>_. de_udp E req))
              datagram_close (new_datagram net) of
            (r, (d, net')) \<Rightarrow> (r, net'))))"

definition do53_async_query ::
  "do53_env \<Rightarrow> do53_custom \<Rightarrow> string option \<Rightarrow> nat \<Rightarrow> bool \<Rightarrow> message \<Rightarrow> (os_net, message) act" where
  "do53_async_query E ns source source_port max_size req =
     (if max_size then do53_tcp_query E ns source source_port req
      else if \<not> dc_tricks ns then act_lift (de_plain E req max_size)
      else do53_udp_query E ns source source_port req)"

section \<open>What a send delivers\<close>

lemma upd_socket_simps [simp]:
  "length (upd_socket h f net) = length net"
  "h < length net \<Longrightarrow> upd_socket h f net ! h = f (net ! h)"
  "h \<noteq> h' \<Longrightarrow> upd_socket h f net ! h' = net ! h'"
  by (simp_all add: upd_socket_def)

lemma send_loop_stream:
  assumes "send_loop h what n events net = (r, net')" and "h < length net" and "n \<le> length what"
  shows "\<exists>sent. prefix sent (drop n what) \<and> os_stream (net' ! h) = os_stream (net ! h) @ sent \<and>
     (r = Inr () \<longrightarrow> sent = drop n what) \<and> length net' = length net \<and> (\<forall>j. os_open (net' ! j) = os_open (net ! j))"
  using assms
proof (induction h what n events net arbitrary: net' rule: send_loop.induct)
  case (2 h what n ev events net)
  show ?case
  proof (cases "n < length what \<and> (\<exists>k. ev = Takes k \<and> length (take k (drop n what)) \<noteq> 0)")
    case False
    then show ?thesis using 2(2-) by (auto simp: Let_def split: if_splits send_event.splits)
  next
    case True
    then obtain k where ev: "ev = Takes k" and k: "length (take k (drop n what)) \<noteq> 0" and n: "n < length what" by auto
    let ?chunk = "take k (drop n what)"
    let ?net1 = "upd_socket h (\<lambda>s. s\<lparr>os_stream := os_stream s @ ?chunk\<rparr>) net"
    have run: "send_loop h what (n + length ?chunk) events ?net1 = (r, net')"
      using 2(2) ev k n by (simp add: Let_def)
    have le: "n + length ?chunk \<le> length what" using n by simp
    obtain sent where s: "prefix sent (drop (n + length ?chunk) what)"
        "os_stream (net' ! h) = os_stream (?net1 ! h) @ sent"
        "r = Inr () \<longrightarrow> sent = drop (n + length ?chunk) what" "length net' = length ?net1"
        "\<forall>j. os_open (net' ! j) = os_open (?net1 ! j)"
      using 2(1) [OF _ ev refl _ run] n k 2(3) le by auto
    have split: "drop n what = ?chunk @ drop (n + length ?chunk) what"
    proof (cases "k \<le> length (drop n what)")
      case True
      then have "length ?chunk = k" by simp
      then show ?thesis by (metis append_take_drop_id drop_drop add.commute)
    qed simp
    have o: "os_open (?net1 ! j) = os_open (net ! j)" for j
      using 2(3) by (cases "j = h") simp_all
    show ?thesis
    proof (intro exI [of _ "?chunk @ sent"] conjI)
      show "prefix (?chunk @ sent) (drop n what)" using s(1) by (subst split) simp
      show "os_stream (net' ! h) = os_stream (net ! h) @ ?chunk @ sent" using s(2) 2(3) by simp
      show "r = Inr () \<longrightarrow> ?chunk @ sent = drop n what" using s(3) split by simp
    qed (use s(4,5) o in simp_all)
  qed
qed (auto split: if_splits)

text \<open>C40: When \<open>sendall\<close> returns, what the peer reads in order is exactly what was sent: the urgent byte
  after the first sixteen, with which a middlebox is tricked, is not in the stream. When it fails the
  peer has a prefix.\<close>

theorem stream_sendall_delivers:
  assumes "stream_sendall oob events what (t, net) = (r, (t', net'))" and "ts_socket t = Some h" and "h < length net"
  shows "\<exists>sent. prefix sent what \<and> os_stream (net' ! h) = os_stream (net ! h) @ sent \<and> (r = Inr () \<longrightarrow> sent = what)"
proof -
  have req: "require_socket t = Inr h" using assms(2) by (simp add: require_socket_def)
  show ?thesis
  proof (cases "ts_tricks t \<and> length what > 32")
    case False
    then have "send_loop h what 0 events net = (r, net')"
      using assms(1) req by (auto simp: stream_sendall_def split: prod.splits)
    from send_loop_stream [OF this assms(3)] show ?thesis by auto
  next
    case True
    let ?net1 = "upd_socket h (\<lambda>k. k\<lparr>os_stream := os_stream k @ take 16 what, os_urgent := os_urgent k @ [0]\<rparr>) net"
    show ?thesis
    proof (cases oob)
      case (Some e)
      then show ?thesis using assms(1) req True by (intro exI [of _ "[]"]) (auto simp: stream_sendall_def)
    next
      case None
      then have "send_loop h (drop 16 what) 0 events ?net1 = (r, net')"
        using assms(1) req True by (auto simp: stream_sendall_def Let_def split: prod.splits)
      from send_loop_stream [OF this] assms(3) obtain sent where
        s: "prefix sent (drop 16 what)" "os_stream (net' ! h) = os_stream (?net1 ! h) @ sent"
          "r = Inr () \<longrightarrow> sent = drop 16 what" by auto
      have "prefix (take 16 what @ sent) (take 16 what @ drop 16 what)"
        using s(1) by (simp only: same_prefix_prefix)
      then have "prefix (take 16 what @ sent) what" by (simp only: append_take_drop_id)
      then show ?thesis using s assms(3) by (intro exI [of _ "take 16 what @ sent"]) auto
    qed
  qed
qed

text \<open>Enough sends of at least one byte end the loop.\<close>

lemma send_loop_ends:
  assumes "\<forall>ev \<in> set events. \<exists>k. ev = Takes (Suc k)" and "length what - n \<le> length events"
  shows "fst (send_loop h what n events net) = Inr ()"
  using assms
proof (induction h what n events net rule: send_loop.induct)
  case (2 h what n ev events net)
  then obtain k where ev: "ev = Takes (Suc k)" by auto
  show ?case
  proof (cases "n < length what")
    case True
    then have "length (take (Suc k) (drop n what)) \<noteq> 0" by simp
    moreover from this have "length what - (n + length (take (Suc k) (drop n what))) \<le> length events"
      using 2(3) by auto
    ultimately show ?thesis using 2(1) [OF _ ev refl] 2(2) ev True by (simp add: Let_def)
  qed simp
qed simp

lemma recv_loop_first:
  "recv_loop fat n events = Inr (data, addr) \<Longrightarrow>
     accepted_datagram data \<and> (\<exists>us vs. events = us @ Arrives data addr # vs \<and> length us < n \<and>
       (\<forall>u \<in> set us. \<exists>d a. u = Arrives d a \<and> \<not> accepted_datagram d))"
proof (induction fat n events rule: recv_loop.induct)
  case (3 fat n d a events)
  show ?case
  proof (cases "accepted_datagram d")
    case True
    with 3(2) have "accepted_datagram data" "Arrives d a # events = [] @ Arrives data addr # events" by auto
    then show ?thesis by (metis empty_iff list.set(1) list.size(3) zero_less_Suc)
  next
    case False
    with 3 obtain us vs where "accepted_datagram data" "events = us @ Arrives data addr # vs" "length us < n"
      "\<forall>u \<in> set us. \<exists>d a. u = Arrives d a \<and> \<not> accepted_datagram d" by auto
    with False have "accepted_datagram data \<and> Arrives d a # events = (Arrives d a # us) @ Arrives data addr # vs \<and>
        length (Arrives d a # us) < Suc n \<and> (\<forall>u \<in> set (Arrives d a # us). \<exists>d a. u = Arrives d a \<and> \<not> accepted_datagram d)"
      by auto
    then show ?thesis by blast
  qed
qed (auto split: option.splits)

text \<open>\<open>recvfrom\<close> gives a datagram only if it is longer than 32 bytes and has one additional record,
  and then the first such of at most five.\<close>

theorem datagram_recvfrom_first:
  assumes "datagram_recvfrom fat events = Inr (data, addr)"
  shows "accepted_datagram data \<and> (\<exists>us vs. events = us @ Arrives data addr # vs \<and> length us < 5 \<and>
     (\<forall>u \<in> set us. \<exists>d a. u = Arrives d a \<and> \<not> accepted_datagram d))"
  using assms recv_loop_first [of fat 5 events data addr]
  by (auto simp: datagram_recvfrom_def split: sum.splits option.splits if_splits)

text \<open>With a library that has no \<open>FailAfterTimeout\<close> every failure of \<open>recvfrom\<close>, the end of its time
  and a cancellation included, leaves it as the \<open>AttributeError\<close> of its own \<open>except\<close> clause.\<close>

theorem datagram_timeout_is_attribute_error:
  assumes "datagram_recvfrom None events = Inl e"
  shows "e = Hang \<or> e = attribute_error"
  using assms by (auto simp: datagram_recvfrom_def split: sum.splits if_splits)

theorem datagram_timeout_is_attribute_error_witness:
  "datagram_recvfrom None [RecvFails (TimeoutError [])] = Inl attribute_error"
proof -
  obtain e where e: "datagram_recvfrom None [RecvFails (TimeoutError [])] = Inl e" "e \<noteq> Hang"
    by (simp add: datagram_recvfrom_def eval_nat_numeral attribute_error_def)
  with datagram_timeout_is_attribute_error [OF e(1)] show ?thesis by simp
qed

section \<open>No socket is left open\<close>

definition open_sockets :: "os_net \<Rightarrow> nat set" where
  "open_sockets net = {j. j < length net \<and> os_open (net ! j)}"

text \<open>
  What the exchanges of the library are relied on to do: they use the socket they are given, and neither
  open nor close any.
\<close>

definition exchanges_ok :: "do53_env \<Rightarrow> bool" where
  "exchanges_ok E \<longleftrightarrow>
     (\<forall>req t net r t' net'. de_tcp E req (t, net) = (r, (t', net')) \<longrightarrow>
        ts_socket t' = ts_socket t \<and> ts_closed t' = ts_closed t \<and> length net' = length net \<and>
        open_sockets net' = open_sockets net) \<and>
     (\<forall>req d net r d' net'. de_udp E req (d, net) = (r, (d', net')) \<longrightarrow>
        d' = d \<and> length net' = length net \<and> open_sockets net' = open_sockets net)"

lemma open_sockets_new: "open_sockets (net @ [fresh_socket]) = insert (length net) (open_sockets net)"
  by (auto simp: open_sockets_def nth_append fresh_socket_def less_Suc_eq)

lemma open_sockets_close: "h < length net \<Longrightarrow> open_sockets (close_socket h net) = open_sockets net - {h}"
  by (auto simp: open_sockets_def close_socket_def upd_socket_def nth_list_update split: if_splits)

lemma stream_connect_opens:
  assumes "stream_connect g st address (t, net) = (r, (t', net'))" and "ts_socket t = None"
  shows "ts_closed t' = ts_closed t \<and>
    (if r = Inr () then ts_socket t' = Some (length net) \<and> net' = net @ [fresh_socket] else t' = t \<and> net' = net)"
  using assms by (auto simp: stream_connect_def split: sum.splits)

text \<open>Whatever the outcome of a query, over TCP or UDP, every socket it opened is closed again, and
  no other is.\<close>

theorem do53_query_closes_sockets:
  assumes "do53_async_query E ns source source_port max_size req net = (r, net')" and "r \<noteq> Inl Hang"
    and ok: "exchanges_ok E"
  shows "open_sockets net' = open_sockets net"
proof -
  have fresh: "length net \<notin> open_sockets net" by (simp add: open_sockets_def)
  consider (tcp) "do53_tcp_query E ns source source_port req net = (r, net')" | (plain) "net' = net"
    | (udp) "do53_udp_query E ns source source_port req net = (r, net')"
    using assms(1) by (auto simp: do53_async_query_def act_defs split: if_splits)
  then show ?thesis
  proof cases
    case tcp
    let ?t = "new_stream (dc_hosts ns) source source_port (dc_tricks ns)"
    obtain rc t1 net1 where c: "stream_connect (de_getaddrinfo E) (de_start E) (dc_address ns, dc_port ns) (?t, net) =
        (rc, (t1, net1))" by (metis surj_pair)
    have t: "ts_socket ?t = None" "ts_closed ?t = False" by (simp_all add: new_stream_def)
    note op = stream_connect_opens [OF c t(1)]
    show ?thesis
    proof (cases rc)
      case (Inl e)
      with op have "t1 = ?t" "net1 = net" by auto
      with tcp c Inl t show ?thesis
        by (auto simp: do53_tcp_query_def act_finally_def act_bind_apply stream_close_def split: if_splits)
    next
      case (Inr u)
      with op t(2) have t1: "ts_socket t1 = Some (length net)" "ts_closed t1 = False" and n1: "net1 = net @ [fresh_socket]"
        by auto
      obtain rx t2 net2 where x: "de_tcp E req (t1, net1) = (rx, (t2, net2))" by (metis surj_pair)
      with ok have k: "ts_socket t2 = Some (length net)" "ts_closed t2 = False" "length net2 = Suc (length net)"
          "open_sockets net2 = insert (length net) (open_sockets net)"
        unfolding exchanges_ok_def using t1 n1 open_sockets_new by (metis length_append_singleton)+
      have "rx \<noteq> Inl Hang" using tcp c Inr x assms(2)
        by (auto simp: do53_tcp_query_def act_finally_def act_bind_apply)
      then have "net' = close_socket (length net) net2" using tcp c Inr x k
        by (auto simp: do53_tcp_query_def act_finally_def act_bind_apply stream_close_def)
      then show ?thesis using k fresh by (simp add: open_sockets_close)
    qed
  next
    case udp
    show ?thesis
    proof (cases "\<exists>af. de_family E (dc_address ns) = Inr af \<and> de_socket E af = Inr ()")
      case False
      then have "net' = net" using udp by (auto simp: do53_udp_query_def split: sum.splits)
      then show ?thesis by simp
    next
      case True
      then obtain af where af: "de_family E (dc_address ns) = Inr af" "de_socket E af = Inr ()" by blast
      let ?d = "\<lparr>td_socket = length net, td_closed = False\<rparr>" and ?n = "net @ [fresh_socket]"
      let ?body = "act_bind (act_lift (case source_tuple af source source_port of None \<Rightarrow> Inr ()
          | Some address \<Rightarrow> de_bind E address)) (\<lambda>_. de_udp E req)"
      obtain rx d2 net2 where x: "?body (?d, ?n) = (rx, (d2, net2))" by (metis surj_pair)
      have k: "d2 = ?d \<and> length net2 = Suc (length net) \<and> open_sockets net2 = insert (length net) (open_sockets net)"
      proof (cases "de_udp E req (?d, ?n) = (rx, (d2, net2))")
        case True
        with ok show ?thesis unfolding exchanges_ok_def using open_sockets_new
          by (metis length_append_singleton)
      next
        case False
        with x have "d2 = ?d" "net2 = ?n"
          by (auto simp: act_bind_apply act_defs split: sum.splits)
        with open_sockets_new show ?thesis by simp
      qed
      have "rx \<noteq> Inl Hang" using udp af x assms(2)
        by (auto simp: do53_udp_query_def act_finally_def new_datagram_def)
      then have "net' = close_socket (length net) net2" using udp af x k
        by (auto simp: do53_udp_query_def act_finally_def new_datagram_def datagram_close_def)
      then show ?thesis using k fresh by (simp add: open_sockets_close)
    qed
  qed simp
qed

section \<open>Concrete runs\<close>

definition sample_stream :: tricky_stream where
  "sample_stream = (new_stream [] None 0 True)\<lparr>ts_socket := Some 0\<rparr>"

theorem stream_sendall_delivers_witness:
  "os_stream (snd (snd (stream_sendall None [Takes 20, Takes 20] (replicate 36 7) (sample_stream, [fresh_socket]))) ! 0)
     = replicate 36 7"
proof -
  let ?run = "stream_sendall None [Takes 20, Takes 20] (replicate 36 7) (sample_stream, [fresh_socket])"
  obtain r t' net' where run: "?run = (r, (t', net'))" by (metis surj_pair)
  have "fst ?run = Inr ()" by code_simp
  with run have "r = Inr ()" by simp
  with stream_sendall_delivers [OF run, of 0] run show ?thesis
    by (simp add: sample_stream_def fresh_socket_def)
qed

theorem datagram_recvfrom_first_witness:
  "\<exists>us vs. [Arrives (replicate 40 0) (''1.1.1.1'', 53), Arrives (replicate 11 0 @ [1] @ replicate 30 0) (''1.1.1.1'', 53)] =
     us @ Arrives (replicate 11 0 @ [1] @ replicate 30 0) (''1.1.1.1'', 53) # vs \<and> length us < 5"
proof -
  let ?evs = "[Arrives (replicate 40 0) (''1.1.1.1'', 53), Arrives (replicate 11 0 @ [1] @ replicate 30 0) (''1.1.1.1'', 53)]"
  have "datagram_recvfrom None ?evs = Inr (replicate 11 0 @ [1] @ replicate 30 0, ''1.1.1.1'', 53)" by code_simp
  from datagram_recvfrom_first [OF this] show ?thesis by blast
qed

definition sample_do53_env :: do53_env where
  "sample_do53_env = \<lparr>de_getaddrinfo = (\<lambda>h p. Inr []), de_start = (\<lambda>is ls. Inr ()),
     de_tcp = (\<lambda>m. act_ret m), de_udp = (\<lambda>m. act_raise (TimeoutError [])), de_plain = (\<lambda>m b. Inr m),
     de_family = (\<lambda>a. Inr FAMILY_INET), de_socket = (\<lambda>f. Inr ()), de_bind = (\<lambda>a. Inr ())\<rparr>"

lemma sample_exchanges_ok: "exchanges_ok sample_do53_env"
  by (auto simp: exchanges_ok_def sample_do53_env_def act_defs)

theorem do53_query_closes_sockets_witness:
  "open_sockets (snd (do53_async_query sample_do53_env (make_do53_custom ''1.1.1.1'' 53 True None) None 0 False
     (sample_message 1 0 0) [])) = {}"
proof -
  let ?run = "do53_async_query sample_do53_env (make_do53_custom ''1.1.1.1'' 53 True None) None 0 False
     (sample_message 1 0 0) []"
  obtain r net' where run: "?run = (r, net')" by (metis surj_pair)
  have "fst ?run = Inl (TimeoutError [])"
    by (simp add: do53_async_query_def make_do53_custom_def do53_udp_query_def sample_do53_env_def new_datagram_def
        act_finally_def act_bind_apply act_defs source_tuple_def datagram_close_def)
  with run have "r \<noteq> Inl Hang" by auto
  from do53_query_closes_sockets [OF run this sample_exchanges_ok] run show ?thesis
    by (simp add: open_sockets_def)
qed

end
