(* ===== verification/Nameservers.thy ===== *)
theory Nameservers
  imports Aiodns Tricky_Sockets Dnscrypt
begin

text \<open>
  \<open>resolver/nameservers/__init__.py\<close> with the constructors of the modules it calls (\<open>do53.py\<close>, \<open>doh.py\<close>,
  \<open>dot.py\<close>, \<open>doq.py\<close> and the \<open>build_nameserver\<close> of the others): from the configuration of a nameserver to
  its object, and the end of the shared sessions of all modules.
\<close>

section \<open>Objects\<close>

text \<open>What the DoH clients keep of their configuration (\<open>BaseAsyncDoHNameserver\<close>).\<close>

record doh_nameserver =
  dh_url :: string
  dh_verify :: verify
  dh_want_get :: bool
  dh_http_version :: http_version
  dh_http_host :: "string option"
  dh_server_hostname :: "string option"

text \<open>
  The nameservers; the classes of dnspython (Do53, DoH, DoT and DoQ) by the arguments of their
  constructors.
\<close>

datatype nameserver_object =
    AiodnsObject aiodns_nameserver
  | Do53Object string int
  | Do53CustomObject do53_custom
  | DoHObject string "string option" verify bool http_version
  | DoHCustomObject string "string option" verify bool http_version
  | DoHHttpxObject doh_nameserver
  | DoHAiohttpObject doh_nameserver "string list" frozen_hosts
  | DoHCurlObject doh_nameserver "string option" "string list"
  | DoTObject string int "string option" verify
  | DoQObject string int "string option" verify
  | DNSCryptObject crypt_nameserver

definition build_aiodns :: "string list \<Rightarrow> int \<Rightarrow> bool \<Rightarrow> real \<Rightarrow> nameserver_object" where
  "build_aiodns servers port tcp timeout =
     AiodnsObject \<lparr>an_servers = servers, an_port = nat port, an_tcp = tcp, an_timeout = timeout\<rparr>"

definition build_do53 :: "string \<Rightarrow> int \<Rightarrow> nameserver_object" where
  "build_do53 address port = Do53Object address port"

definition build_do53_custom :: "string \<Rightarrow> int \<Rightarrow> bool \<Rightarrow> (string \<times> string list) list \<Rightarrow> nameserver_object" where
  "build_do53_custom address port use_tricks hs =
     Do53CustomObject (make_do53_custom address (nat port) use_tricks (Some hs))"

definition build_doh :: "string \<Rightarrow> string option \<Rightarrow> verify \<Rightarrow> bool \<Rightarrow> http_version \<Rightarrow> nameserver_object" where
  "build_doh url bootstrap_address verify want_get version = DoHObject url bootstrap_address verify want_get version"

definition build_doh_custom :: "string \<Rightarrow> string option \<Rightarrow> verify \<Rightarrow> bool \<Rightarrow> http_version \<Rightarrow> nameserver_object" where
  "build_doh_custom url bootstrap_address verify want_get version =
     DoHCustomObject url bootstrap_address verify want_get version"

definition build_doh_httpx ::
  "string \<Rightarrow> bool \<Rightarrow> http_version \<Rightarrow> string option \<Rightarrow> verify \<Rightarrow> string option \<Rightarrow> nameserver_object" where
  "build_doh_httpx url want_get version http_host verify server_hostname =
     DoHHttpxObject \<lparr>dh_url = url, dh_verify = verify, dh_want_get = want_get, dh_http_version = version,
       dh_http_host = http_host, dh_server_hostname = server_hostname\<rparr>"

definition build_doh_aiohttp ::
  "string \<Rightarrow> bool \<Rightarrow> http_version \<Rightarrow> string option \<Rightarrow> verify \<Rightarrow> string option \<Rightarrow> string list \<Rightarrow>
   (string \<times> string list) list \<Rightarrow> nameserver_object" where
  "build_doh_aiohttp url want_get version http_host verify server_hostname boot hs =
     DoHAiohttpObject \<lparr>dh_url = url, dh_verify = verify, dh_want_get = want_get, dh_http_version = version,
       dh_http_host = http_host, dh_server_hostname = server_hostname\<rparr> boot (freeze_hosts (Some hs))"

text \<open>The entries for curl are made when the object is: a wrong address or port of the URL raises here.\<close>

definition build_doh_curl ::
  "string \<Rightarrow> bool \<Rightarrow> http_version \<Rightarrow> string option \<Rightarrow> bool \<Rightarrow> string option \<Rightarrow>
   (string \<times> string list) list \<Rightarrow> nameserver_object res" where
  "build_doh_curl url want_get version http_host verify fp hs =
     andthen (url_port url) (\<lambda>port.
     andthen (curl_resolve_entries (freeze_hosts (Some hs)) port) (\<lambda>entries.
     Inr (DoHCurlObject \<lparr>dh_url = url, dh_verify = VerifyFlag verify, dh_want_get = want_get,
       dh_http_version = version, dh_http_host = http_host, dh_server_hostname = None\<rparr> fp entries)))"

definition build_dot :: "string \<Rightarrow> int \<Rightarrow> string option \<Rightarrow> verify \<Rightarrow> nameserver_object" where
  "build_dot address port hostname verify = DoTObject address port hostname verify"

definition build_doq :: "string \<Rightarrow> int \<Rightarrow> string option \<Rightarrow> verify \<Rightarrow> nameserver_object" where
  "build_doq address port server_hostname verify = DoQObject address port server_hostname verify"

text \<open>\<open>crypt\<close> is the constructor of \<open>DNSCryptNameserver\<close>, which asks the server for its certificates.\<close>

type_synonym crypt_maker = "string \<Rightarrow> string \<Rightarrow> string \<Rightarrow> string option \<Rightarrow> nat \<Rightarrow> real \<Rightarrow> crypt_nameserver res"

fun build_nameserver ::
  "crypt_maker \<Rightarrow> nameserver_config \<Rightarrow> string list option \<Rightarrow> string option \<Rightarrow> (string \<times> string list) list option \<Rightarrow>
   nameserver_object res" where
  "build_nameserver crypt (AiodnsNameserver n servers port tcp timeout) boot fp hs =
     Inr (build_aiodns servers port tcp timeout)"
| "build_nameserver crypt (Do53Nameserver n address port) boot fp hs = Inr (build_do53 address port)"
| "build_nameserver crypt (Do53CustomNameserver n address port use_tricks) boot fp hs =
     Inr (build_do53_custom address port use_tricks (case hs of None \<Rightarrow> [] | Some h \<Rightarrow> h))"
| "build_nameserver crypt (DoHNameserver n url bootstrap_address verify want_get version) boot fp hs =
     Inr (build_doh url bootstrap_address verify want_get version)"
| "build_nameserver crypt (DoHCustomNameserver n url bootstrap_address verify want_get version) boot fp hs =
     Inr (build_doh_custom url bootstrap_address verify want_get version)"
| "build_nameserver crypt (DoHHttpxNameserver n url want_get version http_host verify server_hostname) boot fp hs =
     Inr (build_doh_httpx url want_get version http_host verify server_hostname)"
| "build_nameserver crypt (DoHAiohttpNameserver n url want_get version http_host verify server_hostname) boot fp hs =
     Inr (build_doh_aiohttp url want_get version http_host verify server_hostname
       (case boot of None \<Rightarrow> [] | Some b \<Rightarrow> b) (case hs of None \<Rightarrow> [] | Some h \<Rightarrow> h))"
| "build_nameserver crypt (DoHCurlCffiNameserver n url want_get version http_host verify) boot fp hs =
     build_doh_curl url want_get version http_host verify fp (case hs of None \<Rightarrow> [] | Some h \<Rightarrow> h)"
| "build_nameserver crypt (DoTNameserver n address port hostname verify) boot fp hs =
     Inr (build_dot address port hostname verify)"
| "build_nameserver crypt (DoQNameserver n address port server_hostname verify) boot fp hs =
     Inr (build_doq address port server_hostname verify)"
| "build_nameserver crypt (DNSCryptNameserver n address provider pk sk port cert_timeout) boot fp hs =
     andthen (crypt address provider pk sk (nat port) cert_timeout) (\<lambda>ns. Inr (DNSCryptObject ns))"

fun build_nameserver_items ::
  "(nameserver_config \<Rightarrow> 'o res) \<Rightarrow> nameserver_config list \<Rightarrow> (string \<times> 'o) list \<Rightarrow> (string \<times> 'o) list res" where
  "build_nameserver_items build [] d = Inr d"
| "build_nameserver_items build (config # rest) d =
     andthen (build config) (\<lambda>ns. build_nameserver_items build rest (dict_set (ns_name config) ns d))"

definition build_nameserver_map ::
  "crypt_maker \<Rightarrow> nameserver_config list \<Rightarrow> string list option \<Rightarrow> string option \<Rightarrow> (string \<times> string list) list option \<Rightarrow>
   (string \<times> nameserver_object) list res" where
  "build_nameserver_map crypt configs boot fp hs =
     build_nameserver_items (\<lambda>config. build_nameserver crypt config boot fp hs) configs []"

section \<open>What a nameserver says of itself\<close>

text \<open>The methods the source defines; \<open>None\<close> for the classes of dnspython.\<close>

fun nameserver_kind :: "nameserver_object \<Rightarrow> string option" where
  "nameserver_kind (AiodnsObject ns) = Some ''aiodns''"
| "nameserver_kind (DoHHttpxObject ns) = Some ''DoH-HTTPX''"
| "nameserver_kind (DoHAiohttpObject ns boot hs) = Some ''DoH-AIOHTTP''"
| "nameserver_kind (DoHCurlObject ns fp entries) = Some ''DoH-CURL-CFFI''"
| "nameserver_kind (DNSCryptObject ns) = Some ''DNSCrypt''"
| "nameserver_kind _ = None"

definition doh_answer_port :: "doh_nameserver \<Rightarrow> nat res" where
  "doh_answer_port ns = url_port (dh_url ns)"

fun nameserver_address :: "nameserver_object \<Rightarrow> (string \<times> nat) res option" where
  "nameserver_address (AiodnsObject ns) =
     Some (case an_servers ns of [] \<Rightarrow> Inl IndexError | s # _ \<Rightarrow> Inr (s, an_port ns))"
| "nameserver_address (DoHHttpxObject ns) =
     Some (andthen (doh_answer_port ns) (\<lambda>p. Inr (answer_nameserver (dh_url ns), p)))"
| "nameserver_address (DoHAiohttpObject ns boot hs) =
     Some (andthen (doh_answer_port ns) (\<lambda>p. Inr (answer_nameserver (dh_url ns), p)))"
| "nameserver_address (DoHCurlObject ns fp entries) =
     Some (andthen (doh_answer_port ns) (\<lambda>p. Inr (answer_nameserver (dh_url ns), p)))"
| "nameserver_address (DNSCryptObject ns) = Some (Inr (cn_address ns, cn_port ns))"
| "nameserver_address _ = None"

section \<open>The end of the shared sessions\<close>

record shared_state =
  sh_aiodns :: "(resolver_key \<times> nat) list sessions"
  sh_custom :: "(verify \<times> nat) list sessions"
  sh_httpx :: "nat option sessions"
  sh_aiohttp :: aiohttp_state
  sh_curl :: "(string list \<times> nat) list sessions"
  sh_closed :: "(string \<times> nat) list"

text \<open>\<open>for session in sessions: await session.close()\<close>, where a close may raise.\<close>

fun close_each :: "(string \<times> nat \<Rightarrow> unit res) \<Rightarrow> string \<Rightarrow> nat list \<Rightarrow> (shared_state, unit) act" where
  "close_each close m [] = act_ret ()"
| "close_each close m (k # ks) = (\<lambda>s. case close (m, k) of
     Inl e \<Rightarrow> (Inl e, s)
   | Inr _ \<Rightarrow> close_each close m ks (s\<lparr>sh_closed := sh_closed s @ [(m, k)]\<rparr>))"

definition close_aiodns_sessions :: "(string \<times> nat \<Rightarrow> unit res) \<Rightarrow> (shared_state, unit) act" where
  "close_aiodns_sessions close = (\<lambda>s. case aiodns_close (sh_aiodns s) of (ks, t) \<Rightarrow>
     close_each close ''aiodns'' ks (s\<lparr>sh_aiodns := t\<rparr>))"

definition close_doh_custom_sessions :: "(string \<times> nat \<Rightarrow> unit res) \<Rightarrow> (shared_state, unit) act" where
  "close_doh_custom_sessions close = (\<lambda>s. case keyed_close (sh_custom s) of (ks, t) \<Rightarrow>
     close_each close ''custom'' ks (s\<lparr>sh_custom := t\<rparr>))"

definition close_doh_httpx_sessions :: "(string \<times> nat \<Rightarrow> unit res) \<Rightarrow> (shared_state, unit) act" where
  "close_doh_httpx_sessions close = (\<lambda>s. case httpx_close (sh_httpx s) of (ks, t) \<Rightarrow>
     close_each close ''httpx'' ks (s\<lparr>sh_httpx := t\<rparr>))"

definition aiohttp_live :: "aiohttp_state \<Rightarrow> nat list" where
  "aiohttp_live a = (case ah_session a of None \<Rightarrow> [] | Some k \<Rightarrow> if k \<in> ah_closed a then [] else [k])"

definition close_doh_aiohttp_sessions :: "(string \<times> nat \<Rightarrow> unit res) \<Rightarrow> (shared_state, unit) act" where
  "close_doh_aiohttp_sessions close = (\<lambda>s.
     close_each close ''aiohttp'' (aiohttp_live (sh_aiohttp s))
       (s\<lparr>sh_aiohttp := (sh_aiohttp s)\<lparr>ah_session := None, ah_bootstrap := None, ah_hosts := None\<rparr>\<rparr>))"

definition close_doh_curl_sessions :: "(string \<times> nat \<Rightarrow> unit res) \<Rightarrow> (shared_state, unit) act" where
  "close_doh_curl_sessions close = (\<lambda>s. case keyed_close (sh_curl s) of (ks, t) \<Rightarrow>
     close_each close ''curl'' ks (s\<lparr>sh_curl := t\<rparr>))"

definition close_shared_sessions :: "(string \<times> nat \<Rightarrow> unit res) \<Rightarrow> (shared_state, unit) act" where
  "close_shared_sessions close =
     act_bind (close_aiodns_sessions close) (\<lambda>_.
     act_bind (close_doh_custom_sessions close) (\<lambda>_.
     act_bind (close_doh_httpx_sessions close) (\<lambda>_.
     act_bind (close_doh_aiohttp_sessions close) (\<lambda>_.
     close_doh_curl_sessions close))))"

section \<open>Every configured nameserver is built\<close>

lemma build_nameserver_items_map:
  "build_nameserver_items build cs d = Inr d' \<Longrightarrow> distinct (map ns_name cs) \<Longrightarrow>
     (\<forall>c \<in> set cs. \<exists>x. build c = Inr x \<and> map_of d' (ns_name c) = Some x) \<and>
     (\<forall>n. n \<notin> ns_name ` set cs \<longrightarrow> map_of d' n = map_of d n) \<and>
     fst ` set d' = fst ` set d \<union> ns_name ` set cs"
proof (induction cs arbitrary: d)
  case (Cons c cs)
  then obtain x where x: "build c = Inr x"
    and rest: "build_nameserver_items build cs (dict_set (ns_name c) x d) = Inr d'" by (auto simp: andthen_Inr_iff)
  from Cons.IH [OF rest] Cons.prems(2) x show ?case by (auto simp: keys_dict_set)
qed simp

lemma build_nameserver_items_fail:
  "build_nameserver_items build cs d = Inl e \<Longrightarrow> \<exists>c \<in> set cs. build c = Inl e"
  by (induction cs arbitrary: d) (auto simp: andthen_Inl_iff)

text \<open>From a valid configuration every nameserver it names is built, under its name and no other
  name; when the construction raises, it is a DNSCrypt nameserver, whose server is asked for its
  certificates, or a curl client, whose URL and hosts are read.\<close>

theorem build_nameserver_map_correct:
  assumes "validate_references c = Inr ()"
  shows "case build_nameserver_map crypt (nameservers c) boot fp hs of
     Inr d \<Rightarrow> fst ` set d = ns_name ` set (nameservers c) \<and>
       (\<forall>n \<in> set (nameservers c). \<exists>x. build_nameserver crypt n boot fp hs = Inr x \<and> map_of d (ns_name n) = Some x)
   | Inl e \<Rightarrow> \<exists>n \<in> set (nameservers c). build_nameserver crypt n boot fp hs = Inl e \<and>
       ((\<exists>nm a pr pk sk p t. n = DNSCryptNameserver nm a pr pk sk p t) \<or>
        (\<exists>nm u w v h vf. n = DoHCurlCffiNameserver nm u w v h vf))"
proof -
  have d: "distinct (map ns_name (nameservers c))"
    using assms by (simp add: validate_references_correct config_wf_def)
  have which: "(\<exists>nm a pr pk sk p t. n = DNSCryptNameserver nm a pr pk sk p t) \<or>
        (\<exists>nm u w v h vf. n = DoHCurlCffiNameserver nm u w v h vf)"
    if "build_nameserver crypt n boot fp hs = Inl e" for n e
    using that by (cases n) simp_all
  show ?thesis
  proof (cases "build_nameserver_map crypt (nameservers c) boot fp hs")
    case (Inl e)
    then obtain n where "n \<in> set (nameservers c)" "build_nameserver crypt n boot fp hs = Inl e"
      using build_nameserver_items_fail unfolding build_nameserver_map_def by blast
    with which [OF this(2)] show ?thesis unfolding Inl sum.case by blast
  next
    case (Inr d)
    from build_nameserver_items_map [OF Inr [unfolded build_nameserver_map_def] d] Inr show ?thesis by simp
  qed
qed

section \<open>Every shared session is closed\<close>

definition live_sessions :: "shared_state \<Rightarrow> (string \<times> nat) set" where
  "live_sessions s =
     Pair ''aiodns'' ` snd ` set (ss_open (sh_aiodns s)) \<union> Pair ''custom'' ` snd ` set (ss_open (sh_custom s)) \<union>
     Pair ''httpx'' ` set_option (ss_open (sh_httpx s)) \<union>
     Pair ''aiohttp'' ` set (aiohttp_live (sh_aiohttp s)) \<union>
     Pair ''curl'' ` snd ` set (ss_open (sh_curl s))"

lemma close_each_Inr:
  "close_each close m ks s = (Inr u, s') \<Longrightarrow> s' = s\<lparr>sh_closed := sh_closed s @ map (Pair m) ks\<rparr>"
proof (induction ks arbitrary: s)
  case (Cons k ks)
  then have "close_each close m ks (s\<lparr>sh_closed := sh_closed s @ [(m, k)]\<rparr>) = (Inr u, s')"
    by (simp split: sum.splits)
  from Cons.IH [OF this] show ?case by simp
qed (simp add: act_defs)

lemmas close_defs = close_aiodns_sessions_def close_doh_custom_sessions_def close_doh_httpx_sessions_def
  close_doh_aiohttp_sessions_def close_doh_curl_sessions_def aiodns_close_def keyed_close_def httpx_close_def

text \<open>When \<open>close_shared_sessions\<close> returns, every session and resolver that any module had open is
  closed, each once and none twice, and no module has a live one left.\<close>

theorem close_shared_sessions_all:
  assumes "close_shared_sessions close s = (Inr (), s')"
  shows "live_sessions s' = {} \<and> set (sh_closed s') = set (sh_closed s) \<union> live_sessions s \<and>
    (distinct (map snd (ss_open (sh_aiodns s))) \<longrightarrow> distinct (map snd (ss_open (sh_custom s))) \<longrightarrow>
     distinct (map snd (ss_open (sh_curl s))) \<longrightarrow> sh_closed s = [] \<longrightarrow> distinct (sh_closed s'))"
proof -
  from assms obtain s1 s2 s3 s4 where
    "close_aiodns_sessions close s = (Inr (), s1)" "close_doh_custom_sessions close s1 = (Inr (), s2)"
    "close_doh_httpx_sessions close s2 = (Inr (), s3)" "close_doh_aiohttp_sessions close s3 = (Inr (), s4)"
    "close_doh_curl_sessions close s4 = (Inr (), s')"
    by (auto simp: close_shared_sessions_def act_bind_Inr)
  then have s: "s1 = s\<lparr>sh_aiodns := (sh_aiodns s)\<lparr>ss_open := []\<rparr>,
        sh_closed := sh_closed s @ map (Pair ''aiodns'' \<circ> snd) (ss_open (sh_aiodns s))\<rparr>"
      "s2 = s1\<lparr>sh_custom := (sh_custom s)\<lparr>ss_open := []\<rparr>,
        sh_closed := sh_closed s1 @ map (Pair ''custom'' \<circ> snd) (ss_open (sh_custom s))\<rparr>"
      "s3 = s2\<lparr>sh_httpx := (sh_httpx s)\<lparr>ss_open := None\<rparr>,
        sh_closed := sh_closed s2 @ map (Pair ''httpx'') (case ss_open (sh_httpx s) of None \<Rightarrow> [] | Some c \<Rightarrow> [c])\<rparr>"
      "s4 = s3\<lparr>sh_aiohttp := (sh_aiohttp s)\<lparr>ah_session := None, ah_bootstrap := None, ah_hosts := None\<rparr>,
        sh_closed := sh_closed s3 @ map (Pair ''aiohttp'') (aiohttp_live (sh_aiohttp s))\<rparr>"
      "s' = s4\<lparr>sh_curl := (sh_curl s)\<lparr>ss_open := []\<rparr>,
        sh_closed := sh_closed s4 @ map (Pair ''curl'' \<circ> snd) (ss_open (sh_curl s))\<rparr>"
    by (auto simp: close_defs dest!: close_each_Inr)
  have closed: "sh_closed s' = sh_closed s @ map (Pair ''aiodns'') (map snd (ss_open (sh_aiodns s))) @
      map (Pair ''custom'') (map snd (ss_open (sh_custom s))) @
      map (Pair ''httpx'') (case ss_open (sh_httpx s) of None \<Rightarrow> [] | Some c \<Rightarrow> [c]) @
      map (Pair ''aiohttp'') (aiohttp_live (sh_aiohttp s)) @
      map (Pair ''curl'') (map snd (ss_open (sh_curl s)))"
    by (simp add: s)
  have "live_sessions s' = {}" by (simp add: live_sessions_def s aiohttp_live_def)
  moreover have "set (sh_closed s') = set (sh_closed s) \<union> live_sessions s"
    unfolding closed live_sessions_def by (auto split: option.splits)
  moreover have "distinct (sh_closed s')"
    if "distinct (map snd (ss_open (sh_aiodns s)))" "distinct (map snd (ss_open (sh_custom s)))"
      "distinct (map snd (ss_open (sh_curl s)))" "sh_closed s = []"
    unfolding closed using that
    by (simp only: distinct_append distinct_map inj_on_convol_ident) (auto simp: inj_on_def aiohttp_live_def split: option.splits)
  ultimately show ?thesis by blast
qed

theorem build_nameserver_map_correct_witness:
  "\<exists>d. build_nameserver_map crypt (nameservers sample_config) None None None = Inr d \<and>
     map_of d ''ns'' = Some (Do53Object ''192.0.2.1'' 53)"
proof -
  have ns: "nameservers sample_config = [Do53Nameserver ''ns'' ''192.0.2.1'' 53]" by (simp add: sample_config_def)
  obtain d where d: "build_nameserver_map crypt (nameservers sample_config) None None None = Inr d"
    by (simp add: ns build_nameserver_map_def)
  from build_nameserver_map_correct [OF sample_config_valid, of crypt None None None] d
  show ?thesis by (simp add: ns build_do53_def)
qed

definition sample_shared :: shared_state where
  "sample_shared = \<lparr>sh_aiodns = \<lparr>ss_open = [], ss_next = 0\<rparr>, sh_custom = \<lparr>ss_open = [(VerifyFlag True, 0), (VerifyFlag False, 1)], ss_next = 2\<rparr>,
     sh_httpx = \<lparr>ss_open = Some 0, ss_next = 1\<rparr>, sh_aiohttp = \<lparr>ah_session = Some 3, ah_bootstrap = Some [],
       ah_hosts = Some [], ah_closed = {2}, ah_next = 4\<rparr>, sh_curl = \<lparr>ss_open = [], ss_next = 0\<rparr>, sh_closed = []\<rparr>"

theorem close_shared_sessions_all_witness:
  "distinct (sh_closed (snd (close_shared_sessions (\<lambda>_. Inr ()) sample_shared))) \<and>
   set (sh_closed (snd (close_shared_sessions (\<lambda>_. Inr ()) sample_shared))) =
     {(''custom'', 0), (''custom'', 1), (''httpx'', 0), (''aiohttp'', 3)}"
proof -
  have each: "close_each (\<lambda>_. Inr ()) m ks s = (Inr (), s\<lparr>sh_closed := sh_closed s @ map (Pair m) ks\<rparr>)" for m ks s
    by (induction ks arbitrary: s) (simp_all add: act_defs)
  obtain s' where run: "close_shared_sessions (\<lambda>_. Inr ()) sample_shared = (Inr (), s')"
    by (simp add: close_shared_sessions_def close_defs act_bind_apply each split: prod.splits)
  from close_shared_sessions_all [OF run] show ?thesis
    by (simp add: run) (auto simp: sample_shared_def live_sessions_def aiohttp_live_def)
qed

end
