(* ===== verification/Webui.thy ===== *)
theory Webui
  imports Multi_Manager Query_Log Servers
begin

text \<open>
  \<open>webui/app.py\<close>: the HTTP application with the administration pages and the DNS over HTTPS
  routes, for a \<open>RuntimeManager\<close> or a \<open>MultiprocessRuntimeManager\<close>, which is reached through the
  operations in \<open>web_host\<close>. FastAPI, its reading of the request and the templates are the
  library's: a request comes with the credentials and parameters the library has found in it, and
  a page is the name of its template with the context. Every handler is an action on the manager,
  the configuration file and the network.
\<close>

section \<open>The application and its surroundings\<close>

text \<open>The methods of the manager that the application calls; \<open>reload\<close> reads the given file.\<close>

record ('m, 'w, 'p) web_host =
  wh_config :: "'m \<Rightarrow> app_config res"
  wh_status :: "'m \<Rightarrow> runtime_status res"
  wh_store :: "'m \<Rightarrow> 'p log_store option"
  wh_reload :: "string \<Rightarrow> ('m, unit) act"
  wh_process :: "'m \<Rightarrow> 'w process"

text \<open>The catalogue, the model of the configuration and the JSON library.\<close>

record ('v, 'f) web_env =
  we_lib :: dnslib
  we_modules :: "('v, 'f) modules"
  we_models :: "string \<Rightarrow> plugin_models"
  we_loads :: "string \<Rightarrow> json res"
  we_parse :: "json \<Rightarrow> app_config res"
  we_to_json :: "app_config \<Rightarrow> json"
  we_dumps :: "json \<Rightarrow> string"
  we_dump_plugin :: "plugin_config \<Rightarrow> json"
  we_schema :: json
  we_filename :: string
  we_write :: write_answer

record ('m, 'w) web_world =
  ww_manager :: 'm
  ww_file :: string
  ww_net :: 'w

text \<open>A parameter of the query that is to be an integer, as it comes.\<close>

datatype int_param = Absent | NoInt | IntParam int

datatype web_request =
    GetIndex
  | GetQueries
  | GetConfig
  | PostConfig "string option"
  | PostReload
  | GetQueryLogs int_param
  | GetStream int_param
  | DohGet "string option" "(string \<times> nat) option" "string option"
  | DohPost "string option" "string option" "(string \<times> nat) option" bytes

record config_context =
  cc_status :: runtime_status
  cc_text :: string
  cc_schema :: json
  cc_plugins :: "json list"
  cc_mode :: string
  cc_filename :: string
  cc_message :: string
  cc_error :: "py_exn option"

datatype page =
    IndexPage runtime_status "py_exn option"
  | QueriesPage runtime_status bool nat
  | ConfigPage config_context

datatype 'p web_response =
    PageResponse nat page
  | RedirectResponse nat string
  | LogItems "(nat \<times> 'p) list"
  | EventStream "int option"
  | DohResponse http_response

type_synonym ('m, 'w, 'a) web_act = "(('m, 'w) web_world, 'a) act"

definition QUERY_LOG_PAGE_SIZE :: nat where
  "QUERY_LOG_PAGE_SIZE = 100"

text \<open>Actions on a part of the world.\<close>

definition on_manager :: "('m, 'a) act \<Rightarrow> ('m, 'w, 'a) web_act" where
  "on_manager m = (\<lambda>w. case m (ww_manager w) of (r, s) \<Rightarrow> (r, w\<lparr>ww_manager := s\<rparr>))"

definition on_file :: "(string, 'a) act \<Rightarrow> ('m, 'w, 'a) web_act" where
  "on_file m = (\<lambda>w. case m (ww_file w) of (r, t) \<Rightarrow> (r, w\<lparr>ww_file := t\<rparr>))"

definition on_net :: "('m \<Rightarrow> ('w, 'a) act) \<Rightarrow> ('m, 'w, 'a) web_act" where
  "on_net m = (\<lambda>w. case m (ww_manager w) (ww_net w) of (r, n) \<Rightarrow> (r, w\<lparr>ww_net := n\<rparr>))"

definition ask :: "('m \<Rightarrow> 'a res) \<Rightarrow> ('m, 'w, 'a) web_act" where
  "ask f = (\<lambda>w. (f (ww_manager w), w))"

section \<open>Authorization\<close>

text \<open>\<open>encode("utf-8")\<close> for the code points below 256, which are all that a character has here.\<close>

definition utf8_char :: "char \<Rightarrow> bytes" where
  "utf8_char c = (let n = of_char c in if n < 128 then [n] else [192 + n div 64, 128 + n mod 64])"

definition encode_utf8 :: "string \<Rightarrow> bytes" where
  "encode_utf8 s = concat (map utf8_char s)"

text \<open>
  \<open>authorize_webui\<close>, with the credentials \<open>HTTPBasic\<close> has read; without any it answers itself.
\<close>

definition authorize_webui ::
  "('m, 'w, 'p) web_host \<Rightarrow> (string \<times> string) option \<Rightarrow> ('m, 'w, unit) web_act" where
  "authorize_webui H credentials = (case credentials of
     None \<Rightarrow> act_raise (HTTPException 401)
   | Some (username, password) \<Rightarrow>
       act_bind (ask (wh_config H)) (\<lambda>config.
       let is_valid = encode_utf8 username = encode_utf8 (w_username (webui config)) \<and>
             encode_utf8 password = encode_utf8 (w_password (webui config)) in
       if is_valid then act_ret () else act_raise (HTTPException 401)))"

section \<open>The pages\<close>

definition get_query_log_store_or_503 :: "('m, 'w, 'p) web_host \<Rightarrow> ('m, 'w, 'p log_store) web_act" where
  "get_query_log_store_or_503 H = ask (\<lambda>s. case wh_store H s of
     None \<Rightarrow> Inl (HTTPException 503) | Some store \<Rightarrow> Inr store)"

definition index_view :: "('m, 'w, 'p) web_host \<Rightarrow> ('m, 'w, 'p web_response) web_act" where
  "index_view H = act_bind (ask (wh_status H)) (\<lambda>st. act_ret (PageResponse 200 (IndexPage st None)))"

definition query_logs_view :: "('m, 'w, 'p) web_host \<Rightarrow> ('m, 'w, 'p web_response) web_act" where
  "query_logs_view H =
     act_bind (act_get (\<lambda>w. wh_store H (ww_manager w))) (\<lambda>store.
     act_bind (ask (wh_status H)) (\<lambda>st.
     act_ret (PageResponse 200 (QueriesPage st (store \<noteq> None) QUERY_LOG_PAGE_SIZE))))"

definition described_plugins :: "('v, 'f) web_env \<Rightarrow> json list res" where
  "described_plugins V = andthen (discover_available_plugins (we_modules V) (we_models V)) (\<lambda>entries.
     Inr (map (\<lambda>item. describe_entry item (we_dump_plugin V)) entries))"

definition web_schema :: "('v, 'f) web_env \<Rightarrow> json res" where
  "web_schema V = build_config_json_schema (we_modules V) (we_models V) (we_dump_plugin V) (we_schema V)"

definition web_dump :: "('v, 'f) web_env \<Rightarrow> app_config \<Rightarrow> string res" where
  "web_dump V config = dump_config_text (we_modules V) (we_models V) (we_to_json V) (we_dumps V) config"

definition web_parse :: "('v, 'f) web_env \<Rightarrow> string \<Rightarrow> app_config res" where
  "web_parse V text = parse_config_text (we_modules V) (we_models V) (we_loads V) (we_parse V) text"

definition config_editor :: "('v, 'f) web_env \<Rightarrow> ('m, 'w, 'p) web_host \<Rightarrow> ('m, 'w, 'p web_response) web_act" where
  "config_editor V H =
     act_bind (ask (wh_config H)) (\<lambda>config.
     act_bind (act_lift (described_plugins V)) (\<lambda>available_plugins.
     act_bind (ask (wh_status H)) (\<lambda>st.
     act_bind (act_lift (web_dump V config)) (\<lambda>text.
     act_bind (act_lift (web_schema V)) (\<lambda>schema.
     act_ret (PageResponse 200 (ConfigPage
       \<lparr>cc_status = st, cc_text = text, cc_schema = schema, cc_plugins = available_plugins,
        cc_mode = ''tree'', cc_filename = we_filename V, cc_message = [], cc_error = None\<rparr>)))))))"

text \<open>\<open>save_config_view\<close>: the answer when the \<open>try\<close> block raises, and the answer after it.\<close>

definition save_failed_page ::
  "('v, 'f) web_env \<Rightarrow> ('m, 'w, 'p) web_host \<Rightarrow> string \<Rightarrow> py_exn \<Rightarrow> ('m, 'w, 'p web_response) web_act" where
  "save_failed_page V H config_text exc =
     act_bind (ask (wh_config H)) (\<lambda>_.
     act_bind (ask (wh_status H)) (\<lambda>st.
     act_bind (act_lift (web_schema V)) (\<lambda>schema.
     act_bind (act_lift (described_plugins V)) (\<lambda>available_plugins.
     act_ret (PageResponse 400 (ConfigPage
       \<lparr>cc_status = st, cc_text = config_text, cc_schema = schema, cc_plugins = available_plugins,
        cc_mode = ''code'', cc_filename = we_filename V, cc_message = [], cc_error = Some exc\<rparr>))))))"

definition saved_page ::
  "('v, 'f) web_env \<Rightarrow> ('m, 'w, 'p) web_host \<Rightarrow> app_config \<Rightarrow> ('m, 'w, 'p web_response) web_act" where
  "saved_page V H config =
     act_bind (act_lift (described_plugins V)) (\<lambda>available_plugins.
     act_bind (ask (wh_status H)) (\<lambda>st.
     act_bind (act_lift (web_dump V config)) (\<lambda>text.
     act_bind (act_lift (web_schema V)) (\<lambda>schema.
     act_ret (PageResponse 200 (ConfigPage
       \<lparr>cc_status = st, cc_text = text, cc_schema = schema, cc_plugins = available_plugins,
        cc_mode = ''tree'', cc_filename = we_filename V, cc_message = ''saved, reload to apply'',
        cc_error = None\<rparr>))))))"

definition save_body :: "('v, 'f) web_env \<Rightarrow> string \<Rightarrow> ('m, 'w, app_config) web_act" where
  "save_body V config_text =
     act_bind (act_lift (web_parse V config_text)) (\<lambda>config.
     act_bind (on_file (save_config (we_modules V) (we_models V) (we_to_json V) (we_dumps V) (we_write V) config))
       (\<lambda>_. act_ret config))"

definition save_config_view ::
  "('v, 'f) web_env \<Rightarrow> ('m, 'w, 'p) web_host \<Rightarrow> string \<Rightarrow> ('m, 'w, 'p web_response) web_act" where
  "save_config_view V H config_text = (\<lambda>w. case save_body V config_text w of
     (Inl e, w') \<Rightarrow> if is_Exception e then save_failed_page V H config_text e w' else (Inl e, w')
   | (Inr config, w') \<Rightarrow> saved_page V H config w')"

definition manual_reload :: "('m, 'w, 'p) web_host \<Rightarrow> ('m, 'w, 'p web_response) web_act" where
  "manual_reload H = (\<lambda>w. case on_manager (wh_reload H (ww_file w)) w of
     (Inl e, w') \<Rightarrow> if is_Exception e
        then act_bind (ask (wh_status H)) (\<lambda>st. act_ret (PageResponse 400 (IndexPage st (Some e)))) w'
        else (Inl e, w')
   | (Inr _, w') \<Rightarrow> (Inr (RedirectResponse 303 ''/''), w'))"

section \<open>The query log\<close>

text \<open>What the library makes of a parameter with a lower bound: 422 when it is refused.\<close>

fun int_query :: "int \<Rightarrow> int_param \<Rightarrow> int option res" where
  "int_query low Absent = Inr None"
| "int_query low NoInt = Inl (HTTPException 422)"
| "int_query low (IntParam n) = (if low \<le> n then Inr (Some n) else Inl (HTTPException 422))"

definition query_logs_api :: "('m, 'w, 'p) web_host \<Rightarrow> int_param \<Rightarrow> ('m, 'w, 'p web_response) web_act" where
  "query_logs_api H param =
     act_bind (act_lift (int_query 1 param)) (\<lambda>given.
     act_bind (get_query_log_store_or_503 H) (\<lambda>store.
     let limit = (case given of None \<Rightarrow> int QUERY_LOG_PAGE_SIZE | Some n \<Rightarrow> n) in
     act_ret (LogItems (list_recent (min limit (int (ql_max store))) store))))"

definition query_logs_stream :: "('m, 'w, 'p) web_host \<Rightarrow> int_param \<Rightarrow> ('m, 'w, 'p web_response) web_act" where
  "query_logs_stream H param =
     act_bind (act_lift (int_query 0 param)) (\<lambda>after_id.
     act_bind (get_query_log_store_or_503 H) (\<lambda>_. act_ret (EventStream after_id)))"

text \<open>
  \<open>event_stream\<close>: what is sent for the values the subscription gives, each with the answer of
  \<open>is_disconnected\<close> after it. \<open>payload\<close> is \<open>json.dumps\<close> of an entry.
\<close>

definition sse_event :: "('p \<Rightarrow> string) \<Rightarrow> nat \<times> 'p \<Rightarrow> string" where
  "sse_event payload item = ''id: '' @ dec_str (fst item) @ [CHR 0x0A] @ ''event: query'' @ [CHR 0x0A] @
     ''data: '' @ payload (snd item) @ [CHR 0x0A, CHR 0x0A]"

definition sse_ping :: string where
  "sse_ping = '': ping'' @ [CHR 0x0A, CHR 0x0A]"

fun event_stream :: "('p \<Rightarrow> string) \<Rightarrow> ((nat \<times> 'p) option \<times> bool) list \<Rightarrow> string list" where
  "event_stream payload [] = []"
| "event_stream payload ((item, disconnected) # rest) =
     (if disconnected then []
      else (case item of None \<Rightarrow> sse_ping | Some x \<Rightarrow> sse_event payload x) # event_stream payload rest)"

section \<open>Routes\<close>

datatype route = IndexRoute | QueriesRoute | EditorRoute | SaveRoute | ReloadRoute | LogsRoute | StreamRoute | DohRoute

fun route_of :: "web_request \<Rightarrow> route" where
  "route_of GetIndex = IndexRoute"
| "route_of GetQueries = QueriesRoute"
| "route_of GetConfig = EditorRoute"
| "route_of (PostConfig _) = SaveRoute"
| "route_of PostReload = ReloadRoute"
| "route_of (GetQueryLogs _) = LogsRoute"
| "route_of (GetStream _) = StreamRoute"
| "route_of (DohGet _ _ _) = DohRoute"
| "route_of (DohPost _ _ _ _) = DohRoute"

text \<open>\<open>create_webui_app\<close>: the routes of the application, by the configuration at its creation.\<close>

definition create_webui_app :: "webui_config \<Rightarrow> route list" where
  "create_webui_app c =
     (if w_enabled c then [IndexRoute, QueriesRoute, EditorRoute, SaveRoute, ReloadRoute, LogsRoute, StreamRoute]
      else []) @ (if w_doh_enabled c then [DohRoute] else [])"

definition doh_response :: "('m, 'w, http_response) web_act \<Rightarrow> ('m, 'w, 'p web_response) web_act" where
  "doh_response m = act_bind m (\<lambda>r. act_ret (DohResponse r))"

text \<open>The handler of a request, with the form field that the library demands of \<open>PostConfig\<close>.\<close>

fun web_handler ::
  "('v, 'f) web_env \<Rightarrow> ('m, 'w, 'p) web_host \<Rightarrow> web_request \<Rightarrow> ('m, 'w, 'p web_response) web_act" where
  "web_handler V H GetIndex = index_view H"
| "web_handler V H GetQueries = query_logs_view H"
| "web_handler V H GetConfig = config_editor V H"
| "web_handler V H (PostConfig form) = (case form of
     None \<Rightarrow> act_raise (HTTPException 422) | Some config_text \<Rightarrow> save_config_view V H config_text)"
| "web_handler V H PostReload = manual_reload H"
| "web_handler V H (GetQueryLogs limit) = query_logs_api H limit"
| "web_handler V H (GetStream after_id) = query_logs_stream H after_id"
| "web_handler V H (DohGet accept client dns) =
     doh_response (on_net (\<lambda>s. handle_get (we_lib V) (wh_process H s) ''doh'' accept (fst (client_address client)) dns))"
| "web_handler V H (DohPost content_type accept client body) =
     doh_response (on_net (\<lambda>s. handle_post (we_lib V) (wh_process H s) ''doh'' content_type accept
       (fst (client_address client)) body))"

definition handle_web ::
  "('v, 'f) web_env \<Rightarrow> ('m, 'w, 'p) web_host \<Rightarrow> route list \<Rightarrow> (string \<times> string) option \<Rightarrow> web_request \<Rightarrow>
   ('m, 'w, 'p web_response) web_act" where
  "handle_web V H app credentials req =
     (if route_of req \<notin> set app then act_raise (HTTPException 404)
      else if route_of req = DohRoute then web_handler V H req
      else act_bind (authorize_webui H credentials) (\<lambda>_. web_handler V H req))"

section \<open>The two managers\<close>

text \<open>
  \<open>read\<close> is the loading of a file with this content, \<open>view\<close> the store behind the value that is
  registered for it.
\<close>

definition runtime_host ::
  "('v, 'w) build_env \<Rightarrow> (string \<Rightarrow> app_config res) \<Rightarrow> string \<Rightarrow> ('v \<Rightarrow> 'p log_store) \<Rightarrow>
   (('v, 'w) runtime_manager, 'w, 'p) web_host" where
  "runtime_host B read path view =
     \<lparr>wh_config = (\<lambda>s. andthen (get_state s) (\<lambda>st. Inr (rs_config st))),
      wh_status = get_status path,
      wh_store = (\<lambda>s. map_option view (Runtime.get_query_log_store B (rn_state s))),
      wh_reload = (\<lambda>text. act_bind (runtime_reload B (read text)) (\<lambda>_. act_ret ())),
      wh_process = runtime_process_query\<rparr>"

definition multi_host ::
  "('v, 'w, 'l) multi_env \<Rightarrow> (string \<Rightarrow> app_config res) \<Rightarrow> string \<Rightarrow> ('v \<Rightarrow> 'p log_store) \<Rightarrow>
   (('v, 'w, 'l) multi_manager \<Rightarrow> 'w process) \<Rightarrow> (('v, 'w, 'l) multi_manager, 'w, 'p) web_host" where
  "multi_host V read path view process =
     \<lparr>wh_config = (\<lambda>s. andthen (get_state (mm_runtime s)) (\<lambda>st. Inr (rs_config st))),
      wh_status = multi_get_status path,
      wh_store = (\<lambda>s. map_option view (Runtime.get_query_log_store (me_build V) (rn_state (mm_runtime s)))),
      wh_reload = (\<lambda>text. act_bind (multi_reload V (read text) (read text)) (\<lambda>_. act_ret ())),
      wh_process = process\<rparr>"

section \<open>The server\<close>

text \<open>
  \<open>ManagedUvicornServer\<close>: \<open>start\<close> looks at \<open>started\<close> until it is set, \<open>started k\<close> is what the \<open>k\<close>-th
  look finds; the value is the number of looks. \<open>bound_address\<close> is given the sockets of the
  servers that are there.
\<close>

partial_function (option) server_start :: "(nat \<Rightarrow> bool) \<Rightarrow> nat \<Rightarrow> nat option" where
  "server_start started k = (if started k then Some k else server_start started (Suc k))"

definition bound_address :: "string \<Rightarrow> int \<Rightarrow> (string \<times> int) list list \<Rightarrow> string \<times> int" where
  "bound_address host port servers = (case servers of
     (sockname # _) # _ \<Rightarrow> sockname
   | _ \<Rightarrow> (if host \<noteq> [] then host else ''127.0.0.1'', port))"

section \<open>Laws\<close>

named_theorems web_simps "unfolding of the handlers"

lemmas web_parts [web_simps] = act_bind_apply act_simps on_manager_def on_file_def on_net_def ask_def

text \<open>The encoding of names and passwords tells them apart.\<close>

lemma utf8_char_take:
  "utf8_char c @ xs = utf8_char d @ ys \<Longrightarrow> c = d \<and> xs = ys"
proof -
  assume eq: "utf8_char c @ xs = utf8_char d @ ys"
  let ?m = "of_char c :: nat" and ?n = "of_char d :: nat"
  have "?m = ?n \<and> xs = ys"
  proof (cases "?m < 128")
    case True
    with eq show ?thesis by (cases "?n < 128") (auto simp: utf8_char_def Let_def)
  next
    case False
    with eq have "\<not> ?n < 128" "?m div 64 = ?n div 64" "?m mod 64 = ?n mod 64" "xs = ys"
      by (auto simp: utf8_char_def Let_def split: if_splits)
    then show ?thesis by (metis div_mod_decomp)
  qed
  then show ?thesis by simp
qed

lemma encode_utf8_inj: "encode_utf8 s = encode_utf8 t \<longleftrightarrow> s = t"
proof
  show "encode_utf8 s = encode_utf8 t \<Longrightarrow> s = t"
  proof (induction s arbitrary: t)
    case Nil
    then show ?case by (cases t) (auto simp: encode_utf8_def utf8_char_def Let_def split: if_splits)
  next
    case (Cons c s)
    show ?case
    proof (cases t)
      case Nil
      with Cons.prems show ?thesis by (auto simp: encode_utf8_def utf8_char_def Let_def split: if_splits)
    next
      case (Cons d u)
      with \<open>encode_utf8 (c # s) = encode_utf8 t\<close> utf8_char_take [of c "encode_utf8 s" d "encode_utf8 u"]
      have "c = d" "encode_utf8 s = encode_utf8 u" by (auto simp: encode_utf8_def)
      with Cons.IH [of u] Cons show ?thesis by simp
    qed
  qed
qed simp

lemma authorize_webui_simps:
  "authorize_webui H credentials w =
     (case credentials of
        None \<Rightarrow> (Inl (HTTPException 401), w)
      | Some given \<Rightarrow> (case wh_config H (ww_manager w) of
          Inl e \<Rightarrow> (Inl e, w)
        | Inr config \<Rightarrow> (if given = (w_username (webui config), w_password (webui config)) then Inr ()
            else Inl (HTTPException 401), w)))"
  by (auto simp: authorize_webui_def web_simps encode_utf8_inj Let_def split: option.splits sum.splits)

text \<open>What a handler leaves: the world with another manager, file or network.\<close>

lemma save_body_cases:
  "save_body V typed w = (r, w') \<longleftrightarrow>
     (case web_parse V typed of
        Inl e \<Rightarrow> r = Inl e \<and> w' = w
      | Inr config \<Rightarrow> (case web_dump V config of
          Inl e \<Rightarrow> r = Inl e \<and> w' = w
        | Inr dumped \<Rightarrow> (case we_write V of
            Written \<Rightarrow> r = Inr config \<and> w' = w\<lparr>ww_file := dumped\<rparr>
          | OpenFails e \<Rightarrow> r = Inl e \<and> w' = w
          | WriteFails n e \<Rightarrow> r = Inl e \<and> w' = w\<lparr>ww_file := take n dumped\<rparr>)))"
  by (cases w) (auto simp: save_body_def save_config_def web_dump_def web_simps split: sum.splits write_answer.splits)

lemma reading_views [simp]:
  "snd (index_view H w) = w" "snd (query_logs_view H w) = w" "snd (config_editor V H w) = w"
  "snd (save_failed_page V H typed e w) = w" "snd (saved_page V H config w) = w"
  "snd (query_logs_api H limit w) = w" "snd (query_logs_stream H after_id w) = w"
  by (simp_all add: index_view_def query_logs_view_def config_editor_def save_failed_page_def saved_page_def
      query_logs_api_def query_logs_stream_def get_query_log_store_or_503_def web_simps Let_def split: sum.splits)

lemma save_view_world: "snd (save_config_view V H typed w) = snd (save_body V typed w)"
  by (cases "save_body V typed w") (auto simp: save_config_view_def split: sum.splits)

lemma save_keeps_manager: "ww_manager (snd (save_config_view V H typed w)) = ww_manager w"
proof (cases "save_body V typed w")
  case (Pair r w')
  with save_body_cases [of V typed w r w'] show ?thesis
    by (auto simp: save_view_world split: sum.splits write_answer.splits)
qed

lemma doh_keeps: "ww_manager (snd (web_handler V H (DohGet a c d) w)) = ww_manager w"
  "ww_manager (snd (web_handler V H (DohPost t a c b) w)) = ww_manager w"
  "ww_file (snd (web_handler V H (DohGet a c d) w)) = ww_file w"
  "ww_file (snd (web_handler V H (DohPost t a c b) w)) = ww_file w"
  by (auto simp: doh_response_def web_simps split: prod.splits sum.splits)

lemma reload_world:
  "manual_reload H w = (r, w') \<Longrightarrow>
     (\<exists>q s. wh_reload H (ww_file w) (ww_manager w) = (q, s) \<and> w' = w\<lparr>ww_manager := s\<rparr> \<and>
        (r = Inr (RedirectResponse 303 ''/'') \<longleftrightarrow> (\<exists>u. q = Inr u)))"
  by (auto simp: manual_reload_def web_simps split: prod.splits sum.splits if_splits)

text \<open>Only two requests change more than the network.\<close>

lemma handler_keeps_manager:
  assumes "req \<noteq> PostReload"
  shows "ww_manager (snd (web_handler V H req w)) = ww_manager w"
  using assms by (cases req) (auto simp: save_keeps_manager doh_keeps act_raise_def split: option.split simp del: web_handler.simps(8,9))

lemma handler_keeps_file:
  assumes "\<And>typed. req \<noteq> PostConfig (Some typed)"
  shows "ww_file (snd (web_handler V H req w)) = ww_file w"
proof (cases req)
  case (PostConfig form)
  with assms show ?thesis by (cases form) (auto simp: act_raise_def)
next
  case PostReload
  then show ?thesis using reload_world [of H w] by (cases "manual_reload H w") auto
qed (simp_all add: doh_keeps del: web_handler.simps(8,9))

section \<open>What the pages rely on\<close>

text \<open>
  The contract of a manager: a reload that raises leaves what the pages show and what the
  credentials are checked against; after any other reload there is a configuration.
\<close>

locale web_manager =
  fixes H :: "('m, 'w, 'p) web_host" and read :: "string \<Rightarrow> app_config res"
  assumes failed_reload: "wh_reload H typed s = (Inl e, s') \<Longrightarrow>
      wh_config H s' = wh_config H s \<and> wh_status H s' = wh_status H s \<and> wh_store H s' = wh_store H s"
    and good_reload: "wh_reload H typed s = (Inr u, s') \<Longrightarrow>
      \<exists>c. read typed = Inr c \<and> wh_config H s' = Inr c"
begin

text \<open>Only a reload that is answered with the redirection changes what is shown and checked.\<close>

lemma failed_request:
  assumes run: "web_handler V H req w = (r, w')" and "r \<noteq> Inr (RedirectResponse 303 ''/'')"
  shows "wh_config H (ww_manager w') = wh_config H (ww_manager w) \<and>
    wh_status H (ww_manager w') = wh_status H (ww_manager w) \<and> wh_store H (ww_manager w') = wh_store H (ww_manager w)"
proof (cases "req = PostReload")
  case True
  with run have "manual_reload H w = (r, w')" by simp
  from reload_world [OF this] assms(2) obtain q s where
    "wh_reload H (ww_file w) (ww_manager w) = (q, s)" "w' = w\<lparr>ww_manager := s\<rparr>" "\<nexists>u. q = Inr u" by auto
  with failed_reload show ?thesis by (cases q) auto
next
  case False
  from handler_keeps_manager [OF this, of V H w] run show ?thesis by simp
qed

lemma reload_answered:
  assumes "web_handler V H PostReload w = (Inr (RedirectResponse 303 ''/''), w')"
  shows "ww_file w' = ww_file w \<and> (\<exists>c. read (ww_file w) = Inr c \<and> wh_config H (ww_manager w') = Inr c)"
proof -
  from assms have "manual_reload H w = (Inr (RedirectResponse 303 ''/''), w')" by simp
  from reload_world [OF this] obtain u s where
    "wh_reload H (ww_file w) (ww_manager w) = (Inr u, s)" "w' = w\<lparr>ww_manager := s\<rparr>" by auto
  with good_reload show ?thesis by auto
qed

end

lemma runtime_reload_config:
  "runtime_reload B c s = (Inr new, s') \<Longrightarrow> get_state s' = Inr new \<and> c = Inr (rs_config new)"
  by (auto simp: runtime_reload_cases get_state_def build_state_def andthen_Inr_iff
      split: sum.splits if_splits prod.splits)

interpretation runtime_web: web_manager "runtime_host B read path view" read for B read path view
proof
  fix typed s e s'
  assume "wh_reload (runtime_host B read path view) typed s = (Inl e, s')"
  then have "s' = s" by (auto simp: runtime_host_def act_simps runtime_reload_cases split: sum.splits if_splits prod.splits)
  then show "wh_config (runtime_host B read path view) s' = wh_config (runtime_host B read path view) s \<and>
      wh_status (runtime_host B read path view) s' = wh_status (runtime_host B read path view) s \<and>
      wh_store (runtime_host B read path view) s' = wh_store (runtime_host B read path view) s" by simp
next
  fix typed s u s'
  assume "wh_reload (runtime_host B read path view) typed s = (Inr u, s')"
  then obtain new where "runtime_reload B (read typed) s = (Inr new, s')"
    by (auto simp: runtime_host_def act_simps split: prod.splits sum.splits)
  from runtime_reload_config [OF this]
  show "\<exists>c. read typed = Inr c \<and> wh_config (runtime_host B read path view) s' = Inr c"
    by (simp add: runtime_host_def)
qed

text \<open>What a reload of the manager with workers does to the parts the pages read.\<close>

definition same_view :: "('v, 'w, 'l) multi_manager \<Rightarrow> ('v, 'w, 'l) multi_manager \<Rightarrow> bool" where
  "same_view s t \<longleftrightarrow> mm_runtime t = mm_runtime s \<and> rn_servers t = rn_servers s"

lemma same_view_rules:
  "same_view s s" "same_view s t \<Longrightarrow> same_view t u \<Longrightarrow> same_view s u"
  "on_os a s = (r1, t) \<Longrightarrow> same_view s t" "make_pool V c s = (r2, t) \<Longrightarrow> same_view s t"
  "on_pool i b s = (r3, t) \<Longrightarrow> same_view s t" "same_view s (close_opt x s)" "same_view s (stop_pool i s)"
  by (auto simp: same_view_def on_os_def make_pool_def on_pool_def close_opt_def stop_pool_def Let_def act_simps
      split: prod.splits option.splits sum.splits)

lemma on_runtime_reload:
  "on_runtime (runtime_reload B c) s = (r, t) \<Longrightarrow> rn_servers t = rn_servers s \<and>
     (case r of Inl e \<Rightarrow> mm_runtime t = mm_runtime s
      | Inr new \<Rightarrow> get_state (mm_runtime t) = Inr new \<and> c = Inr (rs_config new))"
proof -
  assume run: "on_runtime (runtime_reload B c) s = (r, t)"
  obtain q rt where q: "runtime_reload B c (mm_runtime s) = (q, rt)" by fastforce
  with run have "q = r" "t = s\<lparr>mm_runtime := rt\<rparr>" by (auto simp: on_runtime_def)
  with q show ?thesis
    using runtime_reload_config [of B c "mm_runtime s" _ rt]
    by (cases r) (auto simp: runtime_reload_cases split: sum.splits if_splits)
qed

definition reload_view ::
  "app_config res \<Rightarrow> ('v, 'w, 'l) multi_manager \<Rightarrow> ('v, 'w) runtime_state res \<times> ('v, 'w, 'l) multi_manager \<Rightarrow> bool" where
  "reload_view c s p \<longleftrightarrow> (case p of
     (Inl e, t) \<Rightarrow> same_view s t
   | (Inr new, t) \<Rightarrow> rn_servers t = rn_servers s \<and> get_state (mm_runtime t) = Inr new \<and> c = Inr (rs_config new))"

lemma reload_view_from: "same_view s u \<Longrightarrow> reload_view c u p \<Longrightarrow> reload_view c s p"
  by (auto simp: reload_view_def same_view_def split: prod.splits sum.splits)

lemma reload_view_bind:
  assumes "\<And>r u. m s = (r, u) \<Longrightarrow> same_view s u" and "\<And>x u. m s = (Inr x, u) \<Longrightarrow> reload_view c u (f x u)"
  shows "reload_view c s (act_bind m f s)"
proof (cases "m s")
  case (Pair r u)
  with assms reload_view_from show ?thesis by (cases r) (auto simp: act_bind_apply reload_view_def)
qed

lemma reload_body_view: "reload_view c s (reload_body V c i s)"
proof -
  have "reload_view c u (on_runtime (runtime_reload (me_build V) c) u)" for u :: "('a, 'b, 'c) multi_manager"
  proof (cases "on_runtime (runtime_reload (me_build V) c) u")
    case (Pair r t)
    from on_runtime_reload [OF this] Pair show ?thesis
      by (cases r) (auto simp: reload_view_def same_view_def)
  qed
  moreover have "same_view s u" if "(if rn_task_group s then on_pool i pool_start s
      else (Inl (RuntimeError ''not started''), s)) = (r, u)" for r u
    using that by (auto simp: same_view_rules split: if_splits)
  ultimately show ?thesis unfolding reload_body_def by (intro reload_view_bind) auto
qed

lemma multi_reload_view: "reload_view c' s (multi_reload V c c' s)"
proof -
  have swap: "reload_view c' u (act_bind (act_try (reload_body V c' i)
        (\<lambda>e. act_bind (act_upd (\<lambda>s. close_opt (Some r) (stop_pool i s))) (\<lambda>_. act_raise e)))
      (\<lambda>new. act_bind (act_upd (swap_services V (rs_config new) i r)) (\<lambda>_. act_ret new)) u)"
    for u :: "('a, 'b, 'c) multi_manager" and i r
  proof (cases "reload_body V c' i u")
    case (Pair q t)
    have "same_view t (close_opt (Some r) (stop_pool i t))" by (meson same_view_rules)
    with reload_body_view [of c' u V i] Pair show ?thesis
      by (cases q)
        (auto simp: reload_view_def act_simps act_try_def same_view_def swap_services_def new_front_def
          close_opt_def stop_pool_opt_def stop_pool_def Let_def split: option.splits)
  qed
  have pool: "same_view u w" if "act_try (make_pool V new)
      (\<lambda>e. act_bind (act_upd (close_opt (Some r))) (\<lambda>_. act_raise e)) u = (q, w)"
    for u w :: "('a, 'b, 'c) multi_manager" and new r q
  proof (cases "make_pool V new u")
    case (Pair a v)
    with that same_view_rules(4) [OF Pair] same_view_rules(2) [OF _ same_view_rules(6)] show ?thesis
      by (cases a) (auto simp: act_try_def act_simps split: if_splits)
  qed
  show ?thesis
    unfolding multi_reload_def
    by (intro reload_view_bind)
      (auto simp: act_lift_def same_view_rules reload_view_def [of c' s "(Inl _, _)"] intro!: reload_view_bind swap dest: pool)
qed

interpretation multi_web: web_manager "multi_host V read path view process" read for V read path view process
proof
  fix typed s e s'
  assume "wh_reload (multi_host V read path view process) typed s = (Inl e, s')"
  then have "multi_reload V (read typed) (read typed) s = (Inl e, s')"
    by (auto simp: multi_host_def act_simps split: prod.splits sum.splits)
  with multi_reload_view [of "read typed" s V "read typed"] have "same_view s s'" by (simp add: reload_view_def)
  then show "wh_config (multi_host V read path view process) s' = wh_config (multi_host V read path view process) s \<and>
      wh_status (multi_host V read path view process) s' = wh_status (multi_host V read path view process) s \<and>
      wh_store (multi_host V read path view process) s' = wh_store (multi_host V read path view process) s"
    by (simp add: multi_host_def multi_get_status_def same_view_def)
next
  fix typed s u s'
  assume "wh_reload (multi_host V read path view process) typed s = (Inr u, s')"
  then obtain new where "multi_reload V (read typed) (read typed) s = (Inr new, s')"
    by (auto simp: multi_host_def act_simps split: prod.splits sum.splits)
  with multi_reload_view [of "read typed" s V "read typed"]
  show "\<exists>c. read typed = Inr c \<and> wh_config (multi_host V read path view process) s' = Inr c"
    by (simp add: multi_host_def reload_view_def)
qed

section \<open>The stream of events\<close>

text \<open>How a client reads an event: its number and its data.\<close>

definition sse_read :: "string \<Rightarrow> (string \<times> string) option" where
  "sse_read chunk = (case py_split (CHR 0x0A) chunk of
     [i, e, d, [], []] \<Rightarrow> if take 4 i = ''id: '' \<and> e = ''event: query'' \<and> take 6 d = ''data: ''
       then Some (drop 4 i, drop 6 d) else None
   | _ \<Rightarrow> None)"

lemma split_lines_3:
  "c \<notin> set i \<Longrightarrow> c \<notin> set e \<Longrightarrow> c \<notin> set d \<Longrightarrow> py_split c (i @ c # e @ c # d @ [c, c]) = [i, e, d, [], []]"
  by (simp add: py_split_append)

lemma sse_read_event:
  assumes "CHR 0x0A \<notin> set (payload (snd x))"
  shows "sse_read (sse_event payload x) = Some (dec_str (fst x), payload (snd x))"
proof -
  let ?i = "''id: '' @ dec_str (fst x)" and ?d = "''data: '' @ payload (snd x)"
  have "py_split (CHR 0x0A) (?i @ CHR 0x0A # ''event: query'' @ CHR 0x0A # ?d @ [CHR 0x0A, CHR 0x0A]) =
      [?i, ''event: query'', ?d, [], []]"
    using assms by (intro split_lines_3) (simp_all add: dec_str_no is_digit_def)
  moreover have "sse_event payload x = ?i @ CHR 0x0A # ''event: query'' @ CHR 0x0A # ?d @ [CHR 0x0A, CHR 0x0A]"
    by (simp add: sse_event_def)
  ultimately show ?thesis by (simp only: sse_read_def) simp
qed

lemma sse_read_ping: "sse_read sse_ping = None"
  by (simp add: sse_read_def sse_ping_def)

lemma server_start_first:
  assumes "started n" and "k \<le> n"
  shows "\<exists>m. k \<le> m \<and> m \<le> n \<and> server_start started k = Some m \<and> started m \<and> (\<forall>j. k \<le> j \<longrightarrow> j < m \<longrightarrow> \<not> started j)"
  using assms(2)
proof (induction "n - k" arbitrary: k)
  case 0
  with assms(1) show ?case by (intro exI [of _ n]) (simp add: server_start.simps)
next
  case (Suc d)
  show ?case
  proof (cases "started k")
    case True
    with Suc.prems show ?thesis by (intro exI [of _ k]) (simp add: server_start.simps)
  next
    case False
    from Suc have "d = n - Suc k" "Suc k \<le> n" by simp_all
    from Suc.hyps(1) [OF this] obtain m where "Suc k \<le> m" "m \<le> n" "server_start started (Suc k) = Some m" "started m"
      "\<forall>j. Suc k \<le> j \<longrightarrow> j < m \<longrightarrow> \<not> started j" by blast
    moreover have "\<not> started j" if "k \<le> j" "j < m" for j
      using False calculation(5) that by (cases "j = k") auto
    ultimately show ?thesis
      using False by (intro exI [of _ m]) (simp add: server_start.simps [of started k])
  qed
qed

section \<open>Properties\<close>


text \<open>
  A request for a page with credentials that are not those of the current configuration is
  refused with 401 and changes nothing, the network included; with the right ones it is handled.
\<close>

theorem webui_requires_credentials:
  assumes "wh_config H (ww_manager w) = Inr config" and "route_of req \<in> set app" and "route_of req \<noteq> DohRoute"
  shows "handle_web V H app credentials req w =
    (if credentials = Some (w_username (webui config), w_password (webui config))
     then web_handler V H req w else (Inl (HTTPException 401), w))"
  using assms by (cases credentials) (auto simp: handle_web_def act_bind_apply authorize_webui_simps)

text \<open>
  C26: What saving the form does. The page of success shows exactly what the file now holds, the
  dump of the configuration that was typed. The page of failure gives the typed text back and the
  file is as before, unless the writing itself failed: then the file holds the beginning of the
  new text and the old configuration is lost. The manager goes on with what it has in any case.
\<close>

theorem save_config_view_outcome:
  assumes "save_config_view V H typed w = (r, w')"
  shows "ww_manager w' = ww_manager w \<and> ww_net w' = ww_net w \<and>
    (\<forall>p. r = Inr (PageResponse 200 p) \<longrightarrow> (\<exists>config dumped ctx. web_parse V typed = Inr config \<and>
       web_dump V config = Inr dumped \<and> ww_file w' = dumped \<and> p = ConfigPage ctx \<and> cc_text ctx = dumped \<and>
       cc_error ctx = None)) \<and>
    (\<forall>p. r = Inr (PageResponse 400 p) \<longrightarrow> (\<exists>ctx e. p = ConfigPage ctx \<and> cc_text ctx = typed \<and>
       cc_error ctx = Some e \<and>
       (ww_file w' = ww_file w \<or> (\<exists>n config dumped. we_write V = WriteFails n e \<and> web_parse V typed = Inr config \<and>
          web_dump V config = Inr dumped \<and> ww_file w' = take n dumped))))"
proof (cases "save_body V typed w")
  case (Pair q u)
  note body = save_body_cases [of V typed w q u, THEN iffD1, OF Pair]
  have "w' = u"
    using save_view_world [of V H typed w] assms Pair by simp
  moreover have "ww_manager u = ww_manager w \<and> ww_net u = ww_net w"
    using body by (auto split: sum.splits write_answer.splits)
  moreover have "\<exists>config dumped ctx. web_parse V typed = Inr config \<and> web_dump V config = Inr dumped \<and>
      ww_file u = dumped \<and> p = ConfigPage ctx \<and> cc_text ctx = dumped \<and> cc_error ctx = None"
    if "r = Inr (PageResponse 200 p)" for p
    using assms that Pair body
    by (auto simp: save_config_view_def save_failed_page_def saved_page_def web_simps
        split: sum.splits if_splits write_answer.splits)
  moreover have "\<exists>ctx e. p = ConfigPage ctx \<and> cc_text ctx = typed \<and> cc_error ctx = Some e \<and>
       (ww_file u = ww_file w \<or> (\<exists>n config dumped. we_write V = WriteFails n e \<and> web_parse V typed = Inr config \<and>
          web_dump V config = Inr dumped \<and> ww_file u = take n dumped))"
    if "r = Inr (PageResponse 400 p)" for p
    using assms that Pair body
    by (auto simp: save_config_view_def save_failed_page_def saved_page_def web_simps
        split: sum.splits if_splits write_answer.splits)
  ultimately show ?thesis by blast
qed

text \<open>
  The order to reload, for the manager with workers: either it is answered with the redirection
  and the pages then show the configuration that is in the file, or the pages, the credentials and
  the query log are what they were. The file is not touched.
\<close>

theorem webui_reload_applies_file:
  assumes "web_handler E (multi_host V read path view process) PostReload w = (r, w')"
  shows "ww_file w' = ww_file w \<and>
    (if r = Inr (RedirectResponse 303 ''/'')
     then \<exists>c. read (ww_file w) = Inr c \<and> wh_config (multi_host V read path view process) (ww_manager w') = Inr c
     else wh_config (multi_host V read path view process) (ww_manager w') =
            wh_config (multi_host V read path view process) (ww_manager w) \<and>
          wh_status (multi_host V read path view process) (ww_manager w') =
            wh_status (multi_host V read path view process) (ww_manager w) \<and>
          wh_store (multi_host V read path view process) (ww_manager w') =
            wh_store (multi_host V read path view process) (ww_manager w))"
proof -
  have "ww_file w' = ww_file w"
    using handler_keeps_file [of PostReload E "multi_host V read path view process" w] assms by simp
  then show ?thesis
    using multi_web.reload_answered [of E V read path view process w w'] assms
      multi_web.failed_request [OF assms] by auto
qed

text \<open>
  C18: What is saved is what the next reload brings up: after the form was saved and the order to
  reload was answered with the redirection, the configuration that answers queries is the one that
  was typed, completed by the plugins it does not mention. The settings of the file are taken to be
  read back as they were written (no environment variable overrides them).
\<close>

theorem save_then_reload:
  assumes saved: "save_config_view V (runtime_host B read path view) typed w = (Inr (PageResponse 200 p), w1)"
    and reloaded: "manual_reload (runtime_host B read path view) w1 = (Inr (RedirectResponse 303 ''/''), w2)"
    and read: "\<And>typed. read typed = load_config (we_modules V) (we_models V) (settings typed)"
    and settings: "\<And>c. web_parse V typed = Inr c \<Longrightarrow> settings (we_dumps V (we_to_json V c) @ [CHR 0x0A]) = Inr c"
    and defaults: "\<And>m cls. we_modules V m = Some cls \<Longrightarrow>
      (\<exists>v. pc_config cls (pm_config_default (we_models V m)) = Inr v) \<and>
      (\<exists>v. pc_variables cls (pm_variables_default (we_models V m)) = Inr v)"
  shows "\<exists>config st. web_parse V typed = Inr config \<and> get_state (ww_manager w2) = Inr st \<and> rs_config st = config"
proof -
  obtain config where parsed: "web_parse V typed = Inr config" and written: "web_dump V config = Inr (ww_file w1)"
  proof (cases "save_body V typed w")
    case (Pair q u)
    with save_body_cases [of V typed w q u] saved save_view_world [of V "runtime_host B read path view" typed w] that
    show ?thesis
      by (auto simp: save_config_view_def save_failed_page_def web_simps split: sum.splits if_splits write_answer.splits)
  qed
  from parsed obtain raw where raw: "(case raw of JObj _ \<Rightarrow>
      andthen (we_parse V raw) (finish_config (we_modules V) (we_models V))
    | _ \<Rightarrow> Inl (ValueError ''the root must be an object'')) = Inr config"
    by (auto simp: web_parse_def parse_config_text_def andthen_Inr_iff)
  then obtain c0 where c0: "finish_config (we_modules V) (we_models V) c0 = Inr config"
    by (cases raw) (auto simp: andthen_Inr_iff)
  note again = finish_config_again [OF c0 defaults, of "we_to_json V" "we_dumps V"]
  from again written have "ww_file w1 = we_dumps V (we_to_json V config) @ [CHR 0x0A]" by (simp add: web_dump_def)
  with again settings [OF parsed] have r: "read (ww_file w1) = Inr config" by (simp add: read load_config_def)
  have "web_handler V (runtime_host B read path view) PostReload w1 = (Inr (RedirectResponse 303 ''/''), w2)"
    using reloaded by simp
  from runtime_web.reload_answered [OF this] r
  have "wh_config (runtime_host B read path view) (ww_manager w2) = Inr config" by auto
  with parsed show ?thesis by (auto simp: runtime_host_def andthen_Inr_iff)
qed

text \<open>
  The stream of the query log: a client that reads the events gets exactly the entries the
  subscription gave before the client was found to be gone, each one event, in their order; the
  heartbeats are no events. The JSON text of an entry is taken to be one line.
\<close>

theorem event_stream_roundtrip:
  assumes "\<And>p. CHR 0x0A \<notin> set (payload p)"
  shows "List.map_filter sse_read (event_stream payload items) =
    map (\<lambda>x. (dec_str (fst x), payload (snd x))) (List.map_filter fst (takeWhile (\<lambda>x. \<not> snd x) items))"
  by (induction items) (auto simp: map_filter_simps sse_read_event assms sse_read_ping split: option.splits)

theorem event_stream_roundtrip_witness:
  "List.map_filter sse_read (event_stream (\<lambda>p. ''{}'') [(Some (1, ()), False), (None, False), (Some (2, ()), False), (Some (3, ()), True)]) =
     [(dec_str 1, ''{}''), (dec_str 2, ''{}'')]"
proof -
  let ?items = "[(Some (1, ()), False), (None, False), (Some (2, ()), False), (Some (3, ()), True)] :: ((nat \<times> unit) option \<times> bool) list"
  have "List.map_filter sse_read (event_stream (\<lambda>p. ''{}'') ?items) =
      map (\<lambda>x. (dec_str (fst x), ''{}'')) (List.map_filter fst (takeWhile (\<lambda>x. \<not> snd x) ?items))"
    by (rule event_stream_roundtrip) simp
  then show ?thesis by (simp only:) (simp add: map_filter_simps)
qed

text \<open>
  The start of the server waits until the server has started, and no longer: it returns at the
  first look that finds it started.
\<close>

theorem server_start_returns:
  assumes "started n"
  shows "\<exists>m \<le> n. server_start started 0 = Some m \<and> started m \<and> (\<forall>j < m. \<not> started j)"
  using server_start_first [of started n 0, OF assms] by auto

theorem server_start_returns_witness: "\<exists>m \<le> 3. server_start (\<lambda>k. 2 \<le> k) 0 = Some m"
  using server_start_returns [of "\<lambda>k. 2 \<le> k" 3] by auto

section \<open>A concrete application\<close>

definition full_two :: app_config where
  "full_two = (case finish_config sample_modules sample_models two_listeners of Inr c \<Rightarrow> c | Inl e \<Rightarrow> two_listeners)"

definition sample_env :: "(nat, nat) web_env" where
  "sample_env = \<lparr>we_lib = sample_lib, we_modules = sample_modules, we_models = sample_models,
     we_loads = (\<lambda>s. Inr (JObj [])), we_parse = (\<lambda>j. Inr two_listeners), we_to_json = (\<lambda>c. JObj []),
     we_dumps = (\<lambda>j. ''{}''), we_dump_plugin = (\<lambda>p. JObj []), we_schema = JObj [], we_filename = ''config.json'',
     we_write = Written\<rparr>"

definition read_full :: "string \<Rightarrow> app_config res" where
  "read_full typed = load_config sample_modules sample_models (Inr full_two)"

definition sample_host :: "((nat, nat) runtime_manager, nat, nat) web_host" where
  "sample_host = runtime_host sample_build read_full ''config.json'' (\<lambda>v. log_store_new 4)"

definition sample_web :: "((nat, nat) runtime_manager, nat) web_world" where
  "sample_web = \<lparr>ww_manager = served, ww_file = [], ww_net = 0\<rparr>"

lemma load_plugins_disabled:
  "list_all (\<lambda>p. \<not> p_enabled p) new \<Longrightarrow> load_plugins modules (pcs @ new) reg = load_plugins modules pcs reg"
proof (induction pcs arbitrary: reg)
  case Nil
  then show ?case by (induction new) auto
qed simp

lemma full_two_loaded: "finish_config sample_modules sample_models two_listeners = Inr full_two"
proof -
  obtain es where es: "discover_available_plugins sample_modules sample_models = Inr es" using discover_sample_all by blast
  have "set (map en_module es) = set static_plugin_module_names" by (simp only: discover_modules [OF es])
  moreover have "''query_log_plugin'' \<in> set static_plugin_module_names" by (simp add: static_plugin_module_names_def)
  ultimately have "''query_log_plugin'' \<in> en_module ` set es" by (simp only: set_map)
  then obtain e where e: "''query_log_plugin'' = en_module e" "e \<in> set es" by (rule imageE)
  have "distinct (map en_module es)" unfolding discover_modules [OF es] by (rule static_names_distinct)
  then have "entry_of es ''query_log_plugin'' = Some e" unfolding e(1) using e(2) by (rule entry_of_in)
  moreover have "en_class e = sample_class"
    using discover_loop_entries [OF es [unfolded discover_available_plugins_def]] e(2)
    by (simp add: list_all_iff sample_modules_def)
  ultimately have "validate_plugin_configs sample_modules sample_models (plugins two_listeners) = Inr ()"
    by (simp add: validate_plugin_configs_def es two_listeners_def validate_plugin_config_def sample_class_def)
  then show ?thesis
    by (simp add: finish_config_def materialize_plugin_configs_def es full_two_def)
qed

lemma full_two_plugins:
  "\<exists>new. full_two = two_listeners\<lparr>plugins := plugins two_listeners @ new\<rparr> \<and> list_all (\<lambda>p. \<not> p_enabled p) new"
proof -
  obtain es where es: "discover_available_plugins sample_modules sample_models = Inr es" using discover_sample_all by blast
  with full_two_loaded have "full_two = two_listeners\<lparr>plugins := materialize_loop es (plugins two_listeners)\<rparr>"
    by (auto simp: finish_config_def materialize_plugin_configs_def andthen_Inr_iff)
  with materialize_loop_spec [of es "plugins two_listeners"] show ?thesis by (auto simp: list_all_iff)
qed

lemma build_full: "\<exists>st. build_state sample_build (Inr full_two) [] (Some two_state) = Inr st \<and> rs_config st = full_two"
proof -
  from full_two_plugins obtain new where new: "full_two = two_listeners\<lparr>plugins := plugins two_listeners @ new\<rparr>"
    "list_all (\<lambda>p. \<not> p_enabled p) new" by blast
  obtain p where p: "plugins two_listeners = [p]" "p_enabled p" "p_module p = ''query_log_plugin''"
    "p_config p = JObj []" "p_variables p = JObj []" by (simp add: two_listeners_def)
  have "load_plugins modules new reg = Inr ([], reg)" for modules :: "(nat, resolver_fun) modules" and reg
    using load_plugins_disabled [OF new(2), of modules "[]" reg] by simp
  then show ?thesis
    using p by (simp add: build_state_def build_shared_contexts_def sample_build_def dict_update_def new(1)
      is_query_log_plugin_enabled_def Runtime.get_query_log_store_def QUERY_LOG_STORE_KEY_def plugin_manager_build_def
      registry_empty_def register_context_def register_def create_plugin_instance_def static_plugin_module_names_def
      store_class_def two_state_def Let_def)
qed

lemma two_view: "wh_config sample_host served = Inr two_listeners"
  by (simp add: sample_host_def runtime_host_def served_eq get_state_def two_state_def)

lemma two_webui: "webui two_listeners = webui Catalog.sample_config" "w_enabled (webui two_listeners)"
    "w_username (webui two_listeners) = []" "w_password (webui two_listeners) = []"
  by (simp_all add: two_listeners_def Catalog.sample_config_def)

lemma same_signature: "service_signature full_two = service_signature two_listeners"
proof -
  from full_two_plugins obtain new where new: "full_two = two_listeners\<lparr>plugins := plugins two_listeners @ new\<rparr>" by blast
  show ?thesis by (subst new) (simp add: service_signature_def)
qed

lemma sample_web_parse: "web_parse sample_env typed = Inr full_two"
  by (simp add: web_parse_def parse_config_text_def sample_env_def full_two_loaded)

lemma sample_dumps: "\<exists>dumped. web_dump sample_env c = Inr dumped"
  using discover_sample_all
  by (auto simp: web_dump_def dump_config_text_def materialize_plugin_configs_def sample_env_def)

lemma sample_described: "\<exists>ds. described_plugins sample_env = Inr ds" "\<exists>sch. web_schema sample_env = Inr sch"
  using discover_sample_all
  by (auto simp: described_plugins_def web_schema_def build_config_json_schema_def sample_env_def split: prod.splits)

lemma read_full_two: "read_full typed = Inr full_two"
proof -
  have "(\<exists>v. pc_config cls (pm_config_default (sample_models m)) = Inr v) \<and>
      (\<exists>v. pc_variables cls (pm_variables_default (sample_models m)) = Inr v)"
    if "sample_modules m = Some cls" for m cls
    using that by (auto simp: sample_modules_def sample_class_def)
  from finish_config_again [OF full_two_loaded this] show ?thesis by (simp add: read_full_def load_config_def)
qed

text \<open>Saving the form, then the order to reload.\<close>

lemma sample_saved:
  "\<exists>p w1. save_config_view sample_env sample_host ''{}'' sample_web = (Inr (PageResponse 200 p), w1) \<and> ww_manager w1 = served"
proof -
  obtain dumped where d: "web_dump sample_env full_two = Inr dumped" using sample_dumps by blast
  have "we_write sample_env = Written" by (simp add: sample_env_def)
  with d have "save_body sample_env ''{}'' sample_web = (Inr full_two, sample_web\<lparr>ww_file := dumped\<rparr>)"
    by (simp add: save_body_cases sample_web_parse)
  moreover obtain st where "wh_status sample_host served = Inr st"
    by (simp add: sample_host_def runtime_host_def get_status_def served_eq get_state_def)
  moreover obtain ds sch where "described_plugins sample_env = Inr ds" "web_schema sample_env = Inr sch"
    using sample_described by blast
  ultimately show ?thesis using d
    by (simp add: save_config_view_def saved_page_def web_simps sample_web_def)
qed

lemma sample_reloaded:
  assumes "ww_manager w1 = served"
  shows "\<exists>w2. manual_reload sample_host w1 = (Inr (RedirectResponse 303 ''/''), w2) \<and> ww_manager w2 \<noteq> served"
proof -
  obtain st where st: "build_state sample_build (Inr full_two) [] (Some two_state) = Inr st" "rs_config st = full_two"
    using build_full by blast
  have "full_two \<noteq> two_listeners"
  proof
    assume eq: "full_two = two_listeners"
    obtain es where es: "discover_available_plugins sample_modules sample_models = Inr es" using discover_sample_all by blast
    with full_two_loaded have "full_two = two_listeners\<lparr>plugins := materialize_loop es (plugins two_listeners)\<rparr>"
      by (auto simp: finish_config_def materialize_plugin_configs_def andthen_Inr_iff)
    with eq have same: "materialize_loop es (plugins two_listeners) = plugins two_listeners"
      by (metis app_config.select_convs(8) app_config.surjective app_config.update_convs(8))
    have "en_module ` set es \<subseteq> p_module ` set (materialize_loop es (plugins two_listeners))"
      using materialize_loop_spec [of es "plugins two_listeners"] by auto
    moreover have "set (map en_module es) = set static_plugin_module_names" by (simp only: discover_modules [OF es])
    ultimately have "set static_plugin_module_names \<subseteq> p_module ` set (plugins two_listeners)"
      by (simp only: same set_map)
    then show False by (simp add: two_listeners_def static_plugin_module_names_def)
  qed
  with st have "runtime_reload sample_build (Inr full_two) served = (Inr st, served\<lparr>rn_state := Some st\<rparr>)"
    "served\<lparr>rn_state := Some st\<rparr> \<noteq> served"
    using same_signature by (auto simp: runtime_reload_cases served_eq two_state_def)
  with assms show ?thesis
    by (simp add: manual_reload_def sample_host_def runtime_host_def web_simps read_full_two)
qed


theorem webui_requires_credentials_witness:
  "handle_web sample_env sample_host (create_webui_app (webui two_listeners)) (Some (''admin'', ''guess'')) PostReload sample_web =
     (Inl (HTTPException 401), sample_web)"
  using webui_requires_credentials [of sample_host sample_web two_listeners PostReload
      "create_webui_app (webui two_listeners)" sample_env "Some (''admin'', ''guess'')"] two_webui
  by (simp add: sample_web_def two_view create_webui_app_def)

theorem save_config_view_outcome_witness:
  "\<exists>ctx w1. save_config_view sample_env sample_host ''{}'' sample_web = (Inr (PageResponse 200 (ConfigPage ctx)), w1) \<and>
     ww_file w1 = cc_text ctx"
proof -
  obtain p w1 where s: "save_config_view sample_env sample_host ''{}'' sample_web = (Inr (PageResponse 200 p), w1)"
    using sample_saved by blast
  note page = save_config_view_outcome [OF s, THEN conjunct2, THEN conjunct2, THEN conjunct1, THEN spec, THEN mp, OF refl]
  then obtain ctx where "p = ConfigPage ctx" "ww_file w1 = cc_text ctx" by auto
  with s show ?thesis by blast
qed

theorem webui_reload_applies_file_witness:
  "\<exists>r w'. web_handler sample_env (multi_host sample_multi (\<lambda>typed. Inl (ValueError typed)) [] (\<lambda>v. log_store_new 4 :: nat log_store) (\<lambda>s. sample_process))
     PostReload \<lparr>ww_manager = multi_up, ww_file = ''x'', ww_net = 0\<rparr> = (r, w') \<and> ww_file w' = ''x''"
proof -
  let ?H = "multi_host sample_multi (\<lambda>typed. Inl (ValueError typed)) [] (\<lambda>v. log_store_new 4 :: nat log_store) (\<lambda>s. sample_process)"
  obtain r w' where run: "web_handler sample_env ?H PostReload \<lparr>ww_manager = multi_up, ww_file = ''x'', ww_net = 0\<rparr> = (r, w')"
    by fastforce
  from webui_reload_applies_file [OF run] have "ww_file w' = ''x''" by simp
  with run show ?thesis by blast
qed

theorem save_then_reload_witness:
  "\<exists>p w1 w2. save_config_view sample_env sample_host ''{}'' sample_web = (Inr (PageResponse 200 p), w1) \<and>
     manual_reload sample_host w1 = (Inr (RedirectResponse 303 ''/''), w2) \<and>
     map_option rs_config (rn_state (ww_manager w2)) = Some full_two"
proof -
  obtain p w1 where s: "save_config_view sample_env sample_host ''{}'' sample_web = (Inr (PageResponse 200 p), w1)"
    "ww_manager w1 = served" using sample_saved by blast
  obtain w2 where r: "manual_reload sample_host w1 = (Inr (RedirectResponse 303 ''/''), w2)"
    using sample_reloaded [OF s(2)] by blast
  have d: "(\<exists>v. pc_config cls (pm_config_default (we_models sample_env m)) = Inr v) \<and>
      (\<exists>v. pc_variables cls (pm_variables_default (we_models sample_env m)) = Inr v)"
    if "we_modules sample_env m = Some cls" for m cls
    using that by (auto simp: sample_env_def sample_modules_def sample_class_def)
  have settings: "Inr full_two = Inr c" if "web_parse sample_env ''{}'' = Inr c" for c
    using that by (simp add: sample_web_parse)
  have read: "read_full typed = load_config (we_modules sample_env) (we_models sample_env) ((\<lambda>_. Inr full_two) typed)" for typed
    by (simp add: read_full_def sample_env_def)
  from save_then_reload [OF s(1) [unfolded sample_host_def] r [unfolded sample_host_def] read settings d]
  have "map_option rs_config (rn_state (ww_manager w2)) = Some full_two"
    by (auto simp: sample_web_parse get_state_def split: option.splits)
  with s(1) r show ?thesis by blast
qed

end
