(* ===== verification/Log_Setup.thy ===== *)
theory Log_Setup
  imports Prelude "HOL-Library.Multiset"
begin

text \<open>
  \<open>dns_forwarder/logging.py\<close>: the logger of the program is set up, the names of the loggers of its
  modules, and the text of a set of tags in a message. The \<open>logging\<close> module keeps a logger by its
  name; the state here is the logger \<open>dns_forwarder\<close> with its handlers.
\<close>

definition LOGGER_NAME :: string where
  "LOGGER_NAME = ''dns_forwarder''"

definition LOG_FORMAT :: string where
  "LOG_FORMAT = ''%(asctime)s %(levelname)s [%(name)s] %(message)s''"

definition VALID_LEVELS :: "string list" where
  "VALID_LEVELS = [''CRITICAL'', ''ERROR'', ''WARNING'', ''INFO'', ''DEBUG'']"

text \<open>\<open>lh_ours\<close> is the attribute \<open>_dns_forwarder_handler\<close>.\<close>

record log_handler =
  lh_ours :: bool
  lh_level :: string
  lh_format :: string

record logger_state =
  lo_level :: string
  lo_propagate :: bool
  lo_handlers :: "log_handler list"

text \<open>The first handler of ours gets the level and the format.\<close>

fun set_own_handler :: "string \<Rightarrow> log_handler list \<Rightarrow> log_handler list" where
  "set_own_handler level [] = []"
| "set_own_handler level (h # hs) =
     (if lh_ours h then h\<lparr>lh_level := level, lh_format := LOG_FORMAT\<rparr> # hs else h # set_own_handler level hs)"

definition new_handler :: log_handler where
  "new_handler = \<lparr>lh_ours = True, lh_level = ''NOTSET'', lh_format = []\<rparr>"

definition configure_logging :: "string \<Rightarrow> (logger_state, unit) act" where
  "configure_logging level = (\<lambda>s.
     let normalized = py_upper level in
     if normalized \<notin> set VALID_LEVELS then (Inl (ValueError (''unknown log_level: '' @ level)), s)
     else
       let handlers = (case find lh_ours (lo_handlers s) of
             None \<Rightarrow> lo_handlers s @ [new_handler] | Some _ \<Rightarrow> lo_handlers s) in
       (Inr (), s\<lparr>lo_level := normalized, lo_propagate := False, lo_handlers := set_own_handler normalized handlers\<rparr>))"

definition get_logger :: "string option \<Rightarrow> string" where
  "get_logger name = (case name of
     None \<Rightarrow> LOGGER_NAME
   | Some n \<Rightarrow>
       if n = [] \<or> n = LOGGER_NAME then LOGGER_NAME
       else if take (length LOGGER_NAME + 1) n = LOGGER_NAME @ ''.'' then n
       else LOGGER_NAME @ ''.'' @ n)"

definition format_tags :: "string list option \<Rightarrow> string" where
  "format_tags tags = (case tags of
     None \<Rightarrow> ''[]'' | Some ts \<Rightarrow> if ts = [] then ''[]'' else ''['' @ py_join '','' (sort ts) @ '']'')"

section \<open>Properties\<close>

text \<open>A logger is the program's own or below it, so one handler serves them all.\<close>

lemma get_logger_below:
  "get_logger name = LOGGER_NAME \<or> prefix (LOGGER_NAME @ ''.'') (get_logger name)"
  by (auto simp: get_logger_def take_is_prefix split: option.split) (metis take_is_prefix)

lemma get_logger_idem: "get_logger (Some (get_logger name)) = get_logger name"
  using get_logger_below [of name]
  by (auto simp: get_logger_def [of "Some (get_logger name)"] prefix_def LOGGER_NAME_def)

text \<open>The text of the tags does not depend on the order in which the set gives them.\<close>

lemma format_tags_order: "mset xs = mset ys \<Longrightarrow> format_tags (Some xs) = format_tags (Some ys)"
proof -
  assume m: "mset xs = mset ys"
  then have "sort xs = sort ys" by (metis properties_for_sort mset_sort sorted_sort)
  moreover from m have "xs = [] \<longleftrightarrow> ys = []" by auto
  ultimately show ?thesis by (simp add: format_tags_def)
qed

lemma set_own_handler_filters:
  "filter (\<lambda>h. \<not> lh_ours h) (set_own_handler l hs) = filter (\<lambda>h. \<not> lh_ours h) hs"
  "length (filter lh_ours (set_own_handler l hs)) = length (filter lh_ours hs)"
  "set_own_handler l (set_own_handler l hs) = set_own_handler l hs"
  "find lh_ours (set_own_handler l hs) = None \<longleftrightarrow> find lh_ours hs = None"
  by (induction hs) auto

lemma find_None_filter: "find P xs = None \<longleftrightarrow> filter P xs = []"
  by (auto simp: find_None_iff filter_empty_conv)

text \<open>
  Setting up the logger any number of times leaves one handler of the program, with the last
  level, and leaves the handlers of others alone; a second time with the same level changes
  nothing. An unknown level raises and changes nothing.
\<close>

theorem configure_logging_one_handler:
  assumes "length (filter lh_ours (lo_handlers s)) \<le> 1"
  shows "case configure_logging level s of
      (Inl e, t) \<Rightarrow> py_upper level \<notin> set VALID_LEVELS \<and> t = s
    | (Inr u, t) \<Rightarrow> py_upper level \<in> set VALID_LEVELS \<and> lo_level t = py_upper level \<and>
        length (filter lh_ours (lo_handlers t)) = 1 \<and>
        filter (\<lambda>h. \<not> lh_ours h) (lo_handlers t) = filter (\<lambda>h. \<not> lh_ours h) (lo_handlers s) \<and>
        configure_logging level t = (Inr (), t)"
proof (cases "py_upper level \<in> set VALID_LEVELS")
  case False
  then show ?thesis by (simp add: configure_logging_def Let_def)
next
  case True
  let ?hs = "case find lh_ours (lo_handlers s) of None \<Rightarrow> lo_handlers s @ [new_handler] | Some _ \<Rightarrow> lo_handlers s"
  have one: "length (filter lh_ours ?hs) = 1"
  proof (cases "find lh_ours (lo_handlers s)")
    case None
    then have "filter lh_ours (lo_handlers s) = []" by (simp only: find_None_filter)
    with None show ?thesis by (simp add: new_handler_def)
  next
    case (Some h)
    then have "filter lh_ours (lo_handlers s) \<noteq> []" by (metis find_None_filter option.distinct(1))
    then have "length (filter lh_ours (lo_handlers s)) > 0" by simp
    with assms have "length (filter lh_ours (lo_handlers s)) = 1" by linarith
    with Some show ?thesis by simp
  qed
  then have "filter lh_ours ?hs \<noteq> []" by (metis length_0_conv zero_neq_one)
  then obtain h where "find lh_ours (set_own_handler (py_upper level) ?hs) = Some h"
    using set_own_handler_filters(4) [of "py_upper level" ?hs] find_None_filter [of lh_ours ?hs] by auto
  moreover have "filter (\<lambda>h. \<not> lh_ours h) ?hs = filter (\<lambda>h. \<not> lh_ours h) (lo_handlers s)"
    by (simp add: new_handler_def split: option.split)
  ultimately show ?thesis using True one
    by (simp add: configure_logging_def Let_def set_own_handler_filters)
qed

theorem configure_logging_one_handler_witness:
  "\<exists>t. configure_logging ''info'' \<lparr>lo_level = [], lo_propagate = True, lo_handlers = []\<rparr> = (Inr (), t) \<and>
     length (lo_handlers t) = 1"
proof -
  let ?s = "\<lparr>lo_level = [], lo_propagate = True, lo_handlers = []\<rparr>"
  have "length (filter lh_ours (lo_handlers ?s)) \<le> 1" by simp
  note one = configure_logging_one_handler [OF this, of "''info''"]
  have "py_upper ''info'' \<in> set VALID_LEVELS"
    by code_simp
  with one obtain t where t: "configure_logging ''info'' ?s = (Inr (), t)" "length (filter lh_ours (lo_handlers t)) = 1"
    "filter (\<lambda>h. \<not> lh_ours h) (lo_handlers t) = []"
    by (cases "configure_logging ''info'' ?s") (auto split: sum.splits)
  have "length (lo_handlers t) = 1"
    using t(2,3) sum_length_filter_compl [of lh_ours "lo_handlers t"] by simp
  with t(1) show ?thesis by blast
qed

end
