(* ===== verification/Listeners.thy ===== *)
theory Listeners
  imports Runtime Servers "HOL-Library.Multiset"
begin

text \<open>
  The life of the listeners in \<open>server/udp.py\<close> and \<open>server/tcp.py\<close>: binding, serving, stopping, and
  the tasks that answer the datagrams of a UDP socket while others come in. What one datagram or one
  connection is answered with is in the theory Servers; the managers see a listener as a
  \<open>dns_server\<close> of the theory Runtime. A socket is its local address, which may be unknown.
\<close>

section \<open>A listener and its socket\<close>

record socket_server =
  ss_listener :: listener_config
  ss_socket :: "(string \<times> nat) option option"
  ss_group :: bool

text \<open>What the operating system answers to the binding: the new socket with its address.\<close>

type_synonym bind_socket = "listener_config \<Rightarrow> (string \<times> nat) option res"

definition udp_init :: "listener_config \<Rightarrow> socket_server" where
  "udp_init l = \<lparr>ss_listener = l, ss_socket = None, ss_group = False\<rparr>"

definition udp_start :: "bind_socket \<Rightarrow> (socket_server, unit) act" where
  "udp_start bind = (\<lambda>s. case bind (ss_listener s) of
     Inl e \<Rightarrow> (Inl e, s)
   | Inr addr \<Rightarrow> (Inr (), s\<lparr>ss_socket := Some addr, ss_group := True\<rparr>))"

definition udp_stop :: "socket_server \<Rightarrow> socket_server" where
  "udp_stop s = (case ss_socket s of None \<Rightarrow> s | Some _ \<Rightarrow> s\<lparr>ss_socket := None\<rparr>)"

definition udp_bound_address :: "socket_server \<Rightarrow> (string \<times> nat) option" where
  "udp_bound_address s = (case ss_socket s of None \<Rightarrow> None | Some addr \<Rightarrow> addr)"

definition tcp_init :: "listener_config \<Rightarrow> socket_server" where
  "tcp_init l = \<lparr>ss_listener = l, ss_socket = None, ss_group = False\<rparr>"

definition tcp_start :: "bind_socket \<Rightarrow> (socket_server, unit) act" where
  "tcp_start bind = (\<lambda>s. case bind (ss_listener s) of
     Inl e \<Rightarrow> (Inl e, s)
   | Inr addr \<Rightarrow> (Inr (), s\<lparr>ss_socket := Some addr, ss_group := True\<rparr>))"

definition tcp_stop :: "socket_server \<Rightarrow> socket_server" where
  "tcp_stop s = (case ss_socket s of None \<Rightarrow> s | Some _ \<Rightarrow> s\<lparr>ss_socket := None\<rparr>)"

definition tcp_bound_address :: "socket_server \<Rightarrow> (string \<times> nat) option" where
  "tcp_bound_address s = (case ss_socket s of None \<Rightarrow> None | Some addr \<Rightarrow> addr)"

text \<open>\<open>_build_dns_server\<close>, with the operations of the class that is chosen.\<close>

definition build_dns_server :: "listener_config \<Rightarrow> socket_server" where
  "build_dns_server l = (if l_protocol l = UDP then udp_init l else tcp_init l)"

definition dns_server_start :: "bind_socket \<Rightarrow> (socket_server, unit) act" where
  "dns_server_start bind = (\<lambda>s. if l_protocol (ss_listener s) = UDP then udp_start bind s else tcp_start bind s)"

definition dns_server_stop :: "socket_server \<Rightarrow> socket_server" where
  "dns_server_stop s = (if l_protocol (ss_listener s) = UDP then udp_stop s else tcp_stop s)"

definition dns_server_address :: "socket_server \<Rightarrow> (string \<times> nat) option" where
  "dns_server_address s = (if l_protocol (ss_listener s) = UDP then udp_bound_address s else tcp_bound_address s)"

section \<open>The tasks of a UDP listener\<close>

text \<open>
  A datagram task has not begun, or waits for \<open>process_query\<close>. \<open>uw_received\<close> and \<open>uw_sent\<close> are what
  has come in over the socket and gone out.
\<close>

type_synonym datagram = "bytes \<times> string"

datatype datagram_task = Fresh datagram | Asked datagram message

record udp_world =
  uw_server :: socket_server
  uw_serving :: bool
  uw_tasks :: "datagram_task list"
  uw_received :: "datagram list"
  uw_sent :: "datagram list"

definition udp_world_start :: "bind_socket \<Rightarrow> (udp_world, unit) act" where
  "udp_world_start bind = (\<lambda>w. case udp_start bind (uw_server w) of
     (Inl e, s) \<Rightarrow> (Inl e, w\<lparr>uw_server := s\<rparr>)
   | (Inr _, s) \<Rightarrow> (Inr (), w\<lparr>uw_server := s, uw_serving := True\<rparr>))"

text \<open>What the iteration of \<open>_serve\<close> over the socket meets, and what it does then.\<close>

datatype socket_event = Datagram datagram | SocketClosed | SocketRaises py_exn

definition udp_serve :: "socket_event \<Rightarrow> (udp_world, unit) act" where
  "udp_serve event = (\<lambda>w. case event of
     Datagram d \<Rightarrow>
       (Inr (), w\<lparr>uw_received := uw_received w @ [d],
          uw_tasks := uw_tasks w @ (if ss_group (uw_server w) then [Fresh d] else [])\<rparr>)
   | SocketClosed \<Rightarrow> (Inr (), w\<lparr>uw_serving := False\<rparr>)
   | SocketRaises e \<Rightarrow> (if is_Exception e then Inr () else Inl e, w\<lparr>uw_serving := False\<rparr>))"

text \<open>\<open>handle_datagram\<close> up to \<open>process_query\<close>, and after it; what is sent.\<close>

definition begin_datagram :: "dnslib \<Rightarrow> socket_server \<Rightarrow> datagram \<Rightarrow> datagram_task list" where
  "begin_datagram L s d =
     (if ss_socket s = None then []
      else case from_wire L (fst d) of Inl e \<Rightarrow> [] | Inr req \<Rightarrow> [Asked d req])"

definition end_datagram :: "dnslib \<Rightarrow> socket_server \<Rightarrow> datagram \<Rightarrow> message option \<Rightarrow> datagram list" where
  "end_datagram L s d response = (case response of
     None \<Rightarrow> []
   | Some m \<Rightarrow> if ss_socket s = None then []
       else case to_wire L m of Inl e \<Rightarrow> [] | Inr wire \<Rightarrow> [(wire, snd d)])"

text \<open>
  The steps of the listener. \<open>answering\<close> says what \<open>process_query\<close> may return for a request and a
  client. An exception of \<open>process_query\<close> is not handled: it ends the task group of the listener.
  Sending may fail, which is handled.
\<close>

inductive udp_step :: "dnslib \<Rightarrow> (message \<Rightarrow> string \<Rightarrow> message option \<Rightarrow> bool) \<Rightarrow> udp_world \<Rightarrow> udp_world \<Rightarrow> bool"
  for L answering where
  start: "udp_world_start bind w = (r, w') \<Longrightarrow> udp_step L answering w w'"
| serve: "uw_serving w \<Longrightarrow> ss_socket (uw_server w) \<noteq> None \<Longrightarrow> udp_serve event w = (r, w') \<Longrightarrow> udp_step L answering w w'"
| begin_task: "uw_tasks w = xs @ Fresh d # ys \<Longrightarrow>
     udp_step L answering w (w\<lparr>uw_tasks := xs @ begin_datagram L (uw_server w) d @ ys\<rparr>)"
| end_task: "uw_tasks w = xs @ Asked d req # ys \<Longrightarrow> answering req (snd d) response \<Longrightarrow>
     udp_step L answering w (w\<lparr>uw_tasks := xs @ ys, uw_sent := uw_sent w @ end_datagram L (uw_server w) d response\<rparr>)"
| send_fails: "uw_tasks w = xs @ Asked d req # ys \<Longrightarrow> udp_step L answering w (w\<lparr>uw_tasks := xs @ ys\<rparr>)"
| query_raises: "uw_tasks w = xs @ Asked d req # ys \<Longrightarrow>
     udp_step L answering w (w\<lparr>uw_tasks := [], uw_serving := False\<rparr>)"
| stop: "udp_step L answering w (w\<lparr>uw_server := udp_stop (uw_server w)\<rparr>)"

inductive udp_reach :: "dnslib \<Rightarrow> (message \<Rightarrow> string \<Rightarrow> message option \<Rightarrow> bool) \<Rightarrow> udp_world \<Rightarrow> bool"
  for L answering where
  init: "udp_reach L answering \<lparr>uw_server = udp_init l, uw_serving = False, uw_tasks = [], uw_received = [], uw_sent = []\<rparr>"
| step: "udp_reach L answering w \<Longrightarrow> udp_step L answering w w' \<Longrightarrow> udp_reach L answering w'"

text \<open>A stream of connections for a TCP listener: the exceptions of \<open>serve\<close> end in \<open>_serve\<close>.\<close>

definition tcp_serve :: "socket_server \<Rightarrow> py_exn \<Rightarrow> unit res" where
  "tcp_serve s e =
     (let raised = (if ss_socket s = None then OtherError ''AssertionError'' else e) in
      if is_Exception raised then Inr () else Inl raised)"

section \<open>The contract of a listener\<close>

locale listener_class =
  fixes init :: "listener_config \<Rightarrow> 's" and start :: "bind_socket \<Rightarrow> ('s, unit) act"
    and stop :: "'s \<Rightarrow> 's" and bound_address :: "'s \<Rightarrow> (string \<times> nat) option" and listener :: "'s \<Rightarrow> listener_config"
  assumes init_closed: "bound_address (init l) = None" and init_listener: "listener (init l) = l"
    and start_raises: "start bind s = (Inl e, t) \<longleftrightarrow> bind (listener s) = Inl e \<and> t = s"
    and start_opens: "start bind s = (Inr u, t) \<Longrightarrow> bind (listener s) = Inr addr \<Longrightarrow> bound_address t = addr"
    and start_listener: "listener (snd (start bind s)) = listener s"
    and stop_closes: "bound_address (stop s) = None" and stop_listener: "listener (stop s) = listener s"
begin

text \<open>The listener as the managers see it, at its construction and start and at its stop.\<close>

lemma started:
  assumes "bind l = Inr (Some addr)"
  shows "\<exists>t. start bind (init l) = (Inr (), t) \<and> listener t = l \<and> bound_address t = Some addr"
proof (cases "start bind (init l)")
  case (Pair r t)
  show ?thesis
  proof (cases r)
    case (Inl e)
    with Pair start_raises [of bind "init l" e t] assms show ?thesis by (simp add: init_listener)
  next
    case (Inr u)
    with Pair start_opens [of bind "init l" u t "Some addr"] assms start_listener [of bind "init l"]
    show ?thesis by (simp add: init_listener)
  qed
qed

lemma stopped_all: "\<forall>s \<in> set (map stop services). bound_address s = None"
  by (simp add: stop_closes)

end

interpretation udp_class: listener_class udp_init udp_start udp_stop udp_bound_address ss_listener
  by unfold_locales
    (auto simp: udp_init_def udp_start_def udp_stop_def udp_bound_address_def split: sum.splits option.splits)

interpretation tcp_class: listener_class tcp_init tcp_start tcp_stop tcp_bound_address ss_listener
  by unfold_locales
    (auto simp: tcp_init_def tcp_start_def tcp_stop_def tcp_bound_address_def split: sum.splits option.splits)

section \<open>The view of the managers\<close>

definition server_view :: "socket_server \<Rightarrow> dns_server" where
  "server_view s = \<lparr>sv_listener = ss_listener s, sv_address = dns_server_address s\<rparr>"

lemma server_started:
  "bind l = Inr (Some addr) \<Longrightarrow> \<exists>t. dns_server_start bind (build_dns_server l) = (Inr (), t) \<and>
     server_view t = \<lparr>sv_listener = l, sv_address = Some addr\<rparr>"
  by (simp add: dns_server_start_def build_dns_server_def server_view_def dns_server_address_def udp_init_def tcp_init_def
      udp_start_def tcp_start_def udp_bound_address_def tcp_bound_address_def)

lemma server_built: "ss_listener (build_dns_server l) = l" "dns_server_address (build_dns_server l) = None"
  by (simp_all add: build_dns_server_def dns_server_address_def udp_class.init_listener tcp_class.init_listener
      udp_class.init_closed tcp_class.init_closed)

lemma server_not_started:
  "bind l = Inl e \<Longrightarrow> dns_server_start bind (build_dns_server l) = (Inl e, build_dns_server l)"
  by (simp add: dns_server_start_def build_dns_server_def udp_init_def tcp_init_def udp_start_def tcp_start_def)

lemma server_stopped: "dns_server_address (dns_server_stop s) = None"
  using udp_class.stop_closes [of s] tcp_class.stop_closes [of s]
  by (simp add: dns_server_address_def dns_server_stop_def udp_class.stop_listener tcp_class.stop_listener)

text \<open>
  A listener does what the managers take it to do: starting one under the answer of the
  operating system gives the outcome and the entry that the managers' \<open>start_server\<close> gives, and
  a stopped listener has no address left.
\<close>

theorem listener_refines_manager_view:
  assumes "\<And>addr. bind l = Inr addr \<Longrightarrow> addr \<noteq> None"
  shows "(case dns_server_start bind (build_dns_server l) of
      (Inl e, t) \<Rightarrow> fst (start_server (\<lambda>l. andthen (bind l) (\<lambda>a. Inr (the a))) l s) = Inl e \<and>
        server_view t = \<lparr>sv_listener = l, sv_address = None\<rparr>
    | (Inr u, t) \<Rightarrow> fst (start_server (\<lambda>l. andthen (bind l) (\<lambda>a. Inr (the a))) l s) = Inr (server_view t)) \<and>
    sv_address (server_view (dns_server_stop (snd (dns_server_start bind (build_dns_server l))))) = None"
proof (cases "bind l")
  case (Inl e)
  then show ?thesis
    by (simp add: server_not_started server_view_def server_stopped server_built)
next
  case (Inr a)
  with assms obtain addr where a: "bind l = Inr (Some addr)" by (cases a) auto
  from server_started [of bind l addr, OF this] obtain t where "dns_server_start bind (build_dns_server l) = (Inr (), t)"
    "server_view t = \<lparr>sv_listener = l, sv_address = Some addr\<rparr>" by blast
  with a show ?thesis by (simp add: server_stopped) (simp add: server_view_def server_stopped)
qed

section \<open>Replies\<close>

text \<open>A reply is the answer to a datagram, sent to where it came from.\<close>

definition reply_to ::
  "dnslib \<Rightarrow> (message \<Rightarrow> string \<Rightarrow> message option \<Rightarrow> bool) \<Rightarrow> datagram \<Rightarrow> datagram \<Rightarrow> bool" where
  "reply_to L answering d sent \<longleftrightarrow> (\<exists>req m wire. from_wire L (fst d) = Inr req \<and> answering req (snd d) (Some m) \<and>
     to_wire L m = Inr wire \<and> sent = (wire, snd d))"

fun origin :: "datagram_task \<Rightarrow> datagram" where
  "origin (Fresh d) = d"
| "origin (Asked d req) = d"

fun task_ok :: "dnslib \<Rightarrow> datagram_task \<Rightarrow> bool" where
  "task_ok L (Fresh d) = True"
| "task_ok L (Asked d req) = (from_wire L (fst d) = Inr req)"

definition udp_ok :: "dnslib \<Rightarrow> (message \<Rightarrow> string \<Rightarrow> message option \<Rightarrow> bool) \<Rightarrow> udp_world \<Rightarrow> bool" where
  "udp_ok L answering w \<longleftrightarrow> list_all (task_ok L) (uw_tasks w) \<and>
     (\<exists>cause. list_all2 (reply_to L answering) cause (uw_sent w) \<and>
        mset cause + mset (map origin (uw_tasks w)) \<subseteq># mset (uw_received w))"

lemma udp_okI:
  "list_all (task_ok L) (uw_tasks w) \<Longrightarrow> list_all2 (reply_to L answering) cause (uw_sent w) \<Longrightarrow>
     mset cause + mset (map origin (uw_tasks w)) \<subseteq># mset (uw_received w) \<Longrightarrow> udp_ok L answering w"
  by (auto simp: udp_ok_def)

text \<open>Fewer tasks keep the invariant, and so does a task that ends with its reply.\<close>

lemma udp_ok_fewer:
  assumes "udp_ok L answering w" and "set ts \<subseteq> set (uw_tasks w)" and "mset (map origin ts) \<subseteq># mset (map origin (uw_tasks w))"
    and "uw_tasks v = ts" "uw_sent v = uw_sent w" "uw_received v = uw_received w"
  shows "udp_ok L answering v"
proof -
  from assms(1) obtain cause where c: "list_all2 (reply_to L answering) cause (uw_sent w)"
    "mset cause + mset (map origin (uw_tasks w)) \<subseteq># mset (uw_received w)" by (auto simp: udp_ok_def)
  have "mset cause + mset (map origin ts) \<subseteq># mset (uw_received w)"
    using c(2) assms(3) by (meson subset_mset.add_left_mono subset_mset.order_trans)
  then show ?thesis using assms c(1) by (intro udp_okI [of L v answering cause]) (auto simp: udp_ok_def list_all_iff)
qed

lemma end_datagram_cases:
  "end_datagram L s d response = [] \<or> (\<exists>m wire. response = Some m \<and> to_wire L m = Inr wire \<and>
     end_datagram L s d response = [(wire, snd d)])"
  by (auto simp: end_datagram_def split: option.splits sum.splits)

lemma udp_step_ok: "udp_step L answering w w' \<Longrightarrow> udp_ok L answering w \<Longrightarrow> udp_ok L answering w'"
proof (induction rule: udp_step.induct)
  case (start bind w r w')
  then have "uw_tasks w' = uw_tasks w" "uw_sent w' = uw_sent w" "uw_received w' = uw_received w"
    by (auto simp: udp_world_start_def split: prod.splits sum.splits)
  with start(2) show ?case by (simp add: udp_ok_def)
next
  case (serve w event r w')
  show ?case
  proof (cases event)
    case (Datagram d)
    from serve(4) obtain cause where c: "list_all2 (reply_to L answering) cause (uw_sent w)"
      "mset cause + mset (map origin (uw_tasks w)) \<subseteq># mset (uw_received w)" and t: "list_all (task_ok L) (uw_tasks w)"
      by (auto simp: udp_ok_def)
    from serve(3) Datagram have w': "w' = w\<lparr>uw_received := uw_received w @ [d],
        uw_tasks := uw_tasks w @ (if ss_group (uw_server w) then [Fresh d] else [])\<rparr>" by (simp add: udp_serve_def)
    have "mset cause + mset (map origin (uw_tasks w')) \<subseteq># mset (uw_received w')"
      using c(2) subset_mset.order_trans [OF c(2) mset_subset_eq_add_left [of _ "{#d#}"]] by (auto simp: w')
    then show ?thesis using t c(1) by (intro udp_okI [of L w' answering cause]) (auto simp: w')
  qed (use serve in \<open>auto simp: udp_serve_def udp_ok_def\<close>)
next
  case (begin_task w xs d ys)
  show ?case
  proof (cases "begin_datagram L (uw_server w) d")
    case Nil
    with begin_task show ?thesis by (intro udp_ok_fewer [OF begin_task(2)]) auto
  next
    case (Cons t ts)
    then obtain req where "ts = []" "t = Asked d req" "from_wire L (fst d) = Inr req"
      by (auto simp: begin_datagram_def split: if_splits sum.splits)
    with Cons begin_task show ?thesis by (auto simp: udp_ok_def)
  qed
next
  case (end_task w xs d req ys response)
  from end_task(3) end_task(1) obtain cause where c: "list_all2 (reply_to L answering) cause (uw_sent w)"
    "mset cause + mset (map origin (uw_tasks w)) \<subseteq># mset (uw_received w)" and t: "list_all (task_ok L) (uw_tasks w)"
    by (auto simp: udp_ok_def)
  consider "end_datagram L (uw_server w) d response = []"
    | m wire where "response = Some m" "to_wire L m = Inr wire" "end_datagram L (uw_server w) d response = [(wire, snd d)]"
    using end_datagram_cases by blast
  then show ?case
  proof cases
    case 1
    with end_task show ?thesis by (intro udp_ok_fewer [OF end_task(3)]) auto
  next
    case 2
    have "from_wire L (fst d) = Inr req" using t end_task(1) by simp
    with 2 end_task(2) have "reply_to L answering d (wire, snd d)" by (auto simp: reply_to_def)
    with c(1) 2 have "list_all2 (reply_to L answering) (cause @ [d]) (uw_sent w @ end_datagram L (uw_server w) d response)"
      by (simp add: list_all2_appendI)
    then show ?thesis
      using c(2) t end_task(1) by (intro udp_okI [of L _ answering "cause @ [d]"]) (simp_all add: ac_simps)
  qed
next
  case (send_fails w xs d req ys)
  then show ?case by (intro udp_ok_fewer [OF send_fails(2)]) auto
next
  case (query_raises w xs d req ys)
  then show ?case by (intro udp_ok_fewer [OF query_raises(2)]) auto
next
  case (stop w)
  then show ?case by (simp add: udp_ok_def)
qed

lemma udp_reach_ok: "udp_reach L answering w \<Longrightarrow> udp_ok L answering w"
proof (induction rule: udp_reach.induct)
  case (init l)
  then show ?case by (intro udp_okI [of L _ answering "[]"]) simp_all
qed (rule udp_step_ok)

text \<open>
  Whatever a UDP listener has sent, in any interleaving of the tasks of its datagrams with the
  coming and going of the socket: every reply is the answer of the runtime to a datagram that was
  received, goes to the address this datagram came from, and no datagram has two replies.
\<close>

theorem udp_replies_to_datagrams:
  assumes "udp_reach L answering w"
  shows "\<exists>cause. mset cause \<subseteq># mset (uw_received w) \<and>
    list_all2 (\<lambda>d sent. \<exists>req m wire. from_wire L (fst d) = Inr req \<and> answering req (snd d) (Some m) \<and>
      to_wire L m = Inr wire \<and> sent = (wire, snd d)) cause (uw_sent w)"
proof -
  from udp_reach_ok [OF assms] obtain cause where "list_all2 (reply_to L answering) cause (uw_sent w)"
    "mset cause + mset (map origin (uw_tasks w)) \<subseteq># mset (uw_received w)" by (auto simp: udp_ok_def)
  then have "list_all2 (\<lambda>d sent. \<exists>req m wire. from_wire L (fst d) = Inr req \<and> answering req (snd d) (Some m) \<and>
      to_wire L m = Inr wire \<and> sent = (wire, snd d)) cause (uw_sent w)" "mset cause \<subseteq># mset (uw_received w)"
    by (auto simp: reply_to_def elim: list_all2_mono intro: subset_mset.order_trans [OF mset_subset_eq_add_left])
  then show ?thesis by blast
qed

text \<open>A task that is not interrupted does what \<open>handle_datagram\<close> of the theory Servers does.\<close>

lemma handle_datagram_tasks:
  assumes "handle_datagram L process name (ss_socket srv \<noteq> None) data addr s = (Inr out, s')"
  shows "case begin_datagram L srv (data, addr) of
      Asked d req # _ \<Rightarrow> (case process req addr name s of
          (Inr response, t) \<Rightarrow> t = s' \<and>
            end_datagram L srv d response = (case out of None \<Rightarrow> [] | Some wire \<Rightarrow> [(wire, addr)])
        | _ \<Rightarrow> False)
    | _ \<Rightarrow> out = None \<and> s' = s"
  using assms
  by (auto simp: handle_datagram_def begin_datagram_def end_datagram_def act_simps
      split: sum.splits option.splits if_splits prod.splits)

section \<open>A concrete run\<close>

definition sample_bind :: bind_socket where
  "sample_bind l = Inr (Some (''::'', 53))"

definition sample_answering :: "message \<Rightarrow> string \<Rightarrow> message option \<Rightarrow> bool" where
  "sample_answering req addr response \<longleftrightarrow> response = Some (sample_message (msg_id req) 32768 0)"

definition open_server :: socket_server where
  "open_server = \<lparr>ss_listener = udp_listener ''a'' 53, ss_socket = Some (Some (''::'', 53)), ss_group = True\<rparr>"

definition one_reply :: udp_world where
  "one_reply = \<lparr>uw_server = open_server, uw_serving = True, uw_tasks = [], uw_received = [([5, 0, 0], ''c'')],
     uw_sent = [([5, 32768, 0], ''c'')]\<rparr>"

text \<open>A listener that is started, gets one datagram and answers it.\<close>

lemma one_exchange_reach:
  assumes "from_wire L data = Inr req" and "answering req addr (Some m)" and "to_wire L m = Inr wire"
  shows "udp_reach L answering \<lparr>uw_server = open_server, uw_serving = True, uw_tasks = [],
    uw_received = [(data, addr)], uw_sent = [(wire, addr)]\<rparr>"
proof -
  let ?d = "(data, addr)"
  let ?w = "\<lambda>ts r s. \<lparr>uw_server = open_server, uw_serving = True, uw_tasks = ts, uw_received = r, uw_sent = s\<rparr>"
  have "udp_reach L answering \<lparr>uw_server = udp_init (udp_listener ''a'' 53), uw_serving = False, uw_tasks = [],
      uw_received = [], uw_sent = []\<rparr>" by (rule udp_reach.init)
  moreover have "udp_world_start sample_bind \<lparr>uw_server = udp_init (udp_listener ''a'' 53), uw_serving = False,
      uw_tasks = [], uw_received = [], uw_sent = []\<rparr> = (Inr (), ?w [] [] [])"
    by (simp add: udp_world_start_def udp_start_def udp_init_def sample_bind_def open_server_def)
  ultimately have "udp_reach L answering (?w [] [] [])" by (meson udp_reach.step udp_step.start)
  moreover have "udp_step L answering (?w [] [] []) (?w [Fresh ?d] [?d] [])"
    by (rule udp_step.serve [of _ "Datagram ?d"]) (simp_all add: udp_serve_def open_server_def)
  ultimately have "udp_reach L answering (?w [Fresh ?d] [?d] [])" by (rule udp_reach.step)
  moreover have "udp_step L answering (?w [Fresh ?d] [?d] []) (?w [Asked ?d req] [?d] [])"
    using udp_step.begin_task [of "?w [Fresh ?d] [?d] []" "[]" ?d "[]" L answering] assms(1)
    by (simp add: begin_datagram_def open_server_def)
  ultimately have "udp_reach L answering (?w [Asked ?d req] [?d] [])" by (rule udp_reach.step)
  moreover have "udp_step L answering (?w [Asked ?d req] [?d] []) (?w [] [?d] [(wire, addr)])"
    using udp_step.end_task [of "?w [Asked ?d req] [?d] []" "[]" ?d req "[]" answering "Some m" L] assms(2,3)
    by (simp add: end_datagram_def open_server_def)
  ultimately show ?thesis by (rule udp_reach.step)
qed

lemma one_reply_reach: "udp_reach sample_lib sample_answering one_reply"
  unfolding one_reply_def
  by (rule one_exchange_reach [where req = "sample_message 5 0 0" and m = "sample_message 5 32768 0"])
    (simp_all add: sample_lib_def sample_answering_def sample_message_def)

theorem udp_replies_to_datagrams_witness:
  "\<exists>cause. mset cause \<subseteq># mset (uw_received one_reply) \<and> length cause = length (uw_sent one_reply)"
  using udp_replies_to_datagrams [OF one_reply_reach] by (auto dest: list_all2_lengthD)

theorem listener_refines_manager_view_witness:
  "\<exists>t. dns_server_start sample_bind (build_dns_server (udp_listener ''a'' 53)) = (Inr (), t) \<and>
     fst (start_server (\<lambda>l. andthen (sample_bind l) (\<lambda>a. Inr (the a))) (udp_listener ''a'' 53) served) = Inr (server_view t)"
proof -
  have b: "sample_bind (udp_listener ''a'' 53) = Inr (Some (''::'', 53))" by (simp add: sample_bind_def)
  from server_started [of sample_bind "udp_listener ''a'' 53", OF this] obtain t where t: "dns_server_start sample_bind (build_dns_server (udp_listener ''a'' 53)) = (Inr (), t)"
    by blast
  have "sample_bind (udp_listener ''a'' 53) = Inr addr \<Longrightarrow> addr \<noteq> None" for addr by (simp add: b) auto
  from listener_refines_manager_view [of sample_bind "udp_listener ''a'' 53", OF this, of served] t show ?thesis by auto
qed

end
