(* ===== verification/Worker_Boot.thy ===== *)
theory Worker_Boot
  imports Worker Runtime Tag_Sets
begin

text \<open>
  How a worker process comes to answer from the sets of the master: the snapshot of an IP set
  (\<open>core/ipset.py\<close>), the global state the initialiser of a worker process leaves and the contexts a
  worker gives its runtime (\<open>core/multiprocess/worker.py\<close>). \<open>pickle\<close> and the two radix trees, the
  native one and the one in Python, are the library's; an object knows the class of its tree, so one
  \<open>radix_covering\<close> searches both.
\<close>

section \<open>An IP set and its snapshot\<close>

record 'r ip_set =
  is_tree :: "'r option"
  is_networks :: "(string \<times> string list) list"

record 'r tree_env =
  te_radix :: "'r radix_lib"
  te_build_python :: "(string \<times> string list) list \<Rightarrow> 'r"
  te_native_works :: bool
  te_dumps :: "'r option \<Rightarrow> bytes res"
  te_loads :: "bytes \<Rightarrow> 'r option res"

text \<open>
  \<open>_new_radix_tree\<close> tries the native tree with one network, \<open>te_native_works\<close> being the outcome;
  it is the class of the new tree. \<open>_build_radix_tree\<close> fills the tree.
\<close>

datatype tree_class = NativeTree | PythonTree

definition new_radix_tree :: "'r tree_env \<Rightarrow> bool \<Rightarrow> tree_class" where
  "new_radix_tree E prefer_native = (if prefer_native \<and> te_native_works E then NativeTree else PythonTree)"

definition build_radix_tree :: "'r tree_env \<Rightarrow> bool \<Rightarrow> (string \<times> string list) list \<Rightarrow> 'r" where
  "build_radix_tree E prefer_native networks =
     (case new_radix_tree E prefer_native of
        NativeTree \<Rightarrow> radix_build (te_radix E) networks
      | PythonTree \<Rightarrow> te_build_python E networks)"

definition make_ip_set :: "'r tree_env \<Rightarrow> dir_state option \<Rightarrow> 'r option \<Rightarrow> 'r ip_set res" where
  "make_ip_set E directory tree = (case tree of
     Some t \<Rightarrow> Inr \<lparr>is_tree = Some t, is_networks = []\<rparr>
   | None \<Rightarrow>
       andthen (load_tag_files directory normalize_network) (\<lambda>files.
       let networks = sort_key fst (collect_networks files []) in
       Inr (if networks = [] then \<lparr>is_tree = None, is_networks = []\<rparr>
            else \<lparr>is_tree = Some (build_radix_tree E True networks), is_networks = networks\<rparr>)))"

fun pickling_error :: "py_exn \<Rightarrow> bool" where
  "pickling_error (TypeError _) = True"
| "pickling_error (OtherError c) = (c = ''AttributeError'' \<or> c = ''PicklingError'')"
| "pickling_error _ = False"

definition to_snapshot :: "'r tree_env \<Rightarrow> 'r ip_set \<Rightarrow> bytes res" where
  "to_snapshot E s = (case te_dumps E (is_tree s) of
     Inr payload \<Rightarrow> Inr payload
   | Inl e \<Rightarrow> if pickling_error e then te_dumps E (Some (build_radix_tree E False (is_networks s))) else Inl e)"

definition from_snapshot :: "'r tree_env \<Rightarrow> bytes \<Rightarrow> 'r ip_set res" where
  "from_snapshot E payload = andthen (te_loads E payload) (make_ip_set E None)"

section \<open>The worker process\<close>

text \<open>\<open>worker_process_initializer\<close> fills the global variable once for a process.\<close>

definition worker_process_initializer :: "nat \<Rightarrow> bool \<Rightarrow> int \<Rightarrow> process_state option \<Rightarrow> process_state option" where
  "worker_process_initializer queues query_log_enabled max_entries state =
     Some \<lparr>ps_queues = queues, ps_query_log_enabled = query_log_enabled, ps_query_log_max_entries = max_entries\<rparr>"

text \<open>
  \<open>_load_ipset_snapshot\<close>: the shared memory may be longer than what was asked for. \<open>memory\<close> is its
  content by its name.
\<close>

definition load_ipset_snapshot :: "'r tree_env \<Rightarrow> (string \<Rightarrow> bytes res) \<Rightarrow> string \<times> nat \<Rightarrow> 'r ip_set res" where
  "load_ipset_snapshot E memory snapshot = (case snapshot of (name, n) \<Rightarrow>
     andthen (memory name) (\<lambda>buf. from_snapshot E (take n buf)))"

record ('t, 'f, 'r, 'v) worker_boot =
  wb_trie :: "('t, 'f) trie_lib"
  wb_trees :: "'r tree_env"
  wb_domain_value :: "'t option \<Rightarrow> 'v"
  wb_ip_value :: "'r ip_set \<Rightarrow> 'v"
  wb_log_value :: "int \<Rightarrow> nat \<Rightarrow> nat \<Rightarrow> 'v"

text \<open>\<open>_build_shared_contexts\<close>; the store of a worker is a \<open>WorkerQueryLogStore\<close>.\<close>

definition worker_shared_contexts ::
  "('t, 'f, 'r, 'v) worker_boot \<Rightarrow> (string \<Rightarrow> bytes res) \<Rightarrow> 'f option \<Rightarrow> string \<times> nat \<Rightarrow> process_state \<Rightarrow> nat \<Rightarrow> nat \<Rightarrow>
   (string \<times> 'v) list res" where
  "worker_shared_contexts W memory domain_snapshot ip_snapshot state worker_id generation =
     andthen (load_ipset_snapshot (wb_trees W) memory ip_snapshot) (\<lambda>ips.
     Inr ([(''core.domainset'', wb_domain_value W (domain_set_from_snapshot (wb_trie W) domain_snapshot)),
           (''core.ipset'', wb_ip_value W ips)] @
          (if ps_query_log_enabled state
           then [(QUERY_LOG_STORE_KEY, wb_log_value W (ps_query_log_max_entries state) worker_id generation)] else [])))"

text \<open>The beginning of \<open>WorkerRuntime.run\<close>: the manager with the contexts, and its loading.\<close>

definition worker_manager ::
  "('t, 'f, 'r, 'v) worker_boot \<Rightarrow> ('v, 'w) build_env \<Rightarrow> app_config res \<Rightarrow> (string \<times> 'v) list res \<Rightarrow>
   ('v, 'w) runtime_manager res" where
  "worker_manager W B config_res contexts =
     andthen contexts (\<lambda>shared.
     case runtime_load B config_res (runtime_init shared) of
       (Inl e, s) \<Rightarrow> Inl e
     | (Inr st, s) \<Rightarrow> Inr s)"

section \<open>The sets of a worker are those of the master\<close>

text \<open>Both trees find what covers a network, and \<open>pickle\<close> gives back what it took.\<close>

definition trees_ok :: "'r tree_env \<Rightarrow> bool" where
  "trees_ok E \<longleftrightarrow> (\<forall>es. radix_ok (te_radix E) es) \<and>
     (\<forall>es. radix_ok ((te_radix E)\<lparr>radix_build := te_build_python E\<rparr>) es) \<and>
     (\<forall>t payload. te_dumps E t = Inr payload \<longrightarrow> te_loads E payload = Inr t)"

lemma radix_ok_python: "radix_ok ((te_radix E)\<lparr>radix_build := te_build_python E\<rparr>) es \<longleftrightarrow>
   (\<forall>t. set (radix_covering (te_radix E) (te_build_python E es) t) = {tags. \<exists>s. (s, tags) \<in> set es \<and> covers_text s t})"
  by (simp add: radix_ok_def)

text \<open>A lookup depends on what the tree was built from only.\<close>

lemma lookup_of_built:
  assumes "trees_ok E"
  shows "ip_lookup (te_radix E) (Some (build_radix_tree E prefer networks)) address =
    andthen (ip_network address) (\<lambda>n. Inr (\<Union>tags \<in> {tags. \<exists>s. (s, tags) \<in> set networks \<and> covers_text s (with_prefixlen n)}. set tags))"
  using assms by (auto simp: ip_lookup_def build_radix_tree_def new_radix_tree_def trees_ok_def radix_ok_python radix_ok_def)

lemma snapshot_lookup:
  assumes ok: "trees_ok E" and made: "make_ip_set E directory None = Inr s" and snap: "to_snapshot E s = Inr payload"
  shows "\<exists>t. from_snapshot E payload = Inr t \<and> (\<forall>address n. ip_network address = Inr n \<longrightarrow>
    ip_lookup (te_radix E) (is_tree t) address = ip_lookup (te_radix E) (is_tree s) address)"
proof -
  have empty: "load_tag_files None normalize_network = Inr []" by (simp add: load_tag_files_def)
  have loaded: "from_snapshot E p = Inr (case tree of None \<Rightarrow> \<lparr>is_tree = None, is_networks = []\<rparr>
      | Some x \<Rightarrow> \<lparr>is_tree = Some x, is_networks = []\<rparr>)" if "te_loads E p = Inr tree" for p tree
    using that by (cases tree) (simp_all add: from_snapshot_def make_ip_set_def empty)
  show ?thesis
  proof (cases "te_dumps E (is_tree s)")
    case (Inr p)
    with snap have "p = payload" by (simp add: to_snapshot_def)
    with ok Inr have "te_loads E payload = Inr (is_tree s)" by (simp add: trees_ok_def)
    from loaded [OF this] show ?thesis by (cases "is_tree s") auto
  next
    case (Inl e)
    with snap have d: "te_dumps E (Some (build_radix_tree E False (is_networks s))) = Inr payload"
      by (simp add: to_snapshot_def split: if_splits)
    then have "te_loads E payload = Inr (Some (build_radix_tree E False (is_networks s)))"
      using ok by (simp add: trees_ok_def)
    note t = loaded [OF this]
    from made obtain files where f: "load_tag_files directory normalize_network = Inr files"
      and s: "s = (let networks = sort_key fst (collect_networks files []) in
        if networks = [] then \<lparr>is_tree = None, is_networks = []\<rparr>
        else \<lparr>is_tree = Some (build_radix_tree E True networks), is_networks = networks\<rparr>)"
      by (auto simp: make_ip_set_def andthen_Inr_iff Let_def)
    have "ip_lookup (te_radix E) (Some (build_radix_tree E False (is_networks s))) address =
        ip_lookup (te_radix E) (is_tree s) address" if "ip_network address = Inr n" for address n
    proof (cases "sort_key fst (collect_networks files []) = []")
      case True
      then have "is_networks s = []" "is_tree s = None" by (simp_all add: s)
      with that show ?thesis by (simp add: lookup_of_built [OF ok]) (simp add: ip_lookup_def)
    next
      case False
      then have "is_tree s = Some (build_radix_tree E True (is_networks s))" by (simp add: s Let_def)
      then show ?thesis by (simp add: lookup_of_built [OF ok])
    qed
    with t show ?thesis by auto
  qed
qed

section \<open>The contexts of a worker\<close>

lemma map_of_dict_update:
  "map_of (dict_update d new) k = (case map_of (rev new) k of Some v \<Rightarrow> Some v | None \<Rightarrow> map_of d k)"
proof (induction new arbitrary: d)
  case (Cons x new)
  show ?case
    using Cons.IH [of "dict_set (fst x) (snd x) d"]
    by (cases x) (auto simp: dict_update_def map_of_dict_set map_of_append split: option.splits)
qed (simp add: dict_update_def)

lemma map_of_rev_key: "distinct (map fst xs) \<Longrightarrow> map_of (rev xs) k = map_of xs k"
  by (metis distinct_rev map_of_eq_Some_iff not_Some_eq rev_map set_rev)

text \<open>What the manager was given takes the place of what it would build itself.\<close>

lemma overrides_win:
  assumes "build_shared_contexts B overrides state config = Inr shared" and "distinct (map fst overrides)"
    and "map_of overrides k = Some v"
  shows "map_of shared k = Some v"
proof -
  obtain d i where "shared = (let sh = dict_update [(''core.domainset'', d), (''core.ipset'', i)] overrides in
      if is_query_log_plugin_enabled (plugins config) \<and> QUERY_LOG_STORE_KEY \<notin> fst ` set sh
      then (case Runtime.get_query_log_store B state of None \<Rightarrow> sh | Some store \<Rightarrow> dict_set QUERY_LOG_STORE_KEY store sh)
      else sh)"
    using assms(1) by (auto simp: build_shared_contexts_def andthen_Inr_iff Let_def)
  moreover have "map_of (dict_update [(''core.domainset'', d), (''core.ipset'', i)] overrides) k = Some v" for d i
    using assms(2,3) by (simp add: map_of_dict_update map_of_rev_key)
  moreover from this have "k \<in> fst ` set (dict_update [(''core.domainset'', d), (''core.ipset'', i)] overrides)" for d i
    by (metis map_of_eq_None_iff option.distinct(1))
  ultimately show ?thesis by (auto simp: Let_def map_of_dict_set split: option.splits)
qed

lemma loaded_registry:
  assumes "runtime_load B config_res (runtime_init overrides) = (Inr st, s)" and "extends_registry (be_modules B)"
    and "distinct (map fst overrides)" and "map_of overrides k = Some v"
  shows "rn_state s = Some st \<and> map_of (context_registry (rs_registry st)) k = Some (RegValue v)"
proof -
  from assms(1) have b: "build_state B config_res overrides None = Inr st" and s: "rn_state s = Some st"
    by (auto simp: runtime_load_cases runtime_init_def split: sum.splits)
  from b obtain shared where sh: "build_shared_contexts B overrides None (rs_config st) = Inr shared"
    and pm: "plugin_manager_build (be_modules B) (plugins (rs_config st)) shared = Inr (rs_loaded st, rs_registry st)"
    by (auto simp: build_state_def res_simps)
  from pm obtain reg where r: "register_shared shared registry_empty = Inr reg"
    and l: "load_plugins (be_modules B) (plugins (rs_config st)) reg = Inr (rs_loaded st, rs_registry st)"
    by (auto simp: plugin_manager_build_def res_simps)
  from overrides_win [OF sh assms(3,4)] register_shared_registers [OF r] load_plugins_extends [OF assms(2) l] s
  show ?thesis by blast
qed

text \<open>
  C13: A worker process answers from the sets of the master: after the runtime of a worker is loaded,
  the IP set its plugins find gives for every address the tags that the master's gives, the domain
  set is the one that was mapped from the snapshot, and the query log, when it is enabled, is the one
  that sends its entries to the master. This holds also when the tree of the master cannot be pickled
  and is built again in Python, and when the shared memory is longer than the snapshot.
\<close>

theorem worker_answers_from_shared_sets:
  assumes ok: "trees_ok (wb_trees W)"
    and master: "make_ip_set (wb_trees W) directory None = Inr master" "to_snapshot (wb_trees W) master = Inr payload"
    and memory: "memory name = Inr (payload @ padding)"
    and booted: "worker_manager W B config_res
      (worker_shared_contexts W memory domain_snapshot (name, length payload) state i g) = Inr s"
    and ext: "extends_registry (be_modules B)"
  shows "\<exists>st ips. rn_state s = Some st \<and>
    map_of (context_registry (rs_registry st)) ''core.ipset'' = Some (RegValue (wb_ip_value W ips)) \<and>
    (\<forall>address n. ip_network address = Inr n \<longrightarrow>
      ip_lookup (te_radix (wb_trees W)) (is_tree ips) address = ip_lookup (te_radix (wb_trees W)) (is_tree master) address) \<and>
    map_of (context_registry (rs_registry st)) ''core.domainset'' =
      Some (RegValue (wb_domain_value W (domain_set_from_snapshot (wb_trie W) domain_snapshot))) \<and>
    (ps_query_log_enabled state \<longrightarrow> map_of (context_registry (rs_registry st)) QUERY_LOG_STORE_KEY =
      Some (RegValue (wb_log_value W (ps_query_log_max_entries state) i g)))"
proof -
  from snapshot_lookup [OF ok master] obtain ips where ips: "from_snapshot (wb_trees W) payload = Inr ips"
    "\<forall>address n. ip_network address = Inr n \<longrightarrow>
      ip_lookup (te_radix (wb_trees W)) (is_tree ips) address = ip_lookup (te_radix (wb_trees W)) (is_tree master) address"
    by blast
  let ?ctx = "[(''core.domainset'', wb_domain_value W (domain_set_from_snapshot (wb_trie W) domain_snapshot)),
      (''core.ipset'', wb_ip_value W ips)] @
     (if ps_query_log_enabled state then [(QUERY_LOG_STORE_KEY, wb_log_value W (ps_query_log_max_entries state) i g)] else [])"
  have "worker_shared_contexts W memory domain_snapshot (name, length payload) state i g = Inr ?ctx"
    using memory ips(1) by (simp add: worker_shared_contexts_def load_ipset_snapshot_def)
  with booted obtain st where load: "runtime_load B config_res (runtime_init ?ctx) = (Inr st, s)"
    by (auto simp: worker_manager_def split: prod.splits sum.splits)
  have d: "distinct (map fst ?ctx)" by (simp add: QUERY_LOG_STORE_KEY_def)
  note reg = loaded_registry [OF load ext d]
  have "map_of (context_registry (rs_registry st)) ''core.ipset'' = Some (RegValue (wb_ip_value W ips))"
    "rn_state s = Some st" using reg [of "''core.ipset''"] by simp_all
  moreover have "map_of (context_registry (rs_registry st)) ''core.domainset'' =
      Some (RegValue (wb_domain_value W (domain_set_from_snapshot (wb_trie W) domain_snapshot)))"
    using reg [of "''core.domainset''"] by simp
  moreover have "map_of (context_registry (rs_registry st)) QUERY_LOG_STORE_KEY =
      Some (RegValue (wb_log_value W (ps_query_log_max_entries state) i g))" if "ps_query_log_enabled state"
    using reg [of QUERY_LOG_STORE_KEY] that by (simp add: QUERY_LOG_STORE_KEY_def)
  ultimately show ?thesis using ips(2) by blast
qed

text \<open>
  The files are read again all the same: when a set cannot be loaded from its directory the
  worker does not start, although the set it is going to use has come with the shared memory.
\<close>

theorem worker_reads_files_again:
  assumes "be_domain_set B (domain_dir (tree_root config)) = Inl e"
  shows "worker_manager W B (Inr config) (Inr shared) = Inl e"
  using assms by (simp add: worker_manager_def runtime_load_cases build_state_def build_shared_contexts_def)

section \<open>A concrete worker\<close>

definition sample_trees :: "(string \<times> string list) list tree_env" where
  "sample_trees = \<lparr>te_radix = list_radix, te_build_python = (\<lambda>es. es), te_native_works = True,
     te_dumps = (\<lambda>t. if t = None then Inr [0] else if t = Some [(''10.0.0.0/8'', [''lan''])] then Inr [1]
       else Inl (TypeError ''cannot pickle'')),
     te_loads = (\<lambda>b. if b = [0] then Inr None else Inr (Some [(''10.0.0.0/8'', [''lan''])]))\<rparr>"

definition sample_boot :: "(unit, unit, (string \<times> string list) list, nat) worker_boot" where
  "sample_boot = \<lparr>wb_trie = \<lparr>trie_build = (\<lambda>es. ()), trie_prefixes = (\<lambda>t k. []), trie_get = (\<lambda>t k. []),
       trie_save = (\<lambda>t. ()), trie_mmap = (\<lambda>f. ())\<rparr>,
     wb_trees = sample_trees, wb_domain_value = (\<lambda>t. 11), wb_ip_value = (\<lambda>s. 12), wb_log_value = (\<lambda>n i g. 7)\<rparr>"

definition sample_process_state :: process_state where
  "sample_process_state = \<lparr>ps_queues = 2, ps_query_log_enabled = True, ps_query_log_max_entries = 10\<rparr>"

lemma sample_trees_ok: "trees_ok sample_trees"
proof -
  have "radix_ok (list_radix\<lparr>radix_build := \<lambda>es. es\<rparr>) es" for es
    using list_radix_ok [of es] by (simp add: radix_ok_def list_radix_def)
  then show ?thesis by (auto simp: trees_ok_def sample_trees_def list_radix_ok split: if_splits)
qed

lemma sample_extends: "extends_registry (be_modules sample_build)"
  by (auto simp: extends_registry_def sample_build_def store_class_def register_context_def register_Inr res_simps
      map_add_def split: if_splits option.splits)

lemma sample_booted:
  "\<exists>s. worker_manager sample_boot sample_build (Inr two_listeners)
     (Inr [(''core.domainset'', 11), (''core.ipset'', 12), (QUERY_LOG_STORE_KEY, 7)]) = Inr s"
  by (simp add: worker_manager_def runtime_load_cases runtime_init_def build_state_def build_shared_contexts_def
      sample_build_def dict_update_def two_listeners_def is_query_log_plugin_enabled_def Runtime.get_query_log_store_def
      QUERY_LOG_STORE_KEY_def plugin_manager_build_def registry_empty_def register_context_def register_def
      create_plugin_instance_def static_plugin_module_names_def store_class_def Let_def)

theorem worker_answers_from_shared_sets_witness:
  "\<exists>s st. worker_manager sample_boot sample_build (Inr two_listeners)
     (worker_shared_contexts sample_boot (\<lambda>name. Inr [1, 0, 0]) None (''psm'', 1) sample_process_state 0 1) = Inr s \<and>
     rn_state s = Some st \<and> map_of (context_registry (rs_registry st)) ''core.ipset'' = Some (RegValue 12)"
proof -
  let ?m = "\<lparr>is_tree = Some [(''10.0.0.0/8'', [''lan''])], is_networks = [(''10.0.0.0/8'', [''lan''])]\<rparr>"
  have made: "make_ip_set (wb_trees sample_boot) (Some sample_ip_dir) None = Inr ?m"
    by (simp add: make_ip_set_def sample_networks sample_boot_def sample_trees_def build_radix_tree_def new_radix_tree_def list_radix_def Let_def)
  have snap: "to_snapshot (wb_trees sample_boot) ?m = Inr [1]"
    by (simp add: to_snapshot_def sample_boot_def sample_trees_def)
  have ok: "trees_ok (wb_trees sample_boot)" by (simp add: sample_boot_def sample_trees_ok)
  have memory: "(\<lambda>name :: string. Inr [1, 0, 0]) ''psm'' = Inr ([1] @ [0, 0])" by simp
  have "worker_shared_contexts sample_boot (\<lambda>name. Inr [1, 0, 0]) None (''psm'', 1) sample_process_state 0 1 =
      Inr [(''core.domainset'', 11), (''core.ipset'', 12), (QUERY_LOG_STORE_KEY, 7)]"
    by (simp add: worker_shared_contexts_def load_ipset_snapshot_def from_snapshot_def make_ip_set_def sample_boot_def
        sample_trees_def sample_process_state_def)
  with sample_booted obtain s where s: "worker_manager sample_boot sample_build (Inr two_listeners)
     (worker_shared_contexts sample_boot (\<lambda>name. Inr [1, 0, 0]) None (''psm'', 1) sample_process_state 0 1) = Inr s"
    by auto
  then have "worker_manager sample_boot sample_build (Inr two_listeners)
     (worker_shared_contexts sample_boot (\<lambda>name. Inr [1, 0, 0]) None (''psm'', length [1 :: nat]) sample_process_state 0 1) = Inr s"
    by simp
  from worker_answers_from_shared_sets [OF ok made snap memory this sample_extends] s
  show ?thesis by (auto simp: sample_boot_def)
qed

end
