(* ===== verification/Pool_Reader.thy ===== *)
theory Pool_Reader
  imports Worker_Pool Query_Log
begin

text \<open>
  The rest of \<open>core/multiprocess/pool.py\<close>: the thread that reads the results of the workers and how it is
  stopped, the entries of the query log that come from workers, and the forced end of the executor.
  The thread and the event loop share the flag \<open>_stop_reader\<close> and the bounded queue of results.
\<close>

section \<open>The reader thread\<close>

text \<open>
  Where the thread is: before the test of the flag, in the blocking \<open>get\<close>, or at its end.
  \<open>rd_stopping\<close> says that \<open>_stop_result_reader\<close> has set the flag and not yet put the message that
  wakes the thread. \<open>rd_sent\<close> is what workers have put, \<open>rd_handed\<close> what the event loop was given.
\<close>

datatype reader_phase = Checking | Getting | Ended

record reader =
  rd_phase :: reader_phase
  rd_stop :: bool
  rd_stopping :: bool
  rd_queue :: "pool_message list"
  rd_sent :: "pool_message list"
  rd_handed :: "pool_message list"

definition start_result_reader :: reader where
  "start_result_reader = \<lparr>rd_phase = Checking, rd_stop = False, rd_stopping = False, rd_queue = [], rd_sent = [],
     rd_handed = []\<rparr>"

text \<open>
  \<open>_read_results\<close>, one test of the flag or one \<open>get\<close> at a time. With an empty queue \<open>get\<close> goes on
  waiting; without a queue, or when \<open>get\<close> raises \<open>EOFError\<close> or \<open>OSError\<close>, it is not \<open>usable\<close>
  and the thread ends. \<open>accepted\<close> says whether \<open>call_soon_threadsafe\<close> took the message; an exception is logged.
\<close>

definition read_results :: "bool \<Rightarrow> bool \<Rightarrow> reader \<Rightarrow> reader" where
  "read_results usable accepted r = (case rd_phase r of
     Checking \<Rightarrow> r\<lparr>rd_phase := (if rd_stop r then Ended else Getting)\<rparr>
   | Getting \<Rightarrow> if \<not> usable then r\<lparr>rd_phase := Ended\<rparr> else (case rd_queue r of
       [] \<Rightarrow> r
     | m # ms \<Rightarrow> if m = StopReader then r\<lparr>rd_queue := ms, rd_phase := Ended\<rparr>
                 else r\<lparr>rd_queue := ms, rd_phase := Checking,
                        rd_handed := (if accepted then rd_handed r @ [m] else rd_handed r)\<rparr>)
   | Ended \<Rightarrow> r)"

text \<open>\<open>_stop_result_reader\<close>: the flag, the message if the queue has room, and after the join the flag again.\<close>

definition stop_reader_flag :: "reader \<Rightarrow> reader" where
  "stop_reader_flag r = r\<lparr>rd_stop := True, rd_stopping := True\<rparr>"

definition stop_reader_put :: "nat \<Rightarrow> reader \<Rightarrow> reader" where
  "stop_reader_put capacity r = r\<lparr>rd_stopping := False,
     rd_queue := (if length (rd_queue r) < capacity then rd_queue r @ [StopReader] else rd_queue r)\<rparr>"

definition stop_reader_joined :: "reader \<Rightarrow> reader" where
  "stop_reader_joined r = r\<lparr>rd_stop := False\<rparr>"

text \<open>
  A worker never sends \<open>StopReader\<close>. The join is taken to come back with the thread ended; when it
  gives up after its timeout the flag is cleared all the same.
\<close>

inductive reader_step :: "nat \<Rightarrow> reader \<Rightarrow> reader \<Rightarrow> bool" for capacity where
  worker_puts: "length (rd_queue r) < capacity \<Longrightarrow> m \<noteq> StopReader \<Longrightarrow>
     reader_step capacity r (r\<lparr>rd_queue := rd_queue r @ [m], rd_sent := rd_sent r @ [m]\<rparr>)"
| reads: "reader_step capacity r (read_results usable accepted r)"
| flag: "\<not> rd_stop r \<Longrightarrow> reader_step capacity r (stop_reader_flag r)"
| put: "rd_stopping r \<Longrightarrow> reader_step capacity r (stop_reader_put capacity r)"
| joined: "rd_stop r \<Longrightarrow> \<not> rd_stopping r \<Longrightarrow> rd_phase r = Ended \<Longrightarrow> reader_step capacity r (stop_reader_joined r)"

inductive reader_reach :: "nat \<Rightarrow> reader \<Rightarrow> bool" for capacity where
  start: "reader_reach capacity start_result_reader"
| step: "reader_reach capacity r \<Longrightarrow> reader_step capacity r r' \<Longrightarrow> reader_reach capacity r'"

section \<open>The other operations\<close>

text \<open>\<open>_handle_query_log\<close>: \<open>validate\<close> is \<open>QueryLogPayload.model_validate\<close>.\<close>

definition handle_query_log :: "(json \<Rightarrow> 'p res) \<Rightarrow> json \<Rightarrow> ('p log_store option, unit) act" where
  "handle_query_log validate payload = (\<lambda>store. case store of
     None \<Rightarrow> (Inr (), None)
   | Some s \<Rightarrow> (case validate payload of
       Inl e \<Rightarrow> (Inl e, Some s)
     | Inr p \<Rightarrow> (Inr (), Some (snd (log_add p s)))))"

text \<open>\<open>_force_shutdown_executor\<close>: \<open>terminate\<close> and \<open>kill\<close> are the outcomes of the calls on the executor.\<close>

definition force_shutdown_executor :: "unit res \<Rightarrow> unit res \<Rightarrow> (pool, unit) act" where
  "force_shutdown_executor terminate kill = (\<lambda>s.
     if \<not> pl_executor s then (Inr (), s)
     else act_finally
       (act_try (act_lift terminate) (\<lambda>_. act_try (act_lift kill) (\<lambda>_. act_ret ())))
       (act_upd (\<lambda>s. s\<lparr>pl_executor := False\<rparr>)) s)"

section \<open>Properties\<close>

text \<open>
  The flag is set and the thread waits: then there is something to take. What waits in the queue and
  what was handed over come from the workers in order.
\<close>

definition reader_ok :: "reader \<Rightarrow> bool" where
  "reader_ok r \<longleftrightarrow> (rd_stopping r \<longrightarrow> rd_stop r) \<and>
     (rd_stop r \<longrightarrow> \<not> rd_stopping r \<longrightarrow> rd_phase r = Getting \<longrightarrow> rd_queue r \<noteq> []) \<and>
     (\<exists>taken. rd_sent r = taken @ filter (\<lambda>m. m \<noteq> StopReader) (rd_queue r) \<and> subseq (rd_handed r) taken)"

lemma reader_okI:
  "(rd_stopping r \<Longrightarrow> rd_stop r) \<Longrightarrow>
   (rd_stop r \<Longrightarrow> \<not> rd_stopping r \<Longrightarrow> rd_phase r = Getting \<Longrightarrow> rd_queue r \<noteq> []) \<Longrightarrow>
   rd_sent r = taken @ filter (\<lambda>m. m \<noteq> StopReader) (rd_queue r) \<Longrightarrow> subseq (rd_handed r) taken \<Longrightarrow> reader_ok r"
  by (auto simp: reader_ok_def)

lemma reader_ok_ended: "reader_ok r \<Longrightarrow> reader_ok (r\<lparr>rd_phase := Ended\<rparr>)"
  by (simp add: reader_ok_def)

lemma read_results_ok: "reader_ok r \<Longrightarrow> reader_ok (read_results usable accepted r)"
proof -
  assume ok: "reader_ok r"
  then obtain taken where t: "rd_sent r = taken @ filter (\<lambda>m. m \<noteq> StopReader) (rd_queue r)" "subseq (rd_handed r) taken"
    by (auto simp: reader_ok_def)
  show ?thesis
  proof (cases "rd_phase r")
    case Getting
    show ?thesis
    proof (cases "usable")
      case False
      with ok Getting show ?thesis by (simp add: read_results_def reader_ok_ended)
    next
      case usable: True
      show ?thesis
      proof (cases "rd_queue r")
        case Nil
        with ok Getting show ?thesis by (simp add: read_results_def reader_ok_ended)
      next
        case (Cons m ms)
        show ?thesis
        proof (cases "m = StopReader")
          case True
          with ok t usable Getting Cons show ?thesis
            by (intro reader_okI [where taken = taken]) (auto simp: read_results_def reader_ok_def)
        next
          case False
          with ok t usable Getting Cons show ?thesis
            by (intro reader_okI [where taken = "taken @ [m]"])
              (auto simp: read_results_def reader_ok_def subseq_append_iff intro: list_emb_append_mono subseq_order.order_trans)
        qed
      qed
    qed
  qed (use ok in \<open>auto simp: read_results_def reader_ok_def\<close>)
qed

lemma reader_step_ok: "reader_step capacity r r' \<Longrightarrow> capacity > 0 \<Longrightarrow> reader_ok r \<Longrightarrow> reader_ok r'"
proof (induction rule: reader_step.induct)
  case (reads r usable accepted)
  then show ?case by (simp add: read_results_ok)
next
  case (put r)
  then show ?case by (auto simp: reader_ok_def stop_reader_put_def)
qed (auto simp: reader_ok_def stop_reader_flag_def stop_reader_joined_def)

lemma reader_reach_ok: "reader_reach capacity r \<Longrightarrow> capacity > 0 \<Longrightarrow> reader_ok r"
  by (induction rule: reader_reach.induct) (auto simp: reader_step_ok, simp add: reader_ok_def start_result_reader_def)

text \<open>
  C19: The reader of the results can always be stopped: once the flag is set and the message was put,
  or dropped because the queue was full, the thread ends after at most two of its steps, wherever it is and however
  full the queue; it is never left waiting for a message. What it handed over came from the workers
  in this order.
\<close>

theorem reader_always_stops:
  assumes "reader_reach capacity r" and "capacity > 0"
  shows "(rd_stop r \<longrightarrow> \<not> rd_stopping r \<longrightarrow> rd_phase (read_results u a (read_results v b r)) = Ended) \<and>
    subseq (rd_handed r) (rd_sent r)"
proof -
  have ok: "reader_ok r" using reader_reach_ok assms by blast
  have "rd_phase (read_results u a (read_results v b r)) = Ended" if "rd_stop r" "\<not> rd_stopping r"
  proof (cases "rd_phase r")
    case Getting
    with ok that have "rd_queue r \<noteq> []" by (simp add: reader_ok_def)
    with that Getting show ?thesis by (cases "rd_queue r") (simp_all add: read_results_def)
  qed (use that in \<open>simp_all add: read_results_def\<close>)
  moreover have "subseq (rd_handed r) (rd_sent r)"
    using ok by (auto simp: reader_ok_def intro: list_emb_append2)
  ultimately show ?thesis by blast
qed

text \<open>The thread waits, a message fills the queue, and then it is stopped.\<close>

theorem reader_always_stops_witness:
  "\<exists>r. reader_reach 1 r \<and> rd_stop r \<and> rd_queue r = [WorkerReady 0 1] \<and>
     rd_phase (read_results True True (read_results True True r)) = Ended"
proof -
  let ?r = "\<lambda>st sg q. \<lparr>rd_phase = Getting, rd_stop = st, rd_stopping = sg, rd_queue = q, rd_sent = q, rd_handed = []\<rparr>"
  have "reader_step 1 start_result_reader (?r False False [])"
    using reader_step.reads [of 1 start_result_reader True True] by (simp add: read_results_def start_result_reader_def)
  with reader_reach.start have "reader_reach 1 (?r False False [])" by (rule reader_reach.step)
  moreover have "reader_step 1 (?r False False []) (?r False False [WorkerReady 0 1])"
    using reader_step.worker_puts [of "?r False False []" 1 "WorkerReady 0 1"] by simp
  ultimately have "reader_reach 1 (?r False False [WorkerReady 0 1])" by (rule reader_reach.step)
  moreover have "reader_step 1 (?r False False [WorkerReady 0 1]) (?r True True [WorkerReady 0 1])"
    using reader_step.flag [of "?r False False [WorkerReady 0 1]" 1] by (simp add: stop_reader_flag_def)
  ultimately have "reader_reach 1 (?r True True [WorkerReady 0 1])" by (rule reader_reach.step)
  moreover have "reader_step 1 (?r True True [WorkerReady 0 1]) (?r True False [WorkerReady 0 1])"
    using reader_step.put [of "?r True True [WorkerReady 0 1]" 1] by (simp add: stop_reader_put_def)
  ultimately have reach: "reader_reach 1 (?r True False [WorkerReady 0 1])" by (rule reader_reach.step)
  from reader_always_stops [OF this, of True True True True] have "rd_phase (read_results True True (read_results True True (?r True False [WorkerReady 0 1]))) = Ended"
    by simp
  with reach show ?thesis by (intro exI [of _ "?r True False [WorkerReady 0 1]"]) simp
qed

text \<open>After a forced shutdown there is no executor, whatever the calls raised.\<close>

lemma force_shutdown_clears:
  assumes "force_shutdown_executor terminate kill s = (r, s')" and "r \<noteq> Inl Hang"
  shows "\<not> pl_executor s' \<and> (\<forall>e. r = Inl e \<longrightarrow> \<not> is_Exception e)"
  using assms
  by (auto simp: force_shutdown_executor_def act_finally_def act_try_def act_simps split: sum.splits if_splits prod.splits)

end
