(* ===== verification/Spec2Isabelle.thy ===== *)
theory Spec2Isabelle
  imports Engine Tag_Sets Single_Flight Tag_Plugin Block_Plugin Ip_Plugins Https_Plugin Ech_Plugin
    Servers Dnscrypt Doh_Client Cache_Plugin Query_Log Multi_Manager Speedtest Redirect_Plugin Sample_Plugin
    Nameservers Webui Log_Setup Listeners Worker_Boot Pool_Reader
begin

text \<open>
  A model of \<^verbatim>\<open>python-smartdns\<close>, a DNS forwarder: listeners take DNS requests over UDP, TCP and HTTPS, a
  pipeline of plugins and rules chooses a group of upstreams for each, the group is asked, and the
  answer goes back. Files are named below the directory \<^verbatim>\<open>src\<close> of the repository; \<^verbatim>\<open>df\<close> stands for
  \<^verbatim>\<open>dns_forwarder\<close>. Every definition has the name of what it models, as far as HOL leaves it free.

  \<^bold>\<open>How to read the model.\<close> Code that may raise is a value of type \<open>'a res\<close>, a sum of the exception and the
  result; code that also changes a state is an action \<open>('s, 'a) act\<close>, which returns the state in both
  cases, so what was changed before an exception stays changed. \<open>except Exception\<close> is \<open>act_try\<close>,
  \<open>finally\<close> is \<open>act_finally\<close>; the cancellation of a task is the exception \<open>Cancelled\<close>, which
  \<open>except Exception\<close> does not catch. Coroutines that can be interrupted are split where they
  suspend, and an inductive relation interleaves the pieces: \<open>flight_step\<close>, \<open>pool_step\<close>,
  \<open>worker_step\<close>, \<open>log_step\<close>, \<open>multi_step\<close>, \<open>udp_step\<close>. Shared objects that are mutated (results and answers of a
  request) live in a store and are named by indices. Third-party code is an argument: the record
  \<open>dnslib\<close> for dnspython, \<open>trie_lib\<close> and \<open>radix_lib\<close> for the tries, \<open>lru_lib\<close> for the LRU
  cache, functions for pydantic, json, the clock and the operating system; what is assumed of it is a
  hypothesis of the theorem that needs it.

  \<^bold>\<open>The ground.\<close> Prelude: exceptions, actions, Python's text operations. Ip_Address: \<open>ipaddress\<close> on
  words of 32 and 128 bits. Base64, Url: the functions of \<open>base64\<close> and \<open>urllib.parse\<close> that are used.
  Dns_Msg: messages, answers and the request context of \<^verbatim>\<open>df/pipeline/context.py\<close>.

  \<^bold>\<open>Configuration.\<close> Config and App_Config: the models of \<^verbatim>\<open>df/config/models.py\<close> with their validators;
  \<open>validate_references\<close> accepts exactly the configurations without dangling names and without a cycle
  of groups (a depth-first search, whose fuel is the number of groups). Catalog:
  \<^verbatim>\<open>df/plugin_api/catalog.py\<close> and \<^verbatim>\<open>df/config/loader.py\<close>, loading, completing, dumping and saving a
  configuration and its JSON schema; a loaded configuration is read back from its own dump.

  \<^bold>\<open>Answering a request.\<close> Engine: \<^verbatim>\<open>df/pipeline/engine.py\<close>, from the message to the response, with the
  hooks of the plugins and nested resolutions; the response carries the identifier of the request,
  exceptions become SERVFAIL, the finish hooks always run, the chain of nested resolutions is bounded
  (the fuel \<open>e_fuel\<close> stands for nested calls; at most \<open>max_nested_resolve_depth\<close> deep). Rules:
  \<^verbatim>\<open>df/rules/engine.py\<close>. Dispatcher: \<^verbatim>\<open>df/dispatcher\<close>, the race and the wait for all targets of a group, under
  any order of arrival; refined against the abstract \<open>best_outcome\<close>; the fuel is bounded by the depth
  of the groups, which have no cycle. Resolver: \<^verbatim>\<open>df/resolver/upstream.py\<close> and \<^verbatim>\<open>manager.py\<close>. Plugin_Api:
  \<^verbatim>\<open>df/plugin_api/base.py\<close>, the registry and the order of the hooks.

  \<^bold>\<open>Nameservers.\<close> Nameservers: \<^verbatim>\<open>df/resolver/nameservers\<close>, the construction by the configuration and the
  closing of shared sessions. Doh_Client: the DoH clients; their sessions satisfy the locale
  \<open>shared_sessions\<close>. Aiodns: the nameserver over c-ares, its response and its errors. Dnscrypt:
  certificates, padding, keys and the exchange, the cryptography being a parameter. Tricky_Sockets: the
  custom sockets, where a byte stream arrives as it was sent.

  \<^bold>\<open>Plugins.\<close> Plugin_Kit: what they share. Tag_Sets: \<^verbatim>\<open>df/core/tag_files.py\<close>, \<^verbatim>\<open>domainset.py\<close>, \<^verbatim>\<open>ipset.py\<close>, with
  lookups specified on the text of the files. Tag_Plugin, Block_Plugin, Ip_Plugins, Https_Plugin,
  Ech_Plugin, Speedtest, Redirect_Plugin, Sample_Plugin, Cache_Plugin, Query_Log: the directories of
  \<^verbatim>\<open>plugins\<close> of the same names. Single_Flight: the merging of equal requests in \<^verbatim>\<open>df/core/front_cache.py\<close>
  and \<^verbatim>\<open>plugins/cache_plugin/service.py\<close>, both interpretations of the locale \<open>flight\<close>, in which no wake-up is
  lost and a key has one owner. Query_Log: no subscriber misses an entry.

  \<^bold>\<open>Processes.\<close> Calls: waiting for a reply, the locale \<open>receiver\<close>. Worker_Pool: \<^verbatim>\<open>ipc.py\<close> and \<^verbatim>\<open>pool.py\<close> of
  \<^verbatim>\<open>df/core/multiprocess\<close>; no call is forgotten. Pool_Reader: the thread that reads the results; it can
  always be stopped. Worker: \<^verbatim>\<open>worker.py\<close>; a query through the pool is answered as
  the runtime of the worker answers it. Worker_Boot: the sets of a worker are those of the master.
  Runtime: \<^verbatim>\<open>df/core/runtime.py\<close> and \<^verbatim>\<open>services.py\<close>; a reload is done as a whole or not at all.
  Multi_Manager: \<^verbatim>\<open>manager.py\<close> and \<^verbatim>\<open>shared.py\<close>; nothing is left over after a stop.

  \<^bold>\<open>The outside.\<close> Servers: one datagram, one connection, one HTTP exchange of \<^verbatim>\<open>df/server\<close>. Listeners: binding,
  serving and stopping, the locale \<open>listener_class\<close> of both kinds, and the tasks of a UDP socket.
  Webui: \<^verbatim>\<open>df/webui/app.py\<close>, the pages and their authorization; both managers are interpretations of the
  locale \<open>web_manager\<close>. Log_Setup: \<^verbatim>\<open>df/logging.py\<close>.

  \<^bold>\<open>How the parts meet.\<close> The configuration of Catalog is what Runtime builds its state from, with the
  catalogue and registry of Plugin_Api, the resolvers of Resolver over the nameservers, and the pipeline of
  Engine, whose plugins are values of the record \<open>plugin\<close>. Servers and Listeners give requests to
  \<open>process_query\<close> of a manager: of Runtime, or of Multi_Manager, which looks into the front cache of
  Single_Flight and asks Worker_Pool, which talks to Worker, which runs a Runtime of its own. Webui
  edits the file that Catalog reads and orders the reloads of a manager. This theory has the
  theorems that go from one end to the other.

  \<^bold>\<open>Bounds.\<close> Text is ASCII. TCP frames are below 65536 bytes and longer ones raise, as \<open>to_bytes\<close> does.
  Times are real numbers, identifiers of calls natural numbers that are not used twice. Loops that may
  run for ever are event by event (the loops of the workers and of the reader) or partial functions
  (the start of the HTTP server).

  \<^bold>\<open>Not modelled.\<close> The package files that re-export names (\<^verbatim>\<open>__init__.py\<close>, with the wrappers of
  \<^verbatim>\<open>df/config/__init__.py\<close>, which pass their arguments on), the text of log messages, the rendering of the
  templates, and argument parsing: they keep no state and decide nothing. The wire format of DNS,
  the cryptography of DNSCrypt, TLS, HTTP/2 and QUIC, pydantic, FastAPI, uvicorn, the executor of the worker processes
  and the queues between processes are libraries, reached through arguments. Their performance and the scheduling of real
  threads are outside the model: a step relation says what may happen, not when.
\<close>

section \<open>From a datagram to its reply\<close>

text \<open>
  C5: The whole way of a UDP request, with a runtime behind the listener: in any interleaving of the
  datagrams and whatever the plugins and upstreams do, each reply that was sent answers one received
  datagram, goes to the address that datagram came from and carries the identifier of the request in
  it, and no datagram has two replies. A listener whose runtime is not loaded sends none.
\<close>

theorem udp_service_replies:
  assumes "udp_reach L (\<lambda>req addr r. \<exists>w w'. runtime_process_query manager req addr name w = (Inr r, w')) u"
  shows "(\<exists>cause. mset cause \<subseteq># mset (uw_received u) \<and>
      list_all2 (\<lambda>d sent. \<exists>req m wire. from_wire L (fst d) = Inr req \<and> to_wire L m = Inr wire \<and>
        sent = (wire, snd d) \<and> msg_id m = msg_id req) cause (uw_sent u)) \<and>
    (rn_state manager = None \<longrightarrow> uw_sent u = [])"
proof -
  let ?answers = "\<lambda>req addr r. \<exists>w w'. runtime_process_query manager req addr name w = (Inr r, w')"
  from udp_reach_ok [OF assms] obtain cause where c: "list_all2 (reply_to L ?answers) cause (uw_sent u)"
    "mset cause + mset (map origin (uw_tasks u)) \<subseteq># mset (uw_received u)" by (auto simp: udp_ok_def)
  have id: "msg_id m = msg_id req" if "?answers req addr (Some m)" for req addr m
    using that handle_message_id by (auto simp: runtime_process_query_def get_state_def split: option.splits)
  have "list_all2 (\<lambda>d sent. \<exists>req m wire. from_wire L (fst d) = Inr req \<and> to_wire L m = Inr wire \<and>
      sent = (wire, snd d) \<and> msg_id m = msg_id req) cause (uw_sent u)"
    using c(1)
  proof (rule list_all2_mono)
    fix d sent
    assume "reply_to L ?answers d sent"
    then obtain req m wire where r: "from_wire L (fst d) = Inr req" "?answers req (snd d) (Some m)"
      "to_wire L m = Inr wire" "sent = (wire, snd d)" unfolding reply_to_def by blast
    from id [OF r(2)] r show "\<exists>req m wire. from_wire L (fst d) = Inr req \<and> to_wire L m = Inr wire \<and>
      sent = (wire, snd d) \<and> msg_id m = msg_id req" by blast
  qed
  moreover have "mset cause \<subseteq># mset (uw_received u)"
    using c(2) by (rule subset_mset.order_trans [OF mset_subset_eq_add_left])
  moreover have "uw_sent u = []" if "rn_state manager = None"
  proof (cases cause)
    case Nil
    with c(1) show ?thesis by simp
  next
    case (Cons d ds)
    with c(1) obtain sent where "reply_to L ?answers d sent" by (cases "uw_sent u") auto
    with that show ?thesis by (auto simp: reply_to_def runtime_process_query_def get_state_def)
  qed
  ultimately show ?thesis by blast
qed

text \<open>A datagram that is no query is answered by the engine itself, with FORMERR.\<close>

theorem udp_service_replies_witness:
  "\<exists>u. udp_reach formerr_lib (\<lambda>req addr r. \<exists>w w'. runtime_process_query served req addr ''a'' w = (Inr r, w')) u \<and>
     uw_sent u = [([5, 32768, FORMERR], ''c'')] \<and>
     (\<exists>cause. mset cause \<subseteq># mset (uw_received u) \<and> length cause = length (uw_sent u))"
proof -
  let ?req = "sample_request\<lparr>msg_opcode := 4\<rparr>"
  let ?u = "\<lparr>uw_server = open_server, uw_serving = True, uw_tasks = [], uw_received = [([1], ''c'')],
    uw_sent = [([5, 32768, FORMERR], ''c'')]\<rparr>"
  have "runtime_process_query served ?req ''c'' ''a'' 0 = (Inr (Some (sample_message 5 32768 FORMERR)), 0)"
    by (simp add: runtime_process_query_def get_state_def served_eq two_state_def build_pipeline_def sample_build_def
        handle_message_def validate_request_or_error_def sample_error sample_request_def)
      (simp add: sample_message_def)
  then have "\<exists>w w'. runtime_process_query served ?req ''c'' ''a'' w = (Inr (Some (sample_message 5 32768 FORMERR)), w')"
    by blast
  from one_exchange_reach [of formerr_lib "[1]" ?req "\<lambda>req addr r. \<exists>w w'. runtime_process_query served req addr ''a'' w = (Inr r, w')", OF _ this]
  have reach: "udp_reach formerr_lib (\<lambda>req addr r. \<exists>w w'. runtime_process_query served req addr ''a'' w = (Inr r, w')) ?u"
    by (simp add: formerr_lib_def sample_lib_def sample_message_def)
  from udp_service_replies [OF reach] have "\<exists>cause. mset cause \<subseteq># mset (uw_received ?u) \<and> length cause = length (uw_sent ?u)"
    using list_all2_lengthD by blast
  with reach show ?thesis by (intro exI [of _ ?u]) simp
qed

end
